(* ===== verification/Prelude.thy ===== *)
theory Prelude
  imports Main "HOL-Library.Word" "HOL-Library.Sublist"
begin

text \<open>
  What the components share: the parts of the C++ standard library that the program calls on
  strings and characters (\<open>std::string::find\<close>, \<open>rfind\<close>, \<open>std::getline\<close> with a delimiter, the
  \<open>ctype\<close> predicates of the C locale, C strings), and generic lemmas on lists.

  A \<open>std::string\<close> is a list of \<open>char\<close> (bytes).  A position into a string that the code keeps
  as an index is kept as the remaining suffix where the code only ever looks forward.
\<close>

named_theorems ctype_simps \<open>definitions of the character classes\<close>

named_theorems kv_simps \<open>lookup-after-update equations of the key/value stores\<close>

subsection \<open>Characters (C locale, \<open>unsigned char\<close> argument)\<close>

abbreviation code :: "char \<Rightarrow> nat" where
  "code c \<equiv> of_char c"

abbreviation NUL :: char where
  "NUL \<equiv> CHR 0x00"

abbreviation TAB :: char where
  "TAB \<equiv> CHR 0x09"

abbreviation LF :: char where
  "LF \<equiv> CHR 0x0A"

abbreviation CR :: char where
  "CR \<equiv> CHR 0x0D"

abbreviation DQUOTE :: char where
  "DQUOTE \<equiv> CHR 0x22"

abbreviation BSLASH :: char where
  "BSLASH \<equiv> CHR 0x5C"

definition is_digit :: "char \<Rightarrow> bool" where
  "is_digit c \<longleftrightarrow> 48 \<le> code c \<and> code c \<le> 57"

definition is_upper :: "char \<Rightarrow> bool" where
  "is_upper c \<longleftrightarrow> 65 \<le> code c \<and> code c \<le> 90"

definition is_lower :: "char \<Rightarrow> bool" where
  "is_lower c \<longleftrightarrow> 97 \<le> code c \<and> code c \<le> 122"

definition is_alpha :: "char \<Rightarrow> bool" where
  "is_alpha c \<longleftrightarrow> is_upper c \<or> is_lower c"

definition is_alnum :: "char \<Rightarrow> bool" where
  "is_alnum c \<longleftrightarrow> is_alpha c \<or> is_digit c"

definition is_space :: "char \<Rightarrow> bool" where
  "is_space c \<longleftrightarrow> code c = 32 \<or> (9 \<le> code c \<and> code c \<le> 13)"

definition to_lower_char :: "char \<Rightarrow> char" where
  "to_lower_char c = (if is_upper c then char_of (code c + 32) else c)"

definition to_upper_char :: "char \<Rightarrow> char" where
  "to_upper_char c = (if is_lower c then char_of (code c - 32) else c)"

lemmas char_class_defs [ctype_simps] =
  is_digit_def is_upper_def is_lower_def is_alpha_def is_alnum_def is_space_def

definition lower :: "string \<Rightarrow> string" where
  "lower s = map to_lower_char s"

definition upper :: "string \<Rightarrow> string" where
  "upper s = map to_upper_char s"

text \<open>Value of a digit, and of a run of digits read from the left.\<close>

definition digit_val :: "char \<Rightarrow> nat" where
  "digit_val c = code c - 48"

definition digit_char :: "nat \<Rightarrow> char" where
  "digit_char d = char_of (48 + d)"

definition digits_val :: "string \<Rightarrow> nat" where
  "digits_val ds = foldl (\<lambda>v c. 10 * v + digit_val c) 0 ds"

lemma char_eq_code_iff: "c = d \<longleftrightarrow> code c = code d"
  by (metis char_of_char)

lemma not_digit_NUL [simp]: "\<not> is_digit NUL"
  by (simp add: is_digit_def)

lemma code_digit_char [simp]: "d < 10 \<Longrightarrow> code (digit_char d) = 48 + d"
  by (simp add: digit_char_def)

lemma digit_char_eqs:
  "digit_char 0 = CHR ''0''" "digit_char 1 = CHR ''1''" "digit_char 2 = CHR ''2''"
  "digit_char 3 = CHR ''3''" "digit_char 4 = CHR ''4''" "digit_char 5 = CHR ''5''"
  "digit_char 6 = CHR ''6''" "digit_char 7 = CHR ''7''" "digit_char 8 = CHR ''8''"
  "digit_char 9 = CHR ''9''"
  by (simp_all add: char_eq_code_iff)

lemma is_digit_digit_char [simp]: "d < 10 \<Longrightarrow> is_digit (digit_char d)"
  by (simp add: is_digit_def)

lemma digit_val_digit_char [simp]: "d < 10 \<Longrightarrow> digit_val (digit_char d) = d"
  by (simp add: digit_val_def)

lemma digit_val_less_10: "is_digit c \<Longrightarrow> digit_val c < 10"
  by (auto simp: is_digit_def digit_val_def)

lemma digit_char_digit_val: "is_digit c \<Longrightarrow> digit_char (digit_val c) = c"
  by (auto simp: is_digit_def digit_val_def digit_char_def)

lemma is_digit_not_space: "is_digit c \<Longrightarrow> \<not> is_space c"
  by (auto simp: ctype_simps)

lemma is_digit_not_alpha: "is_digit c \<Longrightarrow> \<not> is_alpha c"
  by (auto simp: ctype_simps)

lemma is_space_not_alnum: "is_space c \<Longrightarrow> \<not> is_alnum c"
  by (auto simp: ctype_simps)

lemma code_to_lower: "code (to_lower_char c) = (if is_upper c then code c + 32 else code c)"
  by (auto simp: to_lower_char_def is_upper_def)

lemma lower_idem_char [simp]: "to_lower_char (to_lower_char c) = to_lower_char c"
  by (auto simp: char_eq_code_iff code_to_lower ctype_simps split: if_splits)

lemma lower_idem [simp]: "lower (lower s) = lower s"
  by (simp add: lower_def)

lemma length_lower [simp]: "length (lower s) = length s"
  by (simp add: lower_def)

lemma lower_eq_Nil [simp]: "lower s = [] \<longleftrightarrow> s = []"
  by (simp add: lower_def)

lemma lower_append [simp]: "lower (s @ t) = lower s @ lower t"
  by (simp add: lower_def)

lemma length_upper [simp]: "length (upper s) = length s"
  by (simp add: upper_def)

subsection \<open>\<open>std::string\<close>: find, rfind, compare at the start, trim\<close>

text \<open>\<open>s.compare(0, p.size(), p) == 0\<close> together with \<open>s.size() >= p.size()\<close>.\<close>

definition has_prefix :: "string \<Rightarrow> string \<Rightarrow> bool" where
  "has_prefix p s \<longleftrightarrow> take (length p) s = p"

definition has_suffix :: "string \<Rightarrow> string \<Rightarrow> bool" where
  "has_suffix p s \<longleftrightarrow> length p \<le> length s \<and> drop (length s - length p) s = p"

text \<open>\<open>find_sub p s k\<close>: first position of \<open>p\<close> in the suffix \<open>s\<close> that starts at index \<open>k\<close>.\<close>

fun find_sub :: "string \<Rightarrow> string \<Rightarrow> nat \<Rightarrow> nat option" where
  "find_sub p [] k = (if p = [] then Some k else None)"
| "find_sub p (c # s) k = (if has_prefix p (c # s) then Some k else find_sub p s (Suc k))"

definition str_find :: "string \<Rightarrow> string \<Rightarrow> nat \<Rightarrow> nat option" where
  "str_find s p pos = (if length s < pos then None else find_sub p (drop pos s) pos)"

definition str_contains :: "string \<Rightarrow> string \<Rightarrow> bool" where
  "str_contains s p \<longleftrightarrow> str_find s p 0 \<noteq> None"

text \<open>\<open>s.rfind(c)\<close> for a character.\<close>

fun str_rfind_char :: "string \<Rightarrow> char \<Rightarrow> nat option" where
  "str_rfind_char [] x = None"
| "str_rfind_char (c # s) x =
     (case str_rfind_char s x of
        Some i \<Rightarrow> Some (Suc i)
      | None \<Rightarrow> if c = x then Some 0 else None)"

definition str_trim :: "string \<Rightarrow> string" where
  "str_trim s = rev (dropWhile is_space (rev (dropWhile is_space s)))"

lemma has_prefix_iff: "has_prefix p s \<longleftrightarrow> (\<exists>r. s = p @ r)"
proof
  assume "has_prefix p s"
  then have "s = p @ drop (length p) s"
    by (metis append_take_drop_id has_prefix_def)
  then show "\<exists>r. s = p @ r" ..
qed (auto simp: has_prefix_def)

lemma has_prefix_self [simp]: "has_prefix p (p @ r)"
  by (simp add: has_prefix_def)

lemma has_prefix_Nil [simp]: "has_prefix [] s"
  by (simp add: has_prefix_def)

lemma find_sub_Some:
  "find_sub p s k = Some i \<Longrightarrow>
     \<exists>j. i = k + j \<and> j \<le> length s \<and> has_prefix p (drop j s) \<and> (\<forall>j' < j. \<not> has_prefix p (drop j' s))"
proof (induction p s k rule: find_sub.induct)
  case (1 p k)
  then show ?case by (auto simp: has_prefix_def split: if_splits)
next
  case (2 p c s k)
  show ?case
  proof (cases "has_prefix p (c # s)")
    case True
    with 2 show ?thesis by (auto intro: exI[of _ 0])
  next
    case False
    with "2.prems" have "find_sub p s (Suc k) = Some i" by simp
    from "2.IH"[OF False this] obtain j where j: "i = Suc k + j" "j \<le> length s"
      "has_prefix p (drop j s)" "\<forall>j' < j. \<not> has_prefix p (drop j' s)" by blast
    have "\<forall>j' < Suc j. \<not> has_prefix p (drop j' (c # s))"
      using False j(4) by (auto simp: less_Suc_eq_0_disj)
    with j show ?thesis by (intro exI[of _ "Suc j"]) auto
  qed
qed

lemma find_sub_None: "find_sub p s k = None \<longleftrightarrow> (\<forall>j \<le> length s. \<not> has_prefix p (drop j s))"
proof (induction p s k rule: find_sub.induct)
  case (2 p c s k)
  have "(\<forall>j \<le> length (c # s). \<not> has_prefix p (drop j (c # s)))
      \<longleftrightarrow> \<not> has_prefix p (c # s) \<and> (\<forall>j \<le> length s. \<not> has_prefix p (drop j s))"
    by (metis drop0 drop_Suc_Cons le_zero_eq length_Cons not0_implies_Suc not_less_eq_eq zero_le)
  with 2 show ?case by simp
qed (auto simp: has_prefix_def)

lemma str_find_Some_bound: "str_find s p pos = Some i \<Longrightarrow> pos \<le> i \<and> i + length p \<le> length s"
proof -
  assume a: "str_find s p pos = Some i"
  then have p: "pos \<le> length s" and f: "find_sub p (drop pos s) pos = Some i"
    by (auto simp: str_find_def split: if_splits)
  from find_sub_Some[OF f] obtain j where j: "i = pos + j" "j \<le> length (drop pos s)"
    "has_prefix p (drop j (drop pos s))" by blast
  from j(3) obtain r where "drop j (drop pos s) = p @ r" by (auto simp: has_prefix_iff)
  then have "length (drop j (drop pos s)) = length p + length r" by simp
  with j p show ?thesis by simp
qed

lemma str_contains_iff: "str_contains s p \<longleftrightarrow> (\<exists>a b. s = a @ p @ b)"
proof
  assume "str_contains s p"
  then obtain j where "has_prefix p (drop j s)"
    by (auto simp: str_contains_def str_find_def find_sub_None)
  then obtain r where "drop j s = p @ r" by (auto simp: has_prefix_iff)
  then show "\<exists>a b. s = a @ p @ b" by (metis append_take_drop_id)
next
  assume "\<exists>a b. s = a @ p @ b"
  then obtain a b where s: "s = a @ p @ b" by blast
  then have "has_prefix p (drop (length a) s)" by simp
  moreover have "length a \<le> length s" using s by simp
  ultimately show "str_contains s p"
    unfolding str_contains_def str_find_def by (auto simp: find_sub_None)
qed

lemma str_rfind_char_None: "str_rfind_char s x = None \<longleftrightarrow> x \<notin> set s"
  by (induction s) (auto split: option.splits)

lemma str_rfind_char_append:
  "x \<notin> set t \<Longrightarrow> str_rfind_char (s @ x # t) x = Some (length s)"
proof (induction s)
  case Nil
  then have "str_rfind_char t x = None" by (simp add: str_rfind_char_None)
  then show ?case by simp
qed simp

lemma str_rfind_char_Some:
  "str_rfind_char s x = Some i \<Longrightarrow>
     i < length s \<and> s ! i = x \<and> s = take i s @ x # drop (Suc i) s \<and> x \<notin> set (drop (Suc i) s)"
proof (induction s arbitrary: i)
  case (Cons c s)
  show ?case
  proof (cases "str_rfind_char s x")
    case None
    with Cons.prems show ?thesis by (auto simp: str_rfind_char_None split: if_splits)
  next
    case (Some j)
    with Cons.prems have i: "i = Suc j" by simp
    from Cons.IH[OF Some] i show ?thesis by simp
  qed
qed simp

lemma dropWhile_head_false: "s \<noteq> [] \<Longrightarrow> \<not> P (hd s) \<Longrightarrow> dropWhile P s = s"
  by (cases s) auto

lemma str_trim_ends:
  "str_trim s = [] \<or> (\<not> is_space (hd (str_trim s)) \<and> \<not> is_space (last (str_trim s)))"
proof (cases "str_trim s = []")
  case False
  define t where "t = dropWhile is_space s"
  define u where "u = dropWhile is_space (rev t)"
  have r: "str_trim s = rev u" by (simp add: str_trim_def t_def u_def)
  have u: "u \<noteq> []" using False r by simp
  then have l: "\<not> is_space (hd u)" unfolding u_def by (rule hd_dropWhile)
  obtain a where "rev t = a @ u" unfolding u_def by (metis takeWhile_dropWhile_id)
  then have t: "t = rev u @ rev a" by (metis rev_append rev_rev_ident)
  then have "t \<noteq> []" using u by simp
  then have h: "\<not> is_space (hd t)" unfolding t_def by (rule hd_dropWhile)
  have "hd t = hd (rev u)" using t u by (metis hd_append2 rev_is_Nil_conv)
  with h l u show ?thesis by (simp add: r last_rev)
qed simp

lemma str_trim_id: "s = [] \<or> (\<not> is_space (hd s) \<and> \<not> is_space (last s)) \<Longrightarrow> str_trim s = s"
  by (cases "s = []") (auto simp: str_trim_def dropWhile_head_false hd_rev)

lemma str_trim_idem: "str_trim (str_trim s) = str_trim s"
  using str_trim_ends str_trim_id by blast

subsection \<open>\<open>std::getline\<close> with a delimiter, until the stream is exhausted\<close>

text \<open>
  A field is read up to the delimiter, which is dropped.  A read that finds nothing before the
  end of the stream fails, so an empty field after the last delimiter is not delivered, and an
  empty stream delivers none.
\<close>

function getlines :: "char \<Rightarrow> string \<Rightarrow> string list" where
  "getlines d [] = []"
| "getlines d (c # s) =
     takeWhile (\<lambda>x. x \<noteq> d) (c # s) # getlines d (drop 1 (dropWhile (\<lambda>x. x \<noteq> d) (c # s)))"
  by pat_completeness auto
termination
  by (relation "measure (\<lambda>(d, s). length s)")
    (auto simp: less_Suc_eq_le intro: order_trans[OF diff_le_self length_dropWhile_le])

lemma takeWhile_notin: "d \<notin> set f \<Longrightarrow> takeWhile (\<lambda>x. x \<noteq> d) f = f"
  by (intro takeWhile_eq_all_conv[THEN iffD2]) auto

lemma dropWhile_notin: "d \<notin> set f \<Longrightarrow> dropWhile (\<lambda>x. x \<noteq> d) f = []"
  by (intro dropWhile_eq_Nil_conv[THEN iffD2]) auto

lemma takeWhile_delim: "d \<notin> set f \<Longrightarrow> takeWhile (\<lambda>x. x \<noteq> d) (f @ d # r) = f"
  by (induction f) auto

lemma dropWhile_delim: "d \<notin> set f \<Longrightarrow> dropWhile (\<lambda>x. x \<noteq> d) (f @ d # r) = d # r"
  by (induction f) auto

lemma getlines_unfold:
  "getlines d s =
     (if s = [] then []
      else takeWhile (\<lambda>x. x \<noteq> d) s # getlines d (drop 1 (dropWhile (\<lambda>x. x \<noteq> d) s)))"
  by (cases s) simp_all

lemma getlines_field: "d \<notin> set f \<Longrightarrow> getlines d (f @ d # r) = f # getlines d r"
  by (subst getlines_unfold) (simp add: takeWhile_delim dropWhile_delim)

lemma getlines_last: "d \<notin> set f \<Longrightarrow> f \<noteq> [] \<Longrightarrow> getlines d f = [f]"
  by (subst getlines_unfold) (simp add: takeWhile_notin dropWhile_notin)

lemma getlines_no_delim: "f \<in> set (getlines d s) \<Longrightarrow> d \<notin> set f"
proof (induction d s rule: getlines.induct)
  case (2 d c s)
  then consider "f = takeWhile (\<lambda>x. x \<noteq> d) (c # s)"
    | "f \<in> set (getlines d (drop 1 (dropWhile (\<lambda>x. x \<noteq> d) (c # s))))" by auto
  then show ?case
  proof cases
    case 1
    then show ?thesis by (metis (mono_tags) set_takeWhileD)
  next
    case b: 2
    then show ?thesis by (rule "2.IH")
  qed
qed simp

text \<open>Writing fields with a separator between them, as the program's \<open>join\<close> helpers do.\<close>

fun join_with :: "string \<Rightarrow> string list \<Rightarrow> string" where
  "join_with sep [] = []"
| "join_with sep [x] = x"
| "join_with sep (x # y # ys) = x @ sep @ join_with sep (y # ys)"

lemma join_with_Cons: "join_with sep (x # ys) = x @ (if ys = [] then [] else sep @ join_with sep ys)"
  by (cases ys) auto

lemma getlines_join:
  "(\<And>f. f \<in> set fs \<Longrightarrow> d \<notin> set f) \<Longrightarrow> (fs = [] \<or> last fs \<noteq> []) \<Longrightarrow>
     getlines d (join_with [d] fs) = fs"
proof (induction fs)
  case (Cons f fs)
  show ?case
  proof (cases "fs = []")
    case True
    with Cons.prems show ?thesis by (auto simp: getlines_last)
  next
    case False
    have "getlines d (join_with [d] fs) = fs"
      using Cons.prems False by (intro Cons.IH) auto
    with Cons.prems False show ?thesis
      by (simp add: join_with_Cons[of _ f] getlines_field)
  qed
qed simp

text \<open>Only the empty field after the last separator is lost.\<close>

lemma getlines_join_all:
  "fs \<noteq> [] \<Longrightarrow> (\<And>f. f \<in> set fs \<Longrightarrow> d \<notin> set f) \<Longrightarrow>
     getlines d (join_with [d] fs) = (if last fs = [] then butlast fs else fs)"
proof (induction fs)
  case (Cons f fs)
  show ?case
  proof (cases "fs = []")
    case True
    with Cons.prems show ?thesis by (auto simp: getlines_last)
  next
    case False
    have "getlines d (join_with [d] fs) = (if last fs = [] then butlast fs else fs)"
      using Cons.prems False by (intro Cons.IH) auto
    with Cons.prems False show ?thesis
      by (simp add: join_with_Cons[of _ f] getlines_field)
  qed
qed simp

definition unlines :: "string list \<Rightarrow> string" where
  "unlines ls = concat (map (\<lambda>l. l @ [LF]) ls)"

lemma getlines_unlines: "(\<And>l. l \<in> set ls \<Longrightarrow> LF \<notin> set l) \<Longrightarrow> getlines LF (unlines ls) = ls"
  by (induction ls) (simp_all add: unlines_def getlines_field)

text \<open>\<open>s.c_str()\<close> as a C function reads it: up to the first NUL.\<close>

definition c_str :: "string \<Rightarrow> string" where
  "c_str s = takeWhile (\<lambda>c. c \<noteq> NUL) s"

lemma c_str_id: "NUL \<notin> set s \<Longrightarrow> c_str s = s"
  unfolding c_str_def by (intro takeWhile_eq_all_conv[THEN iffD2]) auto

subsection \<open>Words and naturals\<close>

lemma unat_of_nat_small: "n < 2 ^ LENGTH('a) \<Longrightarrow> unat (word_of_nat n :: 'a::len word) = n"
  by (simp add: unsigned_of_nat take_bit_nat_eq_self)

lemma of_nat_unat [simp]: "word_of_nat (unat w) = w"
  by simp

section \<open>Sums over the elements of a list\<close>

lemma sum_update:
  fixes f :: "'a \<Rightarrow> 'b::comm_monoid_add"
  shows "i < length xs \<Longrightarrow> sum_list (map f (xs[i := y])) + f (xs ! i) = sum_list (map f xs) + f y"
proof (induction xs arbitrary: i)
  case (Cons x xs)
  then show ?case by (cases i) (auto simp: ac_simps)
qed simp

definition remove_at :: "nat \<Rightarrow> 'a list \<Rightarrow> 'a list" where
  "remove_at i xs = take i xs @ drop (Suc i) xs"

lemma set_remove_at: "i < length xs \<Longrightarrow> set xs = insert (xs ! i) (set (remove_at i xs))"
  using id_take_nth_drop[of i xs] unfolding remove_at_def by (metis Un_insert_right list.simps(15) set_append)

lemma sum_remove_at:
  fixes f :: "'a \<Rightarrow> 'b::comm_monoid_add"
  shows "i < length xs \<Longrightarrow> sum_list (map f (remove_at i xs)) + f (xs ! i) = sum_list (map f xs)"
proof (induction xs arbitrary: i)
  case (Cons x xs)
  then show ?case by (cases i) (auto simp: remove_at_def ac_simps)
qed simp

lemma kept_by_update: "z \<in> set xs \<Longrightarrow> z \<noteq> xs ! i \<Longrightarrow> z \<in> set (xs[i := y])"
  by (metis in_set_conv_nth length_list_update nth_list_update_neq)

end
