(* ===== verification/Decimal.thy ===== *)
theory Decimal
  imports Prelude
begin

text \<open>
  Decimal text of machine integers as the C++ standard library writes and reads it:
  \<open>std::to_string\<close> on integers and \<open>std::stoi\<close>.  \<open>stoi\<close> follows \<open>strtol\<close> in base 10: white space
  is skipped, one sign is allowed, the longest run of digits is read and what follows it is
  ignored; no digit at all is \<open>std::invalid_argument\<close> and a value outside \<open>int\<close> is
  \<open>std::out_of_range\<close>.  The callers of the program catch every exception alike, so both are
  the result \<open>None\<close>.
\<close>

definition INT_MIN :: int where
  "INT_MIN = - (2 ^ 31)"

definition INT_MAX :: int where
  "INT_MAX = 2 ^ 31 - 1"

fun show_nat :: "nat \<Rightarrow> string" where
  "show_nat n = (if n < 10 then [digit_char n] else show_nat (n div 10) @ [digit_char (n mod 10)])"

declare show_nat.simps [simp del]

definition show_int :: "int \<Rightarrow> string" where
  "show_int i = (if i < 0 then CHR ''-'' # show_nat (nat (- i)) else show_nat (nat i))"

text \<open>Sign and digits of \<open>strtol\<close>, after the white space.\<close>

definition strip_sign :: "string \<Rightarrow> bool \<times> string" where
  "strip_sign s =
     (case s of
        [] \<Rightarrow> (False, [])
      | c # r \<Rightarrow> if c = CHR ''-'' then (True, r) else if c = CHR ''+'' then (False, r) else (False, s))"

definition stoi :: "string \<Rightarrow> int option" where
  "stoi s =
     (let (neg, r) = strip_sign (dropWhile is_space s);
          ds = takeWhile is_digit r;
          v = (if neg then - int (digits_val ds) else int (digits_val ds))
      in if ds = [] then None
         else if INT_MIN \<le> v \<and> v \<le> INT_MAX then Some v
         else None)"

subsection \<open>Digits\<close>

lemma digits_val_Nil [simp]: "digits_val [] = 0"
  by (simp add: digits_val_def)

lemma digits_val_snoc [simp]: "digits_val (ds @ [d]) = 10 * digits_val ds + digit_val d"
  by (simp add: digits_val_def)

lemma foldl_digits_shift:
  "foldl (\<lambda>v c. 10 * v + digit_val c) k ds = k * 10 ^ length ds + digits_val ds"
proof (induction ds rule: rev_induct)
  case (snoc d ds)
  then show ?case by (simp add: algebra_simps)
qed simp

lemma digits_val_append:
  "digits_val (xs @ ys) = digits_val xs * 10 ^ length ys + digits_val ys"
proof -
  have "digits_val (xs @ ys) = foldl (\<lambda>v c. 10 * v + digit_val c) (digits_val xs) ys"
    by (simp only: digits_val_def foldl_append)
  then show ?thesis by (simp only: foldl_digits_shift)
qed

lemma digits_val_Cons: "digits_val (d # ds) = digit_val d * 10 ^ length ds + digits_val ds"
  using digits_val_append[of "[d]" ds] by (simp add: digits_val_def[of "[d]"])

lemma digits_val_bound: "(\<And>d. d \<in> set ds \<Longrightarrow> is_digit d) \<Longrightarrow> digits_val ds < 10 ^ length ds"
proof (induction ds rule: rev_induct)
  case (snoc d ds)
  then have "digits_val ds < 10 ^ length ds" and "digit_val d < 10"
    by (auto intro: digit_val_less_10)
  then show ?case by simp
qed simp

lemma show_nat_nonempty [simp]: "show_nat n \<noteq> []"
  by (subst show_nat.simps) simp

lemma show_nat_digits: "c \<in> set (show_nat n) \<Longrightarrow> is_digit c"
proof (induction n rule: show_nat.induct)
  case (1 n)
  then show ?case
    by (cases "n < 10") (auto simp: show_nat.simps[of n])
qed

lemma show_nat_no_NUL [simp]: "NUL \<notin> set (show_nat n)"
  using show_nat_digits not_digit_NUL by blast

lemma digits_val_show_nat [simp]: "digits_val (show_nat n) = n"
proof (induction n rule: show_nat.induct)
  case (1 n)
  then show ?case
    by (cases "n < 10") (auto simp: show_nat.simps[of n] digits_val_def)
qed

lemma show_nat_inj [simp]: "show_nat m = show_nat n \<longleftrightarrow> m = n"
  by (metis digits_val_show_nat)

lemma takeWhile_show_nat:
  "(r = [] \<or> \<not> is_digit (hd r)) \<Longrightarrow> takeWhile is_digit (show_nat n @ r) = show_nat n"
  by (cases r) (auto simp: takeWhile_append show_nat_digits)

lemma dropWhile_show_nat:
  "(r = [] \<or> \<not> is_digit (hd r)) \<Longrightarrow> dropWhile is_digit (show_nat n @ r) = r"
  by (cases r) (auto simp: dropWhile_append show_nat_digits)

lemma hd_show_nat_digit: "is_digit (hd (show_nat n))"
  by (rule show_nat_digits[of _ n]) simp

lemma show_int_not_in:
  "\<not> is_digit c \<Longrightarrow> c \<noteq> CHR ''-'' \<Longrightarrow> c \<notin> set (show_int i)"
  by (auto simp: show_int_def dest: show_nat_digits)

subsection \<open>\<open>stoi\<close> reads back what \<open>to_string\<close> wrote\<close>

lemma digit_neq_sign: "is_digit c \<Longrightarrow> c \<noteq> CHR ''-'' \<and> c \<noteq> CHR ''+''"
  by (auto simp: is_digit_def)

lemma strip_sign_digit: "s \<noteq> [] \<Longrightarrow> is_digit (hd s) \<Longrightarrow> strip_sign s = (False, s)"
  by (cases s) (auto simp: strip_sign_def dest: digit_neq_sign)

lemma stoi_digits:
  assumes "ds \<noteq> []" and "\<And>d. d \<in> set ds \<Longrightarrow> is_digit d" and "r = [] \<or> \<not> is_digit (hd r)"
  shows "stoi (ds @ r) = (if int (digits_val ds) \<le> INT_MAX then Some (int (digits_val ds)) else None)"
proof -
  have h: "is_digit (hd (ds @ r))" using assms(1,2) by simp
  then have "dropWhile is_space (ds @ r) = ds @ r"
    by (metis assms(1) append_is_Nil_conv dropWhile_head_false is_digit_not_space)
  moreover have "strip_sign (ds @ r) = (False, ds @ r)"
    using assms(1) h by (intro strip_sign_digit) auto
  moreover have "takeWhile is_digit (ds @ r) = ds"
    using assms(2,3) by (cases r) (auto simp: takeWhile_append)
  ultimately show ?thesis
    using assms(1) by (simp add: stoi_def INT_MIN_def INT_MAX_def)
qed

lemma stoi_show_nat:
  "r = [] \<or> \<not> is_digit (hd r) \<Longrightarrow>
     stoi (show_nat n @ r) = (if int n \<le> INT_MAX then Some (int n) else None)"
  by (subst stoi_digits) (auto dest: show_nat_digits)

lemma stoi_show_int:
  assumes "INT_MIN \<le> i" and "i \<le> INT_MAX"
  shows "stoi (show_int i) = Some i"
proof (cases "i < 0")
  case True
  have "\<not> is_space (CHR ''-'')"
    by (simp add: is_space_def)
  moreover have "takeWhile is_digit (show_nat (nat (- i))) = show_nat (nat (- i))"
    using takeWhile_show_nat[of "[]"] by (simp del: takeWhile_eq_all_conv)
  ultimately show ?thesis
    using True assms
    by (simp add: show_int_def stoi_def strip_sign_def Let_def del: takeWhile_eq_all_conv)
next
  case False
  with assms show ?thesis using stoi_show_nat[of "[]" "nat i"] by (simp add: show_int_def)
qed

lemma stoi_range: "stoi s = Some v \<Longrightarrow> INT_MIN \<le> v \<and> v \<le> INT_MAX"
  by (auto simp: stoi_def Let_def split: if_splits prod.splits)

end
