(* ===== verification/Ordering.thy ===== *)
theory Ordering
  imports Prelude
begin

text \<open>
  The zero-padded lexicographic comparison of two integer lists, and the interface of a
  three-way comparison (the \<open>-1 / 0 / 1\<close> result both version comparisons of the program
  return): what a client of such a comparison, such as the test that a version lies in a
  window, may rely on.
\<close>

subsection \<open>Lexicographic comparison, the shorter list padded with zeros\<close>

fun padlex :: "int list \<Rightarrow> int list \<Rightarrow> int" where
  "padlex [] [] = 0"
| "padlex (x # xs) [] = (if x < 0 then -1 else if 0 < x then 1 else padlex xs [])"
| "padlex [] (y # ys) = (if 0 < y then -1 else if y < 0 then 1 else padlex [] ys)"
| "padlex (x # xs) (y # ys) = (if x < y then -1 else if y < x then 1 else padlex xs ys)"

definition hd0 :: "int list \<Rightarrow> int" where
  "hd0 xs = (case xs of [] \<Rightarrow> 0 | x # _ \<Rightarrow> x)"

lemma hd0_simps [simp]: "hd0 [] = 0" "hd0 (x # xs) = x"
  by (simp_all add: hd0_def)

lemma padlex_step:
  "xs \<noteq> [] \<or> ys \<noteq> [] \<Longrightarrow>
     padlex xs ys =
       (if hd0 xs < hd0 ys then -1 else if hd0 ys < hd0 xs then 1 else padlex (tl xs) (tl ys))"
  by (cases xs; cases ys) auto

lemma padlex_refl [simp]: "padlex xs xs = 0"
  by (induction xs) auto

lemma padlex_range: "padlex xs ys = -1 \<or> padlex xs ys = 0 \<or> padlex xs ys = 1"
  by (induction xs ys rule: padlex.induct) auto

lemma padlex_swap: "padlex ys xs = - padlex xs ys"
  by (induction xs ys rule: padlex.induct) auto

lemma padlex_trans: "padlex xs ys \<le> 0 \<Longrightarrow> padlex ys zs \<le> 0 \<Longrightarrow> padlex xs zs \<le> 0"
proof (induction "length xs + length ys + length zs" arbitrary: xs ys zs rule: less_induct)
  case less
  show ?case
  proof (cases "xs = [] \<and> ys = [] \<or> ys = [] \<and> zs = [] \<or> xs = [] \<and> zs = []")
    case True
    with less.prems show ?thesis by auto
  next
    case False
    then have ne: "xs \<noteq> [] \<or> ys \<noteq> []" "ys \<noteq> [] \<or> zs \<noteq> []" "xs \<noteq> [] \<or> zs \<noteq> []" by auto
    have le1: "hd0 xs < hd0 ys \<or> hd0 xs = hd0 ys \<and> padlex (tl xs) (tl ys) \<le> 0"
      using less.prems(1) padlex_step[OF ne(1)] by (auto split: if_splits)
    have le2: "hd0 ys < hd0 zs \<or> hd0 ys = hd0 zs \<and> padlex (tl ys) (tl zs) \<le> 0"
      using less.prems(2) padlex_step[OF ne(2)] by (auto split: if_splits)
    have "length (tl xs) + length (tl ys) + length (tl zs) < length xs + length ys + length zs"
      using ne by (cases xs; cases ys; cases zs) auto
    then have "padlex (tl xs) (tl ys) \<le> 0 \<Longrightarrow> padlex (tl ys) (tl zs) \<le> 0 \<Longrightarrow>
        padlex (tl xs) (tl zs) \<le> 0"
      by (rule less.hyps)
    with le1 le2 show ?thesis by (auto simp: padlex_step[OF ne(3)])
  qed
qed

lemma padlex_append_same [simp]: "padlex (us @ xs) (us @ ys) = padlex xs ys"
  by (induction us) auto

lemma padlex_zero [simp]: "padlex (xs @ [0]) ys = padlex xs ys" "padlex xs (ys @ [0]) = padlex xs ys"
proof -
  show *: "padlex (xs @ [0]) ys = padlex xs ys" for xs ys
  proof (induction xs ys rule: padlex.induct)
    case (3 y ys)
    then show ?case by (cases ys) auto
  qed auto
  show "padlex xs (ys @ [0]) = padlex xs ys"
    using *[of ys xs] by (metis padlex_swap)
qed

lemma padlex_zero_Cons: "padlex (0 # xs) [] = padlex xs []" "padlex [] (0 # ys) = padlex [] ys"
  by auto

subsection \<open>The interface of a three-way comparison\<close>

text \<open>
  The comparison is reflexive, antisymmetric in sign, and transitive; the lemmas are what
  follows for every such comparison.
\<close>

locale three_way =
  fixes cmp :: "'a \<Rightarrow> 'a \<Rightarrow> int"
  assumes cmp_refl: "cmp a a = 0"
    and cmp_swap: "cmp b a = - cmp a b"
    and cmp_trans: "cmp a b \<le> 0 \<Longrightarrow> cmp b c \<le> 0 \<Longrightarrow> cmp a c \<le> 0"
begin

lemma cmp_total: "cmp a b \<le> 0 \<or> cmp b a \<le> 0"
  using cmp_swap[of a b] by linarith

lemma cmp_eq_sym: "cmp a b = 0 \<longleftrightarrow> cmp b a = 0"
  using cmp_swap[of a b] by linarith

lemma cmp_eq_trans: "cmp a b = 0 \<Longrightarrow> cmp b c = 0 \<Longrightarrow> cmp a c = 0"
  using cmp_trans[of a b c] cmp_trans[of c b a] cmp_swap[of a b] cmp_swap[of b c] cmp_swap[of a c]
  by linarith

lemma cmp_eq_le_left: "cmp a b = 0 \<Longrightarrow> cmp a c \<le> 0 \<longleftrightarrow> cmp b c \<le> 0"
  using cmp_trans[of a b c] cmp_trans[of b a c] cmp_swap[of a b] by linarith

lemma cmp_eq_le_right: "cmp a b = 0 \<Longrightarrow> cmp c a \<le> 0 \<longleftrightarrow> cmp c b \<le> 0"
  using cmp_trans[of c a b] cmp_trans[of c b a] cmp_swap[of a b] by linarith

lemma cmp_less_trans: "cmp a b < 0 \<Longrightarrow> cmp b c \<le> 0 \<Longrightarrow> cmp a c < 0"
  using cmp_trans[of a b c] cmp_trans[of b c a] cmp_swap[of a b] cmp_swap[of a c] by linarith

text \<open>A lower bound stays one for what is greater, an upper bound for what is smaller.\<close>

lemma lower_bound_mono: "\<not> cmp a lo < 0 \<Longrightarrow> cmp a b \<le> 0 \<Longrightarrow> \<not> cmp b lo < 0"
  using cmp_trans[of lo a b] cmp_swap[of lo a] cmp_swap[of b lo] by linarith

lemma upper_bound_mono: "\<not> cmp c hi > 0 \<Longrightarrow> cmp b c \<le> 0 \<Longrightarrow> \<not> cmp b hi > 0"
  using cmp_trans[of b c hi] by linarith

end

interpretation padlex_order: three_way padlex
  by unfold_locales (auto intro: padlex_swap padlex_trans)

text \<open>A comparison through a key inherits the laws.\<close>

lemma three_way_by_key:
  assumes "three_way c" and "\<And>a b. f a b = c (k a) (k b)"
  shows "three_way f"
  using assms unfolding three_way_def by metis

end
