(* ===== verification/Binary64.thy ===== *)
theory Binary64
  imports Decimal
begin

text \<open>
  The type \<open>double\<close> of the program: IEEE 754 binary64 with round-to-nearest-even, as an
  executable model on integers.  A finite value is a sign, a significand \<open>m\<close> and an exponent
  \<open>e\<close>, standing for \<open>m * 2 ^ e\<close>; it is canonical when \<open>m < 2 ^ 53\<close> and either
  \<open>2 ^ 52 \<le> m\<close> or \<open>e\<close> is the least exponent.  The sign and payload of a NaN are not kept.

  Modelled: the arithmetic and comparisons the program applies to doubles, the conversions
  from and to integers, \<open>std::stod\<close>, and the text of \<open>operator<<\<close> with the default precision
  (\<open>%g\<close> with six significant digits).
\<close>

datatype double = DNan | DInf bool | DFin bool int int

definition E_MIN :: int where
  "E_MIN = -1074"

definition E_MAX :: int where
  "E_MAX = 971"

fun d_ok :: "double \<Rightarrow> bool" where
  "d_ok DNan = True"
| "d_ok (DInf s) = True"
| "d_ok (DFin s m e) =
     (0 \<le> m \<and> m < 2 ^ 53 \<and> E_MIN \<le> e \<and> e \<le> E_MAX \<and> (2 ^ 52 \<le> m \<or> e = E_MIN))"

function bit_len :: "int \<Rightarrow> int" where
  "bit_len n = (if n \<le> 0 then 0 else bit_len (n div 2) + 1)"
  by pat_completeness auto
termination
  by (relation "measure nat") auto

declare bit_len.simps [simp del]

definition pow2 :: "int \<Rightarrow> int" where
  "pow2 k = 2 ^ nat k"

text \<open>
  \<open>n / d\<close> scaled by \<open>2 ^ (- e)\<close> is the quotient of \<open>scale_num n e\<close> and \<open>scale_den d e\<close>.
\<close>

definition scale_num :: "int \<Rightarrow> int \<Rightarrow> int" where
  "scale_num n e = n * pow2 (- e)"

definition scale_den :: "int \<Rightarrow> int \<Rightarrow> int" where
  "scale_den d e = d * pow2 e"

definition half_even :: "int \<Rightarrow> int \<Rightarrow> int" where
  "half_even a b =
     (let q = a div b; r = a mod b
      in if b < 2 * r \<or> (2 * r = b \<and> odd q) then q + 1 else q)"

text \<open>The exponent for which \<open>n / d\<close> has a 53-bit significand, not below the least exponent.\<close>

definition rnd_exp :: "int \<Rightarrow> int \<Rightarrow> int" where
  "rnd_exp n d =
     (let e0 = bit_len n - bit_len d - 53;
          e1 = (if 2 ^ 53 \<le> scale_num n e0 div scale_den d e0 then e0 + 1 else e0)
      in max e1 E_MIN)"

definition rnd :: "bool \<Rightarrow> int \<Rightarrow> int \<Rightarrow> double" where
  "rnd s n d =
     (if n = 0 then DFin s 0 E_MIN
      else let e = rnd_exp n d;
               m = half_even (scale_num n e) (scale_den d e);
               (m', e') = (if m = 2 ^ 53 then (2 ^ 52, e + 1) else (m, e))
           in if E_MAX < e' then DInf s else DFin s m' e')"

definition d_of_int :: "int \<Rightarrow> double" where
  "d_of_int i = rnd (i < 0) \<bar>i\<bar> 1"

text \<open>A decimal literal \<open>n * 10 ^ k\<close>.\<close>

definition d_of_dec :: "bool \<Rightarrow> int \<Rightarrow> int \<Rightarrow> double" where
  "d_of_dec s n k = (if 0 \<le> k then rnd s (n * 10 ^ nat k) 1 else rnd s n (10 ^ nat (- k)))"

abbreviation d_zero :: double where
  "d_zero \<equiv> DFin False 0 E_MIN"

subsection \<open>Arithmetic and comparison\<close>

definition signed :: "bool \<Rightarrow> int \<Rightarrow> int" where
  "signed s m = (if s then - m else m)"

fun d_neg :: "double \<Rightarrow> double" where
  "d_neg DNan = DNan"
| "d_neg (DInf s) = DInf (\<not> s)"
| "d_neg (DFin s m e) = DFin (\<not> s) m e"

fun d_add :: "double \<Rightarrow> double \<Rightarrow> double" where
  "d_add DNan b = DNan"
| "d_add a DNan = DNan"
| "d_add (DInf s) (DInf t) = (if s = t then DInf s else DNan)"
| "d_add (DInf s) b = DInf s"
| "d_add a (DInf t) = DInf t"
| "d_add (DFin s m e) (DFin t n f) =
     (let g = min e f;
          v = signed s m * pow2 (e - g) + signed t n * pow2 (f - g)
      in if v = 0 then DFin (s \<and> t) 0 E_MIN
         else rnd (v < 0) (scale_den \<bar>v\<bar> g) (scale_num 1 g))"

definition d_sub :: "double \<Rightarrow> double \<Rightarrow> double" where
  "d_sub a b = d_add a (d_neg b)"

text \<open>Three-way comparison; \<open>None\<close> when one side is a NaN (unordered).\<close>

fun d_cmp :: "double \<Rightarrow> double \<Rightarrow> int option" where
  "d_cmp DNan b = None"
| "d_cmp a DNan = None"
| "d_cmp (DInf s) (DInf t) = Some (signed s 1 - signed t 1)"
| "d_cmp (DInf s) (DFin t n f) = Some (signed s 1)"
| "d_cmp (DFin s m e) (DInf t) = Some (- signed t 1)"
| "d_cmp (DFin s m e) (DFin t n f) =
     (let g = min e f in Some (signed s m * pow2 (e - g) - signed t n * pow2 (f - g)))"

definition d_eq :: "double \<Rightarrow> double \<Rightarrow> bool" where
  "d_eq a b = (case d_cmp a b of None \<Rightarrow> False | Some c \<Rightarrow> c = 0)"

definition d_lt :: "double \<Rightarrow> double \<Rightarrow> bool" where
  "d_lt a b = (case d_cmp a b of None \<Rightarrow> False | Some c \<Rightarrow> c < 0)"

definition d_le :: "double \<Rightarrow> double \<Rightarrow> bool" where
  "d_le a b = (case d_cmp a b of None \<Rightarrow> False | Some c \<Rightarrow> c \<le> 0)"

text \<open>Truncation towards zero, \<open>None\<close> for NaN and infinities.\<close>

fun d_trunc :: "double \<Rightarrow> int option" where
  "d_trunc DNan = None"
| "d_trunc (DInf s) = None"
| "d_trunc (DFin s m e) = Some (signed s (if 0 \<le> e then m * pow2 e else m div pow2 (- e)))"

fun d_is_integral :: "double \<Rightarrow> bool" where
  "d_is_integral DNan = False"
| "d_is_integral (DInf s) = False"
| "d_is_integral (DFin s m e) = (0 \<le> e \<or> m mod pow2 (- e) = 0)"

subsection \<open>Text: \<open>operator<<\<close> with precision 6\<close>

function neg_log10 :: "int \<Rightarrow> int \<Rightarrow> int" where
  "neg_log10 n d = (if n \<le> 0 \<or> d \<le> n then 0 else neg_log10 (10 * n) d + 1)"
  by pat_completeness auto
termination
  by (relation "measure (\<lambda>(n, d). nat (d - n))") auto

declare neg_log10.simps [simp del]

definition dec_exp :: "int \<Rightarrow> int \<Rightarrow> int" where
  "dec_exp n d =
     (if d \<le> n then int (length (show_nat (nat (n div d)))) - 1
      else - neg_log10 n d)"

definition strip_zeros :: "string \<Rightarrow> string" where
  "strip_zeros s = rev (dropWhile (\<lambda>c. c = CHR ''0'') (rev s))"

definition with_fraction :: "string \<Rightarrow> string \<Rightarrow> string" where
  "with_fraction a frac = (if strip_zeros frac = [] then a else a @ ''.'' @ strip_zeros frac)"

definition show_exp :: "int \<Rightarrow> string" where
  "show_exp x =
     (let ds = show_nat (nat \<bar>x\<bar>)
      in (if x < 0 then ''e-'' else ''e+'') @ (if length ds < 2 then ''0'' @ ds else ds))"

text \<open>Six digits \<open>ds\<close> of a positive value whose first digit has weight \<open>10 ^ x\<close>.\<close>

definition layout_g :: "string \<Rightarrow> int \<Rightarrow> string" where
  "layout_g ds x =
     (if x < -4 \<or> 6 \<le> x then with_fraction (take 1 ds) (drop 1 ds) @ show_exp x
      else if 0 \<le> x then with_fraction (take (nat (x + 1)) ds) (drop (nat (x + 1)) ds)
      else with_fraction ''0'' (replicate (nat (- x - 1)) (CHR ''0'') @ ds))"

definition show_pos :: "int \<Rightarrow> int \<Rightarrow> string" where
  "show_pos n d =
     (let x = dec_exp n d;
          q = (if x \<le> 5 then half_even (n * 10 ^ nat (5 - x)) d
               else half_even n (d * 10 ^ nat (x - 5)));
          (q', x') = (if q = 10 ^ 6 then (10 ^ 5, x + 1) else (q, x))
      in layout_g (show_nat (nat q')) x')"

fun show_double :: "double \<Rightarrow> string" where
  "show_double DNan = ''nan''"
| "show_double (DInf s) = (if s then ''-inf'' else ''inf'')"
| "show_double (DFin s m e) =
     (if s then ''-'' else []) @
     (if m = 0 then ''0'' else show_pos (scale_den m e) (scale_num 1 e))"


subsection \<open>\<open>std::stod\<close>: the grammar of \<open>strtod\<close> in the C locale\<close>

datatype conv_error = InvalidArgument | OutOfRange

text \<open>
  The exponent without the lower bound, to tell a result that is tiny (below the least normal
  number after rounding); \<open>strtod\<close> sets \<open>ERANGE\<close> on overflow and on a tiny inexact result.
\<close>

definition is_tiny :: "int \<Rightarrow> int \<Rightarrow> bool" where
  "is_tiny n d =
     (let e0 = bit_len n - bit_len d - 53;
          e = (if 2 ^ 53 \<le> scale_num n e0 div scale_den d e0 then e0 + 1 else e0);
          m = half_even (scale_num n e) (scale_den d e)
      in (if m = 2 ^ 53 then e + 1 else e) < E_MIN)"

definition erange :: "int \<Rightarrow> int \<Rightarrow> bool" where
  "erange n d =
     (n \<noteq> 0 \<and>
      ((case rnd False n d of DInf _ \<Rightarrow> True | _ \<Rightarrow> False) \<or>
       (is_tiny n d \<and> scale_num n E_MIN mod scale_den d E_MIN \<noteq> 0)))"

definition rnd_checked :: "bool \<Rightarrow> int \<Rightarrow> int \<Rightarrow> conv_error + double" where
  "rnd_checked s n d = (if erange n d then Inl OutOfRange else Inr (rnd s n d))"

definition is_hex :: "char \<Rightarrow> bool" where
  "is_hex c = (is_digit c \<or> (97 \<le> code (to_lower_char c) \<and> code (to_lower_char c) \<le> 102))"

definition hex_val :: "char \<Rightarrow> int" where
  "hex_val c = (if is_digit c then int (digit_val c) else int (code (to_lower_char c)) - 87)"

definition hex_digits_val :: "string \<Rightarrow> int" where
  "hex_digits_val ds = foldl (\<lambda>v c. 16 * v + hex_val c) 0 ds"

text \<open>An exponent part after its marker, or 0 when no digits follow (it is then not consumed).\<close>

definition exp_part :: "char \<Rightarrow> string \<Rightarrow> int" where
  "exp_part mark s =
     (case s of
        [] \<Rightarrow> 0
      | c # r \<Rightarrow>
          if to_lower_char c \<noteq> mark then 0
          else let (neg, ds) = strip_sign r; v = int (digits_val (takeWhile is_digit ds))
               in if neg then - v else v)"

definition split_point :: "(char \<Rightarrow> bool) \<Rightarrow> string \<Rightarrow> string \<times> string \<times> string" where
  "split_point p s =
     (let a = takeWhile p s; r = dropWhile p s
      in case r of
           c # r' \<Rightarrow> if c = CHR ''.'' then (a, takeWhile p r', dropWhile p r') else (a, [], r)
         | [] \<Rightarrow> (a, [], []))"

definition stod_hex :: "bool \<Rightarrow> string \<Rightarrow> conv_error + double" where
  "stod_hex neg s =
     (let (a, f, r) = split_point is_hex s;
          m = hex_digits_val (a @ f);
          x = exp_part (CHR ''p'') r - 4 * int (length f)
      in if a = [] \<and> f = [] then Inr (DFin neg 0 E_MIN)
         else if 0 \<le> x then rnd_checked neg (m * pow2 x) 1
         else rnd_checked neg m (pow2 (- x)))"

definition stod_dec :: "bool \<Rightarrow> string \<Rightarrow> conv_error + double" where
  "stod_dec neg s =
     (let (a, f, r) = split_point is_digit s;
          m = int (digits_val (a @ f));
          x = exp_part (CHR ''e'') r - int (length f)
      in if a = [] \<and> f = [] then Inl InvalidArgument
         else if 0 \<le> x then rnd_checked neg (m * 10 ^ nat x) 1
         else rnd_checked neg m (10 ^ nat (- x)))"

definition stod :: "string \<Rightarrow> conv_error + double" where
  "stod s0 =
     (let (neg, s) = strip_sign (dropWhile is_space (c_str s0)); l = lower s
      in if has_prefix ''inf'' l then Inr (DInf neg)
         else if has_prefix ''nan'' l then Inr DNan
         else if has_prefix ''0x'' l then stod_hex neg (drop 2 s)
         else stod_dec neg s)"

subsection \<open>Exactness\<close>

lemma bit_len_bounds: "0 < n \<Longrightarrow> 1 \<le> bit_len n \<and> 2 ^ nat (bit_len n - 1) \<le> n \<and> n < 2 ^ nat (bit_len n)"
proof (induction n rule: bit_len.induct)
  case (1 n)
  show ?case
  proof (cases "n = 1")
    case True
    then show ?thesis by (simp add: bit_len.simps)
  next
    case False
    define k where "k = nat (bit_len (n div 2) - 1)"
    from False 1 have IH: "1 \<le> bit_len (n div 2)" "2 ^ nat (bit_len (n div 2) - 1) \<le> n div 2"
      "n div 2 < 2 ^ nat (bit_len (n div 2))" by auto
    then have k: "nat (bit_len (n div 2)) = Suc k" "nat (bit_len (n div 2) + 1) = Suc (Suc k)"
      unfolding k_def by linarith+
    have b: "bit_len n = bit_len (n div 2) + 1" using 1 by (simp add: bit_len.simps[of n])
    from IH(2,3) have "2 ^ k \<le> n div 2" "n div 2 < 2 ^ Suc k" by (simp_all only: k k_def)
    then have "2 ^ Suc k \<le> n" "n < 2 ^ Suc (Suc k)" by auto
    with b k IH(1) show ?thesis by simp
  qed
qed

lemma bit_len_le: "0 < n \<Longrightarrow> n < 2 ^ k \<Longrightarrow> bit_len n \<le> int k"
proof (rule ccontr)
  assume n: "0 < n" "n < 2 ^ k" and "\<not> bit_len n \<le> int k"
  then have "k \<le> nat (bit_len n - 1)" by simp
  then have "(2::int) ^ k \<le> 2 ^ nat (bit_len n - 1)" by (rule power_increasing) simp
  with bit_len_bounds[OF n(1)] n(2) show False by simp
qed

lemma half_even_one [simp]: "half_even a 1 = a"
  by (simp add: half_even_def)

text \<open>Every integer of at most 53 bits is a double, with its significand aligned to 53 bits.\<close>

lemma rnd_exact_int:
  assumes i: "0 < i" "i < 2 ^ 53"
  shows "rnd s i 1 = DFin s (i * 2 ^ nat (53 - bit_len i)) (bit_len i - 53)"
proof -
  define L where "L = nat (bit_len i)"
  have L: "bit_len i = int L" "1 \<le> L" "L \<le> 53"
    using bit_len_bounds[OF i(1)] bit_len_le[OF i] by (auto simp: L_def)
  have lo: "2 ^ (L - 1) \<le> i" and hi: "i < 2 ^ L"
    using bit_len_bounds[OF i(1)] L by (auto simp: nat_diff_distrib)
  have one: "bit_len 1 = 1" by (simp add: bit_len.simps)
  have "(2::int) ^ 53 = 2 ^ (L - 1) * 2 ^ (54 - L)"
    using L by (simp flip: power_add)
  also have "\<dots> \<le> i * 2 ^ (54 - L)" using lo by (simp add: mult_right_mono)
  finally have big: "2 ^ 53 \<le> i * 2 ^ (54 - L)" .
  have "i * 2 ^ (53 - L) < 2 ^ L * 2 ^ (53 - L)" using hi by simp
  also have "\<dots> = (2::int) ^ 53" using L by (simp flip: power_add)
  finally have small: "i * 2 ^ (53 - L) < 2 ^ 53" .
  have e: "rnd_exp i 1 = int L - 53"
    using big L one by (simp add: rnd_exp_def L(1) scale_num_def scale_den_def pow2_def E_MIN_def
        nat_diff_distrib max_def)
  have n: "nat (53 - int L) = 53 - L" using L by simp
  show ?thesis
    using i small L by (simp add: rnd_def e Let_def scale_num_def scale_den_def pow2_def n
        E_MAX_def L(1) max_def)
qed

lemma d_trunc_of_int: "\<bar>i\<bar> < 2 ^ 53 \<Longrightarrow> d_trunc (d_of_int i) = Some i"
proof (cases "i = 0")
  case True
  then show ?thesis by (simp add: d_of_int_def rnd_def E_MIN_def signed_def)
next
  case False
  assume a: "\<bar>i\<bar> < 2 ^ 53"
  define L where "L = bit_len \<bar>i\<bar>"
  have L: "L \<le> 53" using bit_len_le[of "\<bar>i\<bar>" 53] False a by (simp add: L_def)
  have "d_of_int i = DFin (i < 0) (\<bar>i\<bar> * 2 ^ nat (53 - L)) (L - 53)"
    unfolding d_of_int_def L_def by (rule rnd_exact_int) (use False a in auto)
  moreover have "L - 53 = 0 \<Longrightarrow> nat (53 - L) = 0" by simp
  ultimately show ?thesis
    using L by (auto simp: pow2_def signed_def simp flip: mult_minus_left)
qed

end
