(* ===== verification/Stores.thy ===== *)
theory Stores
  imports Prelude "HOL-Library.List_Lexorder" "HOL-Library.Char_ord"
begin

text \<open>
  Key/value stores.  The program keeps several (the knowledge base, the globals and the local
  scopes of the script interpreter, cookies and sessions of the web interface); what their
  clients rely on is the contract of the locale \<open>kv_store\<close>.  \<open>std::map\<close> itself is modelled by
  an association list in increasing key order, the order in which the code iterates it.
\<close>

subsection \<open>The contract\<close>

locale kv_store =
  fixes get :: "'s \<Rightarrow> 'k \<Rightarrow> 'v option"
    and put :: "'k \<Rightarrow> 'v \<Rightarrow> 's \<Rightarrow> 's"
  assumes get_put_same: "get (put k v s) k = Some v"
    and get_put_other: "k' \<noteq> k \<Longrightarrow> get (put k v s) k' = get s k'"
begin

lemma get_put: "get (put k v s) k' = (if k' = k then Some v else get s k')"
  by (simp add: get_put_same get_put_other)

lemma put_put: "get (put k v (put k w s)) k' = get (put k v s) k'"
  by (simp add: get_put)

lemma put_commute: "k \<noteq> l \<Longrightarrow> get (put k v (put l w s)) k' = get (put l w (put k v s)) k'"
  by (simp add: get_put)

text \<open>After a sequence of writes every key reads its last write.\<close>

lemma get_writes:
  "get (foldl (\<lambda>s (k, v). put k v s) s ws) k =
     (case map_of (rev ws) k of Some v \<Rightarrow> Some v | None \<Rightarrow> get s k)"
proof (induction ws rule: rev_induct)
  case (snoc w ws)
  then show ?case by (cases w) (simp add: get_put)
qed simp

lemma get_writes_untouched:
  "k \<notin> fst ` set ws \<Longrightarrow> get (foldl (\<lambda>s (k, v). put k v s) s ws) k = get s k"
proof -
  assume "k \<notin> fst ` set ws"
  then have "map_of (rev ws) k = None" by (simp add: map_of_eq_None_iff)
  then show ?thesis by (simp add: get_writes)
qed

end

text \<open>A store whose keys are made from a scope and a name.\<close>

locale scoped_store = kv_store get put
  for get :: "'s \<Rightarrow> 'k \<Rightarrow> 'v option" and put :: "'k \<Rightarrow> 'v \<Rightarrow> 's \<Rightarrow> 's" +
  fixes mk :: "'c \<Rightarrow> 'n \<Rightarrow> 'k"
  assumes mk_inject: "mk c n = mk d m \<Longrightarrow> c = d \<and> n = m"
begin

lemma scoped_get_put:
  "get (put (mk c n) v s) (mk d m) = (if c = d \<and> n = m then Some v else get s (mk d m))"
  using mk_inject by (auto simp: get_put)

text \<open>Writes in one scope are invisible in the other.\<close>

lemma scope_noninterference:
  assumes "c \<noteq> d"
  shows "get (foldl (\<lambda>s (m, v). put (mk d m) v s) s ws) (mk c n) = get s (mk c n)"
proof (induction ws rule: rev_induct)
  case (snoc w ws)
  with assms show ?case by (cases w) (simp add: scoped_get_put)
qed simp

end

subsection \<open>\<open>std::map\<close>\<close>

fun omap_put :: "'k::linorder \<Rightarrow> 'v \<Rightarrow> ('k \<times> 'v) list \<Rightarrow> ('k \<times> 'v) list" where
  "omap_put k v [] = [(k, v)]"
| "omap_put k v ((l, w) # m) =
     (if k < l then (k, v) # (l, w) # m
      else if k = l then (k, v) # m
      else (l, w) # omap_put k v m)"

definition omap_get :: "('k \<times> 'v) list \<Rightarrow> 'k \<Rightarrow> 'v option" where
  "omap_get m k = map_of m k"

definition omap_ok :: "('k::linorder \<times> 'v) list \<Rightarrow> bool" where
  "omap_ok m = sorted_wrt (<) (map fst m)"

lemma omap_get_put: "omap_get (omap_put k v m) k' = (if k' = k then Some v else omap_get m k')"
  unfolding omap_get_def by (induction k v m rule: omap_put.induct) auto

lemma omap_keys_put: "fst ` set (omap_put k v m) = insert k (fst ` set m)"
  by (induction k v m rule: omap_put.induct) auto

lemma omap_ok_put: "omap_ok m \<Longrightarrow> omap_ok (omap_put k v m)"
proof (induction k v m rule: omap_put.induct)
  case (2 k v l w m)
  have "set (map fst (omap_put k v m)) = insert k (set (map fst m))"
    using omap_keys_put[of k v m] by simp
  with 2 show ?case by (force simp: omap_ok_def)
qed (simp add: omap_ok_def)

lemma omap_ok_Nil [simp]: "omap_ok []"
  by (simp add: omap_ok_def)

interpretation omap: kv_store omap_get omap_put
  by unfold_locales (simp_all add: omap_get_put)

end
