(* ===== verification/KnowledgeBase.thy ===== *)
theory KnowledgeBase
  imports Stores
begin

text \<open>
  \<open>core/knowledge_base.hpp\<close> and \<open>core/knowledge_base.cpp\<close>: the facts collected about a host and
  a port, under keys prefixed by their scope.  Every method holds the object's mutex for its
  whole body, so a method is one atomic step on the map.
\<close>

datatype KnowledgeScope = HOST_SCOPE | PORT_SCOPE

record KnowledgeBase =
  kb_data :: "(string \<times> string) list"

definition scoped_key :: "KnowledgeScope \<Rightarrow> string \<Rightarrow> string" where
  "scoped_key scope key = (if scope = HOST_SCOPE then ''host.'' else ''port.'') @ key"

definition kb_new :: KnowledgeBase where
  "kb_new = \<lparr>kb_data = []\<rparr>"

definition kb_set :: "string \<Rightarrow> string \<Rightarrow> KnowledgeBase \<Rightarrow> KnowledgeBase" where
  "kb_set key v kb = kb\<lparr>kb_data := omap_put key v (kb_data kb)\<rparr>"

definition kb_get :: "KnowledgeBase \<Rightarrow> string \<Rightarrow> string option" where
  "kb_get kb key = omap_get (kb_data kb) key"

definition kb_has :: "KnowledgeBase \<Rightarrow> string \<Rightarrow> bool" where
  "kb_has kb key = (omap_get (kb_data kb) key \<noteq> None)"

definition kb_set_scoped ::
  "KnowledgeScope \<Rightarrow> string \<Rightarrow> string \<Rightarrow> KnowledgeBase \<Rightarrow> KnowledgeBase" where
  "kb_set_scoped scope key v kb = kb_set (scoped_key scope key) v kb"

definition kb_get_scoped :: "KnowledgeScope \<Rightarrow> string \<Rightarrow> KnowledgeBase \<Rightarrow> string option" where
  "kb_get_scoped scope key kb = kb_get kb (scoped_key scope key)"

definition kb_has_scoped :: "KnowledgeScope \<Rightarrow> string \<Rightarrow> KnowledgeBase \<Rightarrow> bool" where
  "kb_has_scoped scope key kb = kb_has kb (scoped_key scope key)"

definition kb_snapshot :: "KnowledgeBase \<Rightarrow> (string \<times> string) list" where
  "kb_snapshot kb = kb_data kb"

definition kb_ok :: "KnowledgeBase \<Rightarrow> bool" where
  "kb_ok kb = omap_ok (kb_data kb)"

lemma scoped_key_inject: "scoped_key c n = scoped_key d m \<Longrightarrow> c = d \<and> n = m"
  by (cases c; cases d) (auto simp: scoped_key_def)

interpretation kb: scoped_store kb_get kb_set scoped_key
  by unfold_locales
    (auto simp: kb_get_def kb_set_def omap_get_put dest: scoped_key_inject)

lemmas kb_get_set [simp, kv_simps] = kb.get_put

lemma kb_get_new [simp, kv_simps]: "kb_get kb_new k = None"
  by (simp add: kb_get_def kb_new_def omap_get_def)

lemma kb_has_get: "kb_has kb k = (kb_get kb k \<noteq> None)"
  by (simp add: kb_has_def kb_get_def)

lemma kb_ok_new [simp]: "kb_ok kb_new"
  by (simp add: kb_ok_def kb_new_def)

lemma kb_ok_set [simp]: "kb_ok kb \<Longrightarrow> kb_ok (kb_set k v kb)"
  by (simp add: kb_ok_def kb_set_def omap_ok_put)

lemma kb_ok_set_scoped [simp]: "kb_ok kb \<Longrightarrow> kb_ok (kb_set_scoped c k v kb)"
  by (simp add: kb_set_scoped_def)

text \<open>A snapshot holds exactly the readable facts, each key once and in order.\<close>

lemma map_of_eq_sorted:
  "omap_ok m \<Longrightarrow> (k, v) \<in> set m \<longleftrightarrow> omap_get m k = Some v"
  unfolding omap_ok_def omap_get_def
  by (metis map_of_is_SomeI map_of_SomeD strict_sorted_iff)

lemma snapshot_mem: "kb_ok kb \<Longrightarrow> (k, v) \<in> set (kb_snapshot kb) \<longleftrightarrow> kb_get kb k = Some v"
  by (simp add: kb_ok_def kb_snapshot_def kb_get_def map_of_eq_sorted)

lemma snapshot_distinct: "kb_ok kb \<Longrightarrow> distinct (map fst (kb_snapshot kb))"
  by (simp add: kb_ok_def kb_snapshot_def omap_ok_def strict_sorted_iff)

end
