(* ===== verification/Findings.thy ===== *)
theory Findings
  imports Decimal Binary64
begin

text \<open>
  The data model under \<open>include/\<close> (severity, confidence, protocol, port, finding, host) and the
  deduplication of findings of \<open>include/finding.h\<close>.  An enumerator carries its enum's initial
  where the C++ enums share names; a record field carries its struct's initial.
\<close>

subsection \<open>Enumerations and their names\<close>

datatype Severity = INFO | LOW | MEDIUM | HIGH | CRITICAL

fun severity_to_string :: "Severity \<Rightarrow> string" where
  "severity_to_string INFO = ''INFO''"
| "severity_to_string LOW = ''LOW''"
| "severity_to_string MEDIUM = ''MEDIUM''"
| "severity_to_string HIGH = ''HIGH''"
| "severity_to_string CRITICAL = ''CRITICAL''"

datatype Confidence = C_UNKNOWN | C_VERSION_MATCH | C_VERIFIED

fun confidence_to_string :: "Confidence \<Rightarrow> string" where
  "confidence_to_string C_UNKNOWN = ''UNKNOWN''"
| "confidence_to_string C_VERSION_MATCH = ''VERSION_MATCH''"
| "confidence_to_string C_VERIFIED = ''VERIFIED''"

datatype Protocol = P_UNKNOWN | P_TCP | P_UDP | P_ICMP

fun protocol_to_string :: "Protocol \<Rightarrow> string" where
  "protocol_to_string P_UNKNOWN = ''UNKNOWN''"
| "protocol_to_string P_TCP = ''TCP''"
| "protocol_to_string P_UDP = ''UDP''"
| "protocol_to_string P_ICMP = ''ICMP''"

datatype PortState = S_UNKNOWN | S_OPEN | S_CLOSED | S_FILTERED | S_OPEN_FILTERED

fun port_state_to_string :: "PortState \<Rightarrow> string" where
  "port_state_to_string S_UNKNOWN = ''UNKNOWN''"
| "port_state_to_string S_OPEN = ''OPEN''"
| "port_state_to_string S_CLOSED = ''CLOSED''"
| "port_state_to_string S_FILTERED = ''FILTERED''"
| "port_state_to_string S_OPEN_FILTERED = ''OPEN_FILTERED''"

datatype HostState = H_UNKNOWN | H_ALIVE | H_UNREACHABLE

fun host_state_to_string :: "HostState \<Rightarrow> string" where
  "host_state_to_string H_UNKNOWN = ''UNKNOWN''"
| "host_state_to_string H_ALIVE = ''ALIVE''"
| "host_state_to_string H_UNREACHABLE = ''UNREACHABLE''"

datatype VerificationStatus =
  V_UNKNOWN | V_VERSION_MATCH | V_CONFIG_MATCH | V_ACTIVE_CHECK | V_NOT_VULNERABLE

fun verification_to_string :: "VerificationStatus \<Rightarrow> string" where
  "verification_to_string V_UNKNOWN = ''UNKNOWN''"
| "verification_to_string V_VERSION_MATCH = ''VERSION_MATCH''"
| "verification_to_string V_CONFIG_MATCH = ''CONFIG_MATCH''"
| "verification_to_string V_ACTIVE_CHECK = ''ACTIVE_CHECK''"
| "verification_to_string V_NOT_VULNERABLE = ''NOT_VULNERABLE''"

definition verification_status_from_string :: "string \<Rightarrow> VerificationStatus" where
  "verification_status_from_string value =
     (if value = ''VERSION_MATCH'' then V_VERSION_MATCH
      else if value = ''CONFIG_MATCH'' then V_CONFIG_MATCH
      else if value = ''ACTIVE_CHECK'' then V_ACTIVE_CHECK
      else if value = ''NOT_VULNERABLE'' then V_NOT_VULNERABLE
      else V_UNKNOWN)"

definition verification_label :: "string \<Rightarrow> string" where
  "verification_label v =
     (if v = ''VERSION_MATCH'' then ''Potentially vulnerable''
      else if v = ''CONFIG_MATCH'' then ''Configuration verified''
      else if v = ''ACTIVE_CHECK'' then ''Actively verified''
      else if v = ''NOT_VULNERABLE'' then ''Not vulnerable''
      else ''Verification unknown'')"

definition verification_rank :: "string \<Rightarrow> int" where
  "verification_rank v =
     (if v = ''ACTIVE_CHECK'' then 3
      else if v = ''CONFIG_MATCH'' then 2
      else if v = ''VERSION_MATCH'' then 1
      else 0)"

subsection \<open>Structs\<close>

record Port =
  p_number :: "16 word"
  p_protocol :: Protocol
  p_state :: PortState
  p_service :: string
  p_product :: string
  p_version :: string
  p_distro :: string
  p_tls :: bool

definition port_default :: Port where
  "port_default = \<lparr>p_number = 0, p_protocol = P_UNKNOWN, p_state = S_UNKNOWN, p_service = [],
     p_product = [], p_version = [], p_distro = [], p_tls = False\<rparr>"

record Evidence =
  e_type :: string
  e_source :: string
  e_value :: string
  e_details :: string

definition evidence_default :: Evidence where
  "evidence_default = \<lparr>e_type = [], e_source = [], e_value = [], e_details = []\<rparr>"

text \<open>The default of the two score fields, \<open>-1.0\<close>, and of the confidence score.\<close>

definition d_minus_one :: double where
  "d_minus_one = DFin True (2 ^ 52) (-52)"

record Finding =
  f_plugin_name :: string
  f_title :: string
  f_severity :: Severity
  f_confidence :: Confidence
  f_verification :: string
  f_confidence_score :: double
  f_host :: string
  f_port_number :: "16 word"
  f_protocol :: Protocol
  f_scope :: string
  f_service :: string
  f_product :: string
  f_version :: string
  f_description :: string
  f_evidence :: string
  f_evidence_data :: Evidence
  f_references :: "string list"
  f_remediation :: string
  f_cvss_vector :: string
  f_cvss :: double
  f_cve_id :: string
  f_timestamp :: "64 word"

definition finding_default :: Finding where
  "finding_default =
     \<lparr>f_plugin_name = [], f_title = [], f_severity = INFO, f_confidence = C_UNKNOWN,
      f_verification = ''UNKNOWN'', f_confidence_score = d_zero, f_host = [], f_port_number = 0,
      f_protocol = P_UNKNOWN, f_scope = ''PORT'', f_service = [], f_product = [], f_version = [],
      f_description = [], f_evidence = [], f_evidence_data = evidence_default,
      f_references = [], f_remediation = [], f_cvss_vector = [], f_cvss = d_minus_one,
      f_cve_id = [], f_timestamp = 0\<rparr>"

record Host =
  h_ip :: string
  h_hostname :: string
  h_state :: HostState
  h_ttl :: int
  h_os_guess :: string
  h_ports :: "Port list"
  h_findings :: "Finding list"
  h_kb :: "(string \<times> string) list"

definition host_default :: Host where
  "host_default = \<lparr>h_ip = [], h_hostname = [], h_state = H_UNKNOWN, h_ttl = 0, h_os_guess = [],
     h_ports = [], h_findings = [], h_kb = []\<rparr>"

subsection \<open>Identity and deduplication\<close>

definition finding_id :: "Finding \<Rightarrow> string" where
  "finding_id f = (if f_cve_id f = [] then f_plugin_name f @ ''|'' @ f_title f else f_cve_id f)"

definition finding_identity :: "Finding \<Rightarrow> string" where
  "finding_identity f =
     f_host f @ ''|'' @ f_scope f @ ''|'' @ protocol_to_string (f_protocol f) @ ''|'' @
     (if f_scope f \<noteq> ''HOST'' then show_nat (unat (f_port_number f)) @ ''|'' else []) @
     f_service f @ ''|'' @ finding_id f"

definition better :: "Finding \<Rightarrow> Finding \<Rightarrow> bool" where
  "better f current \<longleftrightarrow>
     verification_rank (f_verification current) < verification_rank (f_verification f) \<or>
     (verification_rank (f_verification f) = verification_rank (f_verification current) \<and>
      d_lt (f_confidence_score current) (f_confidence_score f))"

definition merge_finding :: "Finding \<Rightarrow> Finding \<Rightarrow> Finding" where
  "merge_finding current f =
     (if better f current \<or> f_evidence current = [] then
        let f1 = (if f_evidence f = [] then f\<lparr>f_evidence := f_evidence current\<rparr> else f);
            f2 = (if f_description f1 = [] then f1\<lparr>f_description := f_description current\<rparr> else f1)
        in f2
      else current)"

record dedup_state =
  ds_unique :: "Finding list"
  ds_positions :: "string \<Rightarrow> nat option"

definition dedup_step :: "dedup_state \<Rightarrow> Finding \<Rightarrow> dedup_state" where
  "dedup_step st f =
     (let key = finding_identity f in
      case ds_positions st key of
        None \<Rightarrow> \<lparr>ds_unique = ds_unique st @ [f],
                ds_positions = (ds_positions st)(key \<mapsto> length (ds_unique st))\<rparr>
      | Some i \<Rightarrow>
          st\<lparr>ds_unique := (ds_unique st)[i := merge_finding (ds_unique st ! i) f]\<rparr>)"

definition deduplicate_findings :: "Finding list \<Rightarrow> Finding list" where
  "deduplicate_findings fs =
     ds_unique (foldl dedup_step \<lparr>ds_unique = [], ds_positions = Map.empty\<rparr> fs)"

subsection \<open>What deduplication computes\<close>

text \<open>
  The specification: one finding per identity, in the order in which the identities first
  occur, each the left-to-right merge of the findings with that identity.
\<close>

fun firsts :: "'a list \<Rightarrow> 'a list" where
  "firsts [] = []"
| "firsts (x # xs) = x # filter (\<lambda>y. y \<noteq> x) (firsts xs)"

definition of_identity :: "Finding list \<Rightarrow> string \<Rightarrow> Finding list" where
  "of_identity fs k = filter (\<lambda>f. finding_identity f = k) fs"

definition merge_all :: "Finding list \<Rightarrow> Finding" where
  "merge_all fs = foldl merge_finding (hd fs) (tl fs)"

definition dedup_spec :: "Finding list \<Rightarrow> Finding list" where
  "dedup_spec fs = map (\<lambda>k. merge_all (of_identity fs k)) (firsts (map finding_identity fs))"

lemma set_firsts [simp]: "set (firsts xs) = set xs"
  by (induction xs) auto

lemma distinct_firsts [simp]: "distinct (firsts xs)"
  by (induction xs) auto

lemma firsts_distinct: "distinct xs \<Longrightarrow> firsts xs = xs"
proof (induction xs)
  case (Cons x xs)
  then show ?case by (auto intro!: filter_True)
qed simp

lemma firsts_snoc: "firsts (xs @ [x]) = (if x \<in> set xs then firsts xs else firsts xs @ [x])"
  by (induction xs) auto

lemma identity_evidence [simp]: "finding_identity (f\<lparr>f_evidence := e\<rparr>) = finding_identity f"
  by (simp add: finding_identity_def finding_id_def)

lemma identity_description [simp]: "finding_identity (f\<lparr>f_description := e\<rparr>) = finding_identity f"
  by (simp add: finding_identity_def finding_id_def)

lemma merge_finding_cases:
  "merge_finding c f = c \<or>
   finding_identity (merge_finding c f) = finding_identity f \<and>
   f_verification (merge_finding c f) = f_verification f"
  by (simp add: merge_finding_def Let_def)

lemma identity_merge: "finding_identity f = finding_identity c \<Longrightarrow>
  finding_identity (merge_finding c f) = finding_identity c"
  using merge_finding_cases[of c f] by auto

lemma merge_all_snoc: "fs \<noteq> [] \<Longrightarrow> merge_all (fs @ [f]) = merge_finding (merge_all fs) f"
  by (cases fs) (simp_all add: merge_all_def)

lemma merge_all_single [simp]: "merge_all [f] = f"
  by (simp add: merge_all_def)

lemma of_identity_nonempty: "k \<in> finding_identity ` set fs \<Longrightarrow> of_identity fs k \<noteq> []"
  by (auto simp: of_identity_def filter_empty_conv)

lemma merge_all_induct [consumes 1, case_names single snoc]:
  assumes "fs \<noteq> []"
    and "\<And>f. P [f] f"
    and "\<And>f fs. fs \<noteq> [] \<Longrightarrow> P fs (merge_all fs) \<Longrightarrow> P (fs @ [f]) (merge_finding (merge_all fs) f)"
  shows "P fs (merge_all fs)"
  using assms(1)
proof (induction fs rule: rev_induct)
  case (snoc f fs)
  then show ?case
    by (cases "fs = []") (auto simp: merge_all_snoc assms(2) intro: assms(3))
qed simp

lemma identity_merge_all:
  "fs \<noteq> [] \<Longrightarrow> (\<And>f. f \<in> set fs \<Longrightarrow> finding_identity f = k) \<Longrightarrow> finding_identity (merge_all fs) = k"
proof (induction fs rule: merge_all_induct)
  case (snoc f fs)
  then show ?case by (metis UnI1 UnI2 identity_merge list.set_intros(1) set_append)
qed simp

lemma identity_merge_of_identity:
  "k \<in> finding_identity ` set fs \<Longrightarrow> finding_identity (merge_all (of_identity fs k)) = k"
  by (rule identity_merge_all[OF of_identity_nonempty]) (auto simp: of_identity_def)

text \<open>The index map locates every identity at its position among the first occurrences.\<close>

definition dedup_inv :: "Finding list \<Rightarrow> dedup_state \<Rightarrow> bool" where
  "dedup_inv fs st \<longleftrightarrow>
     ds_unique st = dedup_spec fs \<and>
     (\<forall>k i. ds_positions st k = Some i \<longleftrightarrow>
        i < length (firsts (map finding_identity fs)) \<and> firsts (map finding_identity fs) ! i = k)"

lemma dedup_inv_step: "dedup_inv fs st \<Longrightarrow> dedup_inv (fs @ [f]) (dedup_step st f)"
proof -
  assume inv: "dedup_inv fs st"
  define ks where "ks = firsts (map finding_identity fs)"
  define k where "k = finding_identity f"
  have pos: "\<And>k i. ds_positions st k = Some i \<longleftrightarrow> i < length ks \<and> ks ! i = k"
    and uni: "ds_unique st = map (\<lambda>k. merge_all (of_identity fs k)) ks"
    using inv by (auto simp: dedup_inv_def ks_def dedup_spec_def)
  have ks: "distinct ks" "set ks = finding_identity ` set fs" by (auto simp: ks_def)
  have ks': "firsts (map finding_identity (fs @ [f])) = (if k \<in> set ks then ks else ks @ [k])"
    using firsts_snoc[of "map finding_identity fs" k] by (simp add: ks_def k_def)
  have grp: "of_identity (fs @ [f]) k' = (if k' = k then of_identity fs k @ [f] else of_identity fs k')" for k'
    by (auto simp: of_identity_def k_def)
  show ?thesis
  proof (cases "ds_positions st k")
    case None
    then have notin: "k \<notin> set ks" using pos by (metis in_set_conv_nth option.distinct(1))
    then have "of_identity fs k = []" using ks(2) by (auto simp: of_identity_def filter_empty_conv)
    moreover have "\<And>x. x \<in> set ks \<Longrightarrow> x \<noteq> k" using notin by blast
    ultimately show ?thesis
      using None notin pos uni unfolding dedup_inv_def dedup_spec_def ks'
      by (auto simp: dedup_step_def k_def[symmetric] grp nth_append less_Suc_eq)
  next
    case (Some i)
    then have i: "i < length ks" "ks ! i = k" by (auto simp: pos)
    then have kin: "k \<in> set ks" by auto
    have ne: "of_identity fs k \<noteq> []" using kin ks(2) by (intro of_identity_nonempty) simp
    have "(ds_unique st)[i := merge_finding (ds_unique st ! i) f] =
          map (\<lambda>k'. merge_all (of_identity (fs @ [f]) k')) ks"
    proof (rule nth_equalityI)
      fix j assume "j < length ((ds_unique st)[i := merge_finding (ds_unique st ! i) f])"
      then have j: "j < length ks" by (simp add: uni)
      show "(ds_unique st)[i := merge_finding (ds_unique st ! i) f] ! j =
            map (\<lambda>k'. merge_all (of_identity (fs @ [f]) k')) ks ! j"
        using i j ne ks(1) nth_eq_iff_index_eq[OF ks(1) j i(1)]
        by (auto simp: uni nth_list_update grp merge_all_snoc)
    qed (simp add: uni)
    moreover have "dedup_step st f =
        st\<lparr>ds_unique := (ds_unique st)[i := merge_finding (ds_unique st ! i) f]\<rparr>"
      using Some by (simp add: dedup_step_def k_def)
    ultimately show ?thesis
      using kin pos unfolding dedup_inv_def dedup_spec_def ks' by simp
  qed
qed

lemma dedup_inv_foldl:
  "dedup_inv fs (foldl dedup_step \<lparr>ds_unique = [], ds_positions = Map.empty\<rparr> fs)"
proof (induction fs rule: rev_induct)
  case Nil
  then show ?case by (simp add: dedup_inv_def dedup_spec_def)
next
  case (snoc f fs)
  then show ?case by (simp add: dedup_inv_step)
qed

lemma dedup_refines: "deduplicate_findings fs = dedup_spec fs"
  using dedup_inv_foldl[of fs] by (simp add: deduplicate_findings_def dedup_inv_def)

lemma identities_dedup:
  "map finding_identity (deduplicate_findings fs) = firsts (map finding_identity fs)"
  unfolding dedup_refines dedup_spec_def map_map
  by (rule map_idI) (simp add: identity_merge_of_identity)

lemma filter_distinct_key:
  "distinct (map h xs) \<Longrightarrow> x \<in> set xs \<Longrightarrow> filter (\<lambda>y. h y = h x) xs = [x]"
proof (induction xs)
  case (Cons a xs)
  show ?case
  proof (cases "x = a")
    case True
    with Cons.prems show ?thesis by (auto simp: filter_empty_conv image_iff)
  next
    case False
    with Cons.prems have "x \<in> set xs" "h a \<noteq> h x" by auto
    with Cons show ?thesis by simp
  qed
qed simp

lemma dedup_distinct_id: "distinct (map finding_identity fs) \<Longrightarrow> deduplicate_findings fs = fs"
proof -
  assume d: "distinct (map finding_identity fs)"
  then have "\<And>f. f \<in> set fs \<Longrightarrow> merge_all (of_identity fs (finding_identity f)) = f"
    by (simp add: of_identity_def filter_distinct_key)
  then show ?thesis
    using d by (simp add: dedup_refines dedup_spec_def firsts_distinct map_idI)
qed

lemma dedup_group:
  "g \<in> set (deduplicate_findings fs) \<Longrightarrow> g = merge_all (of_identity fs (finding_identity g))"
  by (auto simp: dedup_refines dedup_spec_def identity_merge_of_identity)

lemma evidence_merge: "f_evidence c \<noteq> [] \<Longrightarrow> f_evidence (merge_finding c f) \<noteq> []"
  by (simp add: merge_finding_def Let_def)

lemma rank_merge:
  "f_evidence c \<noteq> [] \<Longrightarrow>
   verification_rank (f_verification (merge_finding c f)) =
     max (verification_rank (f_verification c)) (verification_rank (f_verification f))"
  by (auto simp: merge_finding_def better_def Let_def)

lemma rank_merge_all:
  "fs \<noteq> [] \<Longrightarrow> (\<And>f. f \<in> set fs \<Longrightarrow> f_evidence f \<noteq> []) \<Longrightarrow>
   f_evidence (merge_all fs) \<noteq> [] \<and>
   verification_rank (f_verification (merge_all fs)) =
     Max ((\<lambda>f. verification_rank (f_verification f)) ` set fs)"
proof (induction fs rule: merge_all_induct)
  case (snoc f fs)
  then show ?case
    by (simp add: evidence_merge rank_merge Max_insert max.commute image_Un)
qed simp

subsection \<open>Identity\<close>

lemma bar_split:
  "CHR ''|'' \<notin> set a \<Longrightarrow> CHR ''|'' \<notin> set b \<Longrightarrow> a @ CHR ''|'' # r = b @ CHR ''|'' # s \<Longrightarrow> a = b \<and> r = s"
  by (metis takeWhile_delim dropWhile_delim list.inject)

lemma protocol_string_inject: "protocol_to_string p = protocol_to_string q \<longleftrightarrow> p = q"
  by (cases p; cases q) simp_all

lemma protocol_string_no_bar [simp]: "CHR ''|'' \<notin> set (protocol_to_string p)"
  by (cases p) simp_all

lemma show_nat_no_bar [simp]: "CHR ''|'' \<notin> set (show_nat n)"
  using show_nat_digits[of "CHR ''|''" n] by (auto simp: is_digit_def)

lemma show_nat_inject: "show_nat m = show_nat n \<longleftrightarrow> m = n"
  by (metis digits_val_show_nat)

text \<open>The parts of a key that come before the last separator hold no separator themselves.\<close>

definition bar_free :: "Finding \<Rightarrow> bool" where
  "bar_free f = (\<forall>s\<in>{f_host f, f_scope f, f_service f, f_plugin_name f, f_cve_id f}. CHR ''|'' \<notin> set s)"

lemma finding_id_inject:
  assumes "bar_free f" "bar_free g" "finding_id f = finding_id g"
  shows "f_cve_id f = f_cve_id g \<and>
    (f_cve_id f = [] \<longrightarrow> f_plugin_name f = f_plugin_name g \<and> f_title f = f_title g)"
proof -
  have *: "f_cve_id g = []" if "f_cve_id f = []" "finding_id f = finding_id g" "bar_free g" for f g
  proof (rule ccontr)
    assume "f_cve_id g \<noteq> []"
    with that have "f_plugin_name f @ CHR ''|'' # f_title f = f_cve_id g"
      by (simp add: finding_id_def)
    then have "CHR ''|'' \<in> set (f_cve_id g)" by (metis in_set_conv_decomp)
    with that(3) show False by (simp add: bar_free_def)
  qed
  show ?thesis
  proof (cases "f_cve_id f = []")
    case True
    with * assms have g: "f_cve_id g = []" by blast
    with True assms bar_split[of "f_plugin_name f" "f_plugin_name g" "f_title f" "f_title g"]
    show ?thesis by (simp add: finding_id_def bar_free_def)
  next
    case False
    with *[of g f] assms have "f_cve_id g \<noteq> []" by auto
    with False assms show ?thesis by (simp add: finding_id_def)
  qed
qed

lemma finding_identity_parts:
  assumes b: "bar_free f" "bar_free g" and eq: "finding_identity f = finding_identity g"
  shows "f_host f = f_host g \<and> f_scope f = f_scope g \<and> f_protocol f = f_protocol g \<and>
    (f_scope f = ''HOST'' \<or> f_port_number f = f_port_number g) \<and>
    f_service f = f_service g \<and> finding_id f = finding_id g"
proof -
  let ?tail = "\<lambda>f. f_service f @ CHR ''|'' # finding_id f"
  let ?port = "\<lambda>f. (if f_scope f \<noteq> ''HOST'' then show_nat (unat (f_port_number f)) @ ''|'' else [])"
  let ?rest = "\<lambda>f. protocol_to_string (f_protocol f) @ CHR ''|'' # ?port f @ ?tail f"
  have free: "CHR ''|'' \<notin> set (f_host h)" "CHR ''|'' \<notin> set (f_scope h)" "CHR ''|'' \<notin> set (f_service h)"
    if "bar_free h" for h using that by (auto simp: bar_free_def)
  from eq have 0: "f_host f @ CHR ''|'' # (f_scope f @ CHR ''|'' # ?rest f) =
      f_host g @ CHR ''|'' # (f_scope g @ CHR ''|'' # ?rest g)"
    by (simp add: finding_identity_def)
  note 1 = bar_split[OF free(1)[OF b(1)] free(1)[OF b(2)] 0]
  note 2 = bar_split[OF free(2)[OF b(1)] free(2)[OF b(2)] conjunct2[OF 1]]
  note 3 = bar_split[OF protocol_string_no_bar protocol_string_no_bar conjunct2[OF 2]]
  have p: "f_protocol f = f_protocol g" using 3 by (simp add: protocol_string_inject)
  have 4: "(f_scope f = ''HOST'' \<or> f_port_number f = f_port_number g) \<and> ?tail f = ?tail g"
  proof (cases "f_scope f = ''HOST''")
    case True
    with 2 3 show ?thesis by simp
  next
    case False
    with 2 3 have "show_nat (unat (f_port_number f)) @ CHR ''|'' # ?tail f =
        show_nat (unat (f_port_number g)) @ CHR ''|'' # ?tail g" by simp
    then have "show_nat (unat (f_port_number f)) = show_nat (unat (f_port_number g)) \<and> ?tail f = ?tail g"
      by (rule bar_split[OF show_nat_no_bar show_nat_no_bar])
    then show ?thesis by (auto simp: show_nat_inject intro: unsigned_word_eqI)
  qed
  have 5: "f_service f = f_service g \<and> finding_id f = finding_id g"
    by (rule bar_split[OF free(3)[OF b(1)] free(3)[OF b(2)]]) (use 4 in simp)
  from 1 2 p 4 5 show ?thesis by blast
qed

subsection \<open>Properties\<close>

text \<open>C13: Deduplication keeps exactly one finding per identity, in the order in which the
  identities first occur, and that finding is the left-to-right merge of all the findings with
  this identity: the index map and the in-place updates of the code compute this grouping.\<close>

theorem dedup_groups_by_identity: "deduplicate_findings fs = dedup_spec fs"
  by (rule dedup_refines)

text \<open>The result of deduplication has pairwise different identities, the same set of
  identities as the input, and deduplicating again changes nothing.\<close>

theorem dedup_distinct_idempotent:
  "distinct (map finding_identity (deduplicate_findings fs)) \<and>
   finding_identity ` set (deduplicate_findings fs) = finding_identity ` set fs \<and>
   deduplicate_findings (deduplicate_findings fs) = deduplicate_findings fs"
proof (intro conjI)
  show "distinct (map finding_identity (deduplicate_findings fs))"
    by (simp only: identities_dedup distinct_firsts)
  then show "deduplicate_findings (deduplicate_findings fs) = deduplicate_findings fs"
    by (rule dedup_distinct_id)
  show "finding_identity ` set (deduplicate_findings fs) = finding_identity ` set fs"
    by (metis identities_dedup list.set_map set_firsts)
qed

text \<open>When every finding carries evidence, the finding kept for an identity has the highest
  verification rank among the findings with that identity, so that an actively verified result
  is never lost to a version match.\<close>

theorem dedup_keeps_highest_rank:
  assumes "\<forall>f\<in>set fs. f_evidence f \<noteq> []" and "g \<in> set (deduplicate_findings fs)"
  shows "verification_rank (f_verification g) =
    Max ((\<lambda>f. verification_rank (f_verification f)) ` {f \<in> set fs. finding_identity f = finding_identity g})"
proof -
  let ?k = "finding_identity g"
  have "?k \<in> finding_identity ` set fs"
    using assms(2) by (metis identities_dedup imageI list.set_map set_firsts)
  then have "of_identity fs ?k \<noteq> []" by (rule of_identity_nonempty)
  then have "verification_rank (f_verification (merge_all (of_identity fs ?k))) =
      Max ((\<lambda>f. verification_rank (f_verification f)) ` set (of_identity fs ?k))"
    using rank_merge_all[of "of_identity fs ?k"] assms(1) by (auto simp: of_identity_def)
  moreover have "set (of_identity fs ?k) = {f \<in> set fs. finding_identity f = ?k}"
    by (auto simp: of_identity_def)
  ultimately show ?thesis using dedup_group[OF assms(2)] by simp
qed

definition sample_finding :: "string \<Rightarrow> string \<Rightarrow> Finding" where
  "sample_finding verification evidence = finding_default
     \<lparr>f_cve_id := ''CVE-1'', f_verification := verification, f_evidence := evidence\<rparr>"

lemma sample_identity: "finding_identity (sample_finding v e) = ''|PORT|UNKNOWN|0||CVE-1''"
  by (simp add: sample_finding_def finding_default_def finding_identity_def finding_id_def
      show_nat.simps[of 0] digit_char_eqs)

lemma dedup_pair:
  "finding_identity a = finding_identity b \<Longrightarrow> deduplicate_findings [a, b] = [merge_finding a b]"
  by (simp add: dedup_refines dedup_spec_def of_identity_def merge_all_def)

theorem dedup_keeps_highest_rank_witness:
  "verification_rank (f_verification (sample_finding ''ACTIVE_CHECK'' ''b'')) =
    Max ((\<lambda>f. verification_rank (f_verification f)) `
      {f \<in> set [sample_finding ''VERSION_MATCH'' ''a'', sample_finding ''ACTIVE_CHECK'' ''b''].
        finding_identity f = finding_identity (sample_finding ''ACTIVE_CHECK'' ''b'')})"
proof (rule dedup_keeps_highest_rank)
  show "\<forall>f\<in>set [sample_finding ''VERSION_MATCH'' ''a'', sample_finding ''ACTIVE_CHECK'' ''b''].
      f_evidence f \<noteq> []"
    by (simp add: sample_finding_def)
  show "sample_finding ''ACTIVE_CHECK'' ''b'' \<in>
      set (deduplicate_findings [sample_finding ''VERSION_MATCH'' ''a'', sample_finding ''ACTIVE_CHECK'' ''b''])"
    by (simp add: dedup_pair sample_identity)
      (simp add: merge_finding_def better_def verification_rank_def sample_finding_def finding_default_def)
qed

text \<open>The evidence condition is needed: when the finding held so far has no evidence text, a
  later finding with the same identity replaces it whatever its rank, and a \<open>VERSION_MATCH\<close>
  takes the place of an \<open>ACTIVE_CHECK\<close>.\<close>

theorem dedup_weaker_replaces_stronger:
  "map f_verification (deduplicate_findings
     [sample_finding ''ACTIVE_CHECK'' [], sample_finding ''VERSION_MATCH'' ''banner'']) =
   [''VERSION_MATCH'']"
  by (simp add: dedup_pair sample_identity)
    (simp add: merge_finding_def better_def verification_rank_def sample_finding_def finding_default_def)

text \<open>The identity key separates findings: when host, scope, service, plugin name and CVE id
  hold no \<open>|\<close>, equal keys mean the same host, scope, protocol, service, port (outside the HOST
  scope) and the same CVE, or, without a CVE, the same plugin and title.\<close>

theorem finding_identity_separates:
  assumes "bar_free f" and "bar_free g" and "finding_identity f = finding_identity g"
  shows "f_host f = f_host g \<and> f_scope f = f_scope g \<and> f_protocol f = f_protocol g \<and>
    (f_scope f = ''HOST'' \<or> f_port_number f = f_port_number g) \<and>
    f_service f = f_service g \<and> f_cve_id f = f_cve_id g \<and>
    (f_cve_id f = [] \<longrightarrow> f_plugin_name f = f_plugin_name g \<and> f_title f = f_title g)"
  using finding_identity_parts[OF assms] finding_id_inject[OF assms(1,2)] by blast

theorem finding_identity_separates_witness:
  "f_host (sample_finding ''ACTIVE_CHECK'' []) = f_host (sample_finding ''VERSION_MATCH'' ''a'')"
proof -
  have "bar_free (sample_finding v e)" for v e
    by (simp add: bar_free_def sample_finding_def finding_default_def)
  from finding_identity_separates[OF this this] sample_identity show ?thesis by simp
qed

end
