(* ===== verification/Cidr.thy ===== *)
theory Cidr
  imports Decimal
begin

text \<open>
  \<open>scan/cidr.cpp\<close>: the expansion of an IPv4 network in CIDR notation into its host addresses,
  on the 32-bit arithmetic of the code, with the address conversions \<open>inet_pton\<close> and
  \<open>inet_ntop\<close> of the C library that it calls.  An address is a \<open>32 word\<close> in host order.
\<close>

subsection \<open>\<open>inet_pton\<close> and \<open>inet_ntop\<close> for \<open>AF_INET\<close>\<close>

text \<open>
  \<open>pton_loop s done cur\<close>: the octets completed so far and the one being read.  As in the C
  library an octet has no leading zero and does not exceed 255, and there are exactly four.
\<close>

fun pton_loop :: "string \<Rightarrow> nat list \<Rightarrow> nat option \<Rightarrow> nat list option" where
  "pton_loop [] octets None = None"
| "pton_loop [] octets (Some v) = (if length octets = 3 then Some (octets @ [v]) else None)"
| "pton_loop (c # s) octets None =
     (if is_digit c then pton_loop s octets (Some (digit_val c)) else None)"
| "pton_loop (c # s) octets (Some v) =
     (if is_digit c then
        if v = 0 \<or> 255 < 10 * v + digit_val c then None
        else pton_loop s octets (Some (10 * v + digit_val c))
      else if c = CHR ''.'' then
        if length octets = 3 then None else pton_loop s (octets @ [v]) None
      else None)"

definition octets_addr :: "nat list \<Rightarrow> 32 word" where
  "octets_addr os = word_of_nat (foldl (\<lambda>a b. 256 * a + b) 0 os)"

definition addr_octets :: "32 word \<Rightarrow> nat list" where
  "addr_octets w =
     [unat w div 2 ^ 24, unat w div 2 ^ 16 mod 256, unat w div 2 ^ 8 mod 256, unat w mod 256]"

definition inet_pton :: "string \<Rightarrow> (32 word) option" where
  "inet_pton s = map_option octets_addr (pton_loop (c_str s) [] None)"

definition inet_ntop :: "32 word \<Rightarrow> string" where
  "inet_ntop w = join_with ''.'' (map show_nat (addr_octets w))"

subsection \<open>\<open>util::expand_cidr\<close>\<close>

definition MAX_HOSTS :: nat where
  "MAX_HOSTS = 65536"

definition net_mask :: "nat \<Rightarrow> 32 word" where
  "net_mask prefix_len = (if prefix_len = 0 then 0 else push_bit (32 - prefix_len) (- 1))"

definition host_count :: "nat \<Rightarrow> nat" where
  "host_count prefix_len =
     (let count = (if prefix_len = 32 then 1 else 2 ^ (32 - prefix_len))
      in if MAX_HOSTS < count then MAX_HOSTS else count)"

definition expand_hosts :: "32 word \<Rightarrow> nat \<Rightarrow> string list" where
  "expand_hosts base_ip prefix_len =
     (let network = and base_ip (net_mask prefix_len)
      in map (\<lambda>i. inet_ntop (network + word_of_nat i)) [0..<host_count prefix_len])"

definition expand_cidr :: "string \<Rightarrow> string list" where
  "expand_cidr input =
     (case str_find input ''/'' 0 of
        None \<Rightarrow> [input]
      | Some slash \<Rightarrow>
          (case stoi (drop (slash + 1) input) of
             None \<Rightarrow> []
           | Some prefix_len \<Rightarrow>
               if prefix_len < 0 \<or> 32 < prefix_len then []
               else (case inet_pton (take slash input) of
                       None \<Rightarrow> []
                     | Some base_ip \<Rightarrow> expand_hosts base_ip (nat prefix_len))))"

subsection \<open>Addresses and their text\<close>

lemma pton_digits:
  "(\<And>c. c \<in> set ds \<Longrightarrow> is_digit c) \<Longrightarrow> (v \<noteq> 0 \<or> ds = []) \<Longrightarrow>
   v * 10 ^ length ds + digits_val ds \<le> 255 \<Longrightarrow>
   pton_loop (ds @ r) octets (Some v) = pton_loop r octets (Some (v * 10 ^ length ds + digits_val ds))"
proof (induction ds arbitrary: v)
  case (Cons d ds)
  have le: "(10 * v + digit_val d) * 10 ^ length ds + digits_val ds \<le> 255"
    using Cons.prems(3) by (simp add: digits_val_Cons algebra_simps)
  have "(10 * v + digit_val d) * 1 \<le> (10 * v + digit_val d) * 10 ^ length ds"
    by (rule mult_le_mono2) simp
  also have "\<dots> \<le> 255" using le by (rule add_leD1)
  finally have "10 * v + digit_val d \<le> 255" by simp
  moreover have "10 * v + digit_val d \<noteq> 0" using Cons.prems(2) by simp
  ultimately show ?case
    using Cons.prems Cons.IH[of "10 * v + digit_val d"] le
    by (simp add: digits_val_Cons algebra_simps)
qed simp

lemma hd_show_nat_pos: "0 < n \<Longrightarrow> digit_val (hd (show_nat n)) \<noteq> 0"
proof (induction n rule: show_nat.induct)
  case (1 n)
  show ?case
  proof (cases "n < 10")
    case True
    with 1 show ?thesis by (simp add: show_nat.simps[of n])
  next
    case False
    with 1 have "digit_val (hd (show_nat (n div 10))) \<noteq> 0" by simp
    with False show ?thesis by (simp add: show_nat.simps[of n])
  qed
qed

lemma pton_show_nat:
  assumes "n \<le> 255"
  shows "pton_loop (show_nat n @ r) octets None = pton_loop r octets (Some n)"
proof (cases "n = 0")
  case True
  then show ?thesis by (simp add: show_nat.simps[of 0])
next
  case False
  obtain d ds where s: "show_nat n = d # ds" by (cases "show_nat n") auto
  have dig: "\<And>c. c \<in> set (d # ds) \<Longrightarrow> is_digit c" unfolding s[symmetric] by (rule show_nat_digits)
  have v: "digit_val d * 10 ^ length ds + digits_val ds = n"
    by (metis digits_val_Cons digits_val_show_nat s)
  have "digit_val d \<noteq> 0" using hd_show_nat_pos[of n] False s by simp
  with dig v assms pton_digits[of ds "digit_val d" r octets] show ?thesis by (simp add: s)
qed

lemma octets_addr_octets: "octets_addr (addr_octets w) = w"
proof -
  have "256 * (256 * (256 * (n div 2 ^ 24) + n div 2 ^ 16 mod 256) + n div 2 ^ 8 mod 256) + n mod 256 = n"
    for n :: nat
  proof -
    have "256 * (n div 2 ^ 24) + n div 2 ^ 16 mod 256 = n div 2 ^ 16"
      by (simp add: div_mult2_eq[of n "2 ^ 16" 256, simplified])
    moreover have "256 * (n div 2 ^ 16) + n div 2 ^ 8 mod 256 = n div 2 ^ 8"
      by (simp add: div_mult2_eq[of n "2 ^ 8" 256, simplified])
    ultimately show ?thesis by simp
  qed
  then show ?thesis by (simp add: octets_addr_def addr_octets_def)
qed

lemma addr_octets_le: "unat w div 2 ^ 24 \<le> 255" for w :: "32 word"
proof -
  have "unat w < 2 ^ 32" using unsigned_less[of w] by simp
  then show ?thesis by simp
qed

lemma inet_pton_ntop: "inet_pton (inet_ntop w) = Some w"
proof -
  have "c_str (inet_ntop w) = inet_ntop w"
    by (rule c_str_id) (simp add: inet_ntop_def addr_octets_def)
  moreover have "pton_loop (inet_ntop w) [] None = Some (addr_octets w)"
    using addr_octets_le[of w] pton_show_nat[of "unat w mod 256" "[]"]
    by (simp add: inet_ntop_def addr_octets_def pton_show_nat is_digit_def less_imp_le_nat less_Suc_eq_le)
  ultimately show ?thesis by (simp add: inet_pton_def octets_addr_octets)
qed

subsection \<open>Networks\<close>

definition network_of :: "32 word \<Rightarrow> nat \<Rightarrow> nat" where
  "network_of w k = unat w div 2 ^ (32 - k) * 2 ^ (32 - k)"

lemma net_mask_and: "k \<le> 32 \<Longrightarrow> and w (net_mask k) = push_bit (32 - k) (drop_bit (32 - k) w)"
  by (rule bit_word_eqI) (auto simp: net_mask_def bit_simps)

lemma unat_net_mask: "k \<le> 32 \<Longrightarrow> unat (and w (net_mask k)) = network_of w k"
proof -
  assume k: "k \<le> 32"
  have "unat w div 2 ^ (32 - k) * 2 ^ (32 - k) \<le> unat w" by (simp add: div_times_less_eq_dividend)
  also have "\<dots> < 2 ^ LENGTH(32)" by (rule unsigned_less)
  finally have "unat w div 2 ^ (32 - k) * 2 ^ (32 - k) < 2 ^ LENGTH(32)" .
  then show ?thesis
    unfolding net_mask_and[OF k] network_of_def unsigned_push_bit_eq unsigned_drop_bit_eq
    by (simp only: take_bit_nat_eq_self[OF unsigned_less] take_bit_nat_eq_self push_bit_eq_mult[where 'a = nat] drop_bit_eq_div[where 'a = nat])
qed

lemma network_room:
  assumes "k \<le> 32" "i < 2 ^ (32 - k)"
  shows "network_of w k + i < 2 ^ 32"
proof -
  let ?m = "2 ^ (32 - k) :: nat"
  have "unat w < 2 ^ k * ?m"
    using assms(1) unsigned_less[of w] by (simp flip: power_add)
  then have "unat w div ?m < 2 ^ k" by (simp add: less_mult_imp_div_less)
  then have "Suc (unat w div ?m) * ?m \<le> 2 ^ k * ?m" by (intro mult_le_mono1) simp
  also have "\<dots> = 2 ^ 32" using assms(1) by (simp flip: power_add)
  finally show ?thesis using assms(2) by (simp add: network_of_def)
qed

lemma host_count_eq: "k \<le> 32 \<Longrightarrow> host_count k = min (2 ^ (32 - k)) MAX_HOSTS"
  by (simp add: host_count_def Let_def min_def not_less not_le)

text \<open>The 32-bit additions of the loop never wrap.\<close>

lemma expand_hosts_eq:
  assumes "k \<le> 32"
  shows "expand_hosts w k =
    map (\<lambda>n. inet_ntop (word_of_nat n)) [network_of w k..<network_of w k + host_count k]"
proof -
  have "and w (net_mask k) + word_of_nat i = word_of_nat (network_of w k + i)" for i
    by (metis unat_net_mask[OF assms] of_nat_add of_nat_unat)
  then have "expand_hosts w k =
      map (\<lambda>i. inet_ntop (word_of_nat (network_of w k + i))) [0..<host_count k]"
    by (simp add: expand_hosts_def)
  also have "\<dots> = map (\<lambda>n. inet_ntop (word_of_nat n)) (map (\<lambda>i. i + network_of w k) [0..<host_count k])"
    by (simp add: add.commute)
  also have "map (\<lambda>i. i + network_of w k) [0..<host_count k] =
      [network_of w k..<network_of w k + host_count k]"
    by (simp only: map_add_upt add.commute)
  finally show ?thesis .
qed

lemma find_slash:
  "CHR ''/'' \<notin> set base \<Longrightarrow> str_find (base @ CHR ''/'' # rest) ''/'' 0 = Some (length base)"
proof -
  have "find_sub ''/'' (base @ CHR ''/'' # rest) k = Some (k + length base)"
    if "CHR ''/'' \<notin> set base" for k
    using that by (induction base arbitrary: k) (auto simp: has_prefix_def)
  then show "CHR ''/'' \<notin> set base \<Longrightarrow> ?thesis" by (simp add: str_find_def)
qed

lemma find_slash_None: "CHR ''/'' \<notin> set s \<Longrightarrow> str_find s ''/'' 0 = None"
proof -
  have "find_sub ''/'' s k = None" if "CHR ''/'' \<notin> set s" for k
    using that by (induction s arbitrary: k) (auto simp: has_prefix_def)
  then show "CHR ''/'' \<notin> set s \<Longrightarrow> ?thesis" by (simp add: str_find_def)
qed

lemma expand_cidr_slash:
  "CHR ''/'' \<notin> set base \<Longrightarrow>
   expand_cidr (base @ CHR ''/'' # pref) =
     (case stoi pref of
        None \<Rightarrow> []
      | Some k \<Rightarrow>
          if k < 0 \<or> 32 < k then []
          else (case inet_pton base of None \<Rightarrow> [] | Some w \<Rightarrow> expand_hosts w (nat k)))"
  by (simp add: expand_cidr_def find_slash split: option.split)

lemma inet_ntop_no_slash [simp]: "CHR ''/'' \<notin> set (inet_ntop w)"
proof -
  have "CHR ''/'' \<notin> set (show_nat n)" for n
    using show_nat_digits[of "CHR ''/''" n] by (auto simp: is_digit_def)
  then show ?thesis by (simp add: inet_ntop_def addr_octets_def)
qed

lemma expand_cidr_ntop:
  "k \<le> 32 \<Longrightarrow> expand_cidr (inet_ntop w @ CHR ''/'' # show_nat k) = expand_hosts w k"
proof -
  assume k: "k \<le> 32"
  then have "stoi (show_nat k) = Some (int k)" using stoi_show_nat[of "[]" k] by (simp add: INT_MAX_def)
  with k show ?thesis by (simp add: expand_cidr_slash inet_pton_ntop)
qed

lemma word_of_nat_network:
  assumes "k \<le> 32" "i < 2 ^ (32 - k)"
  shows "and (word_of_nat (network_of w k + i)) (net_mask k) = and w (net_mask k)"
proof -
  let ?v = "word_of_nat (network_of w k + i) :: 32 word"
  have "unat ?v = network_of w k + i"
    by (rule unat_of_nat_small) (use network_room[OF assms, of w] in simp)
  then have "network_of ?v k = network_of w k"
    using assms(2) by (simp add: network_of_def)
  then show ?thesis
    by (metis assms(1) unat_net_mask of_nat_unat)
qed

subsection \<open>Properties\<close>

text \<open>C16: Expanding \<open>address/prefix\<close> gives, in increasing order, the text of the consecutive
  addresses from the network address on, all of them up to the cap of 65536, without any wrap of
  the 32-bit arithmetic: the mask, the shift and the addition of the code compute the interval
  of natural numbers.\<close>

theorem expand_cidr_interval:
  assumes "k \<le> 32"
  shows "expand_cidr (inet_ntop w @ ''/'' @ show_nat k) =
      map (\<lambda>n. inet_ntop (word_of_nat n)) [network_of w k..<network_of w k + min (2 ^ (32 - k)) 65536] \<and>
    network_of w k + min (2 ^ (32 - k)) 65536 \<le> 2 ^ 32"
proof
  show "expand_cidr (inet_ntop w @ ''/'' @ show_nat k) =
      map (\<lambda>n. inet_ntop (word_of_nat n)) [network_of w k..<network_of w k + min (2 ^ (32 - k)) 65536]"
    using expand_cidr_ntop[OF assms, of w] expand_hosts_eq[OF assms, of w]
    by (simp add: host_count_eq[OF assms] MAX_HOSTS_def)
  let ?c = "min (2 ^ (32 - k)) 65536 :: nat"
  have "0 < ?c" by simp
  moreover from this have "network_of w k + (?c - 1) < 2 ^ 32"
    by (intro network_room[OF assms]) linarith
  ultimately show "network_of w k + ?c \<le> 2 ^ 32" by linarith
qed

theorem expand_cidr_interval_witness:
  "expand_cidr (inet_ntop 0xC0A80107 @ ''/'' @ show_nat 30) =
     map (\<lambda>n. inet_ntop (word_of_nat n)) [0xC0A80104..<0xC0A80108]"
  using expand_cidr_interval[of 30 "0xC0A80107"] by (simp add: network_of_def)

text \<open>Every host of an expansion is an address of the requested network, read back by
  \<open>inet_pton\<close>, no host occurs twice, and for a prefix of at least 16 bits every address of the
  network occurs.\<close>

theorem expand_cidr_members:
  assumes "k \<le> 32"
  shows "distinct (expand_cidr (inet_ntop w @ ''/'' @ show_nat k)) \<and>
    (\<forall>h\<in>set (expand_cidr (inet_ntop w @ ''/'' @ show_nat k)).
       \<exists>a. inet_pton h = Some a \<and> and a (net_mask k) = and w (net_mask k)) \<and>
    (16 \<le> k \<longrightarrow>
       {a. \<exists>h\<in>set (expand_cidr (inet_ntop w @ ''/'' @ show_nat k)). inet_pton h = Some a} =
       {a. and a (net_mask k) = and w (net_mask k)})"
proof (intro conjI impI)
  let ?N = "network_of w k" and ?c = "host_count k"
  have e: "expand_cidr (inet_ntop w @ ''/'' @ show_nat k) =
      map (\<lambda>n. inet_ntop (word_of_nat n)) [?N..<?N + ?c]"
    using expand_cidr_ntop[OF assms, of w] expand_hosts_eq[OF assms, of w] by simp
  have room: "n < 2 ^ 32" if "n \<in> {?N..<?N + ?c}" for n
    using that network_room[OF assms, of "n - ?N" w] by (auto simp: host_count_eq[OF assms])
  have "inj_on (\<lambda>n. inet_ntop (word_of_nat n)) {?N..<?N + ?c}"
  proof (rule inj_onI)
    fix m n assume mn: "m \<in> {?N..<?N + ?c}" "n \<in> {?N..<?N + ?c}"
      and "inet_ntop (word_of_nat m) = inet_ntop (word_of_nat n)"
    then have "(word_of_nat m :: 32 word) = word_of_nat n" by (metis inet_pton_ntop option.inject)
    then have "unat (word_of_nat m :: 32 word) = unat (word_of_nat n :: 32 word)" by simp
    then show "m = n" using mn[THEN room] by (simp add: unat_of_nat_small)
  qed
  then show "distinct (expand_cidr (inet_ntop w @ ''/'' @ show_nat k))"
    unfolding e by (simp add: distinct_map)
  have net: "and (word_of_nat n) (net_mask k) = and w (net_mask k)" if "n \<in> {?N..<?N + ?c}" for n
    using that word_of_nat_network[OF assms, of "n - ?N" w] by (auto simp: host_count_eq[OF assms])
  then show "\<forall>h\<in>set (expand_cidr (inet_ntop w @ ''/'' @ show_nat k)).
      \<exists>a. inet_pton h = Some a \<and> and a (net_mask k) = and w (net_mask k)"
    unfolding e by (auto simp: inet_pton_ntop)
  assume k16: "16 \<le> k"
  have "(2::nat) ^ (32 - k) \<le> 2 ^ 16" using k16 by (intro power_increasing) auto
  then have c: "?c = 2 ^ (32 - k)" by (simp add: host_count_eq[OF assms] MAX_HOSTS_def)
  have "\<exists>n\<in>{?N..<?N + ?c}. a = word_of_nat n" if "and a (net_mask k) = and w (net_mask k)" for a
  proof -
    have "network_of a k = ?N" using that by (metis assms unat_net_mask)
    then have "unat a \<in> {?N..<?N + ?c}"
      using div_mult_mod_eq[of "unat a" "2 ^ (32 - k)"] unfolding c network_of_def
      by (auto simp: div_times_less_eq_dividend) (metis add_less_cancel_left mod_less_divisor zero_less_numeral zero_less_power)
    then show ?thesis by (metis of_nat_unat)
  qed
  with net show "{a. \<exists>h\<in>set (expand_cidr (inet_ntop w @ ''/'' @ show_nat k)). inet_pton h = Some a} =
      {a. and a (net_mask k) = and w (net_mask k)}"
    unfolding e by (auto simp: inet_pton_ntop)
qed

theorem expand_cidr_members_witness:
  "distinct (expand_cidr (inet_ntop 0x0A000001 @ ''/'' @ show_nat 24))"
  using expand_cidr_members[of 24 "0x0A000001"] by simp

text \<open>What is not a network is handled as the code says: an input without a slash is
  returned as the only host, whatever it is; a prefix that is no number or not in 0..32, or a
  base that is no IPv4 address, gives no host; and no expansion has more than 65536 hosts.\<close>

theorem expand_cidr_errors:
  "(CHR ''/'' \<notin> set input \<longrightarrow> expand_cidr input = [input]) \<and>
   (CHR ''/'' \<notin> set base \<and> (stoi pref = None \<or> inet_pton base = None \<or> the (stoi pref) \<notin> {0..32})
      \<longrightarrow> expand_cidr (base @ ''/'' @ pref) = []) \<and>
   length (expand_cidr input) \<le> 65536"
proof (intro conjI impI)
  show "CHR ''/'' \<notin> set input \<Longrightarrow> expand_cidr input = [input]"
    by (simp add: expand_cidr_def find_slash_None)
  show "CHR ''/'' \<notin> set base \<and> (stoi pref = None \<or> inet_pton base = None \<or> the (stoi pref) \<notin> {0..32})
      \<Longrightarrow> expand_cidr (base @ ''/'' @ pref) = []"
    by (auto simp: expand_cidr_slash split: option.splits)
  have "length (expand_hosts w k) \<le> 65536" for w k
    by (simp add: expand_hosts_def host_count_def MAX_HOSTS_def Let_def)
  then show "length (expand_cidr input) \<le> 65536"
    by (auto simp: expand_cidr_def split: option.splits)
qed

theorem expand_cidr_errors_witness:
  "expand_cidr (''10.0.0'' @ ''/'' @ ''8'') = [] \<and> expand_cidr ''host'' = [''host'']"
proof -
  have "inet_pton ''10.0.0'' = None"
    by (simp add: inet_pton_def c_str_def is_digit_def digit_val_def)
  then show ?thesis
    using expand_cidr_errors[of "''host''" "''10.0.0''" "''8''"] by auto
qed

end
