(* ===== verification/Versions.thy ===== *)
theory Versions
  imports Decimal Ordering
begin

text \<open>
  \<open>vuln::VersionMatcher\<close> of \<open>scan/cve.cpp\<close>: reading the numeric components of an upstream
  version out of a banner text, comparing two versions and testing a version against the window
  of a CVE entry.
\<close>

subsection \<open>The model\<close>

record Version =
  v_raw :: string
  v_components :: "int list"

record VersionRange =
  r_minimum :: string
  r_maximum :: string

text \<open>
  The component loop at the suffix \<open>s\<close>.  A component that \<open>stoi\<close> rejects (it exceeds the range
  of \<open>int\<close>) empties the list and ends the function.
\<close>

function parse_loop :: "string \<Rightarrow> int list \<Rightarrow> int list" where
  "parse_loop [] acc = acc"
| "parse_loop (c # s) acc =
     (if \<not> is_digit c then acc
      else case stoi (takeWhile is_digit (c # s)) of
             None \<Rightarrow> []
           | Some n \<Rightarrow>
               (case dropWhile is_digit (c # s) of
                  d # r \<Rightarrow> if d = CHR ''.'' then parse_loop r (acc @ [n]) else acc @ [n]
                | [] \<Rightarrow> acc @ [n]))"
  by pat_completeness auto
termination
proof (relation "measure (\<lambda>(s, acc). length s)")
  fix c :: char and s r and acc :: "int list" and n d
  assume "dropWhile is_digit (c # s) = d # r"
  then have "length (d # r) \<le> length (c # s)" by (metis length_dropWhile_le)
  then show "((r, acc @ [n]), c # s, acc) \<in> measure (\<lambda>(s, acc). length s)" by simp
qed simp

definition version_parse :: "string \<Rightarrow> Version" where
  "version_parse raw =
     \<lparr>v_raw = raw, v_components = parse_loop (dropWhile (\<lambda>c. \<not> is_digit c) raw) []\<rparr>"

definition part_at :: "int list \<Rightarrow> nat \<Rightarrow> int" where
  "part_at cs i = (if i < length cs then cs ! i else 0)"

fun compare_parts :: "int list \<Rightarrow> int list \<Rightarrow> nat list \<Rightarrow> int" where
  "compare_parts l r [] = 0"
| "compare_parts l r (i # is) =
     (if part_at l i \<noteq> part_at r i then if part_at l i < part_at r i then -1 else 1
      else compare_parts l r is)"

definition version_compare :: "Version \<Rightarrow> Version \<Rightarrow> int" where
  "version_compare l r =
     compare_parts (v_components l) (v_components r)
       [0..<max (length (v_components l)) (length (v_components r))]"

definition in_range :: "string \<Rightarrow> VersionRange \<Rightarrow> bool" where
  "in_range version rng =
     (let parsed = version_parse version in
      if v_components parsed = [] then False
      else if r_minimum rng \<noteq> ''*'' \<and> version_compare parsed (version_parse (r_minimum rng)) < 0
      then False
      else if r_maximum rng \<noteq> ''*'' \<and> version_compare parsed (version_parse (r_maximum rng)) > 0
      then False
      else True)"

subsection \<open>Comparison is the padded lexicographic order\<close>

lemma part_at_Suc [simp]: "part_at xs (Suc i) = part_at (tl xs) i"
  by (cases xs) (auto simp: part_at_def)

lemma part_at_0 [simp]: "part_at xs 0 = hd0 xs"
  by (cases xs) (auto simp: part_at_def)

lemma compare_parts_Suc: "compare_parts l r (map Suc is) = compare_parts (tl l) (tl r) is"
  by (induction "is") simp_all

lemma compare_parts_padlex:
  "length l \<le> n \<Longrightarrow> length r \<le> n \<Longrightarrow> compare_parts l r [0..<n] = padlex l r"
proof (induction n arbitrary: l r)
  case (Suc n)
  have "length (tl l) \<le> n" "length (tl r) \<le> n" using Suc.prems by auto
  note IH = Suc.IH[OF this]
  have up: "[0..<Suc n] = 0 # map Suc [0..<n]" by (simp add: upt_conv_Cons map_Suc_upt del: upt_Suc)
  show ?case
  proof (cases "l = [] \<and> r = []")
    case True
    with IH show ?thesis by (simp add: up compare_parts_Suc del: upt_Suc)
  next
    case False
    then have "l \<noteq> [] \<or> r \<noteq> []" by blast
    from padlex_step[OF this] IH show ?thesis by (auto simp: up compare_parts_Suc simp del: upt_Suc)
  qed
qed simp

lemma version_compare_padlex: "version_compare l r = padlex (v_components l) (v_components r)"
  by (simp add: version_compare_def compare_parts_padlex)

interpretation version_order: three_way version_compare
  by (rule three_way_by_key[OF padlex_order.three_way_axioms version_compare_padlex])

lemma in_range_iff:
  "in_range v rng \<longleftrightarrow> v_components (version_parse v) \<noteq> [] \<and>
     (r_minimum rng = ''*'' \<or> \<not> version_compare (version_parse v) (version_parse (r_minimum rng)) < 0) \<and>
     (r_maximum rng = ''*'' \<or> \<not> version_compare (version_parse v) (version_parse (r_maximum rng)) > 0)"
  by (auto simp: in_range_def Let_def)

subsection \<open>Reading a version out of a banner\<close>

lemma takeWhile_run:
  "(\<And>c. c \<in> set ds \<Longrightarrow> P c) \<Longrightarrow> r = [] \<or> \<not> P (hd r) \<Longrightarrow> takeWhile P (ds @ r) = ds"
  by (cases r) (auto simp: takeWhile_append2)

lemma dropWhile_run:
  "(\<And>c. c \<in> set ds \<Longrightarrow> P c) \<Longrightarrow> r = [] \<or> \<not> P (hd r) \<Longrightarrow> dropWhile P (ds @ r) = r"
  by (cases r) (auto simp: dropWhile_append2)

lemma parse_loop_number:
  assumes "r = [] \<or> \<not> is_digit (hd r)"
  shows "parse_loop (show_nat n @ r) acc =
    (if int n \<le> INT_MAX then
       (case r of d # r' \<Rightarrow> if d = CHR ''.'' then parse_loop r' (acc @ [int n]) else acc @ [int n]
                | [] \<Rightarrow> acc @ [int n])
     else [])"
proof -
  obtain c cs where s: "show_nat n = c # cs" by (cases "show_nat n") auto
  have d: "is_digit c" using show_nat_digits[of c n] by (simp add: s)
  have "takeWhile is_digit (show_nat n @ r) = show_nat n" "dropWhile is_digit (show_nat n @ r) = r"
    using show_nat_digits assms by (blast intro: takeWhile_run dropWhile_run)+
  then have "takeWhile is_digit (c # cs @ r) = show_nat n" "dropWhile is_digit (c # cs @ r) = r"
    by (simp_all only: s append_Cons)
  then show ?thesis
    using d stoi_show_nat[of "[]" n] by (simp add: s split: list.split)
qed

definition show_version :: "nat list \<Rightarrow> string" where
  "show_version ns = join_with ''.'' (map show_nat ns)"

text \<open>What may follow the version: the end, or a character that continues no number.\<close>

definition version_end :: "string \<Rightarrow> bool" where
  "version_end r \<longleftrightarrow> r = [] \<or> \<not> is_digit (hd r) \<and> hd r \<noteq> CHR ''.''"

lemma parse_loop_version:
  "ns \<noteq> [] \<Longrightarrow> version_end r \<Longrightarrow>
   parse_loop (show_version ns @ r) acc =
     (if \<forall>n\<in>set ns. int n \<le> INT_MAX then acc @ map int ns else [])"
proof (induction ns arbitrary: acc)
  case (Cons n ns)
  have r: "r = [] \<or> \<not> is_digit (hd r)" using Cons.prems(2) by (auto simp: version_end_def)
  show ?case
  proof (cases "ns = []")
    case True
    with Cons.prems(2) parse_loop_number[OF r, of n acc] show ?thesis
      by (cases r) (auto simp: show_version_def version_end_def)
  next
    case False
    have "show_version (n # ns) @ r = show_nat n @ (CHR ''.'' # show_version ns @ r)"
      using False by (simp add: show_version_def join_with_Cons[of _ "show_nat n"])
    moreover have "\<not> is_digit CHR ''.''" by (simp add: is_digit_def)
    ultimately show ?thesis
      using parse_loop_number[of "CHR ''.'' # show_version ns @ r" n acc] False
        Cons.IH[OF False Cons.prems(2)] by simp
  qed
qed simp

lemma show_version_digit: "ns \<noteq> [] \<Longrightarrow> \<exists>c r. show_version ns = c # r \<and> is_digit c"
proof (cases ns)
  case (Cons n ms)
  obtain c cs where "show_nat n = c # cs" by (cases "show_nat n") auto
  with Cons show_nat_digits[of c n] show ?thesis
    by (simp add: show_version_def join_with_Cons)
qed simp

lemma version_parse_components:
  assumes "\<forall>c\<in>set junk. \<not> is_digit c" "ns \<noteq> []" "version_end r"
  shows "v_components (version_parse (junk @ show_version ns @ r)) =
    (if \<forall>n\<in>set ns. int n \<le> INT_MAX then map int ns else [])"
proof -
  obtain c s where c: "show_version ns = c # s" "is_digit c" using show_version_digit[OF assms(2)] by blast
  have "dropWhile (\<lambda>c. \<not> is_digit c) (junk @ show_version ns @ r) = show_version ns @ r"
    by (rule dropWhile_run) (use assms(1) c in auto)
  with parse_loop_version[OF assms(2,3), of "[]"] show ?thesis by (simp add: version_parse_def)
qed

subsection \<open>Properties\<close>

text \<open>Reading a version is the inverse of printing it: in a text that starts with anything
  free of digits, goes on with a dotted version and then with something that continues no
  number, the components found are those of the version; one component beyond the range of
  \<open>int\<close> makes the whole version unreadable, and it then lies in no range.\<close>

theorem version_parse_print:
  assumes "\<forall>c\<in>set junk. \<not> is_digit c" and "ns \<noteq> []" and "version_end r"
  shows "v_components (version_parse (junk @ show_version ns @ r)) =
      (if \<forall>n\<in>set ns. int n \<le> INT_MAX then map int ns else []) \<and>
    ((\<exists>n\<in>set ns. INT_MAX < int n) \<longrightarrow> \<not> in_range (junk @ show_version ns @ r) rng)"
  using version_parse_components[OF assms] by (auto simp: in_range_iff)

theorem version_parse_print_witness:
  "v_components (version_parse (''OpenSSH_'' @ show_version [8, 9] @ ''p1'')) = [8, 9]"
  using version_parse_print[of "''OpenSSH_''" "[8, 9]" "''p1''"]
  by (simp add: is_digit_def version_end_def INT_MAX_def)



text \<open>The window of a CVE entry is convex: a readable version between two versions that
  match the entry matches it too, whatever the two bounds of the entry are.\<close>

theorem in_range_convex:
  assumes "in_range a rng" and "in_range c rng" and "v_components (version_parse b) \<noteq> []"
    and "version_compare (version_parse a) (version_parse b) \<le> 0"
    and "version_compare (version_parse b) (version_parse c) \<le> 0"
  shows "in_range b rng"
proof -
  have "\<not> version_compare (version_parse b) m < 0" if "\<not> version_compare (version_parse a) m < 0" for m
    using that assms(4) by (rule version_order.lower_bound_mono)
  moreover have "\<not> version_compare (version_parse b) m > 0" if "\<not> version_compare (version_parse c) m > 0" for m
    using that assms(5) by (rule version_order.upper_bound_mono)
  ultimately show ?thesis using assms(1-3) unfolding in_range_iff by blast
qed

theorem in_range_convex_witness:
  "in_range ''1.5'' \<lparr>r_minimum = ''1.2'', r_maximum = ''*''\<rparr>"
proof -
  note e = version_compare_padlex version_parse_def stoi_def strip_sign_def is_space_def
      is_digit_def digits_val_def digit_val_def INT_MIN_def INT_MAX_def
  show ?thesis
    by (rule in_range_convex[of "''1.2''" _ "''1.7''"]) (simp_all add: in_range_iff e)
qed

end
