(* ===== verification/Dpkg.thy ===== *)
theory Dpkg
  imports Ordering Decimal
begin

text \<open>
  The Debian version comparison of \<open>scan/cve.cpp\<close> (\<open>dpkg_char_order\<close>, \<open>dpkg_compare_str\<close>,
  \<open>parse_dpkg_version\<close>, \<open>dpkg_compare\<close>).  The two indices of the code are the remaining
  suffixes.  The outer loop may run forever (on an embedded NUL byte), so it is a
  \<open>partial_function\<close> whose value is \<open>None\<close> when it does not return.
\<close>

subsection \<open>The model\<close>

text \<open>\<open>char\<close> is signed on the platforms the program is built for.\<close>

definition signed_char :: "char \<Rightarrow> int" where
  "signed_char c = (if code c < 128 then int (code c) else int (code c) - 256)"

definition dpkg_char_order :: "char \<Rightarrow> int" where
  "dpkg_char_order c =
     (if c = NUL then 0
      else if c = CHR ''~'' then -1
      else if is_alpha c then signed_char c
      else signed_char c + 256)"

definition nondigit_head :: "string \<Rightarrow> char" where
  "nondigit_head s = (case s of [] \<Rightarrow> NUL | c # _ \<Rightarrow> if is_digit c then NUL else c)"

text \<open>Inner results: \<open>Inl r\<close> returns \<open>r\<close>, \<open>Inr (a, b)\<close> goes on at these suffixes.\<close>

function nondigit_run :: "string \<Rightarrow> string \<Rightarrow> int + string \<times> string" where
  "nondigit_run a b =
     (if a = [] \<and> b = [] then Inr (a, b)
      else let ca = nondigit_head a; cb = nondigit_head b in
        if ca = NUL \<and> cb = NUL then Inr (a, b)
        else let oa = dpkg_char_order ca; ob = dpkg_char_order cb in
          if oa \<noteq> ob then Inl (if oa < ob then -1 else 1)
          else nondigit_run (if ca \<noteq> NUL then tl a else a) (if cb \<noteq> NUL then tl b else b))"
  by pat_completeness auto
termination
  by (relation "measure (\<lambda>(a, b). length a + length b)")
    (auto simp: nondigit_head_def split: list.splits if_splits)

declare nondigit_run.simps [simp del]

fun compare_digits :: "string \<Rightarrow> string \<Rightarrow> int" where
  "compare_digits (x # xs) (y # ys) =
     (if x \<noteq> y then if signed_char x < signed_char y then -1 else 1 else compare_digits xs ys)"
| "compare_digits _ _ = 0"

definition digit_run :: "string \<Rightarrow> string \<Rightarrow> int + string \<times> string" where
  "digit_run a b =
     (let a1 = dropWhile (\<lambda>c. c = CHR ''0'') a; b1 = dropWhile (\<lambda>c. c = CHR ''0'') b;
          xs = takeWhile is_digit a1; ys = takeWhile is_digit b1
      in if length xs \<noteq> length ys then Inl (if length xs < length ys then -1 else 1)
         else if compare_digits xs ys \<noteq> 0 then Inl (compare_digits xs ys)
         else Inr (dropWhile is_digit a1, dropWhile is_digit b1))"

partial_function (option) dpkg_compare_str :: "string \<Rightarrow> string \<Rightarrow> int option" where
  "dpkg_compare_str a b =
     (if a = [] \<and> b = [] then Some 0
      else case nondigit_run a b of
             Inl r \<Rightarrow> Some r
           | Inr ab \<Rightarrow>
               (case digit_run (fst ab) (snd ab) of
                  Inl r \<Rightarrow> Some r
                | Inr ab' \<Rightarrow> dpkg_compare_str (fst ab') (snd ab')))"

record DpkgVersion =
  dv_epoch :: string
  dv_upstream :: string
  dv_revision :: string

definition parse_dpkg_version :: "string \<Rightarrow> DpkgVersion" where
  "parse_dpkg_version raw =
     (let (epoch, rest) =
            (case str_find raw '':'' 0 of
               None \<Rightarrow> ([], raw)
             | Some colon \<Rightarrow>
                 if 0 < colon \<and> list_all is_digit (take colon raw)
                 then (take colon raw, drop (colon + 1) raw) else ([], raw))
      in case str_rfind_char rest (CHR ''-'') of
           Some dash \<Rightarrow> \<lparr>dv_epoch = epoch, dv_upstream = take dash rest, dv_revision = drop (dash + 1) rest\<rparr>
         | None \<Rightarrow> \<lparr>dv_epoch = epoch, dv_upstream = rest, dv_revision = []\<rparr>)"

definition dpkg_compare :: "string \<Rightarrow> string \<Rightarrow> int option" where
  "dpkg_compare a b =
     (let va = parse_dpkg_version a; vb = parse_dpkg_version b;
          ea = (if dv_epoch va = [] then ''0'' else dv_epoch va);
          eb = (if dv_epoch vb = [] then ''0'' else dv_epoch vb)
      in case dpkg_compare_str ea eb of
           None \<Rightarrow> None
         | Some c1 \<Rightarrow> if c1 \<noteq> 0 then Some c1 else
             (case dpkg_compare_str (dv_upstream va) (dv_upstream vb) of
                None \<Rightarrow> None
              | Some c2 \<Rightarrow> if c2 \<noteq> 0 then Some c2
                  else dpkg_compare_str (dv_revision va) (dv_revision vb)))"

subsection \<open>The order that the loops compute\<close>

text \<open>
  A version text is read as a list of integers: the orders of a run of non-digits, a zero, the
  value of the following digits, and so on.  Comparing two texts is comparing these keys,
  padded with zeros.
\<close>

definition nd :: "char \<Rightarrow> bool" where
  "nd c \<longleftrightarrow> \<not> is_digit c"

function dpkg_key :: "string \<Rightarrow> int list" where
  "dpkg_key s =
     (if s = [] then []
      else let r = dropWhile nd s
           in map dpkg_char_order (takeWhile nd s) @
              [0, int (digits_val (takeWhile is_digit r))] @ dpkg_key (dropWhile is_digit r))"
  by pat_completeness auto
termination
proof (relation "measure length")
  fix s r :: string
  assume "s \<noteq> []" and r: "r = dropWhile nd s"
  then obtain c t where s: "s = c # t" by (cases s) auto
  show "(dropWhile is_digit r, s) \<in> measure length"
  proof (cases "is_digit c")
    case True
    then show ?thesis
      by (simp add: s r nd_def less_Suc_eq_le length_dropWhile_le)
  next
    case False
    have "length (dropWhile is_digit (dropWhile nd t)) \<le> length (dropWhile nd t)"
      by (rule length_dropWhile_le)
    also have "\<dots> \<le> length t" by (rule length_dropWhile_le)
    finally show ?thesis using False by (simp add: s r nd_def less_Suc_eq_le)
  qed
qed simp

declare dpkg_key.simps [simp del]

definition dpkg_cmp :: "string \<Rightarrow> string \<Rightarrow> int" where
  "dpkg_cmp a b = padlex (dpkg_key a) (dpkg_key b)"

interpretation dpkg_order: three_way dpkg_cmp
  by (rule three_way_by_key[OF padlex_order.three_way_axioms dpkg_cmp_def])

lemma dpkg_char_order_NUL [simp]: "dpkg_char_order NUL = 0"
  by (simp add: dpkg_char_order_def)

lemma dpkg_char_order_zero [simp]: "dpkg_char_order c = 0 \<longleftrightarrow> c = NUL"
proof -
  have "code c < 256" using nat_of_char_less_256[of c] by simp
  then show ?thesis
    by (auto simp: dpkg_char_order_def signed_char_def ctype_simps)
qed

text \<open>One round of a key; the key of the empty text may be taken as two padding zeros.\<close>

definition round_key :: "string \<Rightarrow> int list" where
  "round_key s =
     map dpkg_char_order (takeWhile nd s) @ 0 # int (digits_val (takeWhile is_digit (dropWhile nd s))) #
     dpkg_key (dropWhile is_digit (dropWhile nd s))"

lemma padlex_zeros: "padlex [0, 0] ys = padlex [] ys" "padlex ys [0, 0] = padlex ys []"
  using padlex_zero(1)[of "[0]" ys] padlex_zero(1)[of "[]" ys] padlex_zero(2)[of ys "[0]"]
    padlex_zero(2)[of ys "[]"] by auto

lemma padlex_round: "padlex (dpkg_key a) (dpkg_key b) = padlex (round_key a) (round_key b)"
proof -
  have k: "dpkg_key s = round_key s" if "s \<noteq> []" for s
    using that by (subst dpkg_key.simps) (simp add: round_key_def Let_def)
  have e: "dpkg_key [] = []" "round_key [] = [0, 0]"
    by (simp_all add: dpkg_key.simps[of "[]"] round_key_def)
  show ?thesis
    by (cases "a = []"; cases "b = []") (simp_all add: k e padlex_zeros)
qed

lemma nondigit_head_NUL: "NUL \<notin> set s \<Longrightarrow> nondigit_head s = NUL \<Longrightarrow> takeWhile nd s = [] \<and> dropWhile nd s = s"
  by (cases s) (auto simp: nondigit_head_def nd_def split: if_splits)

lemma nondigit_head_other:
  "nondigit_head s \<noteq> NUL \<Longrightarrow>
   s = nondigit_head s # tl s \<and> takeWhile nd s = nondigit_head s # takeWhile nd (tl s) \<and>
   dropWhile nd s = dropWhile nd (tl s)"
  by (cases s) (auto simp: nondigit_head_def nd_def split: if_splits)

lemma nondigit_run_padlex:
  "NUL \<notin> set a \<Longrightarrow> NUL \<notin> set b \<Longrightarrow>
   (\<forall>r. nondigit_run a b = Inl r \<longrightarrow>
      padlex (map dpkg_char_order (takeWhile nd a) @ 0 # xs) (map dpkg_char_order (takeWhile nd b) @ 0 # ys) = r) \<and>
   (\<forall>ab. nondigit_run a b = Inr ab \<longrightarrow> ab = (dropWhile nd a, dropWhile nd b) \<and>
      padlex (map dpkg_char_order (takeWhile nd a) @ 0 # xs) (map dpkg_char_order (takeWhile nd b) @ 0 # ys) =
      padlex xs ys)"
proof (induction a b rule: nondigit_run.induct)
  case (1 a b)
  let ?ca = "nondigit_head a" and ?cb = "nondigit_head b"
  consider (nil) "a = [] \<and> b = []" | (both) "\<not> (a = [] \<and> b = [])" "?ca = NUL" "?cb = NUL"
    | (left) "\<not> (a = [] \<and> b = [])" "?ca = NUL" "?cb \<noteq> NUL"
    | (right) "\<not> (a = [] \<and> b = [])" "?ca \<noteq> NUL" "?cb = NUL"
    | (none) "\<not> (a = [] \<and> b = [])" "?ca \<noteq> NUL" "?cb \<noteq> NUL" by blast
  then show ?case
  proof cases
    case nil
    then show ?thesis by (simp add: nondigit_run.simps)
  next
    case both
    with nondigit_head_NUL[of a] nondigit_head_NUL[of b] 1 show ?thesis
      by (simp add: nondigit_run.simps[of a b])
  next
    case left
    with nondigit_head_NUL[of a] nondigit_head_other[of b] 1 show ?thesis
      by (simp add: nondigit_run.simps[of a b])
        (metis dpkg_char_order_zero linorder_less_linear)
  next
    case right
    with nondigit_head_NUL[of b] nondigit_head_other[of a] 1 show ?thesis
      by (simp add: nondigit_run.simps[of a b])
        (metis dpkg_char_order_zero linorder_less_linear)
  next
    case none
    note a = nondigit_head_other[OF none(2)] and b = nondigit_head_other[OF none(3)]
    show ?thesis
    proof (cases "dpkg_char_order ?ca = dpkg_char_order ?cb")
      case False
      with none a b show ?thesis by (auto simp: nondigit_run.simps[of a b] Let_def)
    next
      case True
      have "NUL \<notin> set (tl a)" "NUL \<notin> set (tl b)"
        using 1 by (metis list.set_sel(2) tl_Nil)+
      with 1(1) none True have IH: "nondigit_run a b = nondigit_run (tl a) (tl b)"
        by (auto simp: nondigit_run.simps[of a b] Let_def nondigit_head_def)
      from "1.IH"[OF none(1) refl refl _ refl refl] none True
        \<open>NUL \<notin> set (tl a)\<close> \<open>NUL \<notin> set (tl b)\<close>
      show ?thesis using a b True by (simp add: IH)
    qed
  qed
qed

subsection \<open>Digit runs compare by value\<close>

lemma digits_val_strip: "digits_val (dropWhile (\<lambda>c. c = CHR ''0'') ds) = digits_val ds"
  by (induction ds) (auto simp: digits_val_Cons digit_val_def)

lemma digits_val_lower:
  "ds \<noteq> [] \<Longrightarrow> digit_val (hd ds) \<noteq> 0 \<Longrightarrow> 10 ^ (length ds - 1) \<le> digits_val ds"
  by (cases ds) (auto simp: digits_val_Cons intro: trans_le_add1)

lemma signed_char_digit: "is_digit c \<Longrightarrow> signed_char c = int (digit_val c) + 48"
  by (auto simp: signed_char_def is_digit_def digit_val_def)

lemma digit_val_inject: "is_digit c \<Longrightarrow> is_digit d \<Longrightarrow> digit_val c = digit_val d \<longleftrightarrow> c = d"
  by (metis digit_char_digit_val)

definition sgn_cmp :: "nat \<Rightarrow> nat \<Rightarrow> int" where
  "sgn_cmp m n = (if m < n then -1 else if n < m then 1 else 0)"

lemma digits_val_first:
  assumes "\<forall>c\<in>set xs. is_digit c" "length xs = length ys" "digit_val x < digit_val y"
  shows "digits_val (x # xs) < digits_val (y # ys)"
proof -
  have "digits_val xs < 10 ^ length xs" using assms(1) by (intro digits_val_bound) blast
  then have "digits_val (x # xs) < Suc (digit_val x) * 10 ^ length xs" by (simp add: digits_val_Cons)
  also have "\<dots> \<le> digit_val y * 10 ^ length xs" by (rule mult_le_mono1) (use assms(3) in simp)
  also have "\<dots> \<le> digits_val (y # ys)" by (simp add: digits_val_Cons assms(2))
  finally show ?thesis .
qed

lemma compare_digits_val:
  "length xs = length ys \<Longrightarrow> \<forall>c\<in>set xs \<union> set ys. is_digit c \<Longrightarrow>
   compare_digits xs ys = sgn_cmp (digits_val xs) (digits_val ys)"
proof (induction xs ys rule: compare_digits.induct)
  case (1 x xs y ys)
  show ?case
  proof (cases "x = y")
    case True
    with 1 show ?thesis by (simp add: sgn_cmp_def digits_val_Cons)
  next
    case False
    then have "digit_val x \<noteq> digit_val y" using 1 by (simp add: digit_val_inject)
    then consider "digit_val x < digit_val y" | "digit_val y < digit_val x" by linarith
    then show ?thesis
    proof cases
      case 1
      with "1.prems" digits_val_first[of xs ys x y] False show ?thesis
        by (simp add: sgn_cmp_def signed_char_digit)
    next
      case 2
      with "1.prems" digits_val_first[of ys xs y x] False show ?thesis
        by (simp add: sgn_cmp_def signed_char_digit)
    qed
  qed
qed (auto simp: sgn_cmp_def)

lemma strip_head:
  "takeWhile is_digit (dropWhile (\<lambda>c. c = CHR ''0'') s) = [] \<or>
   digit_val (hd (takeWhile is_digit (dropWhile (\<lambda>c. c = CHR ''0'') s))) \<noteq> 0"
proof (cases "dropWhile (\<lambda>c. c = CHR ''0'') s")
  case (Cons c r)
  have "\<not> (\<lambda>c. c = CHR ''0'') (hd (dropWhile (\<lambda>c. c = CHR ''0'') s))"
    by (rule hd_dropWhile) (simp add: Cons)
  then have c: "c \<noteq> CHR ''0''" by (simp add: Cons)
  have "digit_val c \<noteq> 0" if "is_digit c"
    using that c digit_val_inject[of c "CHR ''0''"] by (auto simp: is_digit_def digit_val_def)
  with Cons show ?thesis by auto
next
  case Nil
  show ?thesis unfolding Nil by simp
qed

lemma strip_run:
  "takeWhile is_digit (dropWhile (\<lambda>c. c = CHR ''0'') s) =
     dropWhile (\<lambda>c. c = CHR ''0'') (takeWhile is_digit s) \<and>
   dropWhile is_digit (dropWhile (\<lambda>c. c = CHR ''0'') s) = dropWhile is_digit s"
  by (induction s) (auto simp: is_digit_def)

lemma length_less_val:
  assumes "\<forall>c\<in>set xs. is_digit c" "length xs < length ys" "digit_val (hd ys) \<noteq> 0"
  shows "digits_val xs < digits_val ys"
proof -
  have "digits_val xs < 10 ^ length xs" using assms(1) by (intro digits_val_bound) blast
  also have "\<dots> \<le> 10 ^ (length ys - 1)" using assms(2) by (intro power_increasing) auto
  also have "\<dots> \<le> digits_val ys" using assms by (intro digits_val_lower) auto
  finally show ?thesis .
qed

lemma digit_run_cmp:
  fixes a b
  defines "va \<equiv> digits_val (takeWhile is_digit a)" and "vb \<equiv> digits_val (takeWhile is_digit b)"
  shows "digit_run a b =
    (if va = vb then Inr (dropWhile is_digit a, dropWhile is_digit b) else Inl (sgn_cmp va vb))"
proof -
  let ?xs = "takeWhile is_digit (dropWhile (\<lambda>c. c = CHR ''0'') a)"
  let ?ys = "takeWhile is_digit (dropWhile (\<lambda>c. c = CHR ''0'') b)"
  have v: "digits_val ?xs = va" "digits_val ?ys = vb"
    by (simp_all add: strip_run digits_val_strip va_def vb_def)
  have d: "\<forall>c\<in>set ?xs. is_digit c" "\<forall>c\<in>set ?ys. is_digit c" by (auto dest: set_takeWhileD)
  consider (lt) "length ?xs < length ?ys" | (gt) "length ?ys < length ?xs"
    | (eq) "length ?xs = length ?ys" by linarith
  then show ?thesis
  proof cases
    case lt
    then have "?ys \<noteq> []" by auto
    then have "digits_val ?xs < digits_val ?ys"
      using lt d strip_head[of b] by (intro length_less_val) auto
    with lt v show ?thesis by (simp add: digit_run_def sgn_cmp_def)
  next
    case gt
    then have "?xs \<noteq> []" by auto
    then have "digits_val ?ys < digits_val ?xs"
      using gt d strip_head[of a] by (intro length_less_val) auto
    with gt v show ?thesis by (simp add: digit_run_def sgn_cmp_def)
  next
    case eq
    then have "compare_digits ?xs ?ys = sgn_cmp va vb"
      using compare_digits_val[OF eq] d v by auto
    with eq v strip_run[of a] strip_run[of b] show ?thesis
      by (simp add: digit_run_def sgn_cmp_def Let_def)
  qed
qed

subsection \<open>The comparison returns and computes the order\<close>

lemma dpkg_compare_str_step:
  "a \<noteq> [] \<or> b \<noteq> [] \<Longrightarrow>
   dpkg_compare_str a b =
     (case nondigit_run a b of
        Inl r \<Rightarrow> Some r
      | Inr ab \<Rightarrow>
          (case digit_run (fst ab) (snd ab) of
             Inl r \<Rightarrow> Some r
           | Inr ab' \<Rightarrow> dpkg_compare_str (fst ab') (snd ab')))"
  by (subst dpkg_compare_str.simps) auto

lemma dpkg_compare_str_key:
  "NUL \<notin> set a \<Longrightarrow> NUL \<notin> set b \<Longrightarrow> dpkg_compare_str a b = Some (padlex (dpkg_key a) (dpkg_key b))"
proof (induction "length a + length b" arbitrary: a b rule: less_induct)
  case less
  show ?case
  proof (cases "a = [] \<and> b = []")
    case True
    then show ?thesis by (simp add: dpkg_compare_str.simps)
  next
    case False
    then have step: "a \<noteq> [] \<or> b \<noteq> []" by blast
    let ?ra = "dropWhile nd a" and ?rb = "dropWhile nd b"
    let ?va = "digits_val (takeWhile is_digit ?ra)" and ?vb = "digits_val (takeWhile is_digit ?rb)"
    let ?sa = "dropWhile is_digit ?ra" and ?sb = "dropWhile is_digit ?rb"
    note run = nondigit_run_padlex[OF less.prems, of "int ?va # dpkg_key ?sa" "int ?vb # dpkg_key ?sb"]
    show ?thesis
    proof (cases "nondigit_run a b")
      case (Inl r)
      with run False show ?thesis
        by (simp add: dpkg_compare_str_step[OF step] padlex_round round_key_def)
    next
      case (Inr ab)
      with run have ab: "ab = (?ra, ?rb)"
        and key: "padlex (round_key a) (round_key b) = padlex (int ?va # dpkg_key ?sa) (int ?vb # dpkg_key ?sb)"
        by (simp_all add: round_key_def)
      show ?thesis
      proof (cases "?va = ?vb")
        case veq: True
        have le: "length (dropWhile is_digit (dropWhile nd s)) \<le> length s" for s
          using length_dropWhile_le[of is_digit "dropWhile nd s"] length_dropWhile_le[of nd s] by linarith
        have lt: "length (dropWhile is_digit (dropWhile nd s)) < length s" if "s \<noteq> []" for s
          using that by (cases s) (auto simp: nd_def less_Suc_eq_le length_dropWhile_le le)
        have "length ?sa + length ?sb < length a + length b"
          using False le[of a] le[of b] lt[of a] lt[of b] by (cases "a = []") auto
        moreover have "NUL \<notin> set ?sa" "NUL \<notin> set ?sb"
          using less.prems by (meson set_dropWhileD)+
        ultimately have "dpkg_compare_str ?sa ?sb = Some (padlex (dpkg_key ?sa) (dpkg_key ?sb))"
          by (rule less.hyps)
        with Inr ab False veq key show ?thesis
          by (simp add: dpkg_compare_str_step[OF step] digit_run_cmp padlex_round)
      next
        case vne: False
        with Inr ab False key show ?thesis
          by (simp add: dpkg_compare_str_step[OF step] digit_run_cmp padlex_round sgn_cmp_def)
      qed
    qed
  qed
qed

lemma dpkg_compare_str_Some:
  "NUL \<notin> set a \<Longrightarrow> NUL \<notin> set b \<Longrightarrow> dpkg_compare_str a b = Some (dpkg_cmp a b)"
  by (simp add: dpkg_compare_str_key dpkg_cmp_def)

text \<open>A NUL byte where a run of non-digits starts stops all progress.\<close>

definition stuck_at :: "string \<Rightarrow> string \<Rightarrow> bool" where
  "stuck_at a b \<longleftrightarrow> a \<noteq> [] \<and> hd a = NUL \<and> (b = [] \<or> hd b = NUL)"

lemma stuck_rounds:
  "stuck_at a b \<Longrightarrow> nondigit_run a b = Inr (a, b) \<and> digit_run a b = Inr (a, b)"
proof -
  assume s: "stuck_at a b"
  then have "nondigit_head a = NUL" "nondigit_head b = NUL"
    by (auto simp: stuck_at_def nondigit_head_def split: list.splits)
  then have "nondigit_run a b = Inr (a, b)" by (simp add: nondigit_run.simps[of a b])
  moreover have "digit_run a b = Inr (a, b)"
    using s by (cases a; cases b) (auto simp: stuck_at_def digit_run_cmp sgn_cmp_def)
  ultimately show ?thesis by blast
qed

lemma dpkg_compare_str_stuck: "stuck_at a b \<Longrightarrow> dpkg_compare_str a b = None"
proof -
  have "dpkg_compare_str a b = Some r \<Longrightarrow> \<not> stuck_at a b" for r
  proof (induction rule: dpkg_compare_str.raw_induct[rotated 1, consumes 1])
    case (1 f a b r)
    show ?case
    proof
      assume s: "stuck_at a b"
      then have "a \<noteq> []" by (simp add: stuck_at_def)
      then have "f a b = Some r" using 1(2) stuck_rounds[OF s] by simp
      then show False using 1(1) s by blast
    qed
  qed
  then show "stuck_at a b \<Longrightarrow> ?thesis" by (cases "dpkg_compare_str a b") auto
qed

lemma set_drop_take_NUL: "NUL \<notin> set s \<Longrightarrow> NUL \<notin> set (take n s) \<and> NUL \<notin> set (drop n s)"
  by (meson in_set_dropD in_set_takeD)

lemma parse_dpkg_NUL:
  "NUL \<notin> set s \<Longrightarrow> NUL \<notin> set (dv_epoch (parse_dpkg_version s)) \<and>
     NUL \<notin> set (dv_upstream (parse_dpkg_version s)) \<and> NUL \<notin> set (dv_revision (parse_dpkg_version s))"
  by (auto simp: parse_dpkg_version_def set_drop_take_NUL Let_def split: option.splits
      dest: in_set_dropD in_set_takeD)

subsection \<open>Reading a Debian version\<close>

lemma find_char:
  "x \<notin> set a \<Longrightarrow> str_find (a @ x # r) [x] 0 = Some (length a)"
proof -
  have "find_sub [x] (a @ x # r) k = Some (k + length a)" if "x \<notin> set a" for k
    using that by (induction a arbitrary: k) (auto simp: has_prefix_def)
  then show "x \<notin> set a \<Longrightarrow> ?thesis" by (simp add: str_find_def)
qed

lemma find_char_None: "x \<notin> set s \<Longrightarrow> str_find s [x] 0 = None"
proof -
  have "find_sub [x] s k = None" if "x \<notin> set s" for k
    using that by (induction s arbitrary: k) (auto simp: has_prefix_def)
  then show "x \<notin> set s \<Longrightarrow> ?thesis" by (simp add: str_find_def)
qed

definition show_dpkg :: "DpkgVersion \<Rightarrow> string" where
  "show_dpkg v =
     (if dv_epoch v = [] then [] else dv_epoch v @ '':'') @ dv_upstream v @
     (if dv_revision v = [] then [] else ''-'' @ dv_revision v)"

text \<open>
  The Debian policy's shape of a version: a numeric epoch, an upstream version without a colon
  unless there is an epoch, without a hyphen unless there is a revision, and a revision without
  either.
\<close>

definition dpkg_wf :: "DpkgVersion \<Rightarrow> bool" where
  "dpkg_wf v \<longleftrightarrow>
     (\<forall>c\<in>set (dv_epoch v). is_digit c) \<and>
     (dv_epoch v = [] \<longrightarrow> CHR '':'' \<notin> set (dv_upstream v) \<union> set (dv_revision v)) \<and>
     (dv_revision v = [] \<longrightarrow> CHR ''-'' \<notin> set (dv_upstream v)) \<and>
     CHR ''-'' \<notin> set (dv_revision v)"

lemma parse_show_dpkg:
  assumes "dpkg_wf v"
  shows "parse_dpkg_version (show_dpkg v) = v"
proof -
  define rest where "rest = dv_upstream v @ (if dv_revision v = [] then [] else ''-'' @ dv_revision v)"
  have epoch: "(case str_find (show_dpkg v) '':'' 0 of
      None \<Rightarrow> ([], show_dpkg v)
    | Some colon \<Rightarrow>
        if 0 < colon \<and> list_all is_digit (take colon (show_dpkg v))
        then (take colon (show_dpkg v), drop (colon + 1) (show_dpkg v)) else ([], show_dpkg v)) =
    (dv_epoch v, rest)"
  proof (cases "dv_epoch v = []")
    case True
    then have "CHR '':'' \<notin> set (show_dpkg v)" "show_dpkg v = rest"
      using assms by (auto simp: dpkg_wf_def show_dpkg_def rest_def)
    with True show ?thesis by (simp add: find_char_None)
  next
    case False
    have "CHR '':'' \<notin> set (dv_epoch v)" using assms by (auto simp: dpkg_wf_def is_digit_def)
    moreover have "show_dpkg v = dv_epoch v @ CHR '':'' # rest" using False by (simp add: show_dpkg_def rest_def)
    ultimately show ?thesis
      using False assms by (simp add: find_char dpkg_wf_def list_all_iff)
  qed
  have dash: "str_rfind_char rest (CHR ''-'') =
      (if dv_revision v = [] then None else Some (length (dv_upstream v)))"
    using assms by (auto simp: rest_def dpkg_wf_def str_rfind_char_None str_rfind_char_append)
  show ?thesis
    unfolding parse_dpkg_version_def epoch by (simp add: dash) (simp add: rest_def)
qed

subsection \<open>Tildes and numbers\<close>

lemma takeWhile_tilde:
  "takeWhile is_digit (r @ CHR ''~'' # s) = takeWhile is_digit r"
  "dropWhile is_digit (r @ CHR ''~'' # s) = dropWhile is_digit r @ CHR ''~'' # s"
  by (induction r) (auto simp: is_digit_def)

lemma dpkg_key_round: "s \<noteq> [] \<Longrightarrow> dpkg_key s = round_key s"
  by (subst dpkg_key.simps) (simp add: round_key_def Let_def)

lemma dpkg_key_tilde: "padlex (dpkg_key (v @ CHR ''~'' # s)) (dpkg_key v) = -1"
proof (induction v rule: dpkg_key.induct)
  case (1 v)
  have tilde: "nd (CHR ''~'')" "dpkg_char_order (CHR ''~'') = -1"
    by (simp_all add: nd_def is_digit_def dpkg_char_order_def)
  show ?case
  proof (cases "\<forall>c\<in>set v. nd c")
    case True
    then have tw: "takeWhile nd (v @ CHR ''~'' # s) = v @ CHR ''~'' # takeWhile nd s"
      "takeWhile nd v = v" by (auto simp: takeWhile_append2 tilde)
    show ?thesis
      unfolding padlex_round by (simp add: round_key_def tw tilde)
  next
    case False
    then have ne: "v \<noteq> []" "dropWhile nd v \<noteq> []" by auto
    have tw: "takeWhile nd (v @ CHR ''~'' # s) = takeWhile nd v"
      "dropWhile nd (v @ CHR ''~'' # s) = dropWhile nd v @ CHR ''~'' # s"
      using False by (auto simp: takeWhile_append1 dropWhile_append1)
    have "padlex (round_key (v @ CHR ''~'' # s)) (round_key v) = -1"
      using 1[OF ne(1) refl] by (simp add: round_key_def tw takeWhile_tilde)
    then show ?thesis by (simp only: padlex_round)
  qed
qed

lemma dpkg_key_number:
  assumes "\<forall>c\<in>set p. \<not> is_digit c"
  shows "dpkg_key (p @ show_nat n) = map dpkg_char_order p @ [0, int n]"
proof -
  obtain d ds where s: "show_nat n = d # ds" by (cases "show_nat n") auto
  have dig: "\<forall>c\<in>set (show_nat n). is_digit c" using show_nat_digits by blast
  have "takeWhile nd (p @ show_nat n) = p" "dropWhile nd (p @ show_nat n) = show_nat n"
    using assms dig s by (auto simp: takeWhile_append2 dropWhile_append2 nd_def)
  moreover have "takeWhile is_digit (show_nat n) = show_nat n" "dropWhile is_digit (show_nat n) = []"
    using dig by (blast intro: takeWhile_eq_all_conv[THEN iffD2] dropWhile_eq_Nil_conv[THEN iffD2])+
  ultimately have "round_key (p @ show_nat n) = map dpkg_char_order p @ [0, int n]"
    by (simp only: round_key_def digits_val_show_nat dpkg_key.simps[of "[]"]) simp
  then show ?thesis by (simp add: dpkg_key_round)
qed

subsection \<open>Properties\<close>

text \<open>C14: On texts without NUL bytes the comparison returns, and what it returns is a total
  preorder: the padded lexicographic order on the alternating character orders and numeric
  values of the two versions, which is reflexive, antisymmetric in its sign and transitive.\<close>

theorem dpkg_compare_str_order:
  assumes "NUL \<notin> set a" and "NUL \<notin> set b" and "NUL \<notin> set c"
  shows "\<exists>ab bc ac. dpkg_compare_str a b = Some ab \<and> dpkg_compare_str b a = Some (- ab) \<and>
    dpkg_compare_str b c = Some bc \<and> dpkg_compare_str a c = Some ac \<and>
    dpkg_compare_str a a = Some 0 \<and> ab = padlex (dpkg_key a) (dpkg_key b) \<and>
    (ab \<le> 0 \<and> bc \<le> 0 \<longrightarrow> ac \<le> 0)"
  using assms dpkg_order.cmp_swap[of b a] dpkg_order.cmp_trans[of a b c] dpkg_order.cmp_refl[of a]
  by (simp add: dpkg_compare_str_Some dpkg_cmp_def)

theorem dpkg_compare_str_order_witness:
  "\<exists>ab. dpkg_compare_str ''8.9p1'' ''8.10'' = Some ab \<and> ab = -1"
proof -
  have "padlex (dpkg_key ''8.9p1'') (dpkg_key ''8.10'') = -1"
    by (simp add: dpkg_key.simps nd_def is_digit_def digits_val_def digit_val_def)
  with dpkg_compare_str_order[of "''8.9p1''" "''8.10''" "[]"] show ?thesis by auto
qed

text \<open>The comparison follows the Debian policy where banners need it: a version followed by a
  tilde and anything sorts before the version itself, and after a common prefix without digits
  two numbers compare by their value, so that \<open>ubuntu0.9\<close> comes before \<open>ubuntu0.17\<close>.\<close>

theorem dpkg_tilde_and_numbers:
  assumes "NUL \<notin> set v" and "NUL \<notin> set s" and "\<forall>c\<in>set v. \<not> is_digit c"
  shows "dpkg_compare_str (v @ ''~'' @ s) v = Some (-1) \<and>
    dpkg_compare_str (v @ show_nat m) (v @ show_nat n) =
      Some (if m < n then -1 else if n < m then 1 else 0)"
  using assms dpkg_key_tilde[of v s]
  by (simp add: dpkg_compare_str_key dpkg_key_number show_nat_no_NUL)

theorem dpkg_tilde_and_numbers_witness:
  "dpkg_compare_str (''p'' @ ''~'' @ ''rc1'') ''p'' = Some (-1) \<and>
   dpkg_compare_str (''p'' @ show_nat 9) (''p'' @ show_nat 10) = Some (-1)"
  using dpkg_tilde_and_numbers[of "''p''" "''rc1''" 9 10] by (simp add: is_digit_def)

text \<open>C36: The comparison does not return on a NUL byte at which both texts stop comparing: with a NUL
  where a run of non-digits would start, and a NUL or the end in the other text, neither
  index moves and the outer loop runs forever.\<close>

theorem dpkg_compare_str_NUL_diverges:
  "dpkg_compare_str (NUL # s) [] = None \<and> dpkg_compare_str (NUL # s) (NUL # t) = None"
  by (simp add: dpkg_compare_str_stuck stuck_at_def)

text \<open>Reading a Debian version is the inverse of writing it: epoch, upstream version and revision
  of every version that is well formed under the Debian policy are recovered, a hyphen inside
  the upstream version or a colon after the epoch included.\<close>

theorem dpkg_parse_show:
  assumes "dpkg_wf v"
  shows "parse_dpkg_version (show_dpkg v) = v"
  using assms by (rule parse_show_dpkg)

theorem dpkg_parse_show_witness:
  "parse_dpkg_version (show_dpkg \<lparr>dv_epoch = ''1'', dv_upstream = ''8.9-p1'', dv_revision = ''3ubuntu0.10''\<rparr>) =
   \<lparr>dv_epoch = ''1'', dv_upstream = ''8.9-p1'', dv_revision = ''3ubuntu0.10''\<rparr>"
  by (rule dpkg_parse_show) (simp add: dpkg_wf_def is_digit_def)

end
