(* ===== verification/CveDb.thy ===== *)
theory CveDb
  imports Versions Dpkg Findings
begin

text \<open>
  The rest of \<open>scan/cve.cpp\<close>: the CVE database and the table of distribution backports, how the
  two files are loaded, and the matching of a detected product against them.  The globals of the
  file are the fields of the record \<open>CveState\<close>; a file is the text it holds, or \<open>None\<close> when it
  cannot be opened.  A result type \<open>option\<close> is \<open>None\<close> when the Debian comparison inside does not
  return.
\<close>

subsection \<open>Data\<close>

record CveEntry =
  ce_cve_id :: string
  ce_product :: string
  ce_version_min :: string
  ce_version_max :: string
  ce_severity :: Severity
  ce_description :: string
  ce_cvss :: double
  ce_cvss_vector :: string
  ce_remediation :: string
  ce_references :: "string list"

record DistroFix =
  df_cve :: string
  df_distro :: string
  df_release :: string
  df_package :: string
  df_fixed_version :: string
  df_status :: string

record CveState =
  cve_database :: "CveEntry list"
  distro_fix_table :: "DistroFix list"
  distro_fix_index :: "string \<Rightarrow> nat list option"

definition cve_init :: CveState where
  "cve_init = \<lparr>cve_database = [], distro_fix_table = [], distro_fix_index = Map.empty\<rparr>"

definition distro_fix_key :: "string \<Rightarrow> string \<Rightarrow> string" where
  "distro_fix_key cve distro = cve @ ''|'' @ lower distro"

subsection \<open>Loading\<close>

definition split_by_tab :: "string \<Rightarrow> string list" where
  "split_by_tab line = getlines TAB line"

definition parse_severity :: "string \<Rightarrow> Severity" where
  "parse_severity s =
     (if s = ''INFO'' then INFO
      else if s = ''LOW'' then LOW
      else if s = ''MEDIUM'' then MEDIUM
      else if s = ''HIGH'' then HIGH
      else if s = ''CRITICAL'' then CRITICAL
      else MEDIUM)"

definition parse_cvss :: "string \<Rightarrow> double" where
  "parse_cvss v =
     (if v = [] \<or> v = ''*'' then d_minus_one
      else case stod v of Inr d \<Rightarrow> d | Inl _ \<Rightarrow> d_minus_one)"

definition split_references :: "string \<Rightarrow> string list" where
  "split_references v = filter (\<lambda>r. r \<noteq> []) (getlines (CHR ''|'') v)"

definition skip_line :: "string \<Rightarrow> bool" where
  "skip_line line \<longleftrightarrow> line = [] \<or> hd line = CHR ''#''"

definition read_fix :: "string list \<Rightarrow> DistroFix" where
  "read_fix flds =
     \<lparr>df_cve = flds ! 0, df_distro = lower (flds ! 1), df_release = flds ! 2,
      df_package = flds ! 3, df_fixed_version = flds ! 4, df_status = lower (flds ! 5)\<rparr>"

definition add_fix :: "DistroFix \<Rightarrow> CveState \<Rightarrow> CveState" where
  "add_fix fix st =
     (let table = distro_fix_table st @ [fix];
          key = distro_fix_key (df_cve fix) (df_distro fix);
          old = (case distro_fix_index st key of None \<Rightarrow> [] | Some is \<Rightarrow> is)
      in st\<lparr>distro_fix_table := table,
            distro_fix_index := (distro_fix_index st)(key \<mapsto> old @ [length table - 1])\<rparr>)"

definition load_fix_line :: "CveState \<Rightarrow> string \<Rightarrow> CveState" where
  "load_fix_line st line =
     (if skip_line line then st
      else let flds = split_by_tab line
           in if length flds < 6 then st else add_fix (read_fix flds) st)"

definition load_distro_fixes :: "string option \<Rightarrow> CveState \<Rightarrow> CveState" where
  "load_distro_fixes file st =
     (case file of
        None \<Rightarrow> st
      | Some content \<Rightarrow>
          foldl load_fix_line (st\<lparr>distro_fix_table := [], distro_fix_index := Map.empty\<rparr>)
            (getlines LF content))"

definition field_or :: "string list \<Rightarrow> nat \<Rightarrow> (string \<Rightarrow> 'a) \<Rightarrow> 'a \<Rightarrow> 'a" where
  "field_or flds i f d = (if i < length flds then f (flds ! i) else d)"

definition read_entry :: "string list \<Rightarrow> CveEntry" where
  "read_entry flds =
     \<lparr>ce_cve_id = flds ! 0, ce_product = flds ! 1, ce_version_min = flds ! 2,
      ce_version_max = flds ! 3, ce_severity = parse_severity (flds ! 4),
      ce_description = flds ! 5, ce_cvss = field_or flds 6 parse_cvss d_minus_one,
      ce_cvss_vector = field_or flds 7 id [], ce_remediation = field_or flds 8 id [],
      ce_references = field_or flds 9 split_references []\<rparr>"

definition load_cve_line :: "CveState \<Rightarrow> string \<Rightarrow> CveState" where
  "load_cve_line st line =
     (if skip_line line then st
      else let flds = split_by_tab line
           in if length flds < 6 then st
              else st\<lparr>cve_database := cve_database st @ [read_entry flds]\<rparr>)"

definition load_database :: "string option \<Rightarrow> CveState \<Rightarrow> CveState" where
  "load_database file st =
     (case file of None \<Rightarrow> st | Some content \<Rightarrow> foldl load_cve_line st (getlines LF content))"

subsection \<open>Backports\<close>

record DistroTag =
  dt_distro :: string
  dt_revision :: string

definition strip_prefix :: "string \<Rightarrow> string \<Rightarrow> string" where
  "strip_prefix s p = (if has_prefix p s then drop (length p) s else s)"

definition parse_distro_tag :: "string \<Rightarrow> DistroTag" where
  "parse_distro_tag tag =
     (let l = lower tag;
          distro = (if str_contains l ''ubuntu'' then ''ubuntu''
                    else if str_contains l ''debian'' then ''debian'' else [])
      in if distro = [] then \<lparr>dt_distro = [], dt_revision = []\<rparr>
         else case (str_rfind_char tag (CHR ''(''), str_rfind_char tag (CHR '')'')) of
                (Some opn, Some cls) \<Rightarrow>
                  if cls \<le> opn + 1 then \<lparr>dt_distro = distro, dt_revision = []\<rparr>
                  else \<lparr>dt_distro = distro,
                        dt_revision = strip_prefix
                          (strip_prefix (take (cls - opn - 1) (drop (opn + 1) tag)) ''Ubuntu-'')
                          ''Debian-''\<rparr>
              | _ \<Rightarrow> \<lparr>dt_distro = distro, dt_revision = []\<rparr>)"

record BackportOutcome =
  bo_patched :: bool
  bo_release_not_affected :: bool
  bo_via :: string

definition backport_default :: BackportOutcome where
  "backport_default = \<lparr>bo_patched = False, bo_release_not_affected = False, bo_via = []\<rparr>"

definition is_released :: "DistroFix \<Rightarrow> bool" where
  "is_released fix \<longleftrightarrow>
     df_status fix = ''released'' \<or> df_status fix = ''resolved'' \<or> df_status fix = ''fixed''"

definition via_text :: "DistroTag \<Rightarrow> DistroFix \<Rightarrow> string" where
  "via_text tag fix =
     dt_distro tag @ '' '' @ df_release fix @ '': '' @ df_package fix @ '' '' @ df_fixed_version fix"

fun backport_loop ::
  "DistroFix list \<Rightarrow> DistroTag \<Rightarrow> string \<Rightarrow> nat list \<Rightarrow> BackportOutcome \<Rightarrow> BackportOutcome option" where
  "backport_loop table tag installed_full [] result = Some result"
| "backport_loop table tag installed_full (idx # idxs) result =
     (let fix = table ! idx in
      if df_status fix = ''not-affected'' then
        backport_loop table tag installed_full idxs (result\<lparr>bo_release_not_affected := True\<rparr>)
      else if \<not> is_released fix \<or> df_fixed_version fix = [] then
        backport_loop table tag installed_full idxs result
      else
        let fv = parse_dpkg_version (df_fixed_version fix);
            iv = parse_dpkg_version installed_full
        in case dpkg_compare_str (dv_upstream fv) (dv_upstream iv) of
             None \<Rightarrow> None
           | Some c \<Rightarrow>
               if c \<noteq> 0 then backport_loop table tag installed_full idxs result
               else case dpkg_compare_str (dv_revision iv) (dv_revision fv) of
                      None \<Rightarrow> None
                    | Some c2 \<Rightarrow>
                        if c2 < 0 then backport_loop table tag installed_full idxs result
                        else Some (result\<lparr>bo_patched := True, bo_via := via_text tag fix\<rparr>))"

definition check_backport :: "CveState \<Rightarrow> string \<Rightarrow> Port \<Rightarrow> BackportOutcome option" where
  "check_backport st cve_id port =
     (if p_version port = [] \<or> p_distro port = [] then Some backport_default
      else let tag = parse_distro_tag (p_distro port) in
        if dt_distro tag = [] \<or> dt_revision tag = [] then Some backport_default
        else case distro_fix_index st (distro_fix_key cve_id (dt_distro tag)) of
               None \<Rightarrow> Some backport_default
             | Some idxs \<Rightarrow>
                 backport_loop (distro_fix_table st) tag
                   (p_version port @ ''-'' @ dt_revision tag) idxs backport_default)"

subsection \<open>Matching\<close>

definition product_matches :: "string \<Rightarrow> string \<Rightarrow> bool" where
  "product_matches db_product port_product \<longleftrightarrow> lower db_product = lower port_product"

definition entry_matches :: "CveEntry \<Rightarrow> string \<Rightarrow> string \<Rightarrow> bool" where
  "entry_matches e pr version \<longleftrightarrow>
     product_matches (ce_product e) pr \<and>
     in_range version \<lparr>r_minimum = ce_version_min e, r_maximum = ce_version_max e\<rparr>"

definition lookup_step :: "string \<Rightarrow> string \<Rightarrow> string \<Rightarrow> CveEntry \<Rightarrow> string" where
  "lookup_step pr version out e =
     (if \<not> entry_matches e pr version then out
      else (if out \<noteq> [] then out @ '', '' else out) @ ce_cve_id e)"

definition cve_lookup :: "CveState \<Rightarrow> string \<Rightarrow> string \<Rightarrow> string" where
  "cve_lookup st pr version =
     (if pr = [] \<or> version = [] then []
      else foldl (lookup_step pr version) [] (cve_database st))"

record CveMatch =
  cm_cve_id :: string
  cm_product :: string
  cm_version :: string
  cm_severity :: string
  cm_description :: string
  cm_cvss :: double
  cm_cvss_vector :: string
  cm_remediation :: string
  cm_references :: "string list"

definition match_of :: "string \<Rightarrow> string \<Rightarrow> CveEntry \<Rightarrow> CveMatch" where
  "match_of pr version e =
     \<lparr>cm_cve_id = ce_cve_id e, cm_product = pr, cm_version = version,
      cm_severity = severity_to_string (ce_severity e), cm_description = ce_description e,
      cm_cvss = ce_cvss e, cm_cvss_vector = ce_cvss_vector e,
      cm_remediation = ce_remediation e, cm_references = ce_references e\<rparr>"

fun match_loop :: "string \<Rightarrow> string \<Rightarrow> string \<Rightarrow> CveEntry list \<Rightarrow> CveMatch option" where
  "match_loop cve_id pr version [] = None"
| "match_loop cve_id pr version (e # es) =
     (if cve_id \<noteq> [] \<and> ce_cve_id e \<noteq> cve_id then match_loop cve_id pr version es
      else if \<not> entry_matches e pr version then match_loop cve_id pr version es
      else Some (match_of pr version e))"

definition cve_match :: "CveState \<Rightarrow> string \<Rightarrow> string \<Rightarrow> string \<Rightarrow> CveMatch option" where
  "cve_match st cve_id pr version =
     (if pr = [] \<or> version = [] then None
      else match_loop cve_id pr version (cve_database st))"

record VerificationResult =
  vr_vulnerable :: bool
  vr_cve :: string
  vr_severity :: string
  vr_title :: string
  vr_description :: string
  vr_evidence :: string
  vr_evidence_data :: Evidence
  vr_references :: "string list"
  vr_remediation :: string
  vr_cvss :: double
  vr_cvss_vector :: string
  vr_confidence :: double
  vr_verification :: string

definition verification_default :: VerificationResult where
  "verification_default =
     \<lparr>vr_vulnerable = False, vr_cve = [], vr_severity = [], vr_title = [], vr_description = [],
      vr_evidence = [], vr_evidence_data = evidence_default, vr_references = [],
      vr_remediation = [], vr_cvss = d_minus_one, vr_cvss_vector = [], vr_confidence = d_zero,
      vr_verification = ''UNKNOWN''\<rparr>"

definition d_half :: double where
  "d_half = d_of_dec False 5 (-1)"

definition verify_version :: "CveState \<Rightarrow> string \<Rightarrow> string \<Rightarrow> string \<Rightarrow> VerificationResult" where
  "verify_version st cve_id pr version =
     (let result = verification_default\<lparr>vr_cve := cve_id, vr_verification := ''UNKNOWN''\<rparr> in
      if pr = [] \<or> version = [] then result
      else case cve_match st cve_id pr version of
             None \<Rightarrow> result\<lparr>vr_verification := ''NOT_VULNERABLE''\<rparr>
           | Some m \<Rightarrow>
               let evidence = cm_product m @ '' '' @ cm_version m in
               result\<lparr>vr_vulnerable := True, vr_cve := cm_cve_id m, vr_severity := cm_severity m,
                 vr_title := cm_cve_id m @ '': '' @ cm_description m,
                 vr_description := cm_description m, vr_evidence := evidence,
                 vr_evidence_data := \<lparr>e_type = ''version'', e_source = ''cve-database'',
                   e_value = evidence, e_details = cm_description m\<rparr>,
                 vr_cvss := cm_cvss m, vr_cvss_vector := cm_cvss_vector m,
                 vr_remediation := cm_remediation m, vr_references := cm_references m,
                 vr_confidence := d_half, vr_verification := ''VERSION_MATCH''\<rparr>)"

subsection \<open>Findings of a port\<close>

definition base_finding :: "64 word \<Rightarrow> Port \<Rightarrow> CveEntry \<Rightarrow> Finding" where
  "base_finding now port e =
     (let evidence = p_product port @ '' '' @ p_version port in
      finding_default\<lparr>f_plugin_name := ''cve-database'', f_cve_id := ce_cve_id e,
        f_title := ce_cve_id e @ '': '' @ ce_description e, f_severity := ce_severity e,
        f_timestamp := now, f_port_number := p_number port, f_service := p_service port,
        f_product := p_product port, f_version := p_version port, f_protocol := p_protocol port,
        f_scope := ''PORT'', f_evidence := evidence,
        f_evidence_data := \<lparr>e_type = ''version'', e_source = ''cve-database'',
          e_value = evidence, e_details = ce_description e\<rparr>,
        f_cvss := ce_cvss e, f_cvss_vector := ce_cvss_vector e,
        f_remediation := ce_remediation e, f_references := ce_references e\<rparr>)"

definition patched_finding :: "string \<Rightarrow> Port \<Rightarrow> CveEntry \<Rightarrow> Finding \<Rightarrow> Finding" where
  "patched_finding via port e f =
     f\<lparr>f_severity := INFO, f_confidence := C_VERIFIED, f_confidence_score := d_of_dec False 9 (-1),
       f_verification := ''NOT_VULNERABLE'',
       f_title := ce_cve_id e @ '': already patched by '' @ via,
       f_description := ''Upstream version '' @ p_version port @
         '' matches CVE range, but the installed distro package appears to include the backport fix: '' @
         via @ ''. Marking as NOT_VULNERABLE. Verify manually if the target is high-value.'',
       f_evidence_data := \<lparr>e_type = ''backport'', e_source = ''distro-fix-table'', e_value = via,
         e_details = ce_description e\<rparr>\<rparr>"

definition caveat_text :: "Port \<Rightarrow> string" where
  "caveat_text port =
     ''This finding is based on version comparison only and has not been verified against actual server behavior.'' @
     (if p_distro port \<noteq> [] then
        '' Distribution tag detected ('' @ p_distro port @
        '') which commonly backports security fixes without changing the upstream version string. Confirm against the distribution security tracker before treating this as exploitable.''
      else [])"

definition version_finding :: "Port \<Rightarrow> CveEntry \<Rightarrow> Finding \<Rightarrow> Finding" where
  "version_finding port e f =
     f\<lparr>f_confidence := C_VERSION_MATCH, f_confidence_score := d_half,
       f_verification := ''VERSION_MATCH'',
       f_description := ce_description e @ '' '' @ caveat_text port\<rparr>"

definition entry_finding :: "64 word \<Rightarrow> Port \<Rightarrow> CveEntry \<Rightarrow> BackportOutcome \<Rightarrow> Finding" where
  "entry_finding now port e backport =
     (if bo_patched backport
      then patched_finding (bo_via backport) port e (base_finding now port e)
      else version_finding port e (base_finding now port e))"

text \<open>\<open>clock n\<close> is the time read for the \<open>n\<close>-th finding of the call.\<close>

fun check_port_loop ::
  "CveState \<Rightarrow> (nat \<Rightarrow> 64 word) \<Rightarrow> Port \<Rightarrow> CveEntry list \<Rightarrow> Finding list \<Rightarrow> Finding list option" where
  "check_port_loop st clock port [] fs = Some fs"
| "check_port_loop st clock port (e # es) fs =
     (if \<not> entry_matches e (p_product port) (p_version port) then check_port_loop st clock port es fs
      else case check_backport st (ce_cve_id e) port of
             None \<Rightarrow> None
           | Some backport \<Rightarrow>
               check_port_loop st clock port es
                 (fs @ [entry_finding (clock (length fs)) port e backport]))"

definition check_port :: "CveState \<Rightarrow> (nat \<Rightarrow> 64 word) \<Rightarrow> Port \<Rightarrow> Finding list option" where
  "check_port st clock port =
     (if p_product port = [] \<or> p_version port = [] then Some []
      else check_port_loop st clock port (cve_database st) [])"

subsection \<open>The index of the backport table\<close>

definition fix_rows :: "DistroFix list \<Rightarrow> string \<Rightarrow> nat list" where
  "fix_rows table k = filter (\<lambda>i. distro_fix_key (df_cve (table ! i)) (df_distro (table ! i)) = k) [0..<length table]"

definition fix_index_ok :: "CveState \<Rightarrow> bool" where
  "fix_index_ok st \<longleftrightarrow>
     (\<forall>k. distro_fix_index st k =
        (if fix_rows (distro_fix_table st) k = [] then None else Some (fix_rows (distro_fix_table st) k)))"

lemma fix_rows_snoc:
  "fix_rows (table @ [fix]) k =
     fix_rows table k @ (if distro_fix_key (df_cve fix) (df_distro fix) = k then [length table] else [])"
proof -
  have "filter (\<lambda>i. distro_fix_key (df_cve ((table @ [fix]) ! i)) (df_distro ((table @ [fix]) ! i)) = k)
      [0..<length table] = fix_rows table k"
    unfolding fix_rows_def by (rule filter_cong) (auto simp: nth_append)
  then show ?thesis by (simp add: fix_rows_def)
qed

lemma fix_index_ok_init: "fix_index_ok (st\<lparr>distro_fix_table := [], distro_fix_index := Map.empty\<rparr>)"
  by (simp add: fix_index_ok_def fix_rows_def)

lemma fix_index_ok_add: "fix_index_ok st \<Longrightarrow> fix_index_ok (add_fix fix st)"
  by (auto simp: fix_index_ok_def add_fix_def Let_def fix_rows_snoc)

lemma fix_index_ok_fix_line: "fix_index_ok st \<Longrightarrow> fix_index_ok (load_fix_line st line)"
  by (simp add: load_fix_line_def Let_def fix_index_ok_add)

lemma fix_index_ok_fixes: "fix_index_ok st \<Longrightarrow> fix_index_ok (load_distro_fixes file st)"
proof -
  have "fix_index_ok (foldl load_fix_line st ls)" if "fix_index_ok st" for st ls
    using that by (induction ls arbitrary: st) (auto simp: fix_index_ok_fix_line)
  then show "fix_index_ok st \<Longrightarrow> ?thesis"
    by (simp add: load_distro_fixes_def fix_index_ok_init split: option.splits)
qed

lemma load_cve_line_fixes:
  "distro_fix_table (load_cve_line st line) = distro_fix_table st"
  "distro_fix_index (load_cve_line st line) = distro_fix_index st"
  by (simp_all add: load_cve_line_def Let_def)

lemma fix_index_ok_database: "fix_index_ok st \<Longrightarrow> fix_index_ok (load_database file st)"
proof -
  have "fix_index_ok (foldl load_cve_line st ls)" if "fix_index_ok st" for st ls
    using that by (induction ls arbitrary: st) (auto simp: fix_index_ok_def load_cve_line_fixes)
  then show "fix_index_ok st \<Longrightarrow> ?thesis"
    by (simp add: load_database_def split: option.splits)
qed

lemma fix_rows_mem: "i \<in> set (fix_rows table k) \<longleftrightarrow>
  i < length table \<and> distro_fix_key (df_cve (table ! i)) (df_distro (table ! i)) = k"
  by (auto simp: fix_rows_def)

lemma fix_rows_Bex:
  "(\<exists>i\<in>set (fix_rows table k). Q (table ! i)) \<longleftrightarrow>
   (\<exists>fix\<in>set table. distro_fix_key (df_cve fix) (df_distro fix) = k \<and> Q fix)"
  unfolding Bex_def fix_rows_mem by (metis in_set_conv_nth)

subsection \<open>The backport decision\<close>

text \<open>
  A row of the table covers an installed package when its tracker status says that the
  distribution shipped the fix, the upstream versions are equal under the Debian order, and
  the installed revision is not below the fixed one.
\<close>

definition fix_covers :: "string \<Rightarrow> DistroFix \<Rightarrow> bool" where
  "fix_covers installed fix \<longleftrightarrow>
     is_released fix \<and> df_fixed_version fix \<noteq> [] \<and>
     dpkg_cmp (dv_upstream (parse_dpkg_version (df_fixed_version fix)))
       (dv_upstream (parse_dpkg_version installed)) = 0 \<and>
     0 \<le> dpkg_cmp (dv_revision (parse_dpkg_version installed))
       (dv_revision (parse_dpkg_version (df_fixed_version fix)))"

definition backport_fix :: "CveState \<Rightarrow> string \<Rightarrow> Port \<Rightarrow> DistroFix \<Rightarrow> bool" where
  "backport_fix st cve port fix \<longleftrightarrow>
     fix \<in> set (distro_fix_table st) \<and> p_version port \<noteq> [] \<and>
     dt_distro (parse_distro_tag (p_distro port)) \<noteq> [] \<and>
     dt_revision (parse_distro_tag (p_distro port)) \<noteq> [] \<and>
     distro_fix_key (df_cve fix) (df_distro fix) =
       distro_fix_key cve (dt_distro (parse_distro_tag (p_distro port))) \<and>
     fix_covers (p_version port @ ''-'' @ dt_revision (parse_distro_tag (p_distro port))) fix"

definition NUL_free_port :: "Port \<Rightarrow> bool" where
  "NUL_free_port port \<longleftrightarrow> NUL \<notin> set (p_version port) \<union> set (p_distro port)"

definition NUL_free_fixes :: "CveState \<Rightarrow> bool" where
  "NUL_free_fixes st \<longleftrightarrow> (\<forall>fix\<in>set (distro_fix_table st). NUL \<notin> set (df_fixed_version fix))"

lemma backport_loop_result:
  assumes "\<forall>i\<in>set idxs. NUL \<notin> set (df_fixed_version (table ! i))" "NUL \<notin> set installed"
    "\<not> bo_patched r0"
  shows "\<exists>r. backport_loop table tag installed idxs r0 = Some r \<and>
    (bo_patched r \<longleftrightarrow> (\<exists>i\<in>set idxs. fix_covers installed (table ! i)))"
  using assms(1,3)
proof (induction idxs arbitrary: r0)
  case (Cons i idxs)
  let ?fix = "table ! i"
  let ?fv = "parse_dpkg_version (df_fixed_version ?fix)" and ?iv = "parse_dpkg_version installed"
  have nul: "NUL \<notin> set (df_fixed_version ?fix)" using Cons.prems by simp
  have cmp: "dpkg_compare_str (dv_upstream ?fv) (dv_upstream ?iv) = Some (dpkg_cmp (dv_upstream ?fv) (dv_upstream ?iv))"
    "dpkg_compare_str (dv_revision ?iv) (dv_revision ?fv) = Some (dpkg_cmp (dv_revision ?iv) (dv_revision ?fv))"
    using parse_dpkg_NUL[OF nul] parse_dpkg_NUL[OF assms(2)] by (auto intro: dpkg_compare_str_Some)
  have IH: "\<exists>r. backport_loop table tag installed idxs r' = Some r \<and>
      (bo_patched r \<longleftrightarrow> (\<exists>i\<in>set idxs. fix_covers installed (table ! i)))" if "\<not> bo_patched r'" for r'
    using Cons.IH[of r'] Cons.prems that by simp
  show ?case
  proof (cases "fix_covers installed ?fix")
    case True
    then have "df_status ?fix \<noteq> ''not-affected''" by (auto simp: fix_covers_def is_released_def)
    with True show ?thesis by (auto simp: Let_def cmp fix_covers_def)
  next
    case False
    then have "\<exists>r'. backport_loop table tag installed (i # idxs) r0 = backport_loop table tag installed idxs r' \<and>
        \<not> bo_patched r'"
      using Cons.prems(2) by (auto simp: Let_def cmp fix_covers_def)
    then obtain r' where "backport_loop table tag installed (i # idxs) r0 =
        backport_loop table tag installed idxs r'" "\<not> bo_patched r'" by blast
    with IH[of r'] False show ?thesis by simp
  qed
qed simp

lemma strip_prefix_NUL: "NUL \<notin> set s \<Longrightarrow> NUL \<notin> set (strip_prefix s p)"
  by (auto simp: strip_prefix_def dest: in_set_dropD)

lemma parse_distro_tag_NUL: "NUL \<notin> set tag \<Longrightarrow> NUL \<notin> set (dt_revision (parse_distro_tag tag))"
proof -
  assume n: "NUL \<notin> set tag"
  then have "NUL \<notin> set (take k (drop m tag))" for k m by (meson in_set_dropD in_set_takeD)
  then show ?thesis
    by (simp add: parse_distro_tag_def Let_def strip_prefix_NUL split: option.split)
qed

lemma check_backport_result:
  assumes "fix_index_ok st" "NUL_free_fixes st" "NUL_free_port port"
  shows "\<exists>r. check_backport st cve port = Some r \<and> (bo_patched r \<longleftrightarrow> (\<exists>fix. backport_fix st cve port fix))"
proof -
  let ?tag = "parse_distro_tag (p_distro port)"
  let ?rows = "fix_rows (distro_fix_table st) (distro_fix_key cve (dt_distro ?tag))"
  let ?inst = "p_version port @ ''-'' @ dt_revision ?tag"
  have tag0: "dt_distro (parse_distro_tag []) = []"
    by (simp add: parse_distro_tag_def Let_def str_contains_def str_find_def lower_def)
  show ?thesis
  proof (cases "p_version port = [] \<or> p_distro port = [] \<or> dt_distro ?tag = [] \<or> dt_revision ?tag = []")
    case True
    then show ?thesis
      using tag0 by (auto simp: check_backport_def backport_fix_def backport_default_def)
  next
    case False
    have idx: "distro_fix_index st (distro_fix_key cve (dt_distro ?tag)) = (if ?rows = [] then None else Some ?rows)"
      using assms(1) by (simp add: fix_index_ok_def)
    have "\<forall>i\<in>set ?rows. NUL \<notin> set (df_fixed_version (distro_fix_table st ! i))"
      using assms(2) by (auto simp: fix_rows_mem NUL_free_fixes_def)
    moreover have "NUL \<notin> set ?inst"
      using assms(3) by (auto simp: NUL_free_port_def dest: parse_distro_tag_NUL)
    ultimately obtain r where r: "backport_loop (distro_fix_table st) ?tag ?inst ?rows backport_default = Some r"
      "bo_patched r \<longleftrightarrow> (\<exists>i\<in>set ?rows. fix_covers ?inst (distro_fix_table st ! i))"
      using backport_loop_result[of ?rows "distro_fix_table st" ?inst backport_default ?tag]
      by (auto simp: backport_default_def)
    have cov: "(\<exists>i\<in>set ?rows. fix_covers ?inst (distro_fix_table st ! i)) \<longleftrightarrow> (\<exists>fix. backport_fix st cve port fix)"
      unfolding fix_rows_Bex using False by (auto simp: backport_fix_def)
    show ?thesis
    proof (cases "?rows = []")
      case True
      with cov False idx show ?thesis by (auto simp: check_backport_def backport_default_def)
    next
      case ne: False
      with r cov False idx show ?thesis by (simp add: check_backport_def)
    qed
  qed
qed

subsection \<open>What the matching functions agree on\<close>

definition matching :: "CveState \<Rightarrow> string \<Rightarrow> string \<Rightarrow> CveEntry list" where
  "matching st pr version =
     (if pr = [] \<or> version = [] then [] else filter (\<lambda>e. entry_matches e pr version) (cve_database st))"

lemma lookup_foldl:
  "(\<forall>e\<in>set es. ce_cve_id e \<noteq> []) \<Longrightarrow>
   foldl (lookup_step pr version) out es =
     (let ids = map ce_cve_id (filter (\<lambda>e. entry_matches e pr version) es)
      in if out = [] then join_with '', '' ids
         else join_with '', '' (out # ids))"
proof (induction es arbitrary: out)
  case (Cons e es)
  then show ?case
    by (auto simp: lookup_step_def Let_def join_with_Cons)
qed (simp add: Let_def)

lemma match_loop_find:
  "match_loop cve pr version es =
     map_option (match_of pr version)
       (find (\<lambda>e. (cve = [] \<or> ce_cve_id e = cve) \<and> entry_matches e pr version) es)"
  by (induction es) auto

lemma check_port_loop_result:
  assumes "\<And>e. e \<in> set es \<Longrightarrow> check_backport st (ce_cve_id e) port = Some (bp (ce_cve_id e))"
  shows "\<exists>gs. check_port_loop st clock port es fs = Some (fs @ gs) \<and>
    list_all2 (\<lambda>e g. \<exists>now. g = entry_finding now port e (bp (ce_cve_id e)))
      (filter (\<lambda>e. entry_matches e (p_product port) (p_version port)) es) gs"
  using assms
proof (induction es arbitrary: fs)
  case (Cons e es)
  show ?case
  proof (cases "entry_matches e (p_product port) (p_version port)")
    case True
    obtain gs where "check_port_loop st clock port es
        (fs @ [entry_finding (clock (length fs)) port e (bp (ce_cve_id e))]) =
        Some ((fs @ [entry_finding (clock (length fs)) port e (bp (ce_cve_id e))]) @ gs)"
      "list_all2 (\<lambda>e g. \<exists>now. g = entry_finding now port e (bp (ce_cve_id e)))
        (filter (\<lambda>e. entry_matches e (p_product port) (p_version port)) es) gs"
      using Cons.IH[of "fs @ [entry_finding (clock (length fs)) port e (bp (ce_cve_id e))]"] Cons.prems
      by (metis (no_types, lifting) list.set_intros(2))
    with True Cons.prems[of e] show ?thesis by auto
  next
    case False
    with Cons show ?thesis by simp
  qed
qed simp

lemma entry_finding_fields:
  "f_cve_id (entry_finding now port e r) = ce_cve_id e"
  "f_port_number (entry_finding now port e r) = p_number port"
  "f_verification (entry_finding now port e r) = (if bo_patched r then ''NOT_VULNERABLE'' else ''VERSION_MATCH'')"
  "f_severity (entry_finding now port e r) = (if bo_patched r then INFO else ce_severity e)"
  by (simp_all add: entry_finding_def patched_finding_def version_finding_def base_finding_def Let_def)

lemma entry_finding_about:
  "f_host (entry_finding now port e b) = [] \<and> f_port_number (entry_finding now port e b) = p_number port \<and>
   f_protocol (entry_finding now port e b) = p_protocol port"
  by (simp add: entry_finding_def patched_finding_def version_finding_def base_finding_def Let_def finding_default_def)

lemma check_port_loop_all:
  "check_port_loop st clock port es fs = Some gs \<Longrightarrow> \<forall>f\<in>set fs. P f \<Longrightarrow> (\<And>now e b. P (entry_finding now port e b)) \<Longrightarrow>
   \<forall>f\<in>set gs. P f"
proof (induction es arbitrary: fs)
  case (Cons e es)
  show ?case
  proof (cases "entry_matches e (p_product port) (p_version port)")
    case True
    then obtain b where "check_port_loop st clock port es (fs @ [entry_finding (clock (length fs)) port e b]) = Some gs"
      using Cons.prems(1) by (auto split: option.splits)
    then show ?thesis by (rule Cons.IH) (use Cons.prems(2,3) in auto)
  qed (use Cons in simp)
qed simp

lemma check_port_about:
  assumes "check_port st clock port = Some gs"
  shows "\<forall>f\<in>set gs. f_host f = [] \<and> f_port_number f = p_number port \<and> f_protocol f = p_protocol port"
proof (cases "p_product port = [] \<or> p_version port = []")
  case False
  then have "check_port_loop st clock port (cve_database st) [] = Some gs" using assms by (simp add: check_port_def)
  then show ?thesis by (rule check_port_loop_all) (simp_all add: entry_finding_about)
qed (use assms in \<open>simp add: check_port_def\<close>)

subsection \<open>Writing and reading the database file\<close>

text \<open>An entry as a line of the file: ten columns, the score in the text \<open>score\<close>.\<close>

definition show_entry :: "string \<Rightarrow> CveEntry \<Rightarrow> string" where
  "show_entry score e =
     join_with [TAB] [ce_cve_id e, ce_product e, ce_version_min e, ce_version_max e,
       severity_to_string (ce_severity e), ce_description e, score, ce_cvss_vector e,
       ce_remediation e, join_with ''|'' (ce_references e)]"

definition entry_wf :: "string \<Rightarrow> CveEntry \<Rightarrow> bool" where
  "entry_wf score e \<longleftrightarrow>
     (\<forall>f\<in>{ce_cve_id e, ce_product e, ce_version_min e, ce_version_max e, ce_description e, score,
          ce_cvss_vector e, ce_remediation e} \<union> set (ce_references e). TAB \<notin> set f \<and> LF \<notin> set f) \<and>
     (\<forall>r\<in>set (ce_references e). r \<noteq> [] \<and> CHR ''|'' \<notin> set r) \<and>
     ce_cve_id e \<noteq> [] \<and> hd (ce_cve_id e) \<noteq> CHR ''#'' \<and> parse_cvss score = ce_cvss e"

lemma join_with_notin: "(\<forall>f\<in>set fs. x \<notin> set f) \<Longrightarrow> x \<notin> set sep \<Longrightarrow> x \<notin> set (join_with sep fs)"
  by (induction sep fs rule: join_with.induct) auto

lemma join_with_eq_Nil: "(\<forall>f\<in>set fs. f \<noteq> []) \<Longrightarrow> join_with sep fs = [] \<longleftrightarrow> fs = []"
  by (induction sep fs rule: join_with.induct) auto

lemma split_references_join:
  assumes "\<forall>r\<in>set rs. r \<noteq> [] \<and> CHR ''|'' \<notin> set r"
  shows "split_references (join_with ''|'' rs) = rs"
proof -
  have "rs = [] \<or> last rs \<noteq> []" using assms last_in_set by blast
  then have "getlines (CHR ''|'') (join_with ''|'' rs) = rs"
    using assms by (intro getlines_join) auto
  then show ?thesis using assms by (simp add: split_references_def filter_True)
qed

lemma severity_string:
  "parse_severity (severity_to_string s) = s" "TAB \<notin> set (severity_to_string s)" "LF \<notin> set (severity_to_string s)"
  by (cases s; simp add: parse_severity_def)+

lemma load_show_entry:
  assumes "entry_wf score e"
  shows "load_cve_line st (show_entry score e) = st\<lparr>cve_database := cve_database st @ [e]\<rparr>"
proof -
  let ?refs = "join_with ''|'' (ce_references e)"
  let ?fs = "[ce_cve_id e, ce_product e, ce_version_min e, ce_version_max e,
       severity_to_string (ce_severity e), ce_description e, score, ce_cvss_vector e,
       ce_remediation e, ?refs]"
  have refs: "\<forall>r\<in>set (ce_references e). r \<noteq> [] \<and> CHR ''|'' \<notin> set r" using assms by (simp add: entry_wf_def)
  have "TAB \<notin> set ?refs" using assms by (intro join_with_notin) (auto simp: entry_wf_def)
  then have "\<forall>f\<in>set ?fs. TAB \<notin> set f" using assms by (simp add: entry_wf_def severity_string)
  then have "getlines TAB (join_with [TAB] ?fs) = (if last ?fs = [] then butlast ?fs else ?fs)"
    by (intro getlines_join_all) blast+
  then have "split_by_tab (show_entry score e) = (if ?refs = [] then butlast ?fs else ?fs)"
    unfolding split_by_tab_def show_entry_def by (simp only: last.simps list.simps if_False simp_thms if_True)
  moreover have "\<not> skip_line (show_entry score e)"
    using assms by (cases "ce_cve_id e") (auto simp: skip_line_def show_entry_def entry_wf_def)
  moreover have "?refs = [] \<Longrightarrow> ce_references e = []" using join_with_eq_Nil refs by blast
  moreover have "parse_cvss score = ce_cvss e" using assms by (simp add: entry_wf_def)
  moreover from calculation have "read_entry (split_by_tab (show_entry score e)) = e"
    by (intro CveEntry.equality)
      (auto simp: read_entry_def field_or_def severity_string split_references_join[OF refs])
  ultimately show ?thesis by (auto simp: load_cve_line_def Let_def)
qed

lemma load_show_entries:
  assumes "\<forall>(score, e)\<in>set es. entry_wf score e"
  shows "load_database (Some (unlines (map (\<lambda>(score, e). show_entry score e) es))) st =
    st\<lparr>cve_database := cve_database st @ map snd es\<rparr>"
proof -
  have "LF \<notin> set (show_entry score e)" if "entry_wf score e" for score e
  proof -
    have "LF \<notin> set (join_with ''|'' (ce_references e))"
      using that by (intro join_with_notin) (auto simp: entry_wf_def)
    with that show ?thesis by (auto simp: show_entry_def entry_wf_def severity_string)
  qed
  then have "getlines LF (unlines (map (\<lambda>(score, e). show_entry score e) es)) =
      map (\<lambda>(score, e). show_entry score e) es"
    using assms by (intro getlines_unlines) auto
  moreover have "foldl load_cve_line st (map (\<lambda>(score, e). show_entry score e) es) =
      st\<lparr>cve_database := cve_database st @ map snd es\<rparr>"
    using assms by (induction es arbitrary: st) (auto simp: load_show_entry)
  ultimately show ?thesis by (simp add: load_database_def)
qed

subsection \<open>Properties\<close>

definition sample_fix :: DistroFix where
  "sample_fix = \<lparr>df_cve = ''CVE-1'', df_distro = ''ubuntu'', df_release = ''22.04'',
     df_package = ''openssh'', df_fixed_version = ''1:8.9p1-3'', df_status = ''released''\<rparr>"

definition sample_entry :: CveEntry where
  "sample_entry = \<lparr>ce_cve_id = ''CVE-1'', ce_product = ''OpenSSH'', ce_version_min = ''8.5'',
     ce_version_max = ''9.7'', ce_severity = HIGH, ce_description = ''race'',
     ce_cvss = d_minus_one, ce_cvss_vector = [], ce_remediation = [], ce_references = [''url'']\<rparr>"

definition sample_port :: Port where
  "sample_port = port_default\<lparr>p_product := ''openssh'', p_version := ''8.9p1'',
     p_distro := ''Ubuntu (Ubuntu-4)''\<rparr>"

definition sample_state :: CveState where
  "sample_state = add_fix sample_fix (cve_init\<lparr>cve_database := [sample_entry]\<rparr>)"

lemma sample_state_facts:
  "fix_index_ok sample_state" "NUL_free_fixes sample_state" "NUL_free_port sample_port"
proof -
  have "fix_index_ok (cve_init\<lparr>cve_database := [sample_entry]\<rparr>)"
    by (simp add: fix_index_ok_def cve_init_def fix_rows_def)
  then show "fix_index_ok sample_state" unfolding sample_state_def by (rule fix_index_ok_add)
  show "NUL_free_fixes sample_state"
    by (simp add: NUL_free_fixes_def sample_state_def add_fix_def Let_def cve_init_def sample_fix_def)
  show "NUL_free_port sample_port"
    by (simp add: NUL_free_port_def sample_port_def port_default_def)
qed

text \<open>C2: The backport decision is sound and complete: on texts without NUL bytes
  \<open>check_backport\<close> returns, and it reports the package as patched exactly when the table holds a
  row for this CVE and distribution whose fix the installed package is at or beyond, by the
  Debian order, with an equal upstream version.\<close>

theorem check_backport_correct:
  assumes "fix_index_ok st" and "NUL_free_fixes st" and "NUL_free_port port"
  shows "\<exists>r. check_backport st cve port = Some r \<and>
    (bo_patched r \<longleftrightarrow> (\<exists>fix. backport_fix st cve port fix))"
  using assms by (rule check_backport_result)

theorem check_backport_correct_witness:
  "\<exists>r. check_backport sample_state ''CVE-1'' sample_port = Some r \<and>
    (bo_patched r \<longleftrightarrow> (\<exists>fix. backport_fix sample_state ''CVE-1'' sample_port fix))"
  using check_backport_correct[OF sample_state_facts] by blast

text \<open>Loading keeps the index of the backport table: after any sequence of loads of the two
  files the index of a key lists exactly the positions of the rows with this CVE and
  distribution, in increasing order, so no row is missed and no index is out of bounds.\<close>

theorem load_keeps_fix_index:
  "fix_index_ok cve_init \<and>
   (fix_index_ok st \<longrightarrow> fix_index_ok (load_distro_fixes file st) \<and> fix_index_ok (load_database file st))"
  by (simp add: fix_index_ok_fixes fix_index_ok_database)
    (simp add: fix_index_ok_def cve_init_def fix_rows_def)

theorem load_keeps_fix_index_witness:
  "fix_index_ok (load_distro_fixes (Some ''CVE-1'') cve_init)"
  using load_keeps_fix_index[of cve_init "Some ''CVE-1''"] by blast

text \<open>C3: \<open>check_port\<close> reports every matching entry of the database once, in its order, under the
  port it was asked for; an entry is downgraded to an informational \<open>NOT_VULNERABLE\<close> finding
  exactly when the distribution's fix is installed, and keeps its severity as a
  \<open>VERSION_MATCH\<close> otherwise.\<close>

theorem check_port_correct:
  assumes "fix_index_ok st" and "NUL_free_fixes st" and "NUL_free_port port"
  shows "\<exists>fs. check_port st clock port = Some fs \<and>
    map f_cve_id fs = map ce_cve_id (matching st (p_product port) (p_version port)) \<and>
    map f_severity fs = map (\<lambda>e. if \<exists>fix. backport_fix st (ce_cve_id e) port fix then INFO else ce_severity e)
      (matching st (p_product port) (p_version port)) \<and>
    map f_verification fs =
      map (\<lambda>e. if \<exists>fix. backport_fix st (ce_cve_id e) port fix then ''NOT_VULNERABLE'' else ''VERSION_MATCH'')
        (matching st (p_product port) (p_version port)) \<and>
    map f_port_number fs = replicate (length fs) (p_number port)"
proof (cases "p_product port = [] \<or> p_version port = []")
  case True
  then show ?thesis by (simp add: check_port_def matching_def)
next
  case False
  define bp where "bp = (\<lambda>cve. the (check_backport st cve port))"
  have bp: "check_backport st cve port = Some (bp cve)"
    "bo_patched (bp cve) \<longleftrightarrow> (\<exists>fix. backport_fix st cve port fix)" for cve
    using check_backport_result[OF assms, of cve] by (auto simp: bp_def)
  obtain gs where gs: "check_port st clock port = Some gs"
    and rel: "list_all2 (\<lambda>e g. \<exists>now. g = entry_finding now port e (bp (ce_cve_id e)))
      (matching st (p_product port) (p_version port)) gs"
    using check_port_loop_result[of "cve_database st" st port bp clock "[]"] bp(1) False
    by (auto simp: check_port_def matching_def)
  from rel have "map f_cve_id gs = map ce_cve_id (matching st (p_product port) (p_version port)) \<and>
    map f_severity gs = map (\<lambda>e. if bo_patched (bp (ce_cve_id e)) then INFO else ce_severity e)
      (matching st (p_product port) (p_version port)) \<and>
    map f_verification gs =
      map (\<lambda>e. if bo_patched (bp (ce_cve_id e)) then ''NOT_VULNERABLE'' else ''VERSION_MATCH'')
        (matching st (p_product port) (p_version port)) \<and>
    map f_port_number gs = replicate (length gs) (p_number port)"
    by (induction rule: list_all2_induct) (auto simp: entry_finding_fields)
  with gs show ?thesis unfolding bp(2) by blast
qed

theorem check_port_correct_witness:
  "\<exists>fs. check_port sample_state (\<lambda>n. 0) sample_port = Some fs \<and>
     map f_cve_id fs = map ce_cve_id (matching sample_state ''openssh'' ''8.9p1'')"
  using check_port_correct[OF sample_state_facts, of "\<lambda>n. 0"] by (auto simp: sample_port_def)

text \<open>The three queries that scripts use agree with each other: for a product and a version,
  \<open>verify_version\<close> says \<open>VERSION_MATCH\<close> exactly when \<open>match\<close> finds an entry and
  \<open>NOT_VULNERABLE\<close> exactly when it finds none, \<open>match\<close> without a CVE finds one exactly when
  \<open>lookup\<close> is not empty, and \<open>lookup\<close> lists the ids of all matching entries in order.\<close>

theorem cve_queries_agree:
  assumes "\<forall>e\<in>set (cve_database st). ce_cve_id e \<noteq> []" and "pr \<noteq> []" and "version \<noteq> []"
  shows "cve_lookup st pr version = join_with '', '' (map ce_cve_id (matching st pr version)) \<and>
    (cve_match st [] pr version = None \<longleftrightarrow> cve_lookup st pr version = []) \<and>
    (cve_match st cve pr version = None \<longleftrightarrow>
       \<not> (\<exists>e\<in>set (matching st pr version). cve = [] \<or> ce_cve_id e = cve)) \<and>
    vr_verification (verify_version st cve pr version) =
      (if cve_match st cve pr version = None then ''NOT_VULNERABLE'' else ''VERSION_MATCH'') \<and>
    (vr_vulnerable (verify_version st cve pr version) \<longleftrightarrow> cve_match st cve pr version \<noteq> None)"
proof (intro conjI)
  show l: "cve_lookup st pr version = join_with '', '' (map ce_cve_id (matching st pr version))"
    using assms lookup_foldl[OF assms(1), of pr version "[]"]
    by (simp add: cve_lookup_def matching_def Let_def)
  show m: "cve_match st cve pr version = None \<longleftrightarrow>
      \<not> (\<exists>e\<in>set (matching st pr version). cve = [] \<or> ce_cve_id e = cve)" for cve
    using assms by (auto simp: cve_match_def match_loop_find matching_def find_None_iff)
  have "cve_lookup st pr version = [] \<longleftrightarrow> matching st pr version = []"
    using assms(1) unfolding l by (subst join_with_eq_Nil) (auto simp: matching_def split: if_splits)
  then show "cve_match st [] pr version = None \<longleftrightarrow> cve_lookup st pr version = []"
    unfolding m[of "[]"] by (cases "matching st pr version") auto
  show "vr_verification (verify_version st cve pr version) =
      (if cve_match st cve pr version = None then ''NOT_VULNERABLE'' else ''VERSION_MATCH'')"
    "vr_vulnerable (verify_version st cve pr version) \<longleftrightarrow> cve_match st cve pr version \<noteq> None"
    using assms by (auto simp: verify_version_def Let_def verification_default_def split: option.splits)
qed

theorem cve_queries_agree_witness:
  "cve_match sample_state [] ''openssh'' ''8.9'' = None \<longleftrightarrow> cve_lookup sample_state ''openssh'' ''8.9'' = []"
proof -
  have "cve_database sample_state = [sample_entry]" by (simp add: sample_state_def add_fix_def Let_def)
  then have "\<forall>e\<in>set (cve_database sample_state). ce_cve_id e \<noteq> []" by (simp add: sample_entry_def)
  then show ?thesis by (rule cve_queries_agree[THEN conjunct2, THEN conjunct1]) simp_all
qed

text \<open>The database file is read back as it was written: loading the lines of well-formed
  entries, with all ten columns, appends exactly these entries to what was loaded before.\<close>

theorem load_database_roundtrip:
  assumes "\<forall>(score, e)\<in>set es. entry_wf score e"
  shows "load_database (Some (unlines (map (\<lambda>(score, e). show_entry score e) es))) st =
    st\<lparr>cve_database := cve_database st @ map snd es\<rparr>"
  using assms by (rule load_show_entries)

theorem load_database_roundtrip_witness:
  "load_database (Some (unlines [show_entry ''*'' sample_entry])) cve_init =
     cve_init\<lparr>cve_database := [sample_entry]\<rparr>"
  using load_database_roundtrip[of "[(''*'', sample_entry)]" cve_init]
  by (simp add: entry_wf_def sample_entry_def parse_cvss_def cve_init_def)

end
