(* ===== verification/ZtlLexer.thy ===== *)
theory ZtlLexer
  imports Decimal
begin

text \<open>
  The lexer of the plugin language: \<open>ztl/token.hpp\<close>, \<open>ztl/lexer.hpp\<close> and \<open>ztl/lexer.cpp\<close>.  The
  lexer's state is the remaining source with the current line and column; \<open>pos_ >= src_.size()\<close>
  is an empty remainder.  A thrown \<open>LexError\<close> is the left side of a sum.
\<close>

subsection \<open>Tokens\<close>

datatype TokenType =
  NUMBER | STRING | IDENT | TRUE_KW | FALSE_KW | NULL_KW
| INCLUDE_KW | IF_KW | ELSE_KW | RETURN_KW
| LPAREN | RPAREN | LBRACE | RBRACE | LBRACKET | RBRACKET
| COMMA | COLON | SCOPE | DOT | SEMICOLON | ASSIGN
| EQ | NEQ | LT | GT | LTE | GTE | BANG | AND | OR | PLUS | MINUS
| END_OF_FILE

record Token =
  t_type :: TokenType
  t_text :: string
  t_line :: int
  t_col :: int

datatype lex_error = LexError string int int

fun lex_what :: "lex_error \<Rightarrow> string" where
  "lex_what (LexError msg l c) =
     ''lex error at '' @ show_int l @ '':'' @ show_int c @ '': '' @ msg"

subsection \<open>State\<close>

record Lexer =
  lx_rest :: string
  lx_line :: int
  lx_col :: int

definition lexer_init :: "string \<Rightarrow> Lexer" where
  "lexer_init src = \<lparr>lx_rest = src, lx_line = 1, lx_col = 1\<rparr>"

definition lx_peek :: "Lexer \<Rightarrow> nat \<Rightarrow> char" where
  "lx_peek st offset = (if length (lx_rest st) \<le> offset then NUL else lx_rest st ! offset)"

text \<open>The character returned by \<open>advance\<close> is the head of the remainder before the call.\<close>

definition lx_advance :: "Lexer \<Rightarrow> Lexer" where
  "lx_advance st =
     (case lx_rest st of
        [] \<Rightarrow> st
      | c # r \<Rightarrow>
          if c = LF then \<lparr>lx_rest = r, lx_line = lx_line st + 1, lx_col = 1\<rparr>
          else \<lparr>lx_rest = r, lx_line = lx_line st, lx_col = lx_col st + 1\<rparr>)"

definition lx_match :: "Lexer \<Rightarrow> char \<Rightarrow> bool \<times> Lexer" where
  "lx_match st c = (if lx_peek st 0 = c then (True, lx_advance st) else (False, st))"

definition lx_make :: "TokenType \<Rightarrow> string \<Rightarrow> int \<Rightarrow> int \<Rightarrow> Token" where
  "lx_make t txt l c = \<lparr>t_type = t, t_text = txt, t_line = l, t_col = c\<rparr>"

lemma rest_advance [simp]: "lx_rest (lx_advance st) = tl (lx_rest st)"
  by (auto simp: lx_advance_def split: list.split)

lemma peek_0: "lx_peek st 0 = (case lx_rest st of [] \<Rightarrow> NUL | c # _ \<Rightarrow> c)"
  by (cases "lx_rest st") (auto simp: lx_peek_def)

lemma peek_nonNUL: "lx_peek st i \<noteq> NUL \<Longrightarrow> i < length (lx_rest st)"
  by (auto simp: lx_peek_def split: if_splits)

text \<open>\<open>steps st st'\<close>: from \<open>st\<close> the lexer moved to \<open>st'\<close> by advancing.\<close>

definition steps :: "Lexer \<Rightarrow> Lexer \<Rightarrow> bool" where
  "steps st st' \<longleftrightarrow> (\<exists>n \<le> length (lx_rest st). st' = (lx_advance ^^ n) st)"

lemma rest_advances: "lx_rest ((lx_advance ^^ n) st) = drop n (lx_rest st)"
  by (induction n) (simp_all add: tl_drop drop_Suc)

lemma steps_refl [simp, intro]: "steps st st"
  by (auto simp: steps_def intro: exI[of _ 0])

lemma steps_trans [trans]: "steps a b \<Longrightarrow> steps b c \<Longrightarrow> steps a c"
proof -
  assume "steps a b" "steps b c"
  then obtain m n where m: "m \<le> length (lx_rest a)" "b = (lx_advance ^^ m) a"
    and n: "n \<le> length (lx_rest b)" "c = (lx_advance ^^ n) b" by (auto simp: steps_def)
  have "c = (lx_advance ^^ (n + m)) a" by (simp add: n m funpow_add)
  moreover have "n + m \<le> length (lx_rest a)" using n(1) m by (simp add: rest_advances)
  ultimately show "steps a c" unfolding steps_def by blast
qed

lemma advance_Nil: "lx_rest st = [] \<Longrightarrow> lx_advance st = st"
  by (simp add: lx_advance_def)

lemma steps_advance: "steps st (lx_advance st)"
proof (cases "lx_rest st")
  case (Cons c r)
  then show ?thesis unfolding steps_def by (intro exI[of _ 1]) simp
qed (simp add: advance_Nil)

lemma steps_advance_left: "steps (lx_advance st) st' \<Longrightarrow> steps st st'"
  using steps_advance steps_trans by blast

lemma steps_le: "steps st st' \<Longrightarrow> length (lx_rest st') \<le> length (lx_rest st)"
  by (auto simp: steps_def rest_advances)

lemma steps_match: "steps st (snd (lx_match st c))"
  by (simp add: lx_match_def steps_advance)

subsection \<open>White space and comments\<close>

function skip_to_eol :: "Lexer \<Rightarrow> Lexer" where
  "skip_to_eol st =
     (if lx_rest st \<noteq> [] \<and> lx_peek st 0 \<noteq> LF then skip_to_eol (lx_advance st) else st)"
  by pat_completeness auto
termination
  by (relation "measure (\<lambda>st. length (lx_rest st))") auto

function skip_block :: "Lexer \<Rightarrow> Lexer" where
  "skip_block st =
     (if lx_rest st \<noteq> [] \<and> \<not> (lx_peek st 0 = CHR ''*'' \<and> lx_peek st 1 = CHR ''/'')
      then skip_block (lx_advance st)
      else if lx_rest st \<noteq> [] then lx_advance (lx_advance st)
      else st)"
  by pat_completeness auto
termination
  by (relation "measure (\<lambda>st. length (lx_rest st))") auto

declare skip_to_eol.simps [simp del] skip_block.simps [simp del]

lemma steps_skip_to_eol: "steps st (skip_to_eol st)"
proof (induction st rule: skip_to_eol.induct)
  case (1 st)
  then show ?case by (subst skip_to_eol.simps) (auto intro: steps_advance_left)
qed

lemma steps_skip_block: "steps st (skip_block st)"
proof (induction st rule: skip_block.induct)
  case (1 st)
  then show ?case
    by (subst skip_block.simps) (auto intro: steps_advance_left steps_advance)
qed

lemma skip_to_eol_less:
  "lx_rest st \<noteq> [] \<Longrightarrow> lx_peek st 0 \<noteq> LF \<Longrightarrow> length (lx_rest (skip_to_eol st)) < length (lx_rest st)"
  using steps_le[OF steps_skip_to_eol[of "lx_advance st"]]
  by (subst skip_to_eol.simps, cases "lx_rest st") auto

function skip_ws_and_comments :: "Lexer \<Rightarrow> Lexer" where
  "skip_ws_and_comments st =
     (if lx_rest st = [] then st
      else let c = lx_peek st 0 in
        if c = CHR '' '' \<or> c = TAB \<or> c = CR \<or> c = LF then skip_ws_and_comments (lx_advance st)
        else if c = CHR ''/'' \<and> lx_peek st 1 = CHR ''/'' then skip_ws_and_comments (skip_to_eol st)
        else if c = CHR ''/'' \<and> lx_peek st 1 = CHR ''*'' then
          skip_ws_and_comments (skip_block (lx_advance (lx_advance st)))
        else if c = CHR ''#'' then skip_ws_and_comments (skip_to_eol st)
        else st)"
  by pat_completeness auto
termination skip_ws_and_comments
proof (relation "measure (\<lambda>st. length (lx_rest st))", goal_cases)
  case (2 st c)
  then show ?case by simp
next
  case (3 st c)
  then show ?case using skip_to_eol_less[of st] by simp
next
  case (4 st c)
  then show ?case
    using steps_le[OF steps_skip_block[of "lx_advance (lx_advance st)"]] by (cases "lx_rest st") auto
next
  case (5 st c)
  then show ?case using skip_to_eol_less[of st] by simp
qed simp

declare skip_ws_and_comments.simps [simp del]

lemma steps_skip_ws: "steps st (skip_ws_and_comments st)"
proof (induction st rule: skip_ws_and_comments.induct)
  case (1 st)
  have eol: "steps (skip_to_eol st) st' \<Longrightarrow> steps st st'" for st'
    using steps_skip_to_eol steps_trans by blast
  have block: "steps (skip_block (lx_advance (lx_advance st))) st' \<Longrightarrow> steps st st'" for st'
    using steps_skip_block steps_trans steps_advance_left by blast
  from 1 show ?case
    by (subst skip_ws_and_comments.simps)
      (auto simp: Let_def intro: steps_advance_left eol block)
qed

subsection \<open>Literals, identifiers and keywords\<close>

text \<open>The value of a hexadecimal digit, \<open>-1\<close> for another character.\<close>

definition lx_hex :: "char \<Rightarrow> int" where
  "lx_hex c =
     (if 48 \<le> code c \<and> code c \<le> 57 then int (code c) - 48
      else if 97 \<le> code c \<and> code c \<le> 102 then 10 + int (code c) - 97
      else if 65 \<le> code c \<and> code c \<le> 70 then 10 + int (code c) - 65
      else -1)"

definition simple_escape :: "char \<Rightarrow> char" where
  "simple_escape esc =
     (if esc = CHR ''n'' then LF else if esc = CHR ''t'' then TAB
      else if esc = CHR ''r'' then CR else if esc = CHR ''0'' then NUL else esc)"

text \<open>The loop of \<open>read_string\<close> after the opening quote; \<open>l\<close> and \<open>c\<close> are where the string starts.\<close>

function string_loop :: "int \<Rightarrow> int \<Rightarrow> Lexer \<Rightarrow> string \<Rightarrow> lex_error + string \<times> Lexer" where
  "string_loop l c st out =
     (if lx_rest st = [] \<or> lx_peek st 0 = DQUOTE then Inr (out, st)
      else let ch = lx_peek st 0; st1 = lx_advance st in
        if ch = BSLASH \<and> lx_rest st1 \<noteq> [] then
          let esc = lx_peek st1 0; st2 = lx_advance st1 in
          if esc = CHR ''x'' then
            if length (lx_rest st2) \<le> 1 then Inl (LexError (''truncated '' @ [BSLASH] @ ''xHH'') l c)
            else let h = lx_hex (lx_peek st2 0); lo = lx_hex (lx_peek st2 1);
                     st3 = lx_advance (lx_advance st2)
                 in if h < 0 \<or> lo < 0 then Inl (LexError (''bad '' @ [BSLASH] @ ''xHH digits'') l c)
                    else string_loop l c st3 (out @ [char_of (nat (16 * h + lo))])
          else string_loop l c st2 (out @ [simple_escape esc])
        else string_loop l c st1 (out @ [ch]))"
  by pat_completeness auto
termination
proof (relation "measure (\<lambda>(l, c, st, out). length (lx_rest st))", goal_cases)
  case 1
  then show ?case by simp
qed (auto simp: diff_less_Suc neq_Nil_conv)

declare string_loop.simps [simp del]

lemma steps_string_loop: "string_loop l c st out = Inr (s, st') \<Longrightarrow> steps st st' \<and> (lx_rest st' = [] \<or> lx_peek st' 0 = DQUOTE)"
proof (induction "length (lx_rest st)" arbitrary: st out rule: less_induct)
  case less
  note adv = steps_advance_left
  have go: "steps st st' \<and> (lx_rest st' = [] \<or> lx_peek st' 0 = DQUOTE)"
    if "string_loop l c st1 out1 = Inr (s, st')" "steps st st1" "lx_rest st \<noteq> []"
      "length (lx_rest st1) < length (lx_rest st)" for st1 out1
    using less.hyps[OF that(4,1)] steps_trans[OF that(2)] by blast
  have one: "steps st (lx_advance st)" and two: "steps st (lx_advance (lx_advance st))"
    and four: "steps st (lx_advance (lx_advance (lx_advance (lx_advance st))))"
    by (simp_all add: adv steps_advance)
  from less.prems show ?case
    by (subst (asm) string_loop.simps)
      (auto simp: Let_def neq_Nil_conv split: if_splits dest: go[OF _ one] go[OF _ two] go[OF _ four])
qed

definition read_string :: "Lexer \<Rightarrow> lex_error + Token \<times> Lexer" where
  "read_string st =
     (case string_loop (lx_line st) (lx_col st) (lx_advance st) [] of
        Inl e \<Rightarrow> Inl e
      | Inr (out, st') \<Rightarrow>
          if lx_rest st' = [] then Inl (LexError ''unterminated string'' (lx_line st) (lx_col st))
          else Inr (lx_make STRING out (lx_line st) (lx_col st), lx_advance st'))"

function take_chars :: "(char \<Rightarrow> bool) \<Rightarrow> Lexer \<Rightarrow> string \<Rightarrow> string \<times> Lexer" where
  "take_chars p st out =
     (if lx_rest st \<noteq> [] \<and> p (lx_peek st 0)
      then take_chars p (lx_advance st) (out @ [lx_peek st 0])
      else (out, st))"
  by pat_completeness auto
termination
  by (relation "measure (\<lambda>(p, st, out). length (lx_rest st))") auto

declare take_chars.simps [simp del]

definition read_number :: "Lexer \<Rightarrow> Token \<times> Lexer" where
  "read_number st =
     (let (out, st1) = take_chars is_digit st [];
          (out', st') =
            (if lx_peek st1 0 = CHR ''.'' \<and> is_digit (lx_peek st1 1)
             then take_chars is_digit (lx_advance st1) (out @ [lx_peek st1 0])
             else (out, st1))
      in (lx_make NUMBER out' (lx_line st) (lx_col st), st'))"

definition keyword_type :: "string \<Rightarrow> TokenType" where
  "keyword_type s =
     (if s = ''include'' then INCLUDE_KW
      else if s = ''if'' then IF_KW
      else if s = ''else'' then ELSE_KW
      else if s = ''return'' then RETURN_KW
      else if s = ''true'' then TRUE_KW
      else if s = ''false'' then FALSE_KW
      else if s = ''null'' then NULL_KW
      else IDENT)"

definition ident_char :: "char \<Rightarrow> bool" where
  "ident_char c \<longleftrightarrow> is_alnum c \<or> c = CHR ''_''"

definition read_ident_or_keyword :: "Lexer \<Rightarrow> Token \<times> Lexer" where
  "read_ident_or_keyword st =
     (let (out, st') = take_chars ident_char st []
      in (lx_make (keyword_type out) out (lx_line st) (lx_col st), st'))"

text \<open>An operator that may be followed by a second character \<open>c2\<close>; \<open>st\<close> is after the first.\<close>

definition one_or_two ::
  "Lexer \<Rightarrow> char \<Rightarrow> TokenType \<Rightarrow> string \<Rightarrow> TokenType \<Rightarrow> string \<Rightarrow> int \<Rightarrow> int \<Rightarrow> lex_error + Token \<times> Lexer" where
  "one_or_two st c2 t2 s2 t1 s1 l c =
     (let (m, st') = lx_match st c2
      in Inr (if m then lx_make t2 s2 l c else lx_make t1 s1 l c, st'))"

definition two_chars ::
  "Lexer \<Rightarrow> char \<Rightarrow> TokenType \<Rightarrow> string \<Rightarrow> string \<Rightarrow> int \<Rightarrow> int \<Rightarrow> lex_error + Token \<times> Lexer" where
  "two_chars st c2 t2 s2 msg l c =
     (let (m, st') = lx_match st c2
      in if m then Inr (lx_make t2 s2 l c, st') else Inl (LexError msg l c))"

definition single_type :: "char \<Rightarrow> TokenType option" where
  "single_type ch =
     (if ch = CHR ''('' then Some LPAREN
      else if ch = CHR '')'' then Some RPAREN
      else if ch = CHR ''{'' then Some LBRACE
      else if ch = CHR ''}'' then Some RBRACE
      else if ch = CHR ''['' then Some LBRACKET
      else if ch = CHR '']'' then Some RBRACKET
      else if ch = CHR '','' then Some COMMA
      else if ch = CHR '';'' then Some SEMICOLON
      else if ch = CHR ''.'' then Some DOT
      else if ch = CHR ''+'' then Some PLUS
      else if ch = CHR ''-'' then Some MINUS
      else None)"

definition read_operator :: "Lexer \<Rightarrow> lex_error + Token \<times> Lexer" where
  "read_operator st =
     (let l = lx_line st; c = lx_col st; ch = lx_peek st 0; st1 = lx_advance st
      in case single_type ch of
           Some t \<Rightarrow> Inr (lx_make t [ch] l c, st1)
         | None \<Rightarrow>
             if ch = CHR '':'' then one_or_two st1 (CHR '':'') SCOPE ''::'' COLON '':'' l c
             else if ch = CHR ''='' then one_or_two st1 (CHR ''='') EQ ''=='' ASSIGN ''='' l c
             else if ch = CHR ''!'' then one_or_two st1 (CHR ''='') NEQ ''!='' BANG ''!'' l c
             else if ch = CHR ''<'' then one_or_two st1 (CHR ''='') LTE ''<='' LT ''<'' l c
             else if ch = CHR ''>'' then one_or_two st1 (CHR ''='') GTE ''>='' GT ''>'' l c
             else if ch = CHR ''&'' then two_chars st1 (CHR ''&'') AND ''&&'' ''expected &&'' l c
             else if ch = CHR ''|'' then two_chars st1 (CHR ''|'') OR ''||'' ''expected ||'' l c
             else Inl (LexError (''unexpected character: '' @ [CHR 0x27] @ [ch] @ [CHR 0x27]) l c))"

definition read_token :: "Lexer \<Rightarrow> lex_error + Token \<times> Lexer" where
  "read_token st =
     (let ch = lx_peek st 0
      in if ch = DQUOTE then read_string st
         else if is_digit ch then Inr (read_number st)
         else if is_alpha ch \<or> ch = CHR ''_'' then Inr (read_ident_or_keyword st)
         else read_operator st)"

lemma take_chars_eq:
  "take_chars p st out =
     (out @ takeWhile p (lx_rest st), (lx_advance ^^ length (takeWhile p (lx_rest st))) st)"
proof (induction p st out rule: take_chars.induct)
  case (1 p st out)
  then show ?case
    by (subst take_chars.simps)
      (cases "lx_rest st"; auto simp: peek_0 funpow_swap1)
qed

lemma steps_take_chars: "take_chars p st out = (s, st') \<Longrightarrow> steps st st'"
  using length_takeWhile_le[of p "lx_rest st"] by (auto simp: take_chars_eq steps_def)

lemma read_token_steps:
  assumes ne: "lx_rest st \<noteq> []" and r: "read_token st = Inr (tok, st')"
  shows "steps (lx_advance st) st' \<and> t_line tok = lx_line st \<and> t_col tok = lx_col st"
proof -
  let ?ch = "lx_peek st 0"
  obtain ch rest where rest: "lx_rest st = ch # rest" using ne by (cases "lx_rest st") auto
  then have ch: "?ch = ch" by (simp add: peek_0)
  have chars: "steps (lx_advance st) st1" if "take_chars p st out = (s, st1)" "p ch" for p out s st1
  proof -
    have "take_chars p (lx_advance st) (out @ [ch]) = (s, st1)"
      using that by (subst (asm) take_chars.simps) (simp add: rest ch)
    then show ?thesis by (rule steps_take_chars)
  qed
  consider (str) "ch = DQUOTE" | (num) "ch \<noteq> DQUOTE" "is_digit ch"
    | (id) "ch \<noteq> DQUOTE" "\<not> is_digit ch" "is_alpha ch \<or> ch = CHR ''_''"
    | (opr) "ch \<noteq> DQUOTE" "\<not> is_digit ch" "\<not> (is_alpha ch \<or> ch = CHR ''_'')" by blast
  then show ?thesis
  proof cases
    case str
    with r have "read_string st = Inr (tok, st')" by (simp add: read_token_def ch)
    then show ?thesis
      by (auto simp: read_string_def lx_make_def split: sum.splits if_splits
          dest!: steps_string_loop intro: steps_trans[OF _ steps_advance])
  next
    case num
    with r have n: "read_number st = (tok, st')" by (simp add: read_token_def ch)
    obtain out st1 where o: "take_chars is_digit st [] = (out, st1)" by fastforce
    note s1 = chars[OF o num(2)]
    show ?thesis
    proof (cases "lx_peek st1 0 = CHR ''.'' \<and> is_digit (lx_peek st1 1)")
      case True
      obtain out2 st2 where o2: "take_chars is_digit (lx_advance st1) (out @ [CHR ''.'']) = (out2, st2)"
        by fastforce
      have "steps st1 st2" using steps_take_chars[OF o2] by (rule steps_advance_left)
      with n True o o2 steps_trans[OF s1] show ?thesis by (auto simp: read_number_def lx_make_def)
    next
      case False
      with n o s1 show ?thesis by (auto simp: read_number_def lx_make_def)
    qed
  next
    case id
    obtain out st1 where o: "take_chars ident_char st [] = (out, st1)" by fastforce
    have "ident_char ch" using id by (auto simp: ident_char_def is_alnum_def)
    note chars[OF o this]
    with r id o show ?thesis by (auto simp: read_token_def ch read_ident_or_keyword_def lx_make_def)
  next
    case opr
    with r have "read_operator st = Inr (tok, st')" by (simp add: read_token_def ch)
    then show ?thesis
      using steps_match[of "lx_advance st"]
      by (auto simp: read_operator_def Let_def one_or_two_def two_chars_def lx_make_def
          split: option.splits if_splits prod.splits dest: sndI)
  qed
qed

function tokenize_loop :: "Lexer \<Rightarrow> Token list \<Rightarrow> lex_error + Token list" where
  "tokenize_loop st tokens =
     (let st1 = skip_ws_and_comments st
      in if lx_rest st1 = [] then Inr (tokens @ [lx_make END_OF_FILE [] (lx_line st1) (lx_col st1)])
         else case read_token st1 of
                Inl e \<Rightarrow> Inl e
              | Inr r \<Rightarrow> tokenize_loop (snd r) (tokens @ [fst r]))"
  by pat_completeness auto
termination
proof (relation "measure (\<lambda>(st, tokens). length (lx_rest st))", goal_cases)
  case (2 st tokens st1 r)
  obtain tok st' where r: "r = (tok, st')" by fastforce
  have "length (lx_rest st') < length (lx_rest st1)"
    using read_token_steps[of st1 tok st'] steps_le[of "lx_advance st1" st'] 2 r
    by (cases "lx_rest st1") auto
  with 2 r steps_le[OF steps_skip_ws, of st] show ?case by simp
qed simp

declare tokenize_loop.simps [simp del]

definition tokenize :: "string \<Rightarrow> lex_error + Token list" where
  "tokenize src = tokenize_loop (lexer_init src) []"

subsection \<open>Positions\<close>

definition text_line :: "string \<Rightarrow> int" where
  "text_line s = 1 + int (length (filter (\<lambda>c. c = LF) s))"

definition text_col :: "string \<Rightarrow> int" where
  "text_col s = 1 + int (length (takeWhile (\<lambda>c. c \<noteq> LF) (rev s)))"

lemma advances_position:
  "n \<le> length src \<Longrightarrow>
   (lx_advance ^^ n) (lexer_init src) =
     \<lparr>lx_rest = drop n src, lx_line = text_line (take n src), lx_col = text_col (take n src)\<rparr>"
proof (induction n)
  case 0
  then show ?case by (simp add: lexer_init_def text_line_def text_col_def)
next
  case (Suc n)
  then have n: "n < length src" by simp
  have "drop n src = src ! n # drop (Suc n) src" "take (Suc n) src = take n src @ [src ! n]"
    using n by (simp_all add: Cons_nth_drop_Suc take_Suc_conv_app_nth)
  with Suc show ?case by (simp add: lx_advance_def text_line_def text_col_def)
qed

text \<open>Token \<open>t\<close> starts at offset \<open>n\<close> of the source.\<close>

definition tok_at :: "string \<Rightarrow> Token \<Rightarrow> nat \<Rightarrow> bool" where
  "tok_at src t n \<longleftrightarrow>
     n \<le> length src \<and> t_line t = text_line (take n src) \<and> t_col t = text_col (take n src) \<and>
     (if t_type t = STRING then has_prefix [DQUOTE] (drop n src) else has_prefix (t_text t) (drop n src))"

lemma has_prefix_takeWhile: "has_prefix (takeWhile p s) s"
  by (metis has_prefix_self takeWhile_dropWhile_id)

lemma keyword_type_cases: "keyword_type s \<noteq> STRING \<and> keyword_type s \<noteq> END_OF_FILE \<and> keyword_type s \<noteq> NUMBER"
  by (simp add: keyword_type_def)

lemma single_type_cases: "single_type ch = Some t \<Longrightarrow> t \<noteq> STRING \<and> t \<noteq> END_OF_FILE \<and> t \<noteq> NUMBER"
  by (auto simp: single_type_def split: if_splits)

lemma peek_Cons: "lx_peek st 0 = c \<Longrightarrow> c \<noteq> NUL \<Longrightarrow> \<exists>r. lx_rest st = c # r"
  by (cases "lx_rest st") (auto simp: lx_peek_def)

lemma read_number_text:
  "fst (read_number st) = lx_make NUMBER
     (let ds = takeWhile is_digit (lx_rest st); r = dropWhile is_digit (lx_rest st)
      in case r of
           c # d # r' \<Rightarrow> if c = CHR ''.'' \<and> is_digit d then ds @ c # takeWhile is_digit (d # r') else ds
         | _ \<Rightarrow> ds) (lx_line st) (lx_col st)"
proof -
  have drop: "drop (length (takeWhile is_digit s)) s = dropWhile is_digit s" for s
    by (simp add: dropWhile_eq_drop)
  have r: "lx_rest ((lx_advance ^^ length (takeWhile is_digit (lx_rest st))) st) = dropWhile is_digit (lx_rest st)"
    by (simp add: rest_advances drop)
  show ?thesis
    by (cases "dropWhile is_digit (lx_rest st)"; cases "tl (dropWhile is_digit (lx_rest st))")
      (simp_all add: read_number_def take_chars_eq Let_def lx_peek_def r del: dropWhile_eq_Nil_conv)
qed

lemma read_token_text:
  assumes ne: "lx_rest st \<noteq> []" and r: "read_token st = Inr (tok, st')"
  shows "t_type tok \<noteq> END_OF_FILE \<and>
    (if t_type tok = STRING then has_prefix [DQUOTE] (lx_rest st) else has_prefix (t_text tok) (lx_rest st))"
proof -
  obtain ch rest where rest: "lx_rest st = ch # rest" using ne by (cases "lx_rest st") auto
  then have ch: "lx_peek st 0 = ch" by (simp add: peek_0)
  consider (str) "ch = DQUOTE" | (num) "ch \<noteq> DQUOTE" "is_digit ch"
    | (id) "ch \<noteq> DQUOTE" "\<not> is_digit ch" "is_alpha ch \<or> ch = CHR ''_''"
    | (opr) "ch \<noteq> DQUOTE" "\<not> is_digit ch" "\<not> (is_alpha ch \<or> ch = CHR ''_'')" by blast
  then show ?thesis
  proof cases
    case str
    with r have "read_string st = Inr (tok, st')" by (simp add: read_token_def ch)
    then have "t_type tok = STRING"
      by (auto simp: read_string_def lx_make_def split: sum.splits if_splits)
    with str rest show ?thesis by (simp add: has_prefix_def)
  next
    case num
    with r have "tok = fst (read_number st)" by (simp add: read_token_def ch)
    then have tok: "tok = lx_make NUMBER
      (let ds = takeWhile is_digit (lx_rest st); r = dropWhile is_digit (lx_rest st)
       in case r of
            c # d # r' \<Rightarrow> if c = CHR ''.'' \<and> is_digit d then ds @ c # takeWhile is_digit (d # r') else ds
          | _ \<Rightarrow> ds) (lx_line st) (lx_col st)" by (simp only: read_number_text)
    have "has_prefix (takeWhile is_digit s @ c # takeWhile is_digit r) s"
      if "dropWhile is_digit s = c # r" for s c r
    proof -
      have "s = takeWhile is_digit s @ c # takeWhile is_digit r @ dropWhile is_digit r"
            using that by (metis takeWhile_dropWhile_id)
      then show ?thesis by (metis append_Cons append_assoc has_prefix_self)
    qed
    then have "has_prefix (takeWhile is_digit (lx_rest st) @ CHR ''.'' # d # takeWhile is_digit r) (lx_rest st)"
      if "dropWhile is_digit (lx_rest st) = CHR ''.'' # d # r" "is_digit d" for d r
      using that by fastforce
    then show ?thesis
      unfolding tok using has_prefix_takeWhile[of is_digit "lx_rest st"]
      by (auto simp: lx_make_def Let_def split: list.splits if_splits)
  next
    case id
    with r have "tok = fst (read_ident_or_keyword st)" by (simp add: read_token_def ch)
    then show ?thesis
      using has_prefix_takeWhile keyword_type_cases
      by (auto simp: read_ident_or_keyword_def take_chars_eq lx_make_def)
  next
    case opr
    with r have "read_operator st = Inr (tok, st')" by (simp add: read_token_def ch)
    moreover have "lx_rest (lx_advance st) = rest" by (simp add: rest)
    ultimately show ?thesis
      using single_type_cases[of ch]
      by (auto simp: read_operator_def Let_def one_or_two_def two_chars_def lx_make_def lx_match_def
          rest ch has_prefix_def split: option.splits if_splits dest!: peek_Cons)
  qed
qed

lemma tokenize_loop_tokens:
  "tokenize_loop st acc = Inr ts \<Longrightarrow> st = (lx_advance ^^ m) (lexer_init src) \<Longrightarrow> m \<le> length src \<Longrightarrow>
   \<exists>us ns. ts = acc @ us \<and> list_all2 (tok_at src) us ns \<and> sorted_wrt (<) ns \<and> (\<forall>n\<in>set ns. m \<le> n) \<and>
     us \<noteq> [] \<and> t_type (last us) = END_OF_FILE \<and> (\<forall>u\<in>set (butlast us). t_type u \<noteq> END_OF_FILE)"
proof (induction st acc arbitrary: m rule: tokenize_loop.induct)
  case (1 st acc)
  have ex: "\<exists>n. st' = (lx_advance ^^ n) (lexer_init src) \<and> k \<le> n \<and> n \<le> length src"
    if "st0 = (lx_advance ^^ k) (lexer_init src)" "k \<le> length src" "steps st0 st'" for st0 st' k
  proof -
    from that(3) obtain i where i: "i \<le> length (lx_rest st0)" "st' = (lx_advance ^^ i) st0"
      by (auto simp: steps_def)
    have "st' = (lx_advance ^^ (i + k)) (lexer_init src)" by (simp add: i(2) that(1) funpow_add)
    moreover have "i + k \<le> length src" using i(1) that by (simp add: advances_position)
    ultimately show ?thesis by (metis le_add2)
  qed
  obtain n where n: "skip_ws_and_comments st = (lx_advance ^^ n) (lexer_init src)" "m \<le> n" "n \<le> length src"
    using ex[OF "1.prems"(2,3) steps_skip_ws] by blast
  let ?st1 = "skip_ws_and_comments st"
  have st1: "lx_rest ?st1 = drop n src" "lx_line ?st1 = text_line (take n src)" "lx_col ?st1 = text_col (take n src)"
    by (simp_all add: n advances_position)
  show ?case
  proof (cases "lx_rest ?st1 = []")
    case True
    with "1.prems"(1) have "ts = acc @ [lx_make END_OF_FILE [] (lx_line ?st1) (lx_col ?st1)]"
      by (subst (asm) tokenize_loop.simps) (simp add: Let_def)
    with n(2,3) st1 show ?thesis
      by (intro exI[of _ "[lx_make END_OF_FILE [] (lx_line ?st1) (lx_col ?st1)]"] exI[of _ "[n]"])
        (simp add: tok_at_def lx_make_def)
  next
    case False
    with "1.prems"(1) obtain tok st' where r: "read_token ?st1 = Inr (tok, st')"
      and loop: "tokenize_loop st' (acc @ [tok]) = Inr ts"
      by (subst (asm) tokenize_loop.simps) (auto simp: Let_def split: sum.splits)
    note tk = read_token_steps[OF False r] and tx = read_token_text[OF False r]
    have "n < length src" using False st1 by simp
    then have "Suc n \<le> length src" "lx_advance ?st1 = (lx_advance ^^ Suc n) (lexer_init src)" by (simp_all add: n)
    from ex[OF this(2,1)] tk obtain k where k: "st' = (lx_advance ^^ k) (lexer_init src)" "Suc n \<le> k" "k \<le> length src"
      by blast
    have "\<exists>us ns. ts = (acc @ [tok]) @ us \<and> list_all2 (tok_at src) us ns \<and> sorted_wrt (<) ns \<and>
        (\<forall>i\<in>set ns. k \<le> i) \<and> us \<noteq> [] \<and> t_type (last us) = END_OF_FILE \<and>
        (\<forall>u\<in>set (butlast us). t_type u \<noteq> END_OF_FILE)"
      using "1.IH"[OF refl False r, of k] loop k by simp
    then obtain us ns where
      us: "ts = (acc @ [tok]) @ us" "list_all2 (tok_at src) us ns" "sorted_wrt (<) ns" "\<forall>i\<in>set ns. k \<le> i"
        "us \<noteq> []" "t_type (last us) = END_OF_FILE" "\<forall>u\<in>set (butlast us). t_type u \<noteq> END_OF_FILE"
      by blast
    have "tok_at src tok n" using tk tx n(3) unfolding tok_at_def st1 by (simp split: if_splits)
    with us tx n(2) k(2) show ?thesis
      by (intro exI[of _ "tok # us"] exI[of _ "n # ns"]) force
  qed
qed

subsection \<open>String literals\<close>

definition escape_char :: "char \<Rightarrow> string" where
  "escape_char c = (if c = DQUOTE \<or> c = BSLASH then [BSLASH, c] else [c])"

definition string_literal :: "string \<Rightarrow> string" where
  "string_literal s = DQUOTE # concat (map escape_char s) @ [DQUOTE]"

lemma string_loop_literal:
  "lx_rest st = concat (map escape_char s) @ DQUOTE # r \<Longrightarrow>
   \<exists>st'. string_loop l c st out = Inr (out @ s, st') \<and> lx_rest st' = DQUOTE # r"
proof (induction s arbitrary: st out)
  case Nil
  then show ?case by (subst string_loop.simps) (simp add: peek_0)
next
  case (Cons a s)
  show ?case
  proof (cases "a = DQUOTE \<or> a = BSLASH")
    case True
    then have "simple_escape a = a" "a \<noteq> CHR ''x''" by (auto simp: simple_escape_def)
    moreover have "string_loop l c st out = string_loop l c (lx_advance (lx_advance st)) (out @ [a])"
      using Cons.prems True calculation
      by (subst string_loop.simps) (auto simp: escape_char_def peek_0)
    ultimately show ?thesis
      using Cons.IH[of "lx_advance (lx_advance st)" "out @ [a]"] Cons.prems True
      by (simp add: escape_char_def)
  next
    case False
    then have "string_loop l c st out = string_loop l c (lx_advance st) (out @ [a])"
      using Cons.prems by (subst string_loop.simps) (auto simp: escape_char_def peek_0)
    then show ?thesis
      using Cons.IH[of "lx_advance st" "out @ [a]"] Cons.prems False by (simp add: escape_char_def)
  qed
qed

lemma tokenize_literal:
  "\<exists>l c. tokenize (string_literal s) = Inr [lx_make STRING s 1 1, lx_make END_OF_FILE [] l c]"
proof -
  let ?st = "lexer_init (string_literal s)"
  have ws: "skip_ws_and_comments ?st = ?st"
    by (subst skip_ws_and_comments.simps) (simp add: lexer_init_def string_literal_def lx_peek_def Let_def)
  obtain st' where st': "string_loop 1 1 (lx_advance ?st) [] = Inr (s, st')" "lx_rest st' = [DQUOTE]"
    using string_loop_literal[of "lx_advance ?st" s "[]" 1 1 "[]"]
    by (auto simp: lexer_init_def string_literal_def)
  have rt: "read_token ?st = Inr (lx_make STRING s 1 1, lx_advance st')"
    using st' by (simp add: read_token_def read_string_def lexer_init_def string_literal_def lx_peek_def)
  have ne: "lx_rest ?st \<noteq> []" by (simp add: lexer_init_def string_literal_def)
  have "skip_ws_and_comments (lx_advance st') = lx_advance st'"
    by (subst skip_ws_and_comments.simps) (simp add: st')
  then have "tokenize_loop (lx_advance st') [lx_make STRING s 1 1] =
      Inr [lx_make STRING s 1 1, lx_make END_OF_FILE [] (lx_line (lx_advance st')) (lx_col (lx_advance st'))]"
    by (subst tokenize_loop.simps) (simp add: st' Let_def)
  then show ?thesis
    unfolding tokenize_def by (subst tokenize_loop.simps) (simp add: ws rt ne Let_def, blast)
qed

subsection \<open>Properties\<close>

text \<open>C20: A source that lexes gives tokens that lie in it in order: their offsets increase strictly,
  line and column of each are those of its offset, and the text of each is the source text
  there (a string token starts at a quote); the last token, and no other, is the end of file.\<close>

theorem tokenize_positions:
  assumes "tokenize src = Inr ts"
  shows "ts \<noteq> [] \<and> t_type (last ts) = END_OF_FILE \<and> (\<forall>t\<in>set (butlast ts). t_type t \<noteq> END_OF_FILE) \<and>
    (\<exists>ns. list_all2 (tok_at src) ts ns \<and> sorted_wrt (<) ns)"
  using tokenize_loop_tokens[of "lexer_init src" "[]" ts 0 src] assms
  by (auto simp: tokenize_def)

theorem tokenize_positions_witness:
  "\<exists>ts ns. tokenize (string_literal ''a'') = Inr ts \<and> list_all2 (tok_at (string_literal ''a'')) ts ns"
  using tokenize_literal[of "''a''"] tokenize_positions[of "string_literal ''a''"] by blast

text \<open>Every string is the value of a string literal: writing it between quotes with a backslash
  before quotes and backslashes, and lexing the result, gives one string token with exactly
  this value, whatever bytes it holds.\<close>

theorem tokenize_string_literal:
  "\<exists>l c. tokenize (string_literal s) = Inr [lx_make STRING s 1 1, lx_make END_OF_FILE [] l c]"
  by (rule tokenize_literal)

end
