(* ===== verification/ZtlParser.thy ===== *)
theory ZtlParser
  imports ZtlLexer Binary64
begin

text \<open>
  The syntax tree and the recursive-descent parser of the plugin language: \<open>ztl/ast.hpp\<close>,
  \<open>ztl/parser.hpp\<close>, \<open>ztl/parser.cpp\<close>.  The parser's state is the list of the remaining tokens
  (never empty; the last one is the end of file and is never consumed).  The mutually
  recursive functions take fuel; running out of it is \<open>None\<close>, a thrown exception is \<open>Inl\<close>.
  The lemmas show that fuel proportional to the number of tokens is always enough.

  The five binary levels of the code (\<open>parse_or\<close>, \<open>parse_and\<close>, \<open>parse_equality\<close>,
  \<open>parse_comparison\<close>, \<open>parse_additive\<close>) have the same body up to their operators and the next
  level; they are the one function \<open>parse_binary\<close> at the levels 0 to 4.
\<close>

subsection \<open>Syntax trees\<close>

datatype expr_node =
    LiteralNull
  | LiteralBool bool
  | LiteralNumber double
  | LiteralString string
  | Identifier string
  | MemberAccess expr string
  | ScopedAccess string string
  | Call expr "call_arg list" "stmt list" bool
  | UnaryOp string expr
  | BinaryOp string expr expr
and expr = Expr expr_node int int
and call_arg = CallArg string expr
and stmt_node =
    ExprStmt expr
  | AssignStmt string expr
  | IfStmt expr "stmt list" "stmt list"
  | ReturnStmt "expr option"
  | IncludeStmt string
and stmt = Stmt stmt_node int int

subsection \<open>Token stream\<close>

datatype parse_error = ParseError string int int | StodError conv_error

fun parse_what :: "parse_error \<Rightarrow> string" where
  "parse_what (ParseError msg l c) =
     ''parse error at '' @ show_int l @ '':'' @ show_int c @ '': '' @ msg"
| "parse_what (StodError e) = ''stod''"

type_synonym 'a pres = "(parse_error + 'a \<times> Token list) option"

definition ps_peek :: "Token list \<Rightarrow> nat \<Rightarrow> Token" where
  "ps_peek ts offset = (if length ts \<le> offset then last ts else ts ! offset)"

text \<open>The token returned by \<open>advance\<close> is the head of the list before the call.\<close>

definition ps_advance :: "Token list \<Rightarrow> Token list" where
  "ps_advance ts = (if 1 < length ts then tl ts else ts)"

definition ps_check :: "Token list \<Rightarrow> TokenType \<Rightarrow> bool" where
  "ps_check ts t \<longleftrightarrow> t_type (ps_peek ts 0) = t"

text \<open>\<open>match\<close> where its result is not used.\<close>

definition ps_skip :: "Token list \<Rightarrow> TokenType \<Rightarrow> Token list" where
  "ps_skip ts t = (if ps_check ts t then ps_advance ts else ts)"

definition pbind :: "'a pres \<Rightarrow> ('a \<Rightarrow> Token list \<Rightarrow> 'b pres) \<Rightarrow> 'b pres" where
  "pbind m f =
     (case m of
        None \<Rightarrow> None
      | Some (Inl e) \<Rightarrow> Some (Inl e)
      | Some (Inr (a, ts)) \<Rightarrow> f a ts)"

definition pret :: "'a \<Rightarrow> Token list \<Rightarrow> 'a pres" where
  "pret a ts = Some (Inr (a, ts))"

definition perr :: "parse_error \<Rightarrow> 'a pres" where
  "perr e = Some (Inl e)"

definition quote_char :: string where
  "quote_char = [CHR 0x27]"

definition ps_expect :: "TokenType \<Rightarrow> string \<Rightarrow> Token list \<Rightarrow> Token pres" where
  "ps_expect t what ts =
     (if \<not> ps_check ts t then
        perr (ParseError (''expected '' @ what @ '', got '' @ quote_char @ t_text (ps_peek ts 0) @ quote_char)
          (t_line (ps_peek ts 0)) (t_col (ps_peek ts 0)))
      else pret (ps_peek ts 0) (ps_advance ts))"

subsection \<open>The parser\<close>

definition parse_include :: "Token list \<Rightarrow> stmt pres" where
  "parse_include ts =
     (let kw = ps_peek ts 0 in
      pbind (ps_expect LPAREN (quote_char @ ''('' @ quote_char @ '' after include'') (ps_advance ts)) (\<lambda>_ ts.
      pbind (ps_expect STRING ''module name string'' ts) (\<lambda>s ts.
      pbind (ps_expect RPAREN (quote_char @ '')'' @ quote_char @ '' after include argument'') ts) (\<lambda>_ ts.
      pret (Stmt (IncludeStmt (t_text s)) (t_line kw) (t_col kw)) (ps_skip ts SEMICOLON)))))"

definition level_ops :: "nat \<Rightarrow> TokenType list" where
  "level_ops lvl =
     (if lvl = 0 then [OR]
      else if lvl = 1 then [AND]
      else if lvl = 2 then [EQ, NEQ]
      else if lvl = 3 then [LT, GT, LTE, GTE]
      else [PLUS, MINUS])"

definition parse_literal :: "Token \<Rightarrow> (parse_error + expr_node) option" where
  "parse_literal t =
     (if t_type t = NUMBER then
        Some (case stod (t_text t) of Inl e \<Rightarrow> Inl (StodError e) | Inr d \<Rightarrow> Inr (LiteralNumber d))
      else if t_type t = STRING then Some (Inr (LiteralString (t_text t)))
      else if t_type t = TRUE_KW then Some (Inr (LiteralBool True))
      else if t_type t = FALSE_KW then Some (Inr (LiteralBool False))
      else if t_type t = NULL_KW then Some (Inr LiteralNull)
      else None)"

definition parse_name :: "Token list \<Rightarrow> expr pres" where
  "parse_name ts =
     (let i = ps_peek ts 0; ts1 = ps_advance ts
      in if ps_check ts1 SCOPE then
           pbind (ps_expect IDENT (''name after '' @ quote_char @ ''::'' @ quote_char) (ps_advance ts1)) (\<lambda>name ts2.
             pret (Expr (ScopedAccess (t_text i) (t_text name)) (t_line i) (t_col i)) ts2)
         else pret (Expr (Identifier (t_text i)) (t_line i) (t_col i)) ts1)"

text \<open>
  The functions call each other; each is written over the record \<open>p\<close> of the functions with one
  unit of fuel less, and \<open>parsers\<close> ties the knot.
\<close>

record Parsers =
  p_statement :: "Token list \<Rightarrow> stmt pres"
  p_if :: "Token list \<Rightarrow> stmt pres"
  p_return :: "Token list \<Rightarrow> stmt pres"
  p_block :: "Token list \<Rightarrow> stmt list pres"
  p_block_loop :: "Token list \<Rightarrow> stmt list \<Rightarrow> stmt list pres"
  p_binary :: "nat \<Rightarrow> Token list \<Rightarrow> expr pres"
  p_binary_loop :: "nat \<Rightarrow> expr \<Rightarrow> Token list \<Rightarrow> expr pres"
  p_unary :: "Token list \<Rightarrow> expr pres"
  p_call_args :: "Token list \<Rightarrow> call_arg list pres"
  p_args_loop :: "Token list \<Rightarrow> call_arg list \<Rightarrow> call_arg list pres"
  p_postfix_loop :: "expr \<Rightarrow> Token list \<Rightarrow> expr pres"
  p_primary :: "Token list \<Rightarrow> expr pres"

definition parse_statement :: "Parsers \<Rightarrow> Token list \<Rightarrow> stmt pres" where
  "parse_statement p ts =
     (if ps_check ts INCLUDE_KW then parse_include ts
      else if ps_check ts IF_KW then p_if p ts
      else if ps_check ts RETURN_KW then p_return p ts
      else if ps_check ts IDENT \<and> t_type (ps_peek ts 1) = ASSIGN then
        let i = ps_peek ts 0 in
        pbind (p_binary p 0 (ps_advance (ps_advance ts))) (\<lambda>v ts1.
          pret (Stmt (AssignStmt (t_text i) v) (t_line i) (t_col i)) (ps_skip ts1 SEMICOLON))
      else
        pbind (p_binary p 0 ts) (\<lambda>e ts1.
          pret (Stmt (ExprStmt e) (t_line (ps_peek ts 0)) (t_col (ps_peek ts 0))) (ps_skip ts1 SEMICOLON)))"

definition parse_if :: "Parsers \<Rightarrow> Token list \<Rightarrow> stmt pres" where
  "parse_if p ts =
     (let kw = ps_peek ts 0 in
      pbind (ps_expect LPAREN (quote_char @ ''('' @ quote_char @ '' after if'') (ps_advance ts)) (\<lambda>_ ts1.
      pbind (p_binary p 0 ts1) (\<lambda>cond ts2.
      pbind (ps_expect RPAREN (quote_char @ '')'' @ quote_char @ '' after if condition'') ts2) (\<lambda>_ ts3.
      pbind (p_block p ts3) (\<lambda>thn ts4.
      if ps_check ts4 ELSE_KW then
        let ts5 = ps_advance ts4 in
        if ps_check ts5 IF_KW then
          pbind (p_if p ts5) (\<lambda>s ts6.
            pret (Stmt (IfStmt cond thn [s]) (t_line kw) (t_col kw)) ts6)
        else
          pbind (p_block p ts5) (\<lambda>els ts6.
            pret (Stmt (IfStmt cond thn els) (t_line kw) (t_col kw)) ts6)
      else pret (Stmt (IfStmt cond thn []) (t_line kw) (t_col kw)) ts4)))))"

definition parse_return :: "Parsers \<Rightarrow> Token list \<Rightarrow> stmt pres" where
  "parse_return p ts =
     (let kw = ps_peek ts 0; ts1 = ps_advance ts in
      if \<not> ps_check ts1 SEMICOLON \<and> \<not> ps_check ts1 RBRACE \<and> \<not> ps_check ts1 END_OF_FILE then
        pbind (p_binary p 0 ts1) (\<lambda>v ts2.
          pret (Stmt (ReturnStmt (Some v)) (t_line kw) (t_col kw)) (ps_skip ts2 SEMICOLON))
      else pret (Stmt (ReturnStmt None) (t_line kw) (t_col kw)) (ps_skip ts1 SEMICOLON))"

definition parse_block :: "Parsers \<Rightarrow> Token list \<Rightarrow> stmt list pres" where
  "parse_block p ts =
     pbind (ps_expect LBRACE (quote_char @ ''{'' @ quote_char) ts) (\<lambda>_ ts1.
     pbind (p_block_loop p ts1 []) (\<lambda>stmts ts2.
     pbind (ps_expect RBRACE (quote_char @ ''}'' @ quote_char) ts2) (\<lambda>_ ts3.
     pret stmts ts3)))"

definition block_loop :: "Parsers \<Rightarrow> Token list \<Rightarrow> stmt list \<Rightarrow> stmt list pres" where
  "block_loop p ts acc =
     (if \<not> ps_check ts RBRACE \<and> \<not> ps_check ts END_OF_FILE then
        pbind (p_statement p ts) (\<lambda>s ts1. p_block_loop p ts1 (acc @ [s]))
      else pret acc ts)"

definition parse_binary :: "Parsers \<Rightarrow> nat \<Rightarrow> Token list \<Rightarrow> expr pres" where
  "parse_binary p lvl ts =
     (if 5 \<le> lvl then p_unary p ts
      else pbind (p_binary p (Suc lvl) ts) (\<lambda>lhs ts1. p_binary_loop p lvl lhs ts1))"

definition binary_loop :: "Parsers \<Rightarrow> nat \<Rightarrow> expr \<Rightarrow> Token list \<Rightarrow> expr pres" where
  "binary_loop p lvl lhs ts =
     (if t_type (ps_peek ts 0) \<in> set (level_ops lvl) then
        let oper = ps_peek ts 0 in
        pbind (p_binary p (Suc lvl) (ps_advance ts)) (\<lambda>rhs ts1.
          p_binary_loop p lvl (Expr (BinaryOp (t_text oper) lhs rhs) (t_line oper) (t_col oper)) ts1)
      else pret lhs ts)"

definition parse_unary :: "Parsers \<Rightarrow> Token list \<Rightarrow> expr pres" where
  "parse_unary p ts =
     (if ps_check ts BANG \<or> ps_check ts MINUS then
        let oper = ps_peek ts 0 in
        pbind (p_unary p (ps_advance ts)) (\<lambda>e ts1.
          pret (Expr (UnaryOp (t_text oper) e) (t_line oper) (t_col oper)) ts1)
      else pbind (p_primary p ts) (\<lambda>node ts1. p_postfix_loop p node ts1))"

definition parse_call_args :: "Parsers \<Rightarrow> Token list \<Rightarrow> call_arg list pres" where
  "parse_call_args p ts =
     pbind (ps_expect LPAREN (quote_char @ ''('' @ quote_char) ts) (\<lambda>_ ts1.
     pbind (p_args_loop p ts1 []) (\<lambda>args ts2.
     pbind (ps_expect RPAREN (quote_char @ '')'' @ quote_char) ts2) (\<lambda>_ ts3.
     pret args ts3)))"

definition args_loop :: "Parsers \<Rightarrow> Token list \<Rightarrow> call_arg list \<Rightarrow> call_arg list pres" where
  "args_loop p ts acc =
     (if \<not> ps_check ts RPAREN \<and> \<not> ps_check ts END_OF_FILE then
        let named = (ps_check ts IDENT \<and> t_type (ps_peek ts 1) = COLON);
            name = (if named then t_text (ps_peek ts 0) else []);
            ts0 = (if named then ps_advance (ps_advance ts) else ts)
        in pbind (p_binary p 0 ts0) (\<lambda>v ts1.
             if ps_check ts1 COMMA then p_args_loop p (ps_advance ts1) (acc @ [CallArg name v])
             else pret (acc @ [CallArg name v]) ts1)
      else pret acc ts)"

definition postfix_loop :: "Parsers \<Rightarrow> expr \<Rightarrow> Token list \<Rightarrow> expr pres" where
  "postfix_loop p node ts =
     (let tok = ps_peek ts 0 in
      if ps_check ts DOT then
        pbind (ps_expect IDENT (''member name after '' @ quote_char @ ''.'' @ quote_char) (ps_advance ts)) (\<lambda>name ts1.
          p_postfix_loop p (Expr (MemberAccess node (t_text name)) (t_line tok) (t_col tok)) ts1)
      else if ps_check ts LPAREN then
        pbind (p_call_args p ts) (\<lambda>args ts1.
          if ps_check ts1 LBRACE then
            pbind (p_block p ts1) (\<lambda>blk ts2.
              p_postfix_loop p (Expr (Call node args blk True) (t_line tok) (t_col tok)) ts2)
          else p_postfix_loop p (Expr (Call node args [] False) (t_line tok) (t_col tok)) ts1)
      else if ps_check ts LBRACE then
        pbind (p_block p ts) (\<lambda>blk ts1.
          p_postfix_loop p (Expr (Call node [] blk True) (t_line tok) (t_col tok)) ts1)
      else pret node ts)"

definition parse_primary :: "Parsers \<Rightarrow> Token list \<Rightarrow> expr pres" where
  "parse_primary p ts =
     (let t = ps_peek ts 0 in
      case parse_literal t of
        Some (Inl e) \<Rightarrow> perr e
      | Some (Inr lit) \<Rightarrow> pret (Expr lit (t_line t) (t_col t)) (ps_advance ts)
      | None \<Rightarrow>
          if ps_check ts IDENT then parse_name ts
          else if ps_check ts LPAREN then
            pbind (p_binary p 0 (ps_advance ts)) (\<lambda>e ts1.
            pbind (ps_expect RPAREN (quote_char @ '')'' @ quote_char) ts1) (\<lambda>_ ts2.
            pret e ts2))
          else perr (ParseError (''unexpected token '' @ quote_char @ t_text t @ quote_char) (t_line t) (t_col t)))"

primrec parsers :: "nat \<Rightarrow> Parsers" where
  "parsers 0 =
     \<lparr>p_statement = \<lambda>ts. None, p_if = \<lambda>ts. None, p_return = \<lambda>ts. None, p_block = \<lambda>ts. None,
      p_block_loop = \<lambda>ts acc. None, p_binary = \<lambda>lvl ts. None, p_binary_loop = \<lambda>lvl lhs ts. None,
      p_unary = \<lambda>ts. None, p_call_args = \<lambda>ts. None, p_args_loop = \<lambda>ts acc. None,
      p_postfix_loop = \<lambda>node ts. None, p_primary = \<lambda>ts. None\<rparr>"
| "parsers (Suc n) =
     \<lparr>p_statement = parse_statement (parsers n), p_if = parse_if (parsers n),
      p_return = parse_return (parsers n), p_block = parse_block (parsers n),
      p_block_loop = block_loop (parsers n), p_binary = parse_binary (parsers n),
      p_binary_loop = binary_loop (parsers n), p_unary = parse_unary (parsers n),
      p_call_args = parse_call_args (parsers n), p_args_loop = args_loop (parsers n),
      p_postfix_loop = postfix_loop (parsers n), p_primary = parse_primary (parsers n)\<rparr>"

fun program_loop :: "nat \<Rightarrow> Token list \<Rightarrow> stmt list \<Rightarrow> stmt list pres" where
  "program_loop 0 ts acc = None"
| "program_loop (Suc n) ts acc =
     (if \<not> ps_check ts END_OF_FILE then
        pbind (p_statement (parsers n) ts) (\<lambda>s ts1. program_loop n ts1 (acc @ [s]))
      else pret acc ts)"

definition parse_fuel :: "Token list \<Rightarrow> nat" where
  "parse_fuel ts = 16 * length ts + 16"

text \<open>\<open>parse_program\<close>: the statements of the program, or the exception.\<close>

definition parse_program :: "Token list \<Rightarrow> (parse_error + stmt list) option" where
  "parse_program ts =
     (case program_loop (parse_fuel ts) ts [] of
        None \<Rightarrow> None
      | Some (Inl e) \<Rightarrow> Some (Inl e)
      | Some (Inr (p, _)) \<Rightarrow> Some (Inr p))"

subsection \<open>The parser always returns\<close>

text \<open>What the lexer delivers: a nonempty list that ends with the end of file.\<close>

definition toks_ok :: "Token list \<Rightarrow> bool" where
  "toks_ok ts \<longleftrightarrow> ts \<noteq> [] \<and> t_type (last ts) = END_OF_FILE"

text \<open>\<open>yields m r\<close>: there is a result, and after a success fewer than \<open>m\<close> tokens remain.\<close>

definition yields :: "nat \<Rightarrow> 'a pres \<Rightarrow> bool" where
  "yields m r \<longleftrightarrow> r \<noteq> None \<and> (\<forall>a ts. r = Some (Inr (a, ts)) \<longrightarrow> toks_ok ts \<and> length ts < m)"

lemma peek_0_hd: "ts \<noteq> [] \<Longrightarrow> ps_peek ts 0 = hd ts"
  by (cases ts) (auto simp: ps_peek_def)

lemma check_long: "toks_ok ts \<Longrightarrow> t_type (ps_peek ts 0) \<noteq> END_OF_FILE \<Longrightarrow> 2 \<le> length ts"
  by (cases ts; cases "tl ts") (auto simp: toks_ok_def ps_peek_def)

lemma advance_ok: "toks_ok ts \<Longrightarrow> toks_ok (ps_advance ts)"
  by (cases ts; cases "tl ts") (auto simp: toks_ok_def ps_advance_def)

lemma length_advance: "2 \<le> length ts \<Longrightarrow> length (ps_advance ts) = length ts - 1"
  by (simp add: ps_advance_def)

lemma length_advance_le: "length (ps_advance ts) \<le> length ts"
  by (simp add: ps_advance_def)

lemma skip_ok: "toks_ok ts \<Longrightarrow> toks_ok (ps_skip ts t)"
  by (simp add: ps_skip_def advance_ok)

lemma length_skip_le: "length (ps_skip ts t) \<le> length ts"
  by (simp add: ps_skip_def length_advance_le)

lemma yields_pbind:
  "yields k m \<Longrightarrow> (\<And>a ts. toks_ok ts \<Longrightarrow> length ts < k \<Longrightarrow> yields j (f a ts)) \<Longrightarrow> yields j (pbind m f)"
  by (auto simp: yields_def pbind_def split: option.splits sum.splits)

lemma yields_pret: "toks_ok ts \<Longrightarrow> length ts < m \<Longrightarrow> yields m (pret a ts)"
  by (simp add: yields_def pret_def)

lemma yields_perr: "yields m (perr e)"
  by (simp add: yields_def perr_def)

lemma yields_skip: "toks_ok ts \<Longrightarrow> length ts < m \<Longrightarrow> yields m (pret a (ps_skip ts t))"
  using length_skip_le[of ts t] by (intro yields_pret skip_ok) auto

lemma yields_mono: "yields k r \<Longrightarrow> k \<le> m \<Longrightarrow> yields m r"
  by (auto simp: yields_def)

lemma yields_expect:
  "toks_ok ts \<Longrightarrow> t \<noteq> END_OF_FILE \<Longrightarrow> length ts \<le> m \<Longrightarrow> yields m (ps_expect t what ts)"
proof -
  assume ok: "toks_ok ts" and t: "t \<noteq> END_OF_FILE" and m: "length ts \<le> m"
  show "yields m (ps_expect t what ts)"
  proof (cases "ps_check ts t")
    case True
    then have "2 \<le> length ts" using ok t by (intro check_long) (auto simp: ps_check_def)
    with True ok m show ?thesis
      by (simp add: ps_expect_def) (intro yields_pret advance_ok; simp add: length_advance)
  qed (simp add: ps_expect_def yields_perr)
qed

text \<open>The fuel that each function needs on \<open>ts\<close>, and what remains after it.\<close>

definition terminating :: "nat \<Rightarrow> Parsers \<Rightarrow> bool" where
  "terminating n p \<longleftrightarrow>
     (\<forall>ts. toks_ok ts \<longrightarrow>
        (16 * length ts + 10 \<le> n \<longrightarrow> yields (length ts) (p_statement p ts)) \<and>
        (16 * length ts + 1 \<le> n \<longrightarrow> 2 \<le> length ts \<longrightarrow> yields (length ts) (p_if p ts)) \<and>
        (16 * length ts + 1 \<le> n \<longrightarrow> 2 \<le> length ts \<longrightarrow> yields (length ts) (p_return p ts)) \<and>
        (16 * length ts + 1 \<le> n \<longrightarrow> yields (length ts) (p_block p ts)) \<and>
        (16 * length ts + 11 \<le> n \<longrightarrow> (\<forall>acc. yields (Suc (length ts)) (p_block_loop p ts acc))) \<and>
        (\<forall>lvl. 16 * length ts + 4 + (5 - lvl) \<le> n \<longrightarrow> yields (length ts) (p_binary p lvl ts)) \<and>
        (16 * length ts + 1 \<le> n \<longrightarrow> (\<forall>lvl e. yields (Suc (length ts)) (p_binary_loop p lvl e ts))) \<and>
        (16 * length ts + 3 \<le> n \<longrightarrow> yields (length ts) (p_unary p ts)) \<and>
        (16 * length ts + 1 \<le> n \<longrightarrow> yields (length ts) (p_call_args p ts)) \<and>
        (16 * length ts + 10 \<le> n \<longrightarrow> (\<forall>acc. yields (Suc (length ts)) (p_args_loop p ts acc))) \<and>
        (16 * length ts + 2 \<le> n \<longrightarrow> (\<forall>e. yields (Suc (length ts)) (p_postfix_loop p e ts))) \<and>
        (16 * length ts + 1 \<le> n \<longrightarrow> yields (length ts) (p_primary p ts)))"

lemma terminatingD:
  assumes "terminating n p" "toks_ok ts"
  shows "16 * length ts + 10 \<le> n \<Longrightarrow> length ts \<le> m \<Longrightarrow> yields m (p_statement p ts)"
    and "16 * length ts + 1 \<le> n \<Longrightarrow> 2 \<le> length ts \<Longrightarrow> length ts \<le> m \<Longrightarrow> yields m (p_if p ts)"
    and "16 * length ts + 1 \<le> n \<Longrightarrow> 2 \<le> length ts \<Longrightarrow> length ts \<le> m \<Longrightarrow> yields m (p_return p ts)"
    and "16 * length ts + 1 \<le> n \<Longrightarrow> length ts \<le> m \<Longrightarrow> yields m (p_block p ts)"
    and "16 * length ts + 11 \<le> n \<Longrightarrow> length ts < m \<Longrightarrow> yields m (p_block_loop p ts acc)"
    and "16 * length ts + 4 + (5 - lvl) \<le> n \<Longrightarrow> length ts \<le> m \<Longrightarrow> yields m (p_binary p lvl ts)"
    and "16 * length ts + 1 \<le> n \<Longrightarrow> length ts < m \<Longrightarrow> yields m (p_binary_loop p lvl e ts)"
    and "16 * length ts + 3 \<le> n \<Longrightarrow> length ts \<le> m \<Longrightarrow> yields m (p_unary p ts)"
    and "16 * length ts + 1 \<le> n \<Longrightarrow> length ts \<le> m \<Longrightarrow> yields m (p_call_args p ts)"
    and "16 * length ts + 10 \<le> n \<Longrightarrow> length ts < m \<Longrightarrow> yields m (p_args_loop p ts cs)"
    and "16 * length ts + 2 \<le> n \<Longrightarrow> length ts < m \<Longrightarrow> yields m (p_postfix_loop p e ts)"
    and "16 * length ts + 1 \<le> n \<Longrightarrow> length ts \<le> m \<Longrightarrow> yields m (p_primary p ts)"
  using assms unfolding terminating_def by (meson yields_mono Suc_leI)+

lemmas yields_intros = yields_pbind yields_pret yields_perr yields_skip yields_expect

lemma yields_include:
  assumes "toks_ok ts" "2 \<le> length ts"
  shows "yields (length ts) (parse_include ts)"
  unfolding parse_include_def Let_def using assms advance_ok[of ts] length_advance[of ts]
  by (intro yields_pbind[OF yields_expect[OF _ _ order_refl]] yields_skip) auto

lemma yields_block:
  assumes p: "terminating n p" and ts: "toks_ok ts" "16 * length ts + 1 \<le> Suc n"
  shows "yields (length ts) (parse_block p ts)"
  unfolding parse_block_def using ts
  by (intro yields_pbind[OF yields_expect[OF _ _ order_refl]]
        yields_pbind[OF terminatingD(5)[OF p _ _ lessI]] yields_pret) auto

lemma yields_call_args:
  assumes p: "terminating n p" and ts: "toks_ok ts" "16 * length ts + 1 \<le> Suc n"
  shows "yields (length ts) (parse_call_args p ts)"
  unfolding parse_call_args_def using ts
  by (intro yields_pbind[OF yields_expect[OF _ _ order_refl]]
        yields_pbind[OF terminatingD(10)[OF p _ _ lessI]] yields_pret) auto

lemma check_not_eof: "ps_check ts t \<Longrightarrow> toks_ok ts \<Longrightarrow> t \<noteq> END_OF_FILE \<Longrightarrow> 2 \<le> length ts"
  using check_long[of ts] by (auto simp: ps_check_def)

lemma check_advance:
  "ps_check ts t \<Longrightarrow> toks_ok ts \<Longrightarrow> t \<noteq> END_OF_FILE \<Longrightarrow>
     toks_ok (ps_advance ts) \<and> length (ps_advance ts) < length ts"
  using check_not_eof[of ts t] advance_ok[of ts] length_advance[of ts] by auto

lemma yields_statement:
  assumes p: "terminating n p" and ts: "toks_ok ts" "16 * length ts + 10 \<le> Suc n"
  shows "yields (length ts) (parse_statement p ts)"
proof -
  have a2: "toks_ok (ps_advance (ps_advance ts))" "length (ps_advance (ps_advance ts)) \<le> length ts"
    by (rule advance_ok[OF advance_ok[OF ts(1)]], rule order_trans[OF length_advance_le length_advance_le])
  show ?thesis
    unfolding parse_statement_def Let_def
    using ts a2 check_not_eof[OF _ ts(1)] length_advance_le[of ts]
    by (auto intro!: yields_include terminatingD(2,3)[OF p] yields_pbind[OF terminatingD(6)[OF p _ _ order_refl]]
        yields_skip)
qed

lemma yields_else:
  assumes p: "terminating n p" and ts: "toks_ok ts4" "length ts4 < m" "16 * length ts4 + 1 \<le> Suc n"
  shows "yields m (if ps_check ts4 ELSE_KW then
        let ts5 = ps_advance ts4 in
        if ps_check ts5 IF_KW then pbind (p_if p ts5) (\<lambda>s ts6. pret (f s) ts6)
        else pbind (p_block p ts5) (\<lambda>els ts6. pret (g els) ts6)
      else pret h ts4)"
proof (cases "ps_check ts4 ELSE_KW")
  case True
  let ?ts5 = "ps_advance ts4"
  have a: "toks_ok ?ts5" "length ?ts5 < length ts4" using check_advance[OF True ts(1)] by simp_all
  have "yields m (pbind (p_if p ?ts5) (\<lambda>s ts6. pret (f s) ts6))" if "ps_check ?ts5 IF_KW"
    using a ts check_not_eof[OF that a(1)]
    by (intro yields_pbind[OF terminatingD(2)[OF p _ _ _ order_refl]] yields_pret) auto
  moreover have "yields m (pbind (p_block p ?ts5) (\<lambda>els ts6. pret (g els) ts6))"
    using a ts by (intro yields_pbind[OF terminatingD(4)[OF p _ _ order_refl]] yields_pret) auto
  ultimately show ?thesis using True by (simp add: Let_def)
next
  case False
  with ts show ?thesis by (simp add: yields_pret)
qed

lemma yields_if:
  assumes p: "terminating n p" and ts: "toks_ok ts" "2 \<le> length ts" "16 * length ts + 1 \<le> Suc n"
  shows "yields (length ts) (parse_if p ts)"
proof -
  have a: "toks_ok (ps_advance ts)" "length (ps_advance ts) < length ts"
    using ts advance_ok length_advance by auto
  show ?thesis
    unfolding parse_if_def Let_def[of "ps_peek ts 0"] using a ts(3)
    by (intro yields_pbind[OF yields_expect[OF _ _ order_refl]]
        yields_pbind[OF terminatingD(6)[OF p _ _ order_refl]]
        yields_pbind[OF terminatingD(4)[OF p _ _ order_refl]] yields_else[OF p]) auto
qed

lemma yields_return:
  assumes p: "terminating n p" and ts: "toks_ok ts" "2 \<le> length ts" "16 * length ts + 1 \<le> Suc n"
  shows "yields (length ts) (parse_return p ts)"
  unfolding parse_return_def Let_def using ts advance_ok[of ts] length_advance[of ts]
  by (auto intro!: yields_skip yields_pbind[OF terminatingD(6)[OF p _ _ order_refl]])

lemma yields_block_loop:
  assumes p: "terminating n p" and ts: "toks_ok ts" "16 * length ts + 11 \<le> Suc n"
  shows "yields (Suc (length ts)) (block_loop p ts acc)"
  unfolding block_loop_def using ts
  by (auto intro!: yields_pret yields_pbind[OF terminatingD(1)[OF p _ _ order_refl]] terminatingD(5)[OF p])

lemma yields_binary:
  assumes p: "terminating n p" and ts: "toks_ok ts" "16 * length ts + 4 + (5 - lvl) \<le> Suc n"
  shows "yields (length ts) (parse_binary p lvl ts)"
  unfolding parse_binary_def using ts
  by (auto intro!: terminatingD(8)[OF p] yields_pbind[OF terminatingD(6)[OF p _ _ order_refl]] terminatingD(7)[OF p])

lemma level_ops_not_eof: "t \<in> set (level_ops lvl) \<Longrightarrow> t \<noteq> END_OF_FILE"
  by (auto simp: level_ops_def split: if_splits)

lemma yields_binary_loop:
  assumes p: "terminating n p" and ts: "toks_ok ts" "16 * length ts + 1 \<le> Suc n"
  shows "yields (Suc (length ts)) (binary_loop p lvl e ts)"
proof -
  have "toks_ok (ps_advance ts) \<and> length (ps_advance ts) < length ts"
    if "t_type (ps_peek ts 0) \<in> set (level_ops lvl)"
    using check_advance[OF _ ts(1)] that level_ops_not_eof by (auto simp: ps_check_def)
  then show ?thesis
    unfolding binary_loop_def Let_def using ts
    by (auto intro!: yields_pret yields_pbind[OF terminatingD(6)[OF p _ _ order_refl]] terminatingD(7)[OF p])
qed

lemma yields_unary:
  assumes p: "terminating n p" and ts: "toks_ok ts" "16 * length ts + 3 \<le> Suc n"
  shows "yields (length ts) (parse_unary p ts)"
  unfolding parse_unary_def Let_def
  using ts check_advance[OF _ ts(1), of BANG] check_advance[OF _ ts(1), of MINUS]
  by (auto intro!: yields_pret yields_pbind[OF terminatingD(8)[OF p _ _ order_refl]]
      yields_pbind[OF terminatingD(12)[OF p _ _ order_refl]] terminatingD(11)[OF p])

lemma yields_args_loop:
  assumes p: "terminating n p" and ts: "toks_ok ts" "16 * length ts + 10 \<le> Suc n"
  shows "yields (Suc (length ts)) (args_loop p ts acc)"
proof -
  have a2: "toks_ok (ps_advance (ps_advance ts))" "length (ps_advance (ps_advance ts)) \<le> length ts"
    by (rule advance_ok[OF advance_ok[OF ts(1)]], rule order_trans[OF length_advance_le length_advance_le])
  have go: "yields (Suc (length ts)) (pbind (p_binary p 0 ts0) (\<lambda>v ts1.
      if ps_check ts1 COMMA then p_args_loop p (ps_advance ts1) (f v) else pret (f v) ts1))"
    if 0: "toks_ok ts0" "length ts0 \<le> length ts" for ts0 f
  proof (rule yields_pbind[OF terminatingD(6)[OF p 0(1) _ order_refl]])
    show "16 * length ts0 + 4 + (5 - 0) \<le> n" using 0(2) ts(2) by simp
    fix v ts1 assume 1: "toks_ok ts1" "length ts1 < length ts0"
    show "yields (Suc (length ts))
        (if ps_check ts1 COMMA then p_args_loop p (ps_advance ts1) (f v) else pret (f v) ts1)"
      using 0 1 ts(2) check_advance[OF _ 1(1), of COMMA]
      by (auto intro!: yields_pret terminatingD(10)[OF p])
  qed
  show ?thesis
    using ts(1) a2 by (auto simp: args_loop_def Let_def intro!: yields_pret go)
qed

lemma yields_postfix_loop:
  assumes p: "terminating n p" and ts: "toks_ok ts" "16 * length ts + 2 \<le> Suc n"
  shows "yields (Suc (length ts)) (postfix_loop p e ts)"
  unfolding postfix_loop_def Let_def using ts check_advance[OF _ ts(1), of DOT]
  by (auto intro!: yields_pret yields_pbind[OF yields_expect[OF _ _ order_refl]]
      yields_pbind[OF terminatingD(9)[OF p _ _ order_refl]]
      yields_pbind[OF terminatingD(4)[OF p _ _ order_refl]] terminatingD(11)[OF p])

lemma yields_name:
  assumes ts: "toks_ok ts" "ps_check ts IDENT"
  shows "yields (length ts) (parse_name ts)"
proof -
  note a = check_advance[OF ts(2,1)]
  show ?thesis
    unfolding parse_name_def Let_def using a check_advance[of "ps_advance ts" SCOPE]
    by (auto intro!: yields_pret yields_pbind[OF yields_expect[OF _ _ order_refl]])
qed

lemma literal_not_eof: "parse_literal (ps_peek ts 0) = Some r \<Longrightarrow> t_type (ps_peek ts 0) \<noteq> END_OF_FILE"
  by (auto simp: parse_literal_def split: if_splits)

lemma yields_primary:
  assumes p: "terminating n p" and ts: "toks_ok ts" "16 * length ts + 1 \<le> Suc n"
  shows "yields (length ts) (parse_primary p ts)"
proof -
  have lit: "toks_ok (ps_advance ts) \<and> length (ps_advance ts) < length ts"
    if "parse_literal (ps_peek ts 0) = Some r" for r
    using check_advance[OF _ ts(1), of "t_type (ps_peek ts 0)"] literal_not_eof[OF that] by (auto simp: ps_check_def)
  show ?thesis
    unfolding parse_primary_def Let_def using ts lit check_advance[OF _ ts(1), of LPAREN]
    by (auto intro!: yields_pret yields_perr yields_name yields_pbind[OF terminatingD(6)[OF p _ _ order_refl]]
        yields_pbind[OF yields_expect[OF _ _ order_refl]] split: option.splits sum.splits)
qed

lemma terminating_parsers: "terminating n (parsers n)"
proof (induction n)
  case 0
  then show ?case by (simp add: terminating_def)
next
  case (Suc n)
  then show ?case
    unfolding terminating_def[of "Suc n"]
    by (simp add: yields_statement yields_if yields_return yields_block yields_block_loop yields_binary
        yields_binary_loop yields_unary yields_call_args yields_args_loop yields_postfix_loop yields_primary)
qed

lemma program_loop_returns:
  "toks_ok ts \<Longrightarrow> 16 * length ts + 11 \<le> n \<Longrightarrow> program_loop n ts acc \<noteq> None"
proof (induction n arbitrary: ts acc)
  case (Suc n)
  have st: "yields (length ts) (p_statement (parsers n) ts)"
    by (rule terminatingD(1)[OF terminating_parsers Suc.prems(1)]) (use Suc.prems in auto)
  show ?case
    using st Suc.IH Suc.prems by (fastforce simp: yields_def pbind_def pret_def split: option.splits sum.splits)
qed simp

subsection \<open>Properties\<close>

text \<open>C17: The parser terminates on every token list that ends with the end of file: it returns a
  program or throws, whatever the tokens are, with fuel linear in their number.\<close>

theorem parse_program_returns:
  assumes "toks_ok ts"
  shows "\<exists>r. parse_program ts = Some r"
proof -
  have "program_loop (parse_fuel ts) ts [] \<noteq> None"
    by (rule program_loop_returns[OF assms]) (simp add: parse_fuel_def)
  then show ?thesis by (auto simp: parse_program_def split: sum.splits)
qed

theorem parse_program_returns_witness:
  "\<exists>r. parse_program [lx_make RBRACE ''}'' 1 1, lx_make END_OF_FILE [] 1 2] = Some r"
  by (rule parse_program_returns) (simp add: toks_ok_def lx_make_def)

end
