(* ===== verification/ZtlInterp.thy ===== *)
theory ZtlInterp
  imports ZtlParser Stores
begin

text \<open>
  The values and the tree-walking interpreter of the plugin language: \<open>ztl/runtime.hpp\<close>,
  \<open>ztl/interpreter.hpp\<close>, \<open>ztl/interpreter.cpp\<close>.

  Objects live on a heap and a \<open>shared_ptr\<close> to one is its address.  A native function is
  identified by what created it: a method by its object and name, a global function by the
  plugin run that registered it and its name; two pointers are equal exactly when these are.
  What calling one does is the parameter \<open>native\<close>, as it is a \<open>std::function\<close> in the code.

  The chain of environments is the list of local scopes, innermost first, and the global scope.
  A computation ends with a value, with a thrown exception, in undefined behaviour (the program
  dereferences null or converts a number out of range), by not returning, or out of fuel; the
  lemmas show that the last never happens.
\<close>

subsection \<open>Values\<close>

datatype NativeFn = NMethod nat string | NGlobal nat string

datatype Value =
    VNull
  | VBool bool
  | VNum double
  | VStr string
  | VObj nat
  | VFn NativeFn

record 'n Object =
  o_type_name :: string
  o_fields :: "string \<Rightarrow> Value option"
  o_methods :: "string list"
  o_native_state :: 'n

datatype exn =
    RuntimeError string int int
  | ReturnException Value
  | StdException string

text \<open>
  How a computation ends: with a value, an exception, undefined behaviour, a call that does not return,
  \<open>std::terminate\<close> (an exception that leaves a thread), or with the fuel of the model used up.
\<close>

datatype 'a outcome = Ok 'a | Throw exn | Undef | Hang | Terminate | NoFuel

type_synonym ('s, 'a) comp = "'s \<Rightarrow> 'a outcome \<times> 's"

definition cret :: "'a \<Rightarrow> ('s, 'a) comp" where
  "cret a s = (Ok a, s)"

definition cstop :: "'a outcome \<Rightarrow> ('s, 'a) comp" where
  "cstop r s = (r, s)"

definition cthrow :: "exn \<Rightarrow> ('s, 'a) comp" where
  "cthrow e s = (Throw e, s)"

definition cbind :: "('s, 'a) comp \<Rightarrow> ('a \<Rightarrow> ('s, 'b) comp) \<Rightarrow> ('s, 'b) comp" where
  "cbind m f s =
     (case m s of
        (Ok a, s') \<Rightarrow> f a s'
      | (Throw e, s') \<Rightarrow> (Throw e, s')
      | (Undef, s') \<Rightarrow> (Undef, s')
      | (Hang, s') \<Rightarrow> (Hang, s')
      | (Terminate, s') \<Rightarrow> (Terminate, s')
      | (NoFuel, s') \<Rightarrow> (NoFuel, s'))"

definition cget :: "('s \<Rightarrow> 'a) \<Rightarrow> ('s, 'a) comp" where
  "cget f s = (Ok (f s), s)"

definition cmodify :: "('s \<Rightarrow> 's) \<Rightarrow> ('s, unit) comp" where
  "cmodify f s = (Ok (), f s)"

definition runtime_error :: "string \<Rightarrow> int \<Rightarrow> int \<Rightarrow> ('s, 'a) comp" where
  "runtime_error msg l c = cthrow (RuntimeError msg l c)"

fun exn_what :: "exn \<Rightarrow> string" where
  "exn_what (RuntimeError msg l c) =
     ''runtime error at '' @ show_int l @ '':'' @ show_int c @ '': '' @ msg"
| "exn_what (StdException msg) = msg"
| "exn_what (ReturnException v) = []"

text \<open>The state of an interpreter: its environments, the heap, and what the natives keep.\<close>

record ('n, 'x) Interp =
  it_locals :: "(string \<Rightarrow> Value option) list"
  it_globals :: "string \<Rightarrow> Value option"
  it_heap :: "'n Object list"
  it_ext :: 'x

subsection \<open>Environments\<close>

fun env_assign ::
  "string \<Rightarrow> Value \<Rightarrow> (string \<Rightarrow> Value option) list \<Rightarrow> (string \<Rightarrow> Value option) list option" where
  "env_assign name v [] = None"
| "env_assign name v (e # es) =
     (if e name \<noteq> None then Some (e(name \<mapsto> v) # es)
      else map_option (\<lambda>es'. e # es') (env_assign name v es))"

fun env_lookup :: "string \<Rightarrow> (string \<Rightarrow> Value option) list \<Rightarrow> Value option" where
  "env_lookup name [] = None"
| "env_lookup name (e # es) = (case e name of Some v \<Rightarrow> Some v | None \<Rightarrow> env_lookup name es)"

definition all_scopes :: "('n, 'x) Interp \<Rightarrow> (string \<Rightarrow> Value option) list" where
  "all_scopes s = it_locals s @ [it_globals s]"

definition set_scopes :: "(string \<Rightarrow> Value option) list \<Rightarrow> ('n, 'x) Interp \<Rightarrow> ('n, 'x) Interp" where
  "set_scopes es s = s\<lparr>it_locals := butlast es, it_globals := last es\<rparr>"

text \<open>\<open>if (!env.assign(name, v)) env.define(name, v)\<close>.\<close>

definition env_define :: "string \<Rightarrow> Value \<Rightarrow> (string \<Rightarrow> Value option) list \<Rightarrow> (string \<Rightarrow> Value option) list" where
  "env_define name v es = (hd es)(name \<mapsto> v) # tl es"

definition env_store :: "string \<Rightarrow> Value \<Rightarrow> ('n, 'x) Interp \<Rightarrow> ('n, 'x) Interp" where
  "env_store name v s =
     (case env_assign name v (all_scopes s) of
        Some es \<Rightarrow> set_scopes es s
      | None \<Rightarrow> set_scopes (env_define name v (all_scopes s)) s)"

definition define_global :: "string \<Rightarrow> Value \<Rightarrow> ('n, 'x) Interp \<Rightarrow> ('n, 'x) Interp" where
  "define_global name v s = s\<lparr>it_globals := (it_globals s)(name \<mapsto> v)\<rparr>"

subsection \<open>Value helpers\<close>

fun is_truthy :: "Value \<Rightarrow> bool" where
  "is_truthy VNull = False"
| "is_truthy (VBool b) = b"
| "is_truthy (VNum d) = (\<not> d_eq d d_zero)"
| "is_truthy (VStr s) = (s \<noteq> [])"
| "is_truthy (VObj a) = True"
| "is_truthy (VFn f) = True"

fun values_equal :: "Value \<Rightarrow> Value \<Rightarrow> bool" where
  "values_equal VNull VNull = True"
| "values_equal (VBool a) (VBool b) = (a = b)"
| "values_equal (VNum a) (VNum b) = d_eq a b"
| "values_equal (VStr a) (VStr b) = (a = b)"
| "values_equal (VObj a) (VObj b) = (a = b)"
| "values_equal (VFn a) (VFn b) = (a = b)"
| "values_equal _ _ = False"

definition show_number :: "double \<Rightarrow> string" where
  "show_number d =
     (if d_is_integral d \<and> \<bar>the (d_trunc d)\<bar> < 10 ^ 15 then show_int (the (d_trunc d))
      else show_double d)"

definition fn_name :: "'n Object list \<Rightarrow> NativeFn \<Rightarrow> string" where
  "fn_name heap f =
     (case f of
        NMethod a m \<Rightarrow>
          (let t = o_type_name (heap ! a) in (if t = ''Cve'' then ''cve'' else t) @ ''.'' @ m)
      | NGlobal r name \<Rightarrow> name)"

fun value_to_string :: "'n Object list \<Rightarrow> Value \<Rightarrow> string" where
  "value_to_string heap VNull = ''null''"
| "value_to_string heap (VBool b) = (if b then ''true'' else ''false'')"
| "value_to_string heap (VNum d) = show_number d"
| "value_to_string heap (VStr s) = s"
| "value_to_string heap (VObj a) = ''<'' @ o_type_name (heap ! a) @ ''>''"
| "value_to_string heap (VFn f) = ''<fn '' @ fn_name heap f @ ''>''"

fun type_name_of :: "Value \<Rightarrow> string" where
  "type_name_of VNull = ''null''"
| "type_name_of (VBool b) = ''bool''"
| "type_name_of (VNum d) = ''number''"
| "type_name_of (VStr s) = ''string''"
| "type_name_of (VObj a) = ''object''"
| "type_name_of (VFn f) = ''function''"

definition as_number :: "Value \<Rightarrow> double option" where
  "as_number v = (case v of VNum d \<Rightarrow> Some d | _ \<Rightarrow> None)"

definition as_string :: "Value \<Rightarrow> string option" where
  "as_string v = (case v of VStr s \<Rightarrow> Some s | _ \<Rightarrow> None)"

text \<open>
  \<open>static_cast\<close> of a double to an integer type truncates; it is undefined when the truncated
  value does not fit the type.
\<close>

definition cast_range :: "int \<Rightarrow> int \<Rightarrow> double \<Rightarrow> ('s, int) comp" where
  "cast_range lo hi d =
     (case d_trunc d of
        None \<Rightarrow> cstop Undef
      | Some i \<Rightarrow> if lo \<le> i \<and> i \<le> hi then cret i else cstop Undef)"

definition cast_size :: "double \<Rightarrow> ('s, int) comp" where
  "cast_size d = cast_range 0 (2 ^ 64 - 1) d"

definition cast_int :: "double \<Rightarrow> ('s, int) comp" where
  "cast_int d = cast_range INT_MIN INT_MAX d"

subsection \<open>Methods of strings\<close>

definition arg_string :: "Value list \<Rightarrow> nat \<Rightarrow> string \<Rightarrow> int \<Rightarrow> int \<Rightarrow> ('s, string) comp" where
  "arg_string pos i what l c =
     (if length pos \<le> i then runtime_error (what @ '' missing'') l c
      else case pos ! i of VStr s \<Rightarrow> cret s | _ \<Rightarrow> runtime_error (what @ '' must be a string'') l c)"

definition arg_number :: "Value list \<Rightarrow> nat \<Rightarrow> string \<Rightarrow> int \<Rightarrow> int \<Rightarrow> ('s, double) comp" where
  "arg_number pos i what l c =
     (if length pos \<le> i then runtime_error (what @ '' missing'') l c
      else case pos ! i of VNum d \<Rightarrow> cret d | _ \<Rightarrow> runtime_error (what @ '' must be a number'') l c)"

definition slice_end :: "nat \<Rightarrow> Value list \<Rightarrow> int \<Rightarrow> int \<Rightarrow> ('s, int) comp" where
  "slice_end sz pos l c =
     (if length pos \<le> 1 then cret (int sz)
      else cbind (arg_number pos 1 ''end'' l c) (\<lambda>e.
             if d_lt e d_zero then cret 0
             else cbind (cast_size e) (\<lambda>i. cret (if i < int sz then i else int sz))))"

definition string_slice :: "string \<Rightarrow> Value list \<Rightarrow> int \<Rightarrow> int \<Rightarrow> ('s, Value) comp" where
  "string_slice s pos l c =
     cbind (arg_number pos 0 ''start'' l c) (\<lambda>d.
     cbind (cast_size d) (\<lambda>i.
     let start = (if int (length s) < i then int (length s) else i) in
     cbind (slice_end (length s) pos l c) (\<lambda>e0.
     let e = (if e0 < start then start else e0) in
     cret (VStr (take (nat (e - start)) (drop (nat start) s))))))"

definition call_string_method ::
  "string \<Rightarrow> string \<Rightarrow> Value list \<Rightarrow> int \<Rightarrow> int \<Rightarrow> ('s, Value) comp" where
  "call_string_method s meth pos l c =
     (if meth = ''length'' \<or> meth = ''size'' then cret (VNum (d_of_int (int (length s))))
      else if meth = ''starts_with'' then
        cbind (arg_string pos 0 ''prefix'' l c) (\<lambda>p. cret (VBool (has_prefix p s)))
      else if meth = ''ends_with'' then
        cbind (arg_string pos 0 ''suffix'' l c) (\<lambda>p. cret (VBool (has_suffix p s)))
      else if meth = ''contains'' then
        cbind (arg_string pos 0 ''substring'' l c) (\<lambda>p. cret (VBool (str_contains s p)))
      else if meth = ''slice'' then string_slice s pos l c
      else if meth = ''to_lower'' then cret (VStr (lower s))
      else if meth = ''to_upper'' then cret (VStr (upper s))
      else if meth = ''trim'' then cret (VStr (str_trim s))
      else if meth = ''index_of'' then
        cbind (arg_string pos 0 ''substring'' l c) (\<lambda>p.
          cret (VNum (case str_find s p 0 of None \<Rightarrow> d_of_int (-1) | Some i \<Rightarrow> d_of_int (int i))))
      else if meth = ''byte_at'' then
        cbind (arg_number pos 0 ''index'' l c) (\<lambda>d.
        cbind (cast_size d) (\<lambda>i.
          cret (VNum (if int (length s) \<le> i then d_of_int (-1) else d_of_int (int (code (s ! nat i)))))))
      else runtime_error (''string has no method '' @ quote_char @ meth @ quote_char) l c)"

subsection \<open>Calls\<close>

record CallContext =
  cx_self :: Value
  cx_positional :: "Value list"
  cx_named :: "string \<Rightarrow> Value option"
  cx_block :: "stmt list option"
  cx_line :: int
  cx_col :: int

text \<open>
  What a native function does: its context, and the interpreter to run statements with
  (\<open>exec_stmt\<close> on each, in the environments of the state).
\<close>

type_synonym ('n, 'x) native =
  "NativeFn \<Rightarrow> CallContext \<Rightarrow> (stmt list \<Rightarrow> (('n, 'x) Interp, unit) comp) \<Rightarrow> (('n, 'x) Interp, Value) comp"

record ('n, 'x) Evals =
  ev_expr :: "expr \<Rightarrow> (('n, 'x) Interp, Value) comp"
  ev_stmt :: "stmt \<Rightarrow> (('n, 'x) Interp, unit) comp"

fun exec_stmts :: "('n, 'x) Evals \<Rightarrow> stmt list \<Rightarrow> (('n, 'x) Interp, unit) comp" where
  "exec_stmts p [] = cret ()"
| "exec_stmts p (s # ss) = cbind (ev_stmt p s) (\<lambda>_. exec_stmts p ss)"

definition push_scope :: "('n, 'x) Interp \<Rightarrow> ('n, 'x) Interp" where
  "push_scope s = s\<lparr>it_locals := Map.empty # it_locals s\<rparr>"

definition pop_scope :: "('n, 'x) Interp \<Rightarrow> ('n, 'x) Interp" where
  "pop_scope s = s\<lparr>it_locals := tl (it_locals s)\<rparr>"

text \<open>The scope is left on every way out of the block.\<close>

definition exec_block :: "('n, 'x) Evals \<Rightarrow> stmt list \<Rightarrow> (('n, 'x) Interp, unit) comp" where
  "exec_block p body s = (let (r, s') = exec_stmts p body (push_scope s) in (r, pop_scope s'))"

fun eval_args ::
  "('n, 'x) Evals \<Rightarrow> call_arg list \<Rightarrow> Value list \<Rightarrow> (string \<Rightarrow> Value option) \<Rightarrow>
   (('n, 'x) Interp, Value list \<times> (string \<Rightarrow> Value option)) comp" where
  "eval_args p [] pos named = cret (pos, named)"
| "eval_args p (CallArg name e # as) pos named =
     cbind (ev_expr p e) (\<lambda>v.
       if name = [] then eval_args p as (pos @ [v]) named
       else eval_args p as pos (named(name \<mapsto> v)))"

definition make_context ::
  "Value \<Rightarrow> Value list \<Rightarrow> (string \<Rightarrow> Value option) \<Rightarrow> stmt list option \<Rightarrow> int \<Rightarrow> int \<Rightarrow> CallContext" where
  "make_context self pos named blk l c =
     \<lparr>cx_self = self, cx_positional = pos, cx_named = named, cx_block = blk, cx_line = l, cx_col = c\<rparr>"

definition invoke_method ::
  "('n, 'x) native \<Rightarrow> ('n, 'x) Evals \<Rightarrow> Value \<Rightarrow> string \<Rightarrow> Value list \<Rightarrow> (string \<Rightarrow> Value option) \<Rightarrow>
   stmt list option \<Rightarrow> int \<Rightarrow> int \<Rightarrow> (('n, 'x) Interp, Value) comp" where
  "invoke_method native p receiver meth pos named blk l c =
     (case receiver of
        VStr s \<Rightarrow> call_string_method s meth pos l c
      | VObj a \<Rightarrow>
          cbind (cget (\<lambda>s. it_heap s ! a)) (\<lambda>obj.
            if meth \<notin> set (o_methods obj) then
              runtime_error (''object '' @ quote_char @ o_type_name obj @ quote_char @
                '' has no method '' @ quote_char @ meth @ quote_char) l c
            else native (NMethod a meth) (make_context receiver pos named blk l c) (exec_stmts p))
      | _ \<Rightarrow> runtime_error (''cannot call method '' @ quote_char @ meth @ quote_char @ '' on '' @
               type_name_of receiver) l c)"

definition invoke_function ::
  "('n, 'x) native \<Rightarrow> ('n, 'x) Evals \<Rightarrow> Value \<Rightarrow> Value \<Rightarrow> Value list \<Rightarrow> (string \<Rightarrow> Value option) \<Rightarrow>
   stmt list option \<Rightarrow> int \<Rightarrow> int \<Rightarrow> (('n, 'x) Interp, Value) comp" where
  "invoke_function native p callee self pos named blk l c =
     (case callee of
        VFn f \<Rightarrow> native f (make_context self pos named blk l c) (exec_stmts p)
      | _ \<Rightarrow> runtime_error (''value is not callable ('' @ type_name_of callee @ '')'') l c)"

fun expr_line :: "expr \<Rightarrow> int" where
  "expr_line (Expr n l c) = l"

fun expr_col :: "expr \<Rightarrow> int" where
  "expr_col (Expr n l c) = c"

fun expr_node_of :: "expr \<Rightarrow> expr_node" where
  "expr_node_of (Expr n l c) = n"

definition eval_member :: "('n, 'x) Evals \<Rightarrow> expr \<Rightarrow> string \<Rightarrow> (('n, 'x) Interp, Value) comp" where
  "eval_member p obj_e member =
     cbind (ev_expr p obj_e) (\<lambda>receiver.
       case receiver of
         VObj a \<Rightarrow>
           cbind (cget (\<lambda>s. it_heap s ! a)) (\<lambda>obj.
             case o_fields obj member of
               Some v \<Rightarrow> cret v
             | None \<Rightarrow>
                 if member \<in> set (o_methods obj) then cret (VFn (NMethod a member))
                 else runtime_error (''object '' @ quote_char @ o_type_name obj @ quote_char @
                   '' has no member '' @ quote_char @ member @ quote_char) (expr_line obj_e) (expr_col obj_e))
       | _ \<Rightarrow> runtime_error (''cannot access '' @ quote_char @ ''.'' @ member @ quote_char @
                '' on non-object ('' @ type_name_of receiver @ '')'') (expr_line obj_e) (expr_col obj_e))"

definition eval_call ::
  "('n, 'x) native \<Rightarrow> ('n, 'x) Evals \<Rightarrow> expr \<Rightarrow> call_arg list \<Rightarrow> stmt list \<Rightarrow> bool \<Rightarrow> int \<Rightarrow> int \<Rightarrow>
   (('n, 'x) Interp, Value) comp" where
  "eval_call native p callee args blk has_block l c =
     cbind (eval_args p args [] Map.empty) (\<lambda>(pos, named).
       let b = (if has_block then Some blk else None) in
       case expr_node_of callee of
         MemberAccess obj_e member \<Rightarrow>
           cbind (ev_expr p obj_e) (\<lambda>receiver. invoke_method native p receiver member pos named b l c)
       | _ \<Rightarrow>
           cbind (ev_expr p callee) (\<lambda>v. invoke_function native p v VNull pos named b l c))"

subsection \<open>Expressions and statements\<close>

definition eval_unary :: "string \<Rightarrow> Value \<Rightarrow> int \<Rightarrow> int \<Rightarrow> ('s, Value) comp" where
  "eval_unary oper v l c =
     (if oper = ''!'' then cret (VBool (\<not> is_truthy v))
      else if oper = ''-'' then
        (case v of VNum d \<Rightarrow> cret (VNum (d_neg d)) | _ \<Rightarrow> runtime_error ''cannot negate non-number'' l c)
      else runtime_error (''unknown unary op '' @ quote_char @ oper @ quote_char) l c)"

definition compare_numbers ::
  "(double \<Rightarrow> double \<Rightarrow> bool) \<Rightarrow> Value \<Rightarrow> Value \<Rightarrow> int \<Rightarrow> int \<Rightarrow> ('s, Value) comp" where
  "compare_numbers rel a b l c =
     (case (a, b) of
        (VNum x, VNum y) \<Rightarrow> cret (VBool (rel x y))
      | _ \<Rightarrow> runtime_error ''comparison requires numbers'' l c)"

definition eval_strict_binary ::
  "string \<Rightarrow> Value \<Rightarrow> Value \<Rightarrow> int \<Rightarrow> int \<Rightarrow> (('n, 'x) Interp, Value) comp" where
  "eval_strict_binary oper a b l c =
     (if oper = ''=='' then cret (VBool (values_equal a b))
      else if oper = ''!='' then cret (VBool (\<not> values_equal a b))
      else if oper = ''+'' then
        (case (a, b) of
           (VNum x, VNum y) \<Rightarrow> cret (VNum (d_add x y))
         | _ \<Rightarrow> cget (\<lambda>s. VStr (value_to_string (it_heap s) a @ value_to_string (it_heap s) b)))
      else if oper = ''-'' then
        (case (a, b) of
           (VNum x, VNum y) \<Rightarrow> cret (VNum (d_sub x y))
         | _ \<Rightarrow> runtime_error (quote_char @ ''-'' @ quote_char @ '' requires numbers'') l c)
      else if oper = ''<'' then compare_numbers d_lt a b l c
      else if oper = ''>'' then compare_numbers (\<lambda>x y. d_lt y x) a b l c
      else if oper = ''<='' then compare_numbers d_le a b l c
      else if oper = ''>='' then compare_numbers (\<lambda>x y. d_le y x) a b l c
      else runtime_error (''unknown binary op '' @ quote_char @ oper @ quote_char) l c)"

definition lookup_name :: "string \<Rightarrow> string \<Rightarrow> int \<Rightarrow> int \<Rightarrow> (('n, 'x) Interp, Value) comp" where
  "lookup_name what name l c =
     cbind (cget (\<lambda>s. env_lookup name (all_scopes s))) (\<lambda>r.
       case r of
         Some v \<Rightarrow> cret v
       | None \<Rightarrow> runtime_error (what @ quote_char @ name @ quote_char) l c)"

definition eval_expr ::
  "('n, 'x) native \<Rightarrow> ('n, 'x) Evals \<Rightarrow> expr \<Rightarrow> (('n, 'x) Interp, Value) comp" where
  "eval_expr native p e =
     (case e of Expr node l c \<Rightarrow>
       (case node of
          LiteralNull \<Rightarrow> cret VNull
        | LiteralBool b \<Rightarrow> cret (VBool b)
        | LiteralNumber d \<Rightarrow> cret (VNum d)
        | LiteralString s \<Rightarrow> cret (VStr s)
        | Identifier name \<Rightarrow> lookup_name ''undefined identifier '' name l c
        | ScopedAccess scope name \<Rightarrow>
            lookup_name ''undefined scoped name '' (scope @ ''::'' @ name) l c
        | MemberAccess obj_e member \<Rightarrow> eval_member p obj_e member
        | Call callee args blk has_block \<Rightarrow> eval_call native p callee args blk has_block l c
        | UnaryOp oper operand \<Rightarrow> cbind (ev_expr p operand) (\<lambda>v. eval_unary oper v l c)
        | BinaryOp oper lhs rhs \<Rightarrow>
            if oper = ''&&'' then
              cbind (ev_expr p lhs) (\<lambda>v. if \<not> is_truthy v then cret v else ev_expr p rhs)
            else if oper = ''||'' then
              cbind (ev_expr p lhs) (\<lambda>v. if is_truthy v then cret v else ev_expr p rhs)
            else
              cbind (ev_expr p lhs) (\<lambda>a.
              cbind (ev_expr p rhs) (\<lambda>b. eval_strict_binary oper a b l c))))"

definition exec_stmt ::
  "('n, 'x) Evals \<Rightarrow> stmt \<Rightarrow> (('n, 'x) Interp, unit) comp" where
  "exec_stmt p s =
     (case s of Stmt node l c \<Rightarrow>
       (case node of
          IncludeStmt m \<Rightarrow> cret ()
        | ExprStmt e \<Rightarrow> cbind (ev_expr p e) (\<lambda>_. cret ())
        | AssignStmt name e \<Rightarrow> cbind (ev_expr p e) (\<lambda>v. cmodify (env_store name v))
        | IfStmt cond thn els \<Rightarrow>
            cbind (ev_expr p cond) (\<lambda>v.
              if is_truthy v then exec_block p thn
              else if els \<noteq> [] then exec_block p els
              else cret ())
        | ReturnStmt None \<Rightarrow> cthrow (ReturnException VNull)
        | ReturnStmt (Some e) \<Rightarrow> cbind (ev_expr p e) (\<lambda>v. cthrow (ReturnException v))))"

primrec evals :: "('n, 'x) native \<Rightarrow> nat \<Rightarrow> ('n, 'x) Evals" where
  "evals native 0 = \<lparr>ev_expr = \<lambda>e. cstop NoFuel, ev_stmt = \<lambda>s. cstop NoFuel\<rparr>"
| "evals native (Suc n) =
     \<lparr>ev_expr = eval_expr native (evals native n), ev_stmt = exec_stmt (evals native n)\<rparr>"

text \<open>\<open>run_program\<close> on the global environment; its fuel is the size of the program.\<close>

definition run_program :: "('n, 'x) native \<Rightarrow> stmt list \<Rightarrow> (('n, 'x) Interp, unit) comp" where
  "run_program native prog = exec_stmts (evals native (size_list size prog)) prog"

subsection \<open>Invariants of computations\<close>

definition preserves :: "('s \<Rightarrow> 's \<Rightarrow> bool) \<Rightarrow> ('s, 'a) comp \<Rightarrow> bool" where
  "preserves R m \<longleftrightarrow> (\<forall>s. R s (snd (m s)))"

text \<open>Neither out of fuel nor the end of the program.\<close>

definition fuelled :: "('s, 'a) comp \<Rightarrow> bool" where
  "fuelled m \<longleftrightarrow> (\<forall>s. fst (m s) \<notin> {NoFuel, Terminate})"

definition preorder_rel :: "('s \<Rightarrow> 's \<Rightarrow> bool) \<Rightarrow> bool" where
  "preorder_rel R \<longleftrightarrow> (\<forall>s. R s s) \<and> (\<forall>a b c. R a b \<longrightarrow> R b c \<longrightarrow> R a c)"

named_theorems comp_intros \<open>preservation and fuel of the computation combinators\<close>

lemma preserves_cbind [comp_intros]:
  "preorder_rel R \<Longrightarrow> preserves R m \<Longrightarrow> (\<And>a. preserves R (f a)) \<Longrightarrow> preserves R (cbind m f)"
proof -
  assume R: "preorder_rel R" and m: "preserves R m" and f: "\<And>a. preserves R (f a)"
  have "R s (snd (cbind m f s))" for s
  proof (cases "m s")
    case (Pair r s')
    with m have 1: "R s s'" by (metis preserves_def snd_conv)
    show ?thesis
    proof (cases r)
      case (Ok a)
      from f have "R s' (snd (f a s'))" by (simp add: preserves_def)
      with 1 R Pair Ok show ?thesis by (simp add: cbind_def) (metis preorder_rel_def)
    qed (simp_all add: Pair cbind_def 1)
  qed
  then show ?thesis by (simp add: preserves_def)
qed

lemma preserves_basic [comp_intros]:
  "preorder_rel R \<Longrightarrow> preserves R (cret a)"
  "preorder_rel R \<Longrightarrow> preserves R (cstop r)"
  "preorder_rel R \<Longrightarrow> preserves R (cthrow e)"
  "preorder_rel R \<Longrightarrow> preserves R (cget g)"
  "preorder_rel R \<Longrightarrow> preserves R (runtime_error msg l c)"
  by (simp_all add: preserves_def preorder_rel_def cret_def cstop_def cthrow_def cget_def runtime_error_def)

lemma preserves_if [comp_intros]:
  "(b \<Longrightarrow> preserves R m) \<Longrightarrow> (\<not> b \<Longrightarrow> preserves R m') \<Longrightarrow> preserves R (if b then m else m')"
  by simp

lemma fuelled_cbind [comp_intros]: "fuelled m \<Longrightarrow> (\<And>a. fuelled (f a)) \<Longrightarrow> fuelled (cbind m f)"
proof -
  assume m: "fuelled m" and f: "\<And>a. fuelled (f a)"
  have "fst (cbind m f s) \<notin> {NoFuel, Terminate}" for s
  proof -
    obtain r s1 where e: "m s = (r, s1)" by fastforce
    then have "r \<notin> {NoFuel, Terminate}" using m by (metis fuelled_def fst_conv)
    then show ?thesis using f by (cases r) (simp_all add: cbind_def e fuelled_def)
  qed
  then show ?thesis by (simp add: fuelled_def)
qed

lemma fuelled_basic [comp_intros]:
  "fuelled (cret a)" "r \<notin> {NoFuel, Terminate} \<Longrightarrow> fuelled (cstop r)" "fuelled (cthrow e)" "fuelled (cget g)"
  "fuelled (cmodify h)" "fuelled (runtime_error msg l c)"
  by (simp_all add: fuelled_def cret_def cstop_def cthrow_def cget_def cmodify_def runtime_error_def)

lemma fuelled_if [comp_intros]: "(b \<Longrightarrow> fuelled m) \<Longrightarrow> (\<not> b \<Longrightarrow> fuelled m') \<Longrightarrow> fuelled (if b then m else m')"
  by simp

text \<open>The names in the scopes: unchanged, and unchanged but for new names in the innermost one.\<close>

definition same_scopes :: "('n, 'x) Interp \<Rightarrow> ('n, 'x) Interp \<Rightarrow> bool" where
  "same_scopes s s' \<longleftrightarrow>
     map dom (it_locals s') = map dom (it_locals s) \<and> dom (it_globals s') = dom (it_globals s)"

definition inner_grows :: "('n, 'x) Interp \<Rightarrow> ('n, 'x) Interp \<Rightarrow> bool" where
  "inner_grows s s' \<longleftrightarrow>
     (case (it_locals s, it_locals s') of
        ([], []) \<Rightarrow> dom (it_globals s) \<subseteq> dom (it_globals s')
      | (e # es, e' # es') \<Rightarrow>
          dom e \<subseteq> dom e' \<and> map dom es' = map dom es \<and> dom (it_globals s') = dom (it_globals s)
      | _ \<Rightarrow> False)"

lemma same_scopes_pre: "preorder_rel same_scopes"
  by (auto simp: preorder_rel_def same_scopes_def)

lemma inner_grows_pre: "preorder_rel inner_grows"
  unfolding preorder_rel_def
proof (intro conjI allI impI)
  fix s :: "('a, 'b) Interp"
  show "inner_grows s s" by (simp add: inner_grows_def split: list.split)
next
  fix a b c :: "('a, 'b) Interp"
  assume "inner_grows a b" "inner_grows b c"
  then show "inner_grows a c"
    by (cases "it_locals a"; cases "it_locals b"; cases "it_locals c") (auto simp: inner_grows_def)
qed

lemma same_inner: "same_scopes s s' \<Longrightarrow> inner_grows s s'"
  by (cases "it_locals s"; cases "it_locals s'") (auto simp: same_scopes_def inner_grows_def)

lemma preserves_same_inner: "preserves same_scopes m \<Longrightarrow> preserves inner_grows m"
  by (auto simp: preserves_def intro: same_inner)

lemma preserves_args [comp_intros]:
  assumes "preorder_rel R"
  shows "preserves R (arg_string pos i what l c)" "preserves R (arg_number pos i what l c)"
    "preserves R (cast_size d)" "preserves R (cast_int d)"
  unfolding arg_string_def arg_number_def cast_size_def cast_int_def cast_range_def
  by (auto intro!: preserves_basic[OF assms] split: Value.split option.split)

lemma fuelled_args [comp_intros]:
  "fuelled (arg_string pos i what l c)" "fuelled (arg_number pos i what l c)"
  "fuelled (cast_size d)" "fuelled (cast_int d)"
  unfolding arg_string_def arg_number_def cast_size_def cast_int_def cast_range_def
  by (auto intro!: fuelled_basic split: Value.split option.split)

lemma preserves_slice:
  assumes "preorder_rel R"
  shows "preserves R (string_slice s pos l c)"
  unfolding string_slice_def slice_end_def Let_def
  by (intro preserves_cbind preserves_if preserves_args preserves_basic assms)

lemma fuelled_slice: "fuelled (string_slice s pos l c)"
  unfolding string_slice_def slice_end_def Let_def
  by (intro fuelled_cbind fuelled_if fuelled_args fuelled_basic)

lemma preserves_string_method:
  assumes "preorder_rel R"
  shows "preserves R (call_string_method s meth pos l c)"
  unfolding call_string_method_def
  by (intro preserves_if preserves_cbind preserves_args preserves_basic preserves_slice assms)

lemma fuelled_string_method: "fuelled (call_string_method s meth pos l c)"
  unfolding call_string_method_def
  by (intro fuelled_if fuelled_cbind fuelled_args fuelled_basic fuelled_slice)

lemma env_assign_doms: "env_assign name v es = Some es' \<Longrightarrow> map dom es' = map dom es"
  by (induction es arbitrary: es') (auto split: if_splits)

lemma env_store_grows: "inner_grows s (env_store name v s)"
proof (cases "env_assign name v (all_scopes s)")
  case None
  then show ?thesis
    by (cases "it_locals s")
      (auto simp: env_store_def env_define_def set_scopes_def all_scopes_def inner_grows_def butlast_append)
next
  case (Some es)
  then have d: "map dom es = map dom (it_locals s) @ [dom (it_globals s)]"
    using env_assign_doms by (fastforce simp: all_scopes_def)
  then have "es \<noteq> []" by auto
  have "map dom (butlast es) = map dom (it_locals s)" using d by (metis butlast_snoc map_butlast)
  moreover have "dom (last es) = dom (it_globals s)" using d \<open>es \<noteq> []\<close> by (metis last_map last_snoc)
  ultimately have "same_scopes s (env_store name v s)"
    using Some by (simp add: env_store_def set_scopes_def same_scopes_def)
  then show ?thesis by (rule same_inner)
qed

subsection \<open>The interface of the native library\<close>

text \<open>
  What the interpreter relies on: a native function leaves the names of all scopes as they are
  as long as the statements it runs only add names to the scope they run in, and it never is
  out of fuel when the block it was given is not.
\<close>

locale native_library =
  fixes native :: "('n, 'x) native"
  assumes native_scopes:
      "(\<And>blk. preserves inner_grows (run blk)) \<Longrightarrow> preserves same_scopes (native f ctx run)"
    and native_fuel:
      "(\<And>blk. cx_block ctx = Some blk \<Longrightarrow> fuelled (run blk)) \<Longrightarrow> fuelled (native f ctx run)"
begin

definition good_evals :: "('n, 'x) Evals \<Rightarrow> bool" where
  "good_evals p \<longleftrightarrow>
     (\<forall>e. preserves same_scopes (ev_expr p e)) \<and> (\<forall>s. preserves inner_grows (ev_stmt p s))"

lemma stmts_grow: "good_evals p \<Longrightarrow> preserves inner_grows (exec_stmts p ss)"
  by (induction ss) (auto simp: good_evals_def intro!: comp_intros inner_grows_pre)

lemma block_same: "good_evals p \<Longrightarrow> preserves same_scopes (exec_block p body)"
proof -
  assume g: "good_evals p"
  have "same_scopes s (snd (exec_block p body s))" for s
  proof -
    have "inner_grows (push_scope s) (snd (exec_stmts p body (push_scope s)))"
      using stmts_grow[OF g] by (simp add: preserves_def)
    moreover obtain r s1 where s1: "exec_stmts p body (push_scope s) = (r, s1)" by fastforce
    ultimately have "inner_grows (push_scope s) s1" by simp
    then have "same_scopes s (pop_scope s1)"
      by (cases "it_locals s1") (simp_all add: push_scope_def pop_scope_def inner_grows_def same_scopes_def)
    then show ?thesis by (simp add: exec_block_def s1)
  qed
  then show ?thesis by (simp add: preserves_def)
qed

lemma args_same: "good_evals p \<Longrightarrow> preserves same_scopes (eval_args p as pos named)"
proof (induction as arbitrary: pos named)
  case (Cons a as)
  then show ?case
    by (cases a) (auto simp: good_evals_def intro!: preserves_cbind[OF same_scopes_pre] simp del: fun_upd_apply)
qed (auto intro!: comp_intros same_scopes_pre)

lemma native_same: "good_evals p \<Longrightarrow> preserves same_scopes (native f ctx (exec_stmts p))"
  by (rule native_scopes) (rule stmts_grow)

lemma call_same:
  "good_evals p \<Longrightarrow> preserves same_scopes (eval_call native p callee args blk hb l c)"
proof -
  assume g: "good_evals p"
  then have e: "\<And>e. preserves same_scopes (ev_expr p e)" by (simp add: good_evals_def)
  have m: "preserves same_scopes (invoke_method native p v meth pos named b l c)" for v meth pos named b
    unfolding invoke_method_def using native_same[OF g]
    by (auto intro!: comp_intros same_scopes_pre preserves_string_method split: Value.split)
  have f: "preserves same_scopes (invoke_function native p v self pos named b l c)" for v self pos named b
    unfolding invoke_function_def using native_same[OF g]
    by (auto intro!: comp_intros same_scopes_pre split: Value.split)
  show ?thesis
    unfolding eval_call_def Let_def
    by (auto intro!: preserves_cbind[OF same_scopes_pre] args_same[OF g] e m f split: expr_node.split)
qed

lemma member_same: "good_evals p \<Longrightarrow> preserves same_scopes (eval_member p e m)"
  unfolding eval_member_def good_evals_def
  by (auto intro!: comp_intros same_scopes_pre split: Value.split option.split)

lemma strict_binary_same: "preserves same_scopes (eval_strict_binary oper a b l c)"
  unfolding eval_strict_binary_def compare_numbers_def
  by (auto intro!: comp_intros same_scopes_pre split: Value.split)

lemma expr_same: "good_evals p \<Longrightarrow> preserves same_scopes (eval_expr native p e)"
proof -
  assume g: "good_evals p"
  then have e: "\<And>e. preserves same_scopes (ev_expr p e)" by (simp add: good_evals_def)
  have "preserves same_scopes (lookup_name what name l c)" for what name l c
    unfolding lookup_name_def by (auto intro!: comp_intros same_scopes_pre split: option.split)
  moreover have "preserves same_scopes (eval_unary oper v l c)" for oper v l c
    unfolding eval_unary_def by (auto intro!: comp_intros same_scopes_pre split: Value.split)
  ultimately show ?thesis
    unfolding eval_expr_def
    by (auto intro!: preserves_cbind[OF same_scopes_pre] preserves_if preserves_basic[OF same_scopes_pre] e
        call_same[OF g] member_same[OF g] strict_binary_same split: expr.split expr_node.split)
qed

lemma stmt_grows: "good_evals p \<Longrightarrow> preserves inner_grows (exec_stmt p s)"
proof -
  assume g: "good_evals p"
  then have e: "\<And>e. preserves inner_grows (ev_expr p e)"
    by (simp add: good_evals_def preserves_same_inner)
  have "preserves inner_grows (cmodify (env_store name v))" for name v
    by (simp add: preserves_def cmodify_def env_store_grows)
  then show ?thesis
    unfolding exec_stmt_def
    by (auto intro!: preserves_cbind[OF inner_grows_pre] preserves_if preserves_basic[OF inner_grows_pre] e
        preserves_same_inner[OF block_same[OF g]] split: stmt.split stmt_node.split option.split)
qed

lemma evals_good: "good_evals (evals native n)"
proof (induction n)
  case 0
  then show ?case
    by (auto simp: good_evals_def intro!: comp_intros same_scopes_pre inner_grows_pre)
next
  case (Suc n)
  show ?case using expr_same[OF Suc] stmt_grows[OF Suc] by (simp add: good_evals_def)
qed

subsection \<open>Fuel\<close>

lemma stmts_fuelled: "(\<And>s. s \<in> set ss \<Longrightarrow> fuelled (ev_stmt p s)) \<Longrightarrow> fuelled (exec_stmts p ss)"
  by (induction ss) (auto intro!: comp_intros)

lemma block_fuelled: "(\<And>s. s \<in> set ss \<Longrightarrow> fuelled (ev_stmt p s)) \<Longrightarrow> fuelled (exec_block p ss)"
  using stmts_fuelled[of ss p] by (simp add: exec_block_def fuelled_def split: prod.splits) (metis fst_conv)

lemma args_fuelled:
  "(\<And>name e. CallArg name e \<in> set as \<Longrightarrow> fuelled (ev_expr p e)) \<Longrightarrow> fuelled (eval_args p as pos named)"
proof (induction as arbitrary: pos named)
  case (Cons a as)
  obtain name e where a: "a = CallArg name e" by (cases a)
  have "fuelled (ev_expr p e)" using Cons.prems[of name e] a by simp
  moreover have "fuelled (eval_args p as pos' named')" for pos' named'
    by (rule Cons.IH) (use Cons.prems in auto)
  ultimately show ?case unfolding a by (auto intro!: fuelled_cbind)
qed (auto intro!: comp_intros)

lemma size_mem: "s \<in> set ss \<Longrightarrow> size s < size_list size ss"
  by (induction ss) auto

lemma size_expr_pos: "size (e::expr) \<noteq> 0"
  by (cases e) simp

lemma size_stmt_pos: "size (s::stmt) \<noteq> 0"
  by (cases s) simp

definition enough :: "('n, 'x) Evals \<Rightarrow> nat \<Rightarrow> bool" where
  "enough p n \<longleftrightarrow>
     (\<forall>e. size e \<le> n \<longrightarrow> fuelled (ev_expr p e)) \<and> (\<forall>s. size s \<le> n \<longrightarrow> fuelled (ev_stmt p s))"

lemma enough_list: "enough p n \<Longrightarrow> size_list size ss \<le> n \<Longrightarrow> s \<in> set ss \<Longrightarrow> fuelled (ev_stmt p s)"
  using size_mem[of s ss] by (auto simp: enough_def)

lemma call_fuelled:
  assumes p: "enough p n" and sz: "size callee + size_list size args + size_list size blk \<le> n"
  shows "fuelled (eval_call native p callee args blk hb l c)"
proof -
  have e: "fuelled (ev_expr p e)" if "size e \<le> size callee" for e
    using p sz that by (simp add: enough_def)
  define b where "b = (if hb then Some blk else None)"
  have args: "fuelled (eval_args p args [] Map.empty)"
  proof (rule args_fuelled)
    fix name e assume "CallArg name e \<in> set args"
    then have "size (CallArg name e) < size_list size args" by (rule size_mem)
    then show "fuelled (ev_expr p e)" using p sz by (simp add: enough_def)
  qed
  have nat: "fuelled (native f (make_context self pos named b l c) (exec_stmts p))" for f self pos named
    by (rule native_fuel, rule stmts_fuelled)
      (use sz enough_list[OF p, of blk] in \<open>auto simp: make_context_def b_def split: if_splits\<close>)
  have m: "fuelled (invoke_method native p v meth pos named b l c)" for v meth pos named
    unfolding invoke_method_def using nat
    by (auto intro!: comp_intros fuelled_string_method split: Value.split)
  have f: "fuelled (invoke_function native p v self pos named b l c)" for v self pos named
    unfolding invoke_function_def using nat by (auto intro!: comp_intros split: Value.split)
  have "size obj_e \<le> size callee" if "expr_node_of callee = MemberAccess obj_e member" for obj_e member
    using that by (cases callee) auto
  then show ?thesis
    unfolding eval_call_def Let_def b_def[symmetric]
    by (auto intro!: fuelled_cbind args e m f split: expr_node.split)
qed

lemma expr_fuelled: "enough p n \<Longrightarrow> size e \<le> Suc n \<Longrightarrow> fuelled (eval_expr native p e)"
proof -
  assume p: "enough p n" and sz: "size e \<le> Suc n"
  obtain node l c where e: "e = Expr node l c" by (cases e)
  with sz have node: "size node \<le> n" by simp
  have sub: "\<And>e'. size e' \<le> n \<Longrightarrow> fuelled (ev_expr p e')" using p by (simp add: enough_def)
  have "fuelled (eval_strict_binary oper a b l c)" for oper a b
    unfolding eval_strict_binary_def compare_numbers_def by (auto intro!: comp_intros split: Value.split)
  moreover have "fuelled (eval_unary oper v l c)" for oper v
    unfolding eval_unary_def by (auto intro!: comp_intros split: Value.split)
  moreover have "fuelled (lookup_name what name l c)" for what name
    unfolding lookup_name_def by (auto intro!: comp_intros split: option.split)
  moreover have "fuelled (eval_member p obj_e m)" if "size obj_e \<le> n" for obj_e m
    unfolding eval_member_def using sub[OF that] by (auto intro!: comp_intros split: option.split Value.split)
  ultimately show ?thesis
    using node sub unfolding e eval_expr_def
    by (cases node) (auto intro!: comp_intros call_fuelled[OF p])
qed

lemma stmt_fuelled: "enough p n \<Longrightarrow> size s \<le> Suc n \<Longrightarrow> fuelled (exec_stmt p s)"
proof -
  assume p: "enough p n" and sz: "size s \<le> Suc n"
  obtain node l c where s: "s = Stmt node l c" by (cases s)
  with sz have node: "size node \<le> n" by simp
  have sub: "\<And>e'. size e' \<le> n \<Longrightarrow> fuelled (ev_expr p e')" using p by (simp add: enough_def)
  have "fuelled (exec_block p ss)" if "size_list size ss \<le> n" for ss
    by (rule block_fuelled) (use enough_list[OF p that] in blast)
  then show ?thesis
    using node sub unfolding s exec_stmt_def
    by (cases node) (auto intro!: comp_intros split: option.split)
qed

lemma evals_enough: "enough (evals native n) n"
proof (induction n)
  case 0
  show ?case by (simp add: enough_def size_expr_pos size_stmt_pos)
next
  case (Suc n)
  show ?case using expr_fuelled[OF Suc] stmt_fuelled[OF Suc] by (simp add: enough_def)
qed

lemma run_program_fuelled: "fuelled (run_program native prog)"
  unfolding run_program_def
  by (rule stmts_fuelled) (rule enough_list[OF evals_enough order_refl])

lemma run_program_grows: "preserves inner_grows (run_program native prog)"
  unfolding run_program_def by (rule stmts_grow[OF evals_good])

end

subsection \<open>What a program does to the heap and the host state\<close>

text \<open>
  A relation between states that does not look at the environments holds across a whole program
  when it holds across every native call, given that it holds across the block passed to it.
\<close>

locale native_relation =
  fixes native :: "('n, 'x) native" and R :: "('n, 'x) Interp \<Rightarrow> ('n, 'x) Interp \<Rightarrow> bool"
  assumes R_pre: "preorder_rel R"
    and R_env: "it_heap s' = it_heap s \<Longrightarrow> it_ext s' = it_ext s \<Longrightarrow> R s s'"
    and native_R: "(\<And>blk. preserves R (run blk)) \<Longrightarrow> preserves R (native f ctx run)"
begin

definition keeps :: "('n, 'x) Evals \<Rightarrow> bool" where
  "keeps p \<longleftrightarrow> (\<forall>e. preserves R (ev_expr p e)) \<and> (\<forall>s. preserves R (ev_stmt p s))"

lemma stmts_R: "keeps p \<Longrightarrow> preserves R (exec_stmts p ss)"
  by (induction ss) (auto simp: keeps_def intro!: comp_intros R_pre)

lemma block_R: "keeps p \<Longrightarrow> preserves R (exec_block p body)"
proof -
  assume g: "keeps p"
  have "R s (snd (exec_block p body s))" for s
  proof -
    obtain r s1 where s1: "exec_stmts p body (push_scope s) = (r, s1)" by fastforce
    have "R s (push_scope s)" by (rule R_env) (simp_all add: push_scope_def)
    moreover have "R (push_scope s) s1" using stmts_R[OF g] s1 by (metis preserves_def snd_conv)
    moreover have "R s1 (pop_scope s1)" by (rule R_env) (simp_all add: pop_scope_def)
    ultimately show ?thesis using R_pre s1 by (simp add: exec_block_def) (metis preorder_rel_def)
  qed
  then show ?thesis by (simp add: preserves_def)
qed

lemma args_R: "keeps p \<Longrightarrow> preserves R (eval_args p as pos named)"
proof (induction as arbitrary: pos named)
  case (Cons a as)
  then show ?case
    by (cases a) (auto simp: keeps_def intro!: preserves_cbind[OF R_pre] simp del: fun_upd_apply)
qed (auto intro!: comp_intros R_pre)

lemma call_R: "keeps p \<Longrightarrow> preserves R (eval_call native p callee args blk hb l c)"
proof -
  assume g: "keeps p"
  then have e: "\<And>e. preserves R (ev_expr p e)" by (simp add: keeps_def)
  have n: "preserves R (native f ctx (exec_stmts p))" for f ctx
    by (rule native_R) (rule stmts_R[OF g])
  have m: "preserves R (invoke_method native p v meth pos named b l c)" for v meth pos named b
    unfolding invoke_method_def using n
    by (auto intro!: comp_intros R_pre preserves_string_method split: Value.split)
  have f: "preserves R (invoke_function native p v self pos named b l c)" for v self pos named b
    unfolding invoke_function_def using n by (auto intro!: comp_intros R_pre split: Value.split)
  show ?thesis
    unfolding eval_call_def Let_def
    by (auto intro!: preserves_cbind[OF R_pre] args_R[OF g] e m f split: expr_node.split)
qed

lemma expr_R: "keeps p \<Longrightarrow> preserves R (eval_expr native p e)"
proof -
  assume g: "keeps p"
  then have e: "\<And>e. preserves R (ev_expr p e)" by (simp add: keeps_def)
  have "preserves R (lookup_name what name l c)" for what name l c
    unfolding lookup_name_def by (auto intro!: comp_intros R_pre split: option.split)
  moreover have "preserves R (eval_unary oper v l c)" for oper v l c
    unfolding eval_unary_def by (auto intro!: comp_intros R_pre split: Value.split)
  moreover have "preserves R (eval_member p obj_e m)" for obj_e m
    unfolding eval_member_def using e by (auto intro!: comp_intros R_pre split: Value.split option.split)
  moreover have "preserves R (eval_strict_binary oper a b l c)" for oper a b l c
    unfolding eval_strict_binary_def compare_numbers_def
    by (auto intro!: comp_intros R_pre split: Value.split)
  ultimately show ?thesis
    unfolding eval_expr_def
    by (auto intro!: preserves_cbind[OF R_pre] preserves_if preserves_basic[OF R_pre] e call_R[OF g]
        split: expr.split expr_node.split)
qed

lemma stmt_R: "keeps p \<Longrightarrow> preserves R (exec_stmt p s)"
proof -
  assume g: "keeps p"
  then have e: "\<And>e. preserves R (ev_expr p e)" by (simp add: keeps_def)
  have "preserves R (cmodify (env_store name v))" for name v
    by (auto simp: preserves_def cmodify_def env_store_def set_scopes_def intro!: R_env split: option.split)
  then show ?thesis
    unfolding exec_stmt_def
    by (auto intro!: preserves_cbind[OF R_pre] preserves_if preserves_basic[OF R_pre] e block_R[OF g]
        split: stmt.split stmt_node.split option.split)
qed

lemma evals_R: "keeps (evals native n)"
proof (induction n)
  case 0
  then show ?case by (auto simp: keeps_def intro!: comp_intros R_pre)
next
  case (Suc n)
  show ?case using expr_R[OF Suc] stmt_R[OF Suc] by (simp add: keeps_def)
qed

lemma run_program_R: "preserves R (run_program native prog)"
  unfolding run_program_def by (rule stmts_R[OF evals_R])

end

end
