(* ===== verification/HttpResponse.thy ===== *)
theory HttpResponse
  imports Decimal
begin

text \<open>
  The HTTP responses of the plugins' \<open>net::http\<close> client: \<open>RawHttpResponse\<close> and
  \<open>parse_http_response\<close> of \<open>ztl/runner.cpp\<close>, and the request text \<open>Http.request\<close> sends.
\<close>

record RawHttpResponse =
  hr_status :: int
  hr_status_line :: string
  hr_headers :: "(string \<times> string) list"
  hr_body :: string
  hr_raw :: string

definition CRLF :: string where
  "CRLF = [CR, LF]"

text \<open>\<open>if (!line.empty() && line.back() == '\r') line.pop_back()\<close>.\<close>

definition strip_cr :: "string \<Rightarrow> string" where
  "strip_cr line = (if line \<noteq> [] \<and> last line = CR then butlast line else line)"

definition status_code_text :: "string \<Rightarrow> string option" where
  "status_code_text line =
     (case str_find line '' '' 0 of
        None \<Rightarrow> None
      | Some sp \<Rightarrow>
          Some (case str_find line '' '' (sp + 1) of
                  None \<Rightarrow> drop (sp + 1) line
                | Some sp2 \<Rightarrow> take (sp2 - sp - 1) (drop (sp + 1) line)))"

definition status_of_line :: "string \<Rightarrow> int" where
  "status_of_line line =
     (case status_code_text line of
        None \<Rightarrow> 0
      | Some t \<Rightarrow> (case stoi t of None \<Rightarrow> 0 | Some n \<Rightarrow> n))"

fun http_headers :: "string list \<Rightarrow> (string \<times> string) list" where
  "http_headers [] = []"
| "http_headers (l # ls) =
     (let line = strip_cr l in
      if line = [] then []
      else case str_find line '':'' 0 of
             None \<Rightarrow> http_headers ls
           | Some c \<Rightarrow> (str_trim (take c line), str_trim (drop (c + 1) line)) # http_headers ls)"

definition parse_http_response :: "string \<Rightarrow> RawHttpResponse" where
  "parse_http_response raw =
     (let (head, body) =
        (case str_find raw (CRLF @ CRLF) 0 of
           None \<Rightarrow> (raw, [])
         | Some i \<Rightarrow> (take i raw, drop (i + 4) raw))
      in case getlines LF head of
           [] \<Rightarrow> \<lparr>hr_status = 0, hr_status_line = [], hr_headers = [], hr_body = body, hr_raw = raw\<rparr>
         | l # ls \<Rightarrow>
             \<lparr>hr_status = status_of_line (strip_cr l), hr_status_line = strip_cr l,
              hr_headers = http_headers ls, hr_body = body, hr_raw = raw\<rparr>)"

text \<open>The request \<open>Http.request\<close> writes.\<close>

definition http_request_text :: "string \<Rightarrow> string \<Rightarrow> string \<Rightarrow> string \<Rightarrow> string" where
  "http_request_text meth path host body_in =
     meth @ '' '' @ path @ '' HTTP/1.1'' @ CRLF @
     ''Host: '' @ host @ CRLF @
     ''User-Agent: ZeroTrust/1.0'' @ CRLF @
     ''Accept: */*'' @ CRLF @
     ''Connection: close'' @ CRLF @
     (if body_in \<noteq> [] then ''Content-Length: '' @ show_nat (length body_in) @ CRLF else []) @
     CRLF @ body_in"

subsection \<open>Parsing what a server writes\<close>

text \<open>A response as servers write it: lines ended by CRLF, an empty line, the body.\<close>

definition crlf_lines :: "string list \<Rightarrow> string" where
  "crlf_lines ls = concat (map (\<lambda>l. l @ CRLF) ls)"

definition header_line :: "string \<times> string \<Rightarrow> string" where
  "header_line h = fst h @ '': '' @ snd h"

definition plain_line :: "string \<Rightarrow> bool" where
  "plain_line l \<longleftrightarrow> l \<noteq> [] \<and> CR \<notin> set l \<and> LF \<notin> set l"

definition trimmed :: "string \<Rightarrow> bool" where
  "trimmed s \<longleftrightarrow> s = [] \<or> (\<not> is_space (hd s) \<and> \<not> is_space (last s))"

definition good_header :: "string \<times> string \<Rightarrow> bool" where
  "good_header h \<longleftrightarrow>
     CHR '':'' \<notin> set (fst h) \<and> CR \<notin> set (fst h) \<and> LF \<notin> set (fst h) \<and> trimmed (fst h) \<and>
     CR \<notin> set (snd h) \<and> LF \<notin> set (snd h) \<and> trimmed (snd h)"

definition render_response :: "string \<Rightarrow> (string \<times> string) list \<Rightarrow> string \<Rightarrow> string" where
  "render_response status_line hs body =
     crlf_lines (status_line # map header_line hs) @ CRLF @ body"

lemma header_plain: "good_header h \<Longrightarrow> plain_line (header_line h)"
  by (auto simp: good_header_def plain_line_def header_line_def)

lemma find_sub_skip: "c \<notin> set l \<Longrightarrow> find_sub (c # p) (l @ r) k = find_sub (c # p) r (k + length l)"
proof (induction l arbitrary: k)
  case (Cons x l)
  then have "\<not> has_prefix (c # p) (x # l @ r)" by (auto simp: has_prefix_def)
  with Cons show ?case by simp
qed simp

lemma find_blank_line:
  assumes "ls \<noteq> []" and "\<And>l. l \<in> set ls \<Longrightarrow> plain_line l"
  shows "find_sub (CRLF @ CRLF) (crlf_lines ls @ CRLF @ body) k = Some (k + length (crlf_lines ls) - 2)"
  using assms
proof (induction ls arbitrary: k)
  case (Cons l ls)
  have "CR \<notin> set l" using Cons.prems by (simp add: plain_line_def)
  then have skip: "find_sub (CRLF @ CRLF) (l @ r) k = find_sub (CRLF @ CRLF) r (k + length l)" for r
    by (simp add: CRLF_def find_sub_skip)
  show ?case
  proof (cases ls)
    case Nil
    then show ?thesis
      by (simp add: crlf_lines_def skip) (simp add: CRLF_def has_prefix_def)
  next
    case (Cons m ms)
    then have "plain_line m" using Cons.prems by simp
    then obtain c m' where m: "m = c # m'" and c: "c \<noteq> CR" "c \<noteq> LF"
      by (cases m) (auto simp: plain_line_def)
    have step: "find_sub (CRLF @ CRLF) (CRLF @ c # r) j = find_sub (CRLF @ CRLF) (c # r) (j + 2)" for r j
      using c by (simp add: CRLF_def has_prefix_def)
    obtain r where r: "crlf_lines ls @ CRLF @ body = c # r" by (simp add: Cons m crlf_lines_def)
    have "find_sub (CRLF @ CRLF) (crlf_lines (l # ls) @ CRLF @ body) k =
        find_sub (CRLF @ CRLF) (CRLF @ crlf_lines ls @ CRLF @ body) (k + length l)"
      using skip[of "CRLF @ crlf_lines ls @ CRLF @ body"] by (simp add: crlf_lines_def)
    also have "\<dots> = find_sub (CRLF @ CRLF) (crlf_lines ls @ CRLF @ body) (k + length l + 2)"
      unfolding r by (rule step)
    also have "\<dots> = Some (k + length l + 2 + length (crlf_lines ls) - 2)"
      by (rule Cons.IH) (use Cons Cons.prems in auto)
    finally show ?thesis using Cons by (simp add: crlf_lines_def CRLF_def)
  qed
qed simp

lemma getlines_crlf:
  assumes "\<And>l. l \<in> set ls \<Longrightarrow> plain_line l" and "plain_line m"
  shows "map strip_cr (getlines LF (crlf_lines ls @ m)) = ls @ [m]"
  using assms(1)
proof (induction ls)
  case Nil
  have "last m \<noteq> CR" using assms(2) by (auto simp: plain_line_def dest: last_in_set)
  then show ?case
    using assms(2) by (simp add: crlf_lines_def getlines_last plain_line_def strip_cr_def)
next
  case (Cons l ls)
  have "LF \<notin> set (l @ [CR])" using Cons.prems by (simp add: plain_line_def)
  then have "getlines LF ((l @ [CR]) @ LF # crlf_lines ls @ m) = (l @ [CR]) # getlines LF (crlf_lines ls @ m)"
    by (rule getlines_field)
  with Cons show ?case by (simp add: crlf_lines_def CRLF_def strip_cr_def)
qed

lemma strip_cr_idem_plain: "plain_line l \<Longrightarrow> strip_cr l = l"
  by (auto simp: plain_line_def strip_cr_def dest: last_in_set)

lemma http_headers_strip:
  "(\<And>l. l \<in> set ls \<Longrightarrow> plain_line (strip_cr l)) \<Longrightarrow> http_headers ls = http_headers (map strip_cr ls)"
  by (induction ls) (simp_all add: Let_def strip_cr_idem_plain split: option.split)

lemma str_find_char_at: "c \<notin> set a \<Longrightarrow> str_find (a @ c # b) [c] 0 = Some (length a)"
  by (simp add: str_find_def find_sub_skip) (cases b, simp_all add: has_prefix_def)

lemma str_trim_space: "str_trim (CHR '' '' # s) = str_trim s"
  by (simp add: str_trim_def is_space_def)

lemma header_line_parsed:
  assumes "good_header h"
  shows "http_headers (header_line h # ls) = h # http_headers ls"
proof -
  have p: "strip_cr (header_line h) = header_line h" "header_line h \<noteq> []"
    using header_plain[OF assms] by (auto simp: strip_cr_idem_plain plain_line_def)
  have f: "str_find (header_line h) '':'' 0 = Some (length (fst h))"
    using assms str_find_char_at[of "CHR '':''" "fst h"] by (simp add: header_line_def good_header_def)
  have "str_trim (fst h) = fst h" "str_trim (snd h) = snd h"
    using assms by (auto simp: good_header_def trimmed_def intro: str_trim_id)
  then show ?thesis
    using p f by (simp add: Let_def) (simp add: header_line_def str_trim_space)
qed

lemma headers_parsed:
  "(\<And>h. h \<in> set hs \<Longrightarrow> good_header h) \<Longrightarrow> http_headers (map header_line hs) = hs"
proof (induction hs)
  case (Cons h hs)
  then show ?case using header_line_parsed[of h "map header_line hs"] by simp
qed simp

lemma status_line_parsed:
  assumes "n \<le> nat INT_MAX" "CHR '' '' \<notin> set proto"
  shows "status_of_line (proto @ '' '' @ show_nat n @ '' '' @ reason) = int n"
proof -
  let ?line = "proto @ '' '' @ show_nat n @ '' '' @ reason"
  have f1: "str_find ?line '' '' 0 = Some (length proto)"
    using str_find_char_at[of "CHR '' ''" proto] assms(2) by simp
  have sp: "CHR '' '' \<notin> set (show_nat n)"
    using show_nat_digits[of "CHR '' ''"] by (auto simp: is_digit_def)
  have "str_find ?line '' '' (length proto + 1) =
      find_sub '' '' (show_nat n @ '' '' @ reason) (length proto + 1)"
    by (simp add: str_find_def)
  also have "\<dots> = Some (length proto + 1 + length (show_nat n))"
    using find_sub_skip[OF sp] by (simp, cases reason) (simp_all add: has_prefix_def)
  finally have f2: "str_find ?line '' '' (length proto + 1) = Some (length proto + 1 + length (show_nat n))" .
  have "status_code_text ?line = Some (show_nat n)"
    using f1 f2 by (simp add: status_code_text_def)
  moreover have "stoi (show_nat n) = Some (int n)"
    using stoi_show_nat[of "[]" n] assms(1) by (simp add: INT_MAX_def)
  ultimately show ?thesis by (simp add: status_of_line_def)
qed

lemma crlf_lines_snoc: "crlf_lines (ls @ [m]) = crlf_lines ls @ m @ CRLF"
  by (simp add: crlf_lines_def)

lemma response_parts:
  assumes "\<And>l. l \<in> set (ls @ [m]) \<Longrightarrow> plain_line l"
  shows "str_find (crlf_lines (ls @ [m]) @ CRLF @ body) (CRLF @ CRLF) 0 =
      Some (length (crlf_lines ls @ m))"
proof -
  have "str_find (crlf_lines (ls @ [m]) @ CRLF @ body) (CRLF @ CRLF) 0 =
      Some (0 + length (crlf_lines (ls @ [m])) - 2)"
    unfolding str_find_def using find_blank_line[of "ls @ [m]" body 0] assms by simp
  then show ?thesis by (simp add: crlf_lines_snoc CRLF_def)
qed

text \<open>C38: What a server writes is what the client reads: parsing a response of a status line,
  header lines and a body gives back the status code, the status line, every header in order and
  the body, byte for byte, whatever the body contains.\<close>

theorem parse_render_response:
  assumes "n \<le> nat INT_MAX" "CHR '' '' \<notin> set proto" "plain_line (proto @ '' '' @ reason)"
    and "\<And>h. h \<in> set hs \<Longrightarrow> good_header h"
  defines "status_line \<equiv> proto @ '' '' @ show_nat n @ '' '' @ reason"
  shows "parse_http_response (render_response status_line hs body) =
    \<lparr>hr_status = int n, hr_status_line = status_line, hr_headers = hs, hr_body = body,
     hr_raw = render_response status_line hs body\<rparr>"
proof -
  let ?lines = "status_line # map header_line hs"
  have "CR \<notin> set (show_nat n)" "LF \<notin> set (show_nat n)"
    using show_nat_digits[of CR] show_nat_digits[of LF] by (auto simp: is_digit_def)
  then have pl: "plain_line l" if "l \<in> set ?lines" for l
    using that assms(3,4) header_plain by (auto simp: plain_line_def status_line_def)
  obtain ls m where lm: "?lines = ls @ [m]" by (metis list.distinct(1) rev_exhaust)
  have raw: "render_response status_line hs body = (crlf_lines ls @ m) @ CRLF @ CRLF @ body"
    unfolding render_response_def lm crlf_lines_snoc by simp
  have f: "str_find (render_response status_line hs body) (CRLF @ CRLF) 0 = Some (length (crlf_lines ls @ m))"
    unfolding render_response_def lm by (rule response_parts) (use pl lm in simp)
  have g: "map strip_cr (getlines LF (crlf_lines ls @ m)) = ?lines"
    unfolding lm by (rule getlines_crlf) (use pl lm in auto)
  then obtain l0 ls0 where l0: "getlines LF (crlf_lines ls @ m) = l0 # ls0" "strip_cr l0 = status_line"
    "map strip_cr ls0 = map header_line hs" by auto
  have "plain_line (strip_cr l)" if "l \<in> set ls0" for l
    using pl that l0(3) by (metis image_eqI list.set_intros(2) set_map)
  then have "http_headers ls0 = hs"
    using headers_parsed[OF assms(4)] l0(3) by (simp add: http_headers_strip)
  moreover have "status_of_line status_line = int n"
    unfolding status_line_def by (rule status_line_parsed[OF assms(1,2)])
  ultimately show ?thesis
    unfolding parse_http_response_def f by (simp add: raw l0(1,2)) (simp add: CRLF_def)
qed

theorem parse_render_response_witness:
  "parse_http_response (render_response (''HTTP/1.1'' @ '' '' @ show_nat 200 @ '' '' @ ''OK'')
      [(''Server'', ''nginx: 1.18''), (''X'', [])] (CRLF @ CRLF @ ''hi'')) =
    \<lparr>hr_status = int 200, hr_status_line = ''HTTP/1.1'' @ '' '' @ show_nat 200 @ '' '' @ ''OK'',
     hr_headers = [(''Server'', ''nginx: 1.18''), (''X'', [])], hr_body = CRLF @ CRLF @ ''hi'',
     hr_raw = render_response (''HTTP/1.1'' @ '' '' @ show_nat 200 @ '' '' @ ''OK'')
      [(''Server'', ''nginx: 1.18''), (''X'', [])] (CRLF @ CRLF @ ''hi'')\<rparr>"
  by (rule parse_render_response)
    (auto simp: INT_MAX_def plain_line_def good_header_def trimmed_def is_space_def)

end
