(* ===== verification/Transport.thy ===== *)
theory Transport
  imports Cidr Findings "HOL-Library.Signed_Division"
begin

text \<open>
  \<open>transport/\<close>: TCP, UDP, ICMP and TLS clients.  The system calls and OpenSSL are parameters: a
  record \<open>os\<close> (and \<open>ssl\<close>) of functions on an arbitrary world \<open>'w\<close>, each returning its result,
  the \<open>errno\<close> the code looks at, and the next world.  A client object is its file descriptor.
  Bytes received are given with the length that the call returned.
\<close>

unbundle bit_operations_syntax

datatype sock_type = SOCK_STREAM | SOCK_DGRAM | SOCK_RAW_ICMP

datatype poll_event = POLLIN | POLLOUT

record 'w os =
  os_socket :: "sock_type \<Rightarrow> 'w \<Rightarrow> int \<times> 'w"
  os_close :: "int \<Rightarrow> 'w \<Rightarrow> 'w"
  os_getfl :: "int \<Rightarrow> 'w \<Rightarrow> int \<times> 'w"
  os_setfl :: "int \<Rightarrow> int \<Rightarrow> 'w \<Rightarrow> int \<times> 'w"
  os_connect :: "int \<Rightarrow> 32 word \<Rightarrow> 16 word \<Rightarrow> 'w \<Rightarrow> (int \<times> int) \<times> 'w"
  os_poll :: "int \<Rightarrow> poll_event \<Rightarrow> int \<Rightarrow> 'w \<Rightarrow> int \<times> 'w"
  os_so_error :: "int \<Rightarrow> 'w \<Rightarrow> int \<times> 'w"
  os_send :: "int \<Rightarrow> string \<Rightarrow> 'w \<Rightarrow> (int \<times> int) \<times> 'w"
  os_recv :: "int \<Rightarrow> nat \<Rightarrow> 'w \<Rightarrow> (int \<times> string) \<times> 'w"
  os_timeouts :: "int \<Rightarrow> int \<Rightarrow> int \<Rightarrow> 'w \<Rightarrow> 'w"
  os_bind :: "int \<Rightarrow> 16 word \<Rightarrow> 'w \<Rightarrow> int \<times> 'w"
  os_sendto :: "int \<Rightarrow> string \<Rightarrow> 32 word \<Rightarrow> 16 word \<Rightarrow> 'w \<Rightarrow> int \<times> 'w"
  os_recvfrom :: "int \<Rightarrow> nat \<Rightarrow> 'w \<Rightarrow> (int \<times> string) \<times> 'w"
  os_getpid :: "'w \<Rightarrow> int \<times> 'w"

definition EINTR :: int where "EINTR = 4"

definition ECONNREFUSED :: int where "ECONNREFUSED = 111"

definition EINPROGRESS :: int where "EINPROGRESS = 115"

definition O_NONBLOCK :: int where "O_NONBLOCK = 2048"

section \<open>TCP\<close>

definition set_nonblocking :: "'w os \<Rightarrow> int \<Rightarrow> 'w \<Rightarrow> bool \<times> 'w" where
  "set_nonblocking os fd w =
     (let (fl, w1) = os_getfl os fd w
      in if fl = -1 then (False, w1)
         else let (r, w2) = os_setfl os fd (fl OR O_NONBLOCK) w1 in (r \<noteq> -1, w2))"

definition set_blocking :: "'w os \<Rightarrow> int \<Rightarrow> 'w \<Rightarrow> bool \<times> 'w" where
  "set_blocking os fd w =
     (let (fl, w1) = os_getfl os fd w
      in if fl = -1 then (False, w1)
         else let (r, w2) = os_setfl os fd (fl AND NOT O_NONBLOCK) w1 in (r \<noteq> -1, w2))"

definition tcp_new :: "'w os \<Rightarrow> 'w \<Rightarrow> int \<times> 'w" where
  "tcp_new os w = os_socket os SOCK_STREAM w"

definition tcp_delete :: "'w os \<Rightarrow> int \<Rightarrow> 'w \<Rightarrow> 'w" where
  "tcp_delete os fd w = (if fd \<noteq> -1 then os_close os fd w else w)"

text \<open>\<open>static_cast<std::uint16_t>(port)\<close>, also the conversion in \<open>htons(port)\<close>.\<close>

definition port16 :: "int \<Rightarrow> 16 word" where
  "port16 port = word_of_int port"

definition tcp_result :: "int \<Rightarrow> PortState \<Rightarrow> Port" where
  "tcp_result port st = port_default\<lparr>p_number := port16 port, p_protocol := P_TCP, p_state := st\<rparr>"

text \<open>The verdict of a connection attempt that did not succeed at once, after \<open>poll\<close>.\<close>

definition tcp_wait :: "'w os \<Rightarrow> int \<Rightarrow> int \<Rightarrow> 'w \<Rightarrow> PortState \<times> 'w" where
  "tcp_wait os fd timeout_ms w =
     (let (poll_result, w1) = os_poll os fd POLLOUT timeout_ms w
      in if poll_result = 0 then (S_FILTERED, w1)
         else if poll_result < 0 then (S_UNKNOWN, w1)
         else let (e, w2) = os_so_error os fd w1
              in (if e = 0 then S_OPEN else if e = ECONNREFUSED then S_CLOSED else S_FILTERED, w2))"

definition tcp_connect :: "'w os \<Rightarrow> int \<Rightarrow> string \<Rightarrow> int \<Rightarrow> int \<Rightarrow> 'w \<Rightarrow> Port \<times> 'w" where
  "tcp_connect os fd ip port timeout_ms w =
     (if fd = -1 then (tcp_result port S_UNKNOWN, w)
      else case inet_pton ip of
        None \<Rightarrow> (tcp_result port S_UNKNOWN, w)
      | Some addr \<Rightarrow>
          let (nb, w1) = set_nonblocking os fd w
          in if \<not> nb then (tcp_result port S_UNKNOWN, w1)
             else let ((rc, errno), w2) = os_connect os fd addr (port16 port) w1
                  in if rc = 0 then (tcp_result port S_OPEN, snd (set_blocking os fd w2))
                     else if errno \<noteq> EINPROGRESS then
                       (tcp_result port (if errno = ECONNREFUSED then S_CLOSED else S_FILTERED),
                        snd (set_blocking os fd w2))
                     else let (st, w3) = tcp_wait os fd timeout_ms w2
                          in (tcp_result port st, snd (set_blocking os fd w3)))"

text \<open>
  The send loop, on the data not yet sent.  A call interrupted for ever keeps it running for
  ever, hence the partial function.
\<close>

partial_function (option) tcp_send_loop :: "'w os \<Rightarrow> int \<Rightarrow> string \<Rightarrow> 'w \<Rightarrow> (bool \<times> 'w) option" where
  "tcp_send_loop os fd data w =
     (if data = [] then Some (True, w)
      else case os_send os fd data w of ((r, errno), w1) \<Rightarrow>
        if 0 < r then tcp_send_loop os fd (drop (nat r) data) w1
        else if r < 0 \<and> errno = EINTR then tcp_send_loop os fd data w1
        else Some (False, w1))"

definition tcp_send :: "'w os \<Rightarrow> int \<Rightarrow> string \<Rightarrow> 'w \<Rightarrow> (bool \<times> 'w) option" where
  "tcp_send os fd data w = (if fd = -1 then Some (False, w) else tcp_send_loop os fd data w)"

definition tcp_receive :: "'w os \<Rightarrow> int \<Rightarrow> int \<Rightarrow> 'w \<Rightarrow> string \<times> 'w" where
  "tcp_receive os fd timeout_ms w =
     (let (poll_result, w1) = os_poll os fd POLLIN timeout_ms w
      in if poll_result \<le> 0 then ([], w1)
         else let ((n, buffer), w2) = os_recv os fd 4096 w1
              in if n \<le> 0 then ([], w2) else (take (nat n) buffer, w2))"

section \<open>UDP\<close>

definition udp_new :: "'w os \<Rightarrow> 'w \<Rightarrow> int \<times> 'w" where
  "udp_new os w = os_socket os SOCK_DGRAM w"

definition udp_delete :: "'w os \<Rightarrow> int \<Rightarrow> 'w \<Rightarrow> 'w" where
  "udp_delete os fd w = (if fd \<noteq> -1 then os_close os fd w else w)"

text \<open>The result and the new value of the member \<open>bound\<close>.\<close>

definition udp_bind :: "'w os \<Rightarrow> int \<Rightarrow> bool \<Rightarrow> int \<Rightarrow> 'w \<Rightarrow> (bool \<times> bool) \<times> 'w" where
  "udp_bind os fd bound port w =
     (if fd = -1 then ((False, bound), w)
      else let (r, w1) = os_bind os fd (port16 port) w
           in if r < 0 then ((False, bound), w1) else ((True, True), w1))"

definition udp_send :: "'w os \<Rightarrow> int \<Rightarrow> string \<Rightarrow> int \<Rightarrow> string \<Rightarrow> 'w \<Rightarrow> bool \<times> 'w" where
  "udp_send os fd ip port data w =
     (if fd = -1 then (False, w)
      else case inet_pton ip of
        None \<Rightarrow> (False, w)
      | Some addr \<Rightarrow>
          let (r, w1) = os_sendto os fd data addr (port16 port) w in (r = int (length data), w1))"

definition udp_receive :: "'w os \<Rightarrow> int \<Rightarrow> int \<Rightarrow> 'w \<Rightarrow> string \<times> 'w" where
  "udp_receive os fd timeout_ms w =
     (if fd = -1 then ([], w)
      else let (poll_result, w1) = os_poll os fd POLLIN timeout_ms w
           in if poll_result \<le> 0 then ([], w1)
              else let ((n, buffer), w2) = os_recvfrom os fd 4096 w1
                   in if n < 0 then ([], w2) else (take (nat n) buffer, w2))"

section \<open>ICMP\<close>

type_synonym byte = "8 word"

definition byte_of :: "char \<Rightarrow> byte" where
  "byte_of c = word_of_nat (code c)"

definition char_of_byte :: "byte \<Rightarrow> char" where
  "char_of_byte b = char_of (unat b)"

text \<open>The 16-bit words of memory on a little-endian machine; a last odd byte stands alone.\<close>

fun add_words :: "byte list \<Rightarrow> 32 word \<Rightarrow> 32 word" where
  "add_words [] acc = acc"
| "add_words [b] acc = acc + ucast b"
| "add_words (lo # hi # bs) acc = add_words bs (acc + (ucast lo + push_bit 8 (ucast hi)))"

function fold_carries :: "32 word \<Rightarrow> 32 word" where
  "fold_carries acc =
     (if drop_bit 16 acc \<noteq> 0 then fold_carries ((acc AND 0xFFFF) + drop_bit 16 acc) else acc)"
  by pat_completeness auto

lemma unat_high: "unat (drop_bit 16 acc :: 32 word) = unat acc div 65536"
  by (simp only: unsigned_drop_bit_eq drop_bit_eq_div[where 'a = nat] take_bit_nat_eq_self[OF unsigned_less]) simp

lemma fold_carries_step:
  "unat ((acc AND 0xFFFF) + drop_bit 16 acc :: 32 word) = unat acc mod 65536 + unat acc div 65536"
proof -
  have "acc AND 0xFFFF = take_bit 16 acc" by (simp add: take_bit_eq_mask mask_eq_exp_minus_1)
  then have "unat (acc AND 0xFFFF) = unat acc mod 65536"
    by (simp only: unsigned_take_bit_eq) (simp add: take_bit_eq_mod)
  moreover note unat_high[of acc]
  moreover have "unat acc < 2 ^ 32" using unsigned_less[of acc] by simp
  then have "unat acc div 65536 < 65536" by simp
  moreover have "unat acc mod 65536 < 65536" by simp
  ultimately show ?thesis by (subst unat_add_lem[THEN iffD1]) auto
qed

termination fold_carries
proof (relation "measure unat")
  fix acc :: "32 word"
  assume "drop_bit 16 acc \<noteq> 0"
  then have "unat (drop_bit 16 acc) \<noteq> 0" by (metis unsigned_0 unsigned_word_eqI)
  then have "0 < unat acc div 65536" unfolding unat_high by simp
  moreover have "unat acc = 65536 * (unat acc div 65536) + unat acc mod 65536" by simp
  ultimately have "unat acc mod 65536 + unat acc div 65536 < unat acc" by linarith
  then show "((acc AND 0xFFFF) + drop_bit 16 acc, acc) \<in> measure unat"
    by (simp add: fold_carries_step)
qed simp

declare fold_carries.simps [simp del]

definition calculate_checksum :: "byte list \<Rightarrow> 16 word" where
  "calculate_checksum data = ucast (NOT (fold_carries (add_words data 0)))"

definition lo_byte :: "16 word \<Rightarrow> byte" where
  "lo_byte w = ucast w"

definition hi_byte :: "16 word \<Rightarrow> byte" where
  "hi_byte w = ucast (drop_bit 8 w)"

text \<open>The packed \<open>IcmpHeader\<close> in memory: type, code, checksum, identifier, sequence.\<close>

definition icmp_header :: "byte \<Rightarrow> byte \<Rightarrow> 16 word \<Rightarrow> 16 word \<Rightarrow> 16 word \<Rightarrow> byte list" where
  "icmp_header typ cod checksum identifier seq =
     [typ, cod, lo_byte checksum, hi_byte checksum, lo_byte identifier, hi_byte identifier,
      lo_byte seq, hi_byte seq]"

definition echo_request :: "16 word \<Rightarrow> byte list" where
  "echo_request identifier =
     icmp_header 8 0 (calculate_checksum (icmp_header 8 0 0 identifier 1)) identifier 1"

text \<open>
  The verdict on a received datagram.  \<open>buffer\<close> is the whole array of 1024 bytes, of which the
  first \<open>received\<close> were written by the call.
\<close>

definition ping_reply :: "Host \<Rightarrow> 16 word \<Rightarrow> byte list \<Rightarrow> nat \<Rightarrow> Host" where
  "ping_reply result identifier buffer received =
     (let ihl = unat (buffer ! 0 AND 0x0F) * 4; ttl = unat (buffer ! 8)
      in if received < ihl + 8 then result\<lparr>h_state := H_UNKNOWN\<rparr>
         else if buffer ! ihl = 0 \<and> buffer ! (ihl + 4) = lo_byte identifier \<and>
                 buffer ! (ihl + 5) = hi_byte identifier
         then result\<lparr>h_state := H_ALIVE, h_ttl := int ttl\<rparr>
         else result\<lparr>h_state := H_UNKNOWN\<rparr>)"

definition icmp_new :: "'w os \<Rightarrow> 'w \<Rightarrow> int \<times> 'w" where
  "icmp_new os w = os_socket os SOCK_RAW_ICMP w"

text \<open>\<open>junk\<close> is what the uninitialised array held before the call.\<close>

definition icmp_ping :: "'w os \<Rightarrow> byte list \<Rightarrow> int \<Rightarrow> string \<Rightarrow> int \<Rightarrow> 'w \<Rightarrow> Host \<times> 'w" where
  "icmp_ping os junk fd ip timeout_ms w =
     (let result = host_default\<lparr>h_ip := ip\<rparr> in
      if fd = -1 then (result\<lparr>h_state := H_UNKNOWN\<rparr>, w)
      else case inet_pton ip of
        None \<Rightarrow> (result\<lparr>h_state := H_UNKNOWN\<rparr>, w)
      | Some addr \<Rightarrow>
          let (pid, w1) = os_getpid os w;
              identifier = word_of_int pid;
              (sent, w2) = os_sendto os fd (map char_of_byte (echo_request identifier)) addr 0 w1
          in if sent \<noteq> 8 then (result\<lparr>h_state := H_UNKNOWN\<rparr>, w2)
             else let (poll_result, w3) = os_poll os fd POLLIN timeout_ms w2
                  in if poll_result = 0 then (result\<lparr>h_state := H_UNREACHABLE\<rparr>, w3)
                     else if poll_result < 0 then (result\<lparr>h_state := H_UNKNOWN\<rparr>, w3)
                     else let ((received, data), w4) = os_recvfrom os fd 1024 w3
                          in if received \<le> 0 then (result\<lparr>h_state := H_UNREACHABLE\<rparr>, w4)
                             else let bytes = map byte_of (take (nat received) data)
                                  in (ping_reply result identifier
                                        (bytes @ drop (length bytes) junk) (nat received), w4))"

section \<open>TLS\<close>

datatype TlsHandshakeResult =
  TLS_UNKNOWN | TLS_OK | TLS_REFUSED | TLS_TIMEOUT | TLS_NOT_TLS | TLS_HANDSHAKE_FAILED

record TlsCertificateInfo =
  tc_subject :: string
  tc_issuer :: string
  tc_not_before :: string
  tc_not_after :: string
  tc_signature_algorithm :: string
  tc_self_signed :: bool
  tc_expired :: bool
  tc_days_until_expiry :: int

definition cert_default :: TlsCertificateInfo where
  "cert_default = \<lparr>tc_subject = [], tc_issuer = [], tc_not_before = [], tc_not_after = [],
     tc_signature_algorithm = [], tc_self_signed = False, tc_expired = False, tc_days_until_expiry = 0\<rparr>"

record TlsHandshakeReport =
  tr_result :: TlsHandshakeResult
  tr_protocol_version :: string
  tr_cipher_name :: string
  tr_certificate :: TlsCertificateInfo
  tr_certificate_present :: bool
  tr_accepted_ciphers :: "string list"

definition report_default :: TlsHandshakeReport where
  "report_default = \<lparr>tr_result = TLS_UNKNOWN, tr_protocol_version = [], tr_cipher_name = [],
     tr_certificate = cert_default, tr_certificate_present = False, tr_accepted_ciphers = []\<rparr>"

text \<open>
  A peer certificate, as OpenSSL's accessors give it; a null pointer is \<open>None\<close>.  A name has its
  one-line text, unless the memory for it is missing; a time its printed text, unless there is no memory for
  the \<open>BIO\<close>, and the difference from now as \<open>ASN1_TIME_diff\<close> gives it: whole days and the remaining seconds,
  both of the same sign.  The signature is an algorithm with an object, named by \<open>OBJ_obj2txt\<close>.
\<close>

record X509_NAME =
  xn_oneline :: "string option"

record ASN1_TIME =
  at_print :: "string option"
  at_diff :: "int \<times> int"

record X509 =
  x_subject_name :: "X509_NAME option"
  x_issuer_name :: "X509_NAME option"
  x_not_before :: "ASN1_TIME option"
  x_not_after :: "ASN1_TIME option"
  x_name_cmp :: int
  x_signature :: "string option option"

datatype ssl_error = SSL_ERROR_ZERO_RETURN | SSL_ERROR_SYSCALL | SSL_ERROR_OTHER

record 'w ssl =
  ssl_ctx :: bool
  ssl_new :: "'w \<Rightarrow> bool \<times> 'w"
  ssl_connect :: "int \<Rightarrow> string \<Rightarrow> string \<Rightarrow> 'w \<Rightarrow> (int \<times> ssl_error) \<times> 'w"
  ssl_version :: "'w \<Rightarrow> string"
  ssl_cipher :: "'w \<Rightarrow> string option"
  ssl_peer :: "'w \<Rightarrow> X509 option"
  ssl_shutdown :: "'w \<Rightarrow> 'w"

definition text_or_empty :: "string option \<Rightarrow> string" where
  "text_or_empty s = (case s of None \<Rightarrow> [] | Some t \<Rightarrow> t)"

definition x509_name_to_string :: "X509_NAME option \<Rightarrow> string" where
  "x509_name_to_string name =
     (case name of
        None \<Rightarrow> []
      | Some n \<Rightarrow> (case xn_oneline n of None \<Rightarrow> [] | Some buffer \<Rightarrow> c_str buffer))"

definition asn1_time_to_string :: "ASN1_TIME option \<Rightarrow> string" where
  "asn1_time_to_string time = (case time of None \<Rightarrow> [] | Some t \<Rightarrow> text_or_empty (at_print t))"

definition days_between_now_and :: "ASN1_TIME option \<Rightarrow> int" where
  "days_between_now_and target = (case target of None \<Rightarrow> 0 | Some t \<Rightarrow> fst (at_diff t))"

definition is_self_signed :: "X509 option \<Rightarrow> bool" where
  "is_self_signed peer = (case peer of None \<Rightarrow> False | Some cert \<Rightarrow> x_name_cmp cert = 0)"

text \<open>The buffer has 256 bytes, of which the last one written is the terminating NUL.\<close>

definition signature_algorithm :: "X509 option \<Rightarrow> string" where
  "signature_algorithm peer =
     (case peer of
        None \<Rightarrow> []
      | Some cert \<Rightarrow>
          (case x_signature cert of
             None \<Rightarrow> []
           | Some algo \<Rightarrow> (case algo of None \<Rightarrow> [] | Some obj \<Rightarrow> c_str (take 255 obj))))"

definition extract_cert_info :: "X509 option \<Rightarrow> TlsCertificateInfo" where
  "extract_cert_info peer =
     (case peer of
        None \<Rightarrow> cert_default
      | Some cert \<Rightarrow>
          let days = days_between_now_and (x_not_after cert) in
          \<lparr>tc_subject = x509_name_to_string (x_subject_name cert), tc_issuer = x509_name_to_string (x_issuer_name cert),
           tc_not_before = asn1_time_to_string (x_not_before cert),
           tc_not_after = asn1_time_to_string (x_not_after cert),
           tc_signature_algorithm = signature_algorithm peer, tc_self_signed = is_self_signed peer,
           tc_expired = (days < 0), tc_days_until_expiry = days\<rparr>)"

lemmas cert_simps = text_or_empty_def x509_name_to_string_def asn1_time_to_string_def days_between_now_and_def
  is_self_signed_def signature_algorithm_def

text \<open>\<open>connect_tcp\<close>: a blocking connection with time limits, -1 when it fails.\<close>

definition connect_tcp :: "'w os \<Rightarrow> string \<Rightarrow> int \<Rightarrow> int \<Rightarrow> 'w \<Rightarrow> int \<times> 'w" where
  "connect_tcp os ip port timeout_ms w =
     (let (fd, w1) = os_socket os SOCK_STREAM w
      in if fd = -1 then (-1, w1)
         else let w2 = os_timeouts os fd (timeout_ms sdiv 1000) ((timeout_ms smod 1000) * 1000) w1
              in case inet_pton ip of
                   None \<Rightarrow> (-1, os_close os fd w2)
                 | Some addr \<Rightarrow>
                     let ((rc, errno), w3) = os_connect os fd addr (port16 port) w2
                     in if rc \<noteq> 0 then (-1, os_close os fd w3) else (fd, w3))"

definition tls_session :: "'w os \<Rightarrow> 'w ssl \<Rightarrow> int \<Rightarrow> string \<Rightarrow> string \<Rightarrow> 'w \<Rightarrow> TlsHandshakeReport \<times> 'w" where
  "tls_session os ssl fd ip cipher_list w =
     (let ((rc, err), w1) = ssl_connect ssl fd ip cipher_list w;
          report =
            (if rc = 1 then
               let info = extract_cert_info (ssl_peer ssl w1)
               in report_default\<lparr>tr_result := TLS_OK, tr_protocol_version := ssl_version ssl w1,
                    tr_cipher_name := text_or_empty (ssl_cipher ssl w1), tr_certificate := info,
                    tr_certificate_present := (tc_subject info \<noteq> [])\<rparr>
             else if err = SSL_ERROR_ZERO_RETURN \<or> err = SSL_ERROR_SYSCALL
             then report_default\<lparr>tr_result := TLS_NOT_TLS\<rparr>
             else report_default\<lparr>tr_result := TLS_HANDSHAKE_FAILED\<rparr>)
      in (report, os_close os fd (ssl_shutdown ssl w1)))"

definition handshake_with_ciphers ::
  "'w os \<Rightarrow> 'w ssl \<Rightarrow> string \<Rightarrow> int \<Rightarrow> string \<Rightarrow> int \<Rightarrow> 'w \<Rightarrow> TlsHandshakeReport \<times> 'w" where
  "handshake_with_ciphers os ssl ip port cipher_list timeout_ms w =
     (if \<not> ssl_ctx ssl then (report_default\<lparr>tr_result := TLS_UNKNOWN\<rparr>, w)
      else let (fd, w1) = connect_tcp os ip port timeout_ms w
           in if fd = -1 then (report_default\<lparr>tr_result := TLS_REFUSED\<rparr>, w1)
              else let (ok, w2) = ssl_new ssl w1
                   in if \<not> ok then (report_default\<lparr>tr_result := TLS_UNKNOWN\<rparr>, os_close os fd w2)
                      else tls_session os ssl fd ip cipher_list w2)"

definition tls_handshake :: "'w os \<Rightarrow> 'w ssl \<Rightarrow> string \<Rightarrow> int \<Rightarrow> int \<Rightarrow> 'w \<Rightarrow> TlsHandshakeReport \<times> 'w" where
  "tls_handshake os ssl ip port timeout_ms w = handshake_with_ciphers os ssl ip port [] timeout_ms w"

section \<open>Lemmas\<close>

subsection \<open>The checksum\<close>

text \<open>The sum of the 16-bit words as a natural number.\<close>

fun words_sum :: "byte list \<Rightarrow> nat" where
  "words_sum [] = 0"
| "words_sum [b] = unat b"
| "words_sum (lo # hi # bs) = unat lo + 256 * unat hi + words_sum bs"

lemma unat_byte: "unat (b::byte) < 256"
  using unsigned_less[of b] by simp

lemma words_sum_bound: "words_sum bs \<le> 65535 * ((length bs + 1) div 2)"
proof (induction bs rule: words_sum.induct)
  case (2 b)
  then show ?case using unat_byte[of b] by simp
next
  case (3 lo hi bs)
  then show ?case using unat_byte[of lo] unat_byte[of hi] by simp
qed simp

lemma unat_ucast32: "unat (ucast (b::byte) :: 32 word) = unat b"
  by (simp add: unsigned_ucast_eq take_bit_nat_eq_self order.strict_trans1[OF less_imp_le[OF unat_byte]])

lemma unat_add_small: "unat a + unat b < 2 ^ 32 \<Longrightarrow> unat (a + b) = unat a + unat b" for a b :: "32 word"
  by (subst unat_add_lem[THEN iffD1]) auto

lemma unat_word16: "unat (ucast lo + push_bit 8 (ucast hi) :: 32 word) = unat lo + 256 * unat hi"
  for lo hi :: byte
proof -
  have "unat (push_bit 8 (ucast hi) :: 32 word) = 256 * unat hi"
    using unat_byte[of hi]
    by (simp only: unsigned_push_bit_eq unat_ucast32 push_bit_eq_mult[where 'a = nat])
      (simp add: take_bit_nat_eq_self)
  then show ?thesis using unat_byte[of lo] unat_byte[of hi] by (subst unat_add_small) (simp_all add: unat_ucast32)
qed

lemma add_words_sum:
  "unat acc + words_sum bs < 2 ^ 32 \<Longrightarrow> unat (add_words bs acc) = unat acc + words_sum bs"
proof (induction bs acc rule: add_words.induct)
  case (2 b acc)
  then show ?case by (simp add: unat_add_small unat_ucast32)
next
  case (3 lo hi bs acc)
  have "unat (acc + (ucast lo + push_bit 8 (ucast hi))) = unat acc + (unat lo + 256 * unat hi)"
    using 3(2) by (subst unat_add_small) (simp_all add: unat_word16)
  with 3 show ?case by simp
qed simp

lemma fold_carries_mod:
  "unat (fold_carries acc) < 65536 \<and> unat (fold_carries acc) mod 65535 = unat acc mod 65535 \<and>
   (unat (fold_carries acc) = 0 \<longleftrightarrow> unat acc = 0)"
proof (induction acc rule: fold_carries.induct)
  case (1 acc)
  show ?case
  proof (cases "drop_bit 16 acc = 0")
    case True
    then have "unat acc div 65536 = 0" using unat_high[of acc] by simp
    with True show ?thesis by (simp add: fold_carries.simps[of acc])
  next
    case False
    let ?n = "unat acc"
    have "?n = 65535 * (?n div 65536) + (?n mod 65536 + ?n div 65536)"
      using mult_div_mod_eq[of 65536 ?n] by simp
    then have "?n mod 65535 = (?n mod 65536 + ?n div 65536) mod 65535" by (metis mod_mult_self4)
    moreover have "?n mod 65536 + ?n div 65536 = 0 \<longleftrightarrow> ?n = 0" by (metis add_is_0 div_0 mod_0 mult_div_mod_eq mult_0_right add_0)
    ultimately show ?thesis
      using 1[OF False] False by (simp add: fold_carries.simps[of acc] fold_carries_step)
  qed
qed

lemma checksum_value:
  assumes "words_sum bs < 2 ^ 32"
  shows "unat (calculate_checksum bs) = 65535 - unat (fold_carries (add_words bs 0))"
proof -
  let ?f = "fold_carries (add_words bs 0)"
  have f: "unat ?f < 65536" using fold_carries_mod by blast
  have "NOT ?f = - 1 - ?f" by (simp add: not_eq_complement)
  moreover have "unat (- 1 - ?f) = unat (- 1 :: 32 word) - unat ?f" by (rule unat_sub) simp
  ultimately have "unat (NOT ?f) = 2 ^ 32 - 1 - unat ?f" by (simp add: unsigned_minus_1_eq_mask mask_eq_exp_minus_1)
  then have "unat (ucast (NOT ?f) :: 16 word) = (2 ^ 32 - 1 - unat ?f) mod 65536"
    by (simp add: unsigned_ucast_eq take_bit_eq_mod)
  also have "2 ^ 32 - 1 - unat ?f = (65535 - unat ?f) + 65535 * 65536" using f by simp
  also have "\<dots> mod 65536 = 65535 - unat ?f" by (simp only: mod_mult_self1) simp
  finally show ?thesis by (simp add: calculate_checksum_def)
qed

text \<open>A receiver that sums a packet with its checksum in place gets zero.\<close>

lemma words_sum_append: "even (length xs) \<Longrightarrow> words_sum (xs @ ys) = words_sum xs + words_sum ys"
  by (induction xs rule: words_sum.induct) auto

lemma unat_split16: "unat (lo_byte c) + 256 * unat (hi_byte c) = unat c"
proof -
  have "unat (lo_byte c) = unat c mod 256"
    by (simp add: lo_byte_def unsigned_ucast_eq take_bit_eq_mod)
  moreover have "unat (drop_bit 8 c) = unat c div 256"
    by (simp only: unsigned_drop_bit_eq drop_bit_eq_div[where 'a = nat] take_bit_nat_eq_self[OF unsigned_less]) simp
  then have "unat (hi_byte c) = unat c div 256 mod 256"
    by (simp only: hi_byte_def unsigned_ucast_eq take_bit_eq_mod) simp
  moreover have "unat c < 65536" using unsigned_less[of c] by simp
  ultimately show ?thesis by simp
qed

lemma complement_mod:
  fixes z f :: nat
  assumes "f < 65536" "f mod 65535 = z mod 65535" "f = 0 \<longleftrightarrow> z = 0"
  shows "(z + (65535 - f)) mod 65535 = 0 \<and> z + (65535 - f) \<noteq> 0"
proof
  have "(z + (65535 - f)) mod 65535 = (f + (65535 - f)) mod 65535"
    using assms(2) by (rule mod_add_cong[OF sym refl])
  then show "(z + (65535 - f)) mod 65535 = 0" using assms(1) by simp
  show "z + (65535 - f) \<noteq> 0" using assms(1,3) by auto
qed

lemma full_carries:
  fixes p f :: nat
  assumes "f < 65536" "f mod 65535 = p mod 65535" "f = 0 \<longleftrightarrow> p = 0" "p mod 65535 = 0" "p \<noteq> 0"
  shows "f = 65535"
proof (rule ccontr)
  assume "f \<noteq> 65535"
  with assms(1) have "f < 65535" by simp
  with assms show False by simp
qed

lemma checksum_verifies:
  assumes "even (length a)" "length a + length b \<le> 65000"
    and c: "c = calculate_checksum (a @ [0, 0] @ b)"
  shows "calculate_checksum (a @ [lo_byte c, hi_byte c] @ b) = 0"
proof -
  let ?z = "a @ [0, 0] @ b" and ?p = "a @ [lo_byte c, hi_byte c] @ b"
  have sums: "words_sum ?p = words_sum ?z + unat c"
    using assms(1) unat_split16[of c] by (simp add: words_sum_append)
  have "words_sum ?z \<le> 65535 * ((length ?z + 1) div 2)" by (rule words_sum_bound)
  also have "\<dots> \<le> 65535 * 32502" using assms(2) by (intro mult_le_mono2) simp
  finally have bound: "words_sum ?z \<le> 65535 * 32502" .
  then have z: "words_sum ?z < 2 ^ 32" by simp
  have c16: "unat c < 65536" using unsigned_less[of c] by simp
  with bound have p: "words_sum ?p < 2 ^ 32" using sums by simp
  have az: "unat (add_words ?z 0) = words_sum ?z" using add_words_sum[of 0 ?z] z by simp
  have ap: "unat (add_words ?p 0) = words_sum ?p" using add_words_sum[of 0 ?p] p by simp
  have "unat c = 65535 - unat (fold_carries (add_words ?z 0))"
    unfolding c using z by (rule checksum_value)
  with complement_mod[of "unat (fold_carries (add_words ?z 0))" "words_sum ?z"]
    fold_carries_mod[of "add_words ?z 0"]
  have "words_sum ?p mod 65535 = 0" "words_sum ?p \<noteq> 0" unfolding sums az by simp_all
  with full_carries[of "unat (fold_carries (add_words ?p 0))" "words_sum ?p"]
    fold_carries_mod[of "add_words ?p 0"]
  have "unat (fold_carries (add_words ?p 0)) = 65535" unfolding ap by blast
  then have "unat (calculate_checksum ?p) = 0" using checksum_value[OF p] by simp
  then show ?thesis by (metis unsigned_0 unsigned_word_eqI)
qed

subsection \<open>The send loop\<close>

text \<open>
  What the code relies on in \<open>send\<close>: a positive result \<open>r\<close> is the number of bytes taken, at most
  all of them, and no other result takes any.  \<open>sent_of w\<close> is what the peer has been sent on \<open>fd\<close>.
\<close>

definition send_contract :: "'w os \<Rightarrow> int \<Rightarrow> ('w \<Rightarrow> string) \<Rightarrow> bool" where
  "send_contract os fd sent_of \<longleftrightarrow>
     (\<forall>data w r e w'. os_send os fd data w = ((r, e), w') \<longrightarrow>
        r \<le> int (length data) \<and> sent_of w' = sent_of w @ take (nat r) data)"

lemma tcp_send_loop_sends:
  "tcp_send_loop os fd data w = Some res \<Longrightarrow> send_contract os fd sent_of \<Longrightarrow>
    \<exists>sent rest. data = sent @ rest \<and> sent_of (snd res) = sent_of w @ sent \<and> (fst res \<longleftrightarrow> rest = [])"
proof (induction rule: tcp_send_loop.raw_induct[rotated 1, consumes 1])
  case (1 f os fd data w res)
  show ?case
  proof (cases "data = []")
    case True
    with 1(2) show ?thesis by auto
  next
    case False
    obtain r e w1 where s: "os_send os fd data w = ((r, e), w1)" by (metis surj_pair)
    with 1(3) have con: "r \<le> int (length data)" "sent_of w1 = sent_of w @ take (nat r) data"
      by (auto simp: send_contract_def)
    consider (some) "0 < r" | (intr) "r < 0" "e = EINTR" | (fail) "\<not> 0 < r" "\<not> (r < 0 \<and> e = EINTR)"
      by fastforce
    then show ?thesis
    proof cases
      case some
      with 1(2) False s have "f os fd (drop (nat r) data) w1 = Some res" by simp
      from 1(1)[OF this 1(3)] obtain sent rest where
        "drop (nat r) data = sent @ rest" "sent_of (snd res) = sent_of w1 @ sent" "fst res \<longleftrightarrow> rest = []"
        by blast
      moreover have "data = take (nat r) data @ drop (nat r) data" by simp
      ultimately have "data = (take (nat r) data @ sent) @ rest" by (simp only: append_assoc)
      moreover have "sent_of (snd res) = sent_of w @ (take (nat r) data @ sent)"
        using con(2) \<open>sent_of (snd res) = sent_of w1 @ sent\<close> by simp
      ultimately show ?thesis using \<open>fst res \<longleftrightarrow> rest = []\<close> by blast
    next
      case intr
      with 1(2) False s have "f os fd data w1 = Some res" by simp
      from 1(1)[OF this 1(3)] con intr show ?thesis by simp
    next
      case fail
      with 1(2) False s have "res = (False, w1)" by simp
      with con fail False show ?thesis by (intro exI[of _ "[]"] exI[of _ data]) simp
    qed
  qed
qed

section \<open>Properties\<close>

text \<open>The ICMP checksum of the code is the Internet checksum: for every packet of up to 65000
  bytes, computing it with the checksum field zero and storing it in the field makes the checksum
  of the whole packet zero, and this holds for the echo request that \<open>ping\<close> sends; the 32-bit
  accumulator never wraps.\<close>

theorem checksum_self_verifies:
  assumes "even (length a)" and "length a + length b \<le> 65000"
  shows "calculate_checksum (a @ [lo_byte (calculate_checksum (a @ [0, 0] @ b)),
      hi_byte (calculate_checksum (a @ [0, 0] @ b))] @ b) = 0 \<and>
    calculate_checksum (echo_request identifier) = 0"
proof
  show "calculate_checksum (a @ [lo_byte (calculate_checksum (a @ [0, 0] @ b)),
      hi_byte (calculate_checksum (a @ [0, 0] @ b))] @ b) = 0"
    using assms by (intro checksum_verifies) auto
  have z: "lo_byte 0 = 0" "hi_byte 0 = 0" by (simp_all add: lo_byte_def hi_byte_def)
  let ?b = "[lo_byte identifier, hi_byte identifier, lo_byte 1, hi_byte 1]"
  let ?c = "calculate_checksum ([8, 0] @ [0, 0] @ ?b)"
  have "calculate_checksum ([8, 0] @ [lo_byte ?c, hi_byte ?c] @ ?b) = 0"
    by (rule checksum_verifies) simp_all
  then show "calculate_checksum (echo_request identifier) = 0"
    by (simp add: echo_request_def icmp_header_def z)
qed

theorem checksum_self_verifies_witness:
  "calculate_checksum (echo_request 0x1234) = 0"
  using checksum_self_verifies[of "[]" "[]" "0x1234"] by simp

text \<open>\<open>Tcp::send\<close> delivers exactly its argument or a prefix of it: with a \<open>send\<close> call that keeps
  its documented contract, true means that all bytes were handed over, in order and once, over
  however many partial or interrupted calls, and false that a proper prefix was.\<close>

theorem tcp_send_exact:
  assumes "send_contract os fd sent_of" and "tcp_send os fd data w = Some (ok, w')"
  shows "fd = -1 \<and> \<not> ok \<and> w' = w \<or>
    (\<exists>sent rest. data = sent @ rest \<and> sent_of w' = sent_of w @ sent \<and> (ok \<longleftrightarrow> rest = []))"
  using assms tcp_send_loop_sends[of os fd data w "(ok, w')" sent_of]
  by (auto simp: tcp_send_def split: if_splits)

text \<open>An operating system on a world that is the text sent so far, taking two bytes at a time.\<close>

definition two_byte_os :: "string os" where
  "two_byte_os = \<lparr>os_socket = \<lambda>t w. (3, w), os_close = \<lambda>fd w. w, os_getfl = \<lambda>fd w. (0, w),
     os_setfl = \<lambda>fd fl w. (0, w), os_connect = \<lambda>fd a p w. ((0, 0), w), os_poll = \<lambda>fd e t w. (0, w),
     os_so_error = \<lambda>fd w. (0, w),
     os_send = \<lambda>fd d w. ((int (min 2 (length d)), 0), w @ take 2 d),
     os_recv = \<lambda>fd n w. ((0, []), w), os_timeouts = \<lambda>fd s u w. w, os_bind = \<lambda>fd p w. (0, w),
     os_sendto = \<lambda>fd d a p w. (0, w), os_recvfrom = \<lambda>fd n w. ((0, []), w), os_getpid = \<lambda>w. (1, w)\<rparr>"

lemma two_byte_contract: "send_contract two_byte_os fd id"
  by (auto simp: send_contract_def two_byte_os_def min_def)

theorem tcp_send_exact_witness:
  "tcp_send two_byte_os 3 ''abc'' [] = Some (True, ''abc'') \<and>
   (\<exists>sent rest. ''abc'' = sent @ rest \<and> ''abc'' = [] @ sent \<and> (True \<longleftrightarrow> rest = []))"
proof -
  have s: "tcp_send two_byte_os 3 ''abc'' [] = Some (True, ''abc'')"
    by (simp add: tcp_send_def tcp_send_loop.simps two_byte_os_def)
  from tcp_send_exact[OF two_byte_contract this] s show ?thesis by simp
qed

text \<open>The verdict of \<open>Tcp::connect\<close> is the one its callers report: OPEN exactly when the
  connection was made, at once or after waiting, CLOSED exactly when it was refused, and with no
  socket, no IPv4 address or no non-blocking mode it is UNKNOWN without a connection attempt; the
  port number is the argument modulo \<open>2 ^ 16\<close> in every case.\<close>

theorem tcp_connect_verdict:
  "p_number (fst (tcp_connect os fd ip port timeout w)) = word_of_int port \<and>
   p_protocol (fst (tcp_connect os fd ip port timeout w)) = P_TCP \<and>
   (inet_pton ip = None \<or> fd = -1 \<longrightarrow>
      p_state (fst (tcp_connect os fd ip port timeout w)) = S_UNKNOWN \<and>
      snd (tcp_connect os fd ip port timeout w) = w) \<and>
   (fd \<noteq> -1 \<and> inet_pton ip = Some addr \<and> set_nonblocking os fd w = (True, w1) \<and>
      os_connect os fd addr (word_of_int port) w1 = ((rc, e), w2) \<longrightarrow>
    (p_state (fst (tcp_connect os fd ip port timeout w)) = S_OPEN \<longleftrightarrow>
      rc = 0 \<or> e = EINPROGRESS \<and> 0 < fst (os_poll os fd POLLOUT timeout w2) \<and>
        fst (os_so_error os fd (snd (os_poll os fd POLLOUT timeout w2))) = 0) \<and>
    (p_state (fst (tcp_connect os fd ip port timeout w)) = S_CLOSED \<longleftrightarrow>
      rc \<noteq> 0 \<and> (e = ECONNREFUSED \<or>
        e = EINPROGRESS \<and> 0 < fst (os_poll os fd POLLOUT timeout w2) \<and>
        fst (os_so_error os fd (snd (os_poll os fd POLLOUT timeout w2))) = ECONNREFUSED)))"
proof (intro conjI impI)
  show "p_number (fst (tcp_connect os fd ip port timeout w)) = word_of_int port"
    "p_protocol (fst (tcp_connect os fd ip port timeout w)) = P_TCP"
    by (auto simp: tcp_connect_def tcp_result_def port16_def Let_def split: option.splits prod.splits)
qed (auto simp: tcp_connect_def tcp_result_def tcp_wait_def port16_def Let_def EINPROGRESS_def ECONNREFUSED_def
    split: option.splits prod.splits)

theorem tcp_connect_verdict_witness:
  "p_state (fst (tcp_connect two_byte_os 3 ''10.0.0.1'' 80 100 [])) = S_OPEN"
proof -
  have "inet_pton ''10.0.0.1'' = Some (octets_addr [10, 0, 0, 1])"
    by (simp add: inet_pton_def c_str_def is_digit_def digit_val_def)
  moreover have "set_nonblocking two_byte_os 3 [] = (True, [])" by (simp add: set_nonblocking_def two_byte_os_def)
  moreover have "os_connect two_byte_os 3 (octets_addr [10, 0, 0, 1]) (word_of_int 80) [] = ((0, 0), [])"
    by (simp add: two_byte_os_def)
  ultimately show ?thesis
    using tcp_connect_verdict[of two_byte_os 3 "''10.0.0.1''" 80 100 "[]" "octets_addr [10, 0, 0, 1]" "[]" 0 0 "[]"]
    by simp
qed

text \<open>A certificate whose validity ended less than a day ago is reported as not expired: OpenSSL
  gives zero whole days and a negative number of seconds, and the code looks at the days only.\<close>

theorem cert_expired_within_a_day:
  "x_not_after cert = Some t \<and> at_diff t = (0, - seconds) \<and> 0 < seconds \<longrightarrow>
   \<not> tc_expired (extract_cert_info (Some cert)) \<and>
   tc_days_until_expiry (extract_cert_info (Some cert)) = 0"
  by (simp add: extract_cert_info_def days_between_now_and_def)

definition expired_cert :: X509 where
  "expired_cert =
     \<lparr>x_subject_name = Some \<lparr>xn_oneline = Some ''/CN=a''\<rparr>, x_issuer_name = None, x_not_before = None,
      x_not_after = Some \<lparr>at_print = None, at_diff = (0, - 3600)\<rparr>, x_name_cmp = 1, x_signature = Some None\<rparr>"

theorem cert_expired_within_a_day_witness: "\<not> tc_expired (extract_cert_info (Some expired_cert))"
  using cert_expired_within_a_day[of expired_cert "\<lparr>at_print = None, at_diff = (0, - 3600)\<rparr>" 3600]
  by (simp add: expired_cert_def)

end
