(* ===== verification/ZtlNatives.thy ===== *)
theory ZtlNatives
  imports ZtlInterp HttpResponse Transport CveDb
begin

text \<open>
  The objects and functions the plugins see, from \<open>ztl/runner.cpp\<close> (and the records of
  \<open>ztl/runner.hpp\<close>): headers and responses, \<open>net::tcp\<close>, \<open>net::http\<close>, \<open>net::tls\<close>, \<open>plugin\<close>,
  \<open>target\<close>, \<open>finding\<close>, \<open>kb\<close>, \<open>cve\<close>, and \<open>register_stdlib\<close>.

  One state serves a whole scan: the heap of objects, the \<open>RunState\<close> of every plugin run (a
  \<open>shared_ptr\<close> is its index), every \<open>KbShared\<close>, the CVE tables and the world of the operating
  system.  Objects of an earlier run stay reachable through the knowledge base of their port.
  The socket of a \<open>Tcp\<close> object closes when its last pointer goes; this close is not modelled.
\<close>

subsection \<open>Records\<close>

record FindingOut =
  fo_plugin_name :: string
  fo_severity :: string
  fo_title :: string
  fo_description :: string
  fo_evidence :: string
  fo_evidence_data :: Evidence
  fo_references :: "string list"
  fo_remediation :: string
  fo_cvss_vector :: string
  fo_cvss :: double
  fo_cve_id :: string
  fo_verification :: string
  fo_confidence_score :: double
  fo_host :: string
  fo_protocol :: Protocol
  fo_scope :: string
  fo_product :: string
  fo_version :: string
  fo_timestamp :: "64 word"
  fo_service :: string
  fo_confidence :: double
  fo_port_number :: "16 word"

definition finding_out_default :: FindingOut where
  "finding_out_default =
     \<lparr>fo_plugin_name = [], fo_severity = [], fo_title = [], fo_description = [], fo_evidence = [],
      fo_evidence_data = evidence_default, fo_references = [], fo_remediation = [],
      fo_cvss_vector = [], fo_cvss = d_minus_one, fo_cve_id = [], fo_verification = ''UNKNOWN'',
      fo_confidence_score = d_zero, fo_host = [], fo_protocol = P_UNKNOWN, fo_scope = ''PORT'',
      fo_product = [], fo_version = [], fo_timestamp = 0, fo_service = [], fo_confidence = d_zero,
      fo_port_number = 0\<rparr>"

record PluginMeta =
  pm_name :: string
  pm_description :: string
  pm_category :: string
  pm_filter_service :: string
  pm_filter_any :: bool

definition plugin_meta_default :: PluginMeta where
  "plugin_meta_default =
     \<lparr>pm_name = [], pm_description = [], pm_category = [], pm_filter_service = [], pm_filter_any = False\<rparr>"

record RunState =
  rs_meta :: PluginMeta
  rs_findings :: "FindingOut list"
  rs_target_host :: string
  rs_target_port :: int
  rs_known_service :: string
  rs_set_service :: string
  rs_set_product :: string
  rs_set_version :: string
  rs_meta_only :: bool
  rs_kb :: "nat option"
  rs_target :: "nat option"

definition run_state_default :: RunState where
  "run_state_default =
     \<lparr>rs_meta = plugin_meta_default, rs_findings = [], rs_target_host = [], rs_target_port = 0,
      rs_known_service = [], rs_set_service = [], rs_set_product = [], rs_set_version = [],
      rs_meta_only = False, rs_kb = None, rs_target = None\<rparr>"

text \<open>\<open>KbShared\<close>.\<close>

type_synonym kb_shared = "string \<Rightarrow> Value option"

datatype NativeState =
    NoState
  | ResponseState RawHttpResponse
  | TcpState int bool
  | HttpState string int int
  | TlsState string int int
  | PluginState nat
  | KbState nat

text \<open>What the plugins use of the outside: sockets, OpenSSL, the clock.\<close>

record 'w Env =
  env_os :: "'w os"
  env_ssl :: "'w ssl"
  env_now :: "'w \<Rightarrow> 64 word \<times> 'w"

record 'w Scan =
  sc_runs :: "RunState list"
  sc_kbs :: "kb_shared list"
  sc_cve :: CveState
  sc_world :: 'w

type_synonym 'w rt = "(NativeState, 'w Scan) Interp"

subsection \<open>Access to the state\<close>

definition get_run :: "nat \<Rightarrow> ('w rt, RunState) comp" where
  "get_run r = cget (\<lambda>s. sc_runs (it_ext s) ! r)"

definition mod_run :: "nat \<Rightarrow> (RunState \<Rightarrow> RunState) \<Rightarrow> ('w rt, unit) comp" where
  "mod_run r f = cmodify (\<lambda>s. s\<lparr>it_ext := (it_ext s)
     \<lparr>sc_runs := (sc_runs (it_ext s))[r := f (sc_runs (it_ext s) ! r)]\<rparr>\<rparr>)"

definition get_kb :: "nat \<Rightarrow> ('w rt, kb_shared) comp" where
  "get_kb k = cget (\<lambda>s. sc_kbs (it_ext s) ! k)"

definition mod_kb :: "nat \<Rightarrow> (kb_shared \<Rightarrow> kb_shared) \<Rightarrow> ('w rt, unit) comp" where
  "mod_kb k f = cmodify (\<lambda>s. s\<lparr>it_ext := (it_ext s)
     \<lparr>sc_kbs := (sc_kbs (it_ext s))[k := f (sc_kbs (it_ext s) ! k)]\<rparr>\<rparr>)"

definition get_cve :: "('w rt, CveState) comp" where
  "get_cve = cget (\<lambda>s. sc_cve (it_ext s))"

text \<open>An action on the world; \<open>None\<close> is an action that does not return.\<close>

definition in_world :: "('w \<Rightarrow> ('a \<times> 'w) option) \<Rightarrow> ('w rt, 'a) comp" where
  "in_world f s =
     (case f (sc_world (it_ext s)) of
        None \<Rightarrow> (Hang, s)
      | Some (a, w) \<Rightarrow> (Ok a, s\<lparr>it_ext := (it_ext s)\<lparr>sc_world := w\<rparr>\<rparr>))"

definition new_object ::
  "string \<Rightarrow> (string \<Rightarrow> Value option) \<Rightarrow> string list \<Rightarrow> NativeState \<Rightarrow> ('w rt, Value) comp" where
  "new_object t flds meths ns s =
     (Ok (VObj (length (it_heap s))),
      s\<lparr>it_heap := it_heap s @
          [\<lparr>o_type_name = t, o_fields = flds, o_methods = meths, o_native_state = ns\<rparr>]\<rparr>)"

definition set_field :: "nat \<Rightarrow> string \<Rightarrow> Value \<Rightarrow> ('w rt, unit) comp" where
  "set_field a name v = cmodify (\<lambda>s. s\<lparr>it_heap := (it_heap s)
     [a := (it_heap s ! a)\<lparr>o_fields := (o_fields (it_heap s ! a))(name \<mapsto> v)\<rparr>]\<rparr>)"

definition cwhen :: "bool \<Rightarrow> ('s, unit) comp \<Rightarrow> ('s, unit) comp" where
  "cwhen b m = (if b then m else cret ())"

definition need_string :: "Value \<Rightarrow> string \<Rightarrow> CallContext \<Rightarrow> ('s, string) comp" where
  "need_string v what cx =
     (case v of
        VStr s \<Rightarrow> cret s
      | _ \<Rightarrow> runtime_error (what @ '' must be a string (got '' @ type_name_of v @ '')'') (cx_line cx) (cx_col cx))"

definition need_int :: "Value \<Rightarrow> string \<Rightarrow> CallContext \<Rightarrow> ('s, int) comp" where
  "need_int v what cx =
     (case v of
        VNum d \<Rightarrow> cast_int d
      | _ \<Rightarrow> runtime_error (what @ '' must be a number (got '' @ type_name_of v @ '')'') (cx_line cx) (cx_col cx))"

text \<open>\<open>it = c.named.find(k); if (it != c.named.end()) x = need_string(...)\<close>.\<close>

definition named_string :: "CallContext \<Rightarrow> string \<Rightarrow> string \<Rightarrow> string \<Rightarrow> ('s, string) comp" where
  "named_string cx k what d =
     (case cx_named cx k of None \<Rightarrow> cret d | Some v \<Rightarrow> need_string v what cx)"

definition named_int :: "CallContext \<Rightarrow> string \<Rightarrow> int \<Rightarrow> ('s, int) comp" where
  "named_int cx k d = (case cx_named cx k of None \<Rightarrow> cret d | Some v \<Rightarrow> need_int v k cx)"

definition native_error :: "string \<Rightarrow> CallContext \<Rightarrow> ('s, 'a) comp" where
  "native_error msg cx = runtime_error msg (cx_line cx) (cx_col cx)"

subsection \<open>Headers and responses\<close>

definition vnum :: "int \<Rightarrow> Value" where
  "vnum i = VNum (d_of_int i)"

definition make_header_obj :: "bool \<Rightarrow> string \<Rightarrow> ('w rt, Value) comp" where
  "make_header_obj ex val =
     new_object ''Header'' [''_exists'' \<mapsto> VBool ex, ''_value'' \<mapsto> VStr val]
       [''exists'', ''value''] NoState"

text \<open>
  \<open>as_object(c.self)->fields[name]\<close>: a function taken from the object and called by itself has
  no \<open>self\<close>, and the null pointer is dereferenced; \<open>operator[]\<close> adds a missing field.
\<close>

definition header_field :: "string \<Rightarrow> CallContext \<Rightarrow> ('w rt, Value) comp" where
  "header_field name cx =
     (case cx_self cx of
        VObj a \<Rightarrow>
          cbind (cget (\<lambda>s. o_fields (it_heap s ! a) name)) (\<lambda>v.
            case v of
              Some x \<Rightarrow> cret x
            | None \<Rightarrow> cbind (set_field a name VNull) (\<lambda>_. cret VNull))
      | _ \<Rightarrow> cstop Undef)"

definition call_header :: "string \<Rightarrow> CallContext \<Rightarrow> ('w rt, Value) comp" where
  "call_header meth cx =
     (if meth = ''exists'' then header_field ''_exists'' cx else header_field ''_value'' cx)"

definition make_response_obj :: "RawHttpResponse \<Rightarrow> ('w rt, Value) comp" where
  "make_response_obj r =
     new_object ''HttpResponse'' Map.empty [''status'', ''body'', ''headers'', ''header''] (ResponseState r)"

definition headers_text :: "(string \<times> string) list \<Rightarrow> string" where
  "headers_text hs = concat (map (\<lambda>(k, v). k @ '': '' @ v @ [LF]) hs)"

fun find_header :: "string \<Rightarrow> (string \<times> string) list \<Rightarrow> string option" where
  "find_header name [] = None"
| "find_header name ((k, v) # hs) = (if lower k = name then Some v else find_header name hs)"

definition call_response :: "RawHttpResponse \<Rightarrow> string \<Rightarrow> CallContext \<Rightarrow> ('w rt, Value) comp" where
  "call_response r meth cx =
     (if meth = ''status'' then cret (vnum (hr_status r))
      else if meth = ''body'' then cret (VStr (hr_body r))
      else if meth = ''headers'' then cret (VStr (headers_text (hr_headers r)))
      else if cx_positional cx = [] then native_error ''header(name) requires 1 argument'' cx
      else cbind (need_string (hd (cx_positional cx)) ''header name'' cx) (\<lambda>name.
             case find_header (lower name) (hr_headers r) of
               Some v \<Rightarrow> make_header_obj True v
             | None \<Rightarrow> make_header_obj False []))"

subsection \<open>Sockets\<close>

definition open_tcp :: "'w Env \<Rightarrow> string \<Rightarrow> int \<Rightarrow> int \<Rightarrow> 'w \<Rightarrow> ((int \<times> bool) \<times> 'w) option" where
  "open_tcp env host port timeout_ms w =
     (let (fd, w) = tcp_new (env_os env) w;
          (pr, w) = tcp_connect (env_os env) fd host port timeout_ms w
      in Some ((fd, p_state pr = S_OPEN), w))"

definition make_tcp_obj :: "'w Env \<Rightarrow> string \<Rightarrow> int \<Rightarrow> int \<Rightarrow> ('w rt, Value) comp" where
  "make_tcp_obj env host port timeout_ms =
     cbind (in_world (open_tcp env host port timeout_ms)) (\<lambda>(fd, connected).
       new_object ''Tcp'' [''connected'' \<mapsto> VBool connected]
         [''connected'', ''send'', ''recv'', ''recv_banner''] (TcpState fd connected))"

definition tcp_read :: "'w Env \<Rightarrow> int \<Rightarrow> bool \<Rightarrow> CallContext \<Rightarrow> ('w rt, Value) comp" where
  "tcp_read env fd connected cx =
     cbind (named_int cx ''timeout_ms'' 2000) (\<lambda>timeout.
       if \<not> connected then cret (VStr [])
       else cbind (in_world (\<lambda>w. Some (tcp_receive (env_os env) fd timeout w))) (\<lambda>t. cret (VStr t)))"

definition call_tcp :: "'w Env \<Rightarrow> int \<Rightarrow> bool \<Rightarrow> string \<Rightarrow> CallContext \<Rightarrow> ('w rt, Value) comp" where
  "call_tcp env fd connected meth cx =
     (if meth = ''connected'' then cret (VBool connected)
      else if meth = ''send'' then
        (if cx_positional cx = [] then native_error ''send(data) requires 1 argument'' cx
         else cbind (need_string (hd (cx_positional cx)) ''data'' cx) (\<lambda>data.
                if \<not> connected then cret (VBool False)
                else cbind (in_world (tcp_send (env_os env) fd data)) (\<lambda>ok. cret (VBool ok))))
      else tcp_read env fd connected cx)"

definition make_http_obj :: "string \<Rightarrow> int \<Rightarrow> int \<Rightarrow> ('w rt, Value) comp" where
  "make_http_obj host port timeout_ms =
     new_object ''Http'' [''host'' \<mapsto> VStr host, ''port'' \<mapsto> vnum port] [''request'']
       (HttpState host port timeout_ms)"

text \<open>At most \<open>n\<close> more chunks; the loop ends on an empty one and when 128 KiB are exceeded.\<close>

fun read_chunks :: "'w os \<Rightarrow> int \<Rightarrow> int \<Rightarrow> nat \<Rightarrow> string \<Rightarrow> 'w \<Rightarrow> string \<times> 'w" where
  "read_chunks os fd timeout_ms 0 raw w = (raw, w)"
| "read_chunks os fd timeout_ms (Suc n) raw w =
     (let (chunk, w) = tcp_receive os fd timeout_ms w in
      if chunk = [] then (raw, w)
      else if 128 * 1024 < length (raw @ chunk) then (raw @ chunk, w)
      else read_chunks os fd timeout_ms n (raw @ chunk) w)"

text \<open>The connection of one request: the socket is closed on every way out.\<close>

definition http_exchange ::
  "'w os \<Rightarrow> string \<Rightarrow> int \<Rightarrow> int \<Rightarrow> string \<Rightarrow> 'w \<Rightarrow> (string \<times> 'w) option" where
  "http_exchange os host port timeout_ms request w =
     (let (fd, w) = tcp_new os w;
          (pr, w) = tcp_connect os fd host port timeout_ms w
      in if p_state pr \<noteq> S_OPEN then Some ([], tcp_delete os fd w)
         else case tcp_send os fd request w of
                None \<Rightarrow> None
              | Some (False, w) \<Rightarrow> Some ([], tcp_delete os fd w)
              | Some (True, w) \<Rightarrow>
                  let (raw, w) = read_chunks os fd timeout_ms 20 [] w in Some (raw, tcp_delete os fd w))"

definition call_http ::
  "'w Env \<Rightarrow> string \<Rightarrow> int \<Rightarrow> int \<Rightarrow> CallContext \<Rightarrow> ('w rt, Value) comp" where
  "call_http env host port timeout_ms cx =
     cbind (named_string cx ''method'' ''method'' ''GET'') (\<lambda>meth.
     cbind (named_string cx ''path'' ''path'' ''/'') (\<lambda>path.
     cbind (named_string cx ''body'' ''body'' []) (\<lambda>body_in.
     cbind (in_world (http_exchange (env_os env) host port timeout_ms
                        (http_request_text meth path host body_in))) (\<lambda>raw.
       if raw = [] then cret VNull else make_response_obj (parse_http_response raw)))))"

fun tls_result_name :: "TlsHandshakeResult \<Rightarrow> string" where
  "tls_result_name TLS_OK = ''OK''"
| "tls_result_name TLS_REFUSED = ''REFUSED''"
| "tls_result_name TLS_TIMEOUT = ''TIMEOUT''"
| "tls_result_name TLS_NOT_TLS = ''NOT_TLS''"
| "tls_result_name TLS_HANDSHAKE_FAILED = ''HANDSHAKE_FAILED''"
| "tls_result_name TLS_UNKNOWN = ''UNKNOWN''"

definition make_tls_report_obj :: "TlsHandshakeReport \<Rightarrow> ('w rt, Value) comp" where
  "make_tls_report_obj r =
     (let cert = tr_certificate r in
      new_object ''TlsReport''
        [''ok'' \<mapsto> VBool (tr_result r = TLS_OK),
         ''result'' \<mapsto> VStr (tls_result_name (tr_result r)),
         ''protocol_version'' \<mapsto> VStr (tr_protocol_version r),
         ''cipher'' \<mapsto> VStr (tr_cipher_name r),
         ''certificate_present'' \<mapsto> VBool (tr_certificate_present r),
         ''subject'' \<mapsto> VStr (tc_subject cert),
         ''issuer'' \<mapsto> VStr (tc_issuer cert),
         ''not_before'' \<mapsto> VStr (tc_not_before cert),
         ''not_after'' \<mapsto> VStr (tc_not_after cert),
         ''signature_algorithm'' \<mapsto> VStr (tc_signature_algorithm cert),
         ''self_signed'' \<mapsto> VBool (tc_self_signed cert),
         ''expired'' \<mapsto> VBool (tc_expired cert),
         ''days_until_expiry'' \<mapsto> vnum (tc_days_until_expiry cert)]
        [] NoState)"

definition make_tls_obj :: "string \<Rightarrow> int \<Rightarrow> int \<Rightarrow> ('w rt, Value) comp" where
  "make_tls_obj host port timeout_ms =
     new_object ''Tls'' [''host'' \<mapsto> VStr host, ''port'' \<mapsto> vnum port] [''handshake'']
       (TlsState host port timeout_ms)"

definition call_tls :: "'w Env \<Rightarrow> string \<Rightarrow> int \<Rightarrow> int \<Rightarrow> ('w rt, Value) comp" where
  "call_tls env host port timeout_ms =
     cbind (in_world (\<lambda>w. Some (tls_handshake (env_os env) (env_ssl env) host port timeout_ms w)))
       make_tls_report_obj"

subsection \<open>The plugin object\<close>

definition mod_meta :: "nat \<Rightarrow> (PluginMeta \<Rightarrow> PluginMeta) \<Rightarrow> ('w rt, unit) comp" where
  "mod_meta r f = mod_run r (\<lambda>rs. rs\<lparr>rs_meta := f (rs_meta rs)\<rparr>)"

text \<open>\<open>plugin.name\<close>, \<open>plugin.description\<close>, \<open>plugin.category\<close>: without an argument, nothing.\<close>

definition set_meta ::
  "nat \<Rightarrow> string \<Rightarrow> (string \<Rightarrow> PluginMeta \<Rightarrow> PluginMeta) \<Rightarrow> CallContext \<Rightarrow> ('w rt, Value) comp" where
  "set_meta r what upd cx =
     (if cx_positional cx = [] then cret VNull
      else cbind (need_string (hd (cx_positional cx)) what cx) (\<lambda>v.
           cbind (mod_meta r (upd v)) (\<lambda>_. cret VNull)))"

definition plugin_filter :: "nat \<Rightarrow> CallContext \<Rightarrow> ('w rt, Value) comp" where
  "plugin_filter r cx =
     cbind (cwhen (case cx_named cx ''any'' of Some v \<Rightarrow> is_truthy v | None \<Rightarrow> False)
              (mod_meta r (\<lambda>m. m\<lparr>pm_filter_any := True\<rparr>))) (\<lambda>_.
     case cx_named cx ''service'' of
       None \<Rightarrow> cret VNull
     | Some v \<Rightarrow>
         cbind (need_string v ''filter service'' cx) (\<lambda>svc.
         cbind (mod_meta r (\<lambda>m. m\<lparr>pm_filter_service := svc\<rparr>)) (\<lambda>_. cret VNull)))"

definition set_named_run ::
  "nat \<Rightarrow> string \<Rightarrow> (string \<Rightarrow> RunState \<Rightarrow> RunState) \<Rightarrow> CallContext \<Rightarrow> ('w rt, unit) comp" where
  "set_named_run r k upd cx =
     (case cx_named cx k of
        None \<Rightarrow> cret ()
      | Some v \<Rightarrow> cbind (need_string v k cx) (\<lambda>t. mod_run r (upd t)))"

definition put_named :: "CallContext \<Rightarrow> string \<Rightarrow> kb_shared \<Rightarrow> kb_shared" where
  "put_named cx k m = (case cx_named cx k of None \<Rightarrow> m | Some v \<Rightarrow> m(k \<mapsto> v))"

definition set_service_kb :: "nat option \<Rightarrow> string \<Rightarrow> CallContext \<Rightarrow> ('w rt, unit) comp" where
  "set_service_kb kb svc cx =
     (case kb of
        None \<Rightarrow> cret ()
      | Some k \<Rightarrow> mod_kb k (\<lambda>m. put_named cx ''banner'' (put_named cx ''product''
                    (put_named cx ''version'' (m(''service'' \<mapsto> VStr svc))))))"

definition set_named_field :: "CallContext \<Rightarrow> string \<Rightarrow> nat \<Rightarrow> ('w rt, unit) comp" where
  "set_named_field cx k a =
     (case cx_named cx k of None \<Rightarrow> cret () | Some v \<Rightarrow> set_field a k v)"

definition set_service_target :: "nat option \<Rightarrow> string \<Rightarrow> CallContext \<Rightarrow> ('w rt, unit) comp" where
  "set_service_target target svc cx =
     (case target of
        None \<Rightarrow> cret ()
      | Some a \<Rightarrow>
          cbind (set_field a ''service'' (VStr svc)) (\<lambda>_.
          cbind (set_named_field cx ''version'' a) (\<lambda>_. set_named_field cx ''product'' a)))"

definition plugin_set_service :: "nat \<Rightarrow> CallContext \<Rightarrow> ('w rt, Value) comp" where
  "plugin_set_service r cx =
     (if cx_positional cx = [] then native_error ''set_service(name) requires 1 argument'' cx
      else
        cbind (need_string (hd (cx_positional cx)) ''service name'' cx) (\<lambda>svc.
        cbind (mod_run r (\<lambda>rs. rs\<lparr>rs_set_service := svc\<rparr>)) (\<lambda>_.
        cbind (set_named_run r ''version'' (\<lambda>t rs. rs\<lparr>rs_set_version := t\<rparr>) cx) (\<lambda>_.
        cbind (set_named_run r ''product'' (\<lambda>t rs. rs\<lparr>rs_set_product := t\<rparr>) cx) (\<lambda>_.
        cbind (get_run r) (\<lambda>rs.
        cbind (set_service_kb (rs_kb rs) svc cx) (\<lambda>_.
        cbind (set_service_target (rs_target rs) svc cx) (\<lambda>_. cret VNull))))))))"

text \<open>Whether the block of \<open>plugin.run\<close> runs: no filter, \<open>any\<close>, or the known service.\<close>

definition filter_passes :: "RunState \<Rightarrow> bool" where
  "filter_passes rs \<longleftrightarrow>
     pm_filter_any (rs_meta rs) \<or> pm_filter_service (rs_meta rs) = [] \<or>
     pm_filter_service (rs_meta rs) = rs_known_service rs"

text \<open>
  A block in a new scope on the globals.  The scopes of the call are not visible in it and are
  as they were when it ends, on every way out; a \<open>return\<close> in it only ends the block.
\<close>

definition in_global_scope :: "('w rt, unit) comp \<Rightarrow> ('w rt, Value) comp" where
  "in_global_scope m s =
     (let (r, s') = m (s\<lparr>it_locals := [Map.empty]\<rparr>);
          s'' = s'\<lparr>it_locals := it_locals s\<rparr>
      in case r of
           Ok _ \<Rightarrow> (Ok VNull, s'')
         | Throw (ReturnException v) \<Rightarrow> (Ok VNull, s'')
         | Throw (RuntimeError msg l c) \<Rightarrow> (Throw (RuntimeError msg l c), s'')
         | Throw (StdException msg) \<Rightarrow> (Throw (StdException msg), s'')
         | Undef \<Rightarrow> (Undef, s'')
         | Hang \<Rightarrow> (Hang, s'')
         | Terminate \<Rightarrow> (Terminate, s'')
         | NoFuel \<Rightarrow> (NoFuel, s''))"

definition plugin_run ::
  "nat \<Rightarrow> CallContext \<Rightarrow> (stmt list \<Rightarrow> ('w rt, unit) comp) \<Rightarrow> ('w rt, Value) comp" where
  "plugin_run r cx run =
     (case cx_block cx of
        None \<Rightarrow> native_error ''plugin.run requires a { ... } block'' cx
      | Some blk \<Rightarrow>
          cbind (get_run r) (\<lambda>rs.
            if rs_meta_only rs then cret VNull
            else if \<not> filter_passes rs then cret VNull
            else in_global_scope (run blk)))"

definition call_plugin ::
  "nat \<Rightarrow> string \<Rightarrow> CallContext \<Rightarrow> (stmt list \<Rightarrow> ('w rt, unit) comp) \<Rightarrow> ('w rt, Value) comp" where
  "call_plugin r meth cx run =
     (if meth = ''name'' then set_meta r ''plugin name'' (\<lambda>v m. m\<lparr>pm_name := v\<rparr>) cx
      else if meth = ''description'' then set_meta r ''description'' (\<lambda>v m. m\<lparr>pm_description := v\<rparr>) cx
      else if meth = ''category'' then set_meta r ''category'' (\<lambda>v m. m\<lparr>pm_category := v\<rparr>) cx
      else if meth = ''filter'' then plugin_filter r cx
      else if meth = ''set_service'' then plugin_set_service r cx
      else plugin_run r cx run)"

definition make_plugin_obj :: "nat \<Rightarrow> ('w rt, Value) comp" where
  "make_plugin_obj r =
     new_object ''Plugin'' Map.empty
       [''name'', ''description'', ''category'', ''filter'', ''set_service'', ''run''] (PluginState r)"

definition make_target_obj :: "string \<Rightarrow> int \<Rightarrow> string \<Rightarrow> ('w rt, Value) comp" where
  "make_target_obj host port service =
     new_object ''Target'' [''host'' \<mapsto> VStr host, ''port'' \<mapsto> vnum port, ''service'' \<mapsto> VStr service]
       [] NoState"

subsection \<open>\<open>finding\<close>\<close>

definition evidence_arg :: "CallContext \<Rightarrow> ('w rt, string) comp" where
  "evidence_arg cx =
     (case cx_named cx ''evidence'' of
        None \<Rightarrow> cret []
      | Some v \<Rightarrow> cget (\<lambda>s. value_to_string (it_heap s) v))"

text \<open>A number, and silently the default otherwise.\<close>

definition number_arg :: "CallContext \<Rightarrow> string \<Rightarrow> double \<Rightarrow> double" where
  "number_arg cx k d =
     (case cx_named cx k of Some (VNum n) \<Rightarrow> n | _ \<Rightarrow> d)"

definition verification_arg :: "CallContext \<Rightarrow> ('w rt, string) comp" where
  "verification_arg cx =
     (case cx_named cx ''verification'' of
        None \<Rightarrow> cret ''UNKNOWN''
      | Some v \<Rightarrow>
          cbind (need_string v ''verification'' cx) (\<lambda>st.
            cret (verification_to_string (verification_status_from_string st))))"

definition finding_service :: "RunState \<Rightarrow> string" where
  "finding_service rs = (if rs_set_service rs = [] then rs_known_service rs else rs_set_service rs)"

definition push_finding :: "nat \<Rightarrow> FindingOut \<Rightarrow> ('w rt, unit) comp" where
  "push_finding r f = mod_run r (\<lambda>rs. rs\<lparr>rs_findings := rs_findings rs @ [f]\<rparr>)"

text \<open>The record filled in from the run and the evaluated arguments.\<close>

definition make_finding ::
  "RunState \<Rightarrow> CallContext \<Rightarrow> string \<Rightarrow> string \<Rightarrow> string \<Rightarrow> string \<Rightarrow> string \<Rightarrow> string \<Rightarrow> string \<Rightarrow> string \<Rightarrow>
   64 word \<Rightarrow> FindingOut" where
  "make_finding rs cx severity title description cve verification evidence remediation cvss_vector now =
     (let name = pm_name (rs_meta rs); confidence = number_arg cx ''confidence'' d_zero in
       \<lparr>fo_plugin_name = name, fo_severity = (if severity = [] then ''info'' else severity),
        fo_title = title, fo_description = description, fo_evidence = evidence,
        fo_evidence_data = \<lparr>e_type = ''plugin'', e_source = name, e_value = evidence,
          e_details = description\<rparr>,
        fo_references = [], fo_remediation = remediation, fo_cvss_vector = cvss_vector,
        fo_cvss = number_arg cx ''cvss'' d_minus_one, fo_cve_id = cve, fo_verification = verification,
        fo_confidence_score = confidence, fo_host = rs_target_host rs, fo_protocol = P_TCP,
        fo_scope = ''PORT'', fo_product = rs_set_product rs, fo_version = rs_set_version rs,
        fo_timestamp = now, fo_service = finding_service rs, fo_confidence = confidence,
        fo_port_number = port16 (rs_target_port rs)\<rparr>)"

definition call_finding :: "'w Env \<Rightarrow> nat \<Rightarrow> CallContext \<Rightarrow> ('w rt, Value) comp" where
  "call_finding env r cx =
     cbind (get_run r) (\<lambda>rs.
     cbind (named_string cx ''severity'' ''severity'' []) (\<lambda>severity.
     cbind (named_string cx ''title'' ''title'' []) (\<lambda>title.
     cbind (named_string cx ''description'' ''description'' []) (\<lambda>description.
     cbind (named_string cx ''cve'' ''cve'' []) (\<lambda>cve.
     cbind (verification_arg cx) (\<lambda>verification.
     cbind (evidence_arg cx) (\<lambda>evidence.
     cbind (named_string cx ''remediation'' ''remediation'' []) (\<lambda>remediation.
     cbind (named_string cx ''cvss_vector'' ''cvss_vector'' []) (\<lambda>cvss_vector.
     cbind (in_world (\<lambda>w. Some (env_now env w))) (\<lambda>now.
     cbind (push_finding r (make_finding rs cx severity title description cve verification evidence
              remediation cvss_vector now)) (\<lambda>_. cret VNull)))))))))))"

subsection \<open>The knowledge base of the port\<close>

definition make_kb_obj :: "nat \<Rightarrow> ('w rt, Value) comp" where
  "make_kb_obj r =
     new_object ''Kb'' Map.empty
       [''set'', ''get'', ''has'', ''set_scoped'', ''get_scoped'', ''has_scoped''] (KbState r)"

definition kb_read :: "nat \<Rightarrow> string \<Rightarrow> ('w rt, Value option) comp" where
  "kb_read r key =
     cbind (get_run r) (\<lambda>rs.
       case rs_kb rs of None \<Rightarrow> cret None | Some k \<Rightarrow> cbind (get_kb k) (\<lambda>m. cret (m key)))"

definition kb_write :: "nat \<Rightarrow> string \<Rightarrow> Value \<Rightarrow> ('w rt, unit) comp" where
  "kb_write r key v =
     cbind (get_run r) (\<lambda>rs.
       case rs_kb rs of None \<Rightarrow> cret () | Some k \<Rightarrow> mod_kb k (\<lambda>m. m(key \<mapsto> v)))"

definition value_or_null :: "Value option \<Rightarrow> Value" where
  "value_or_null v = (case v of None \<Rightarrow> VNull | Some x \<Rightarrow> x)"

definition kb_key :: "string \<Rightarrow> CallContext \<Rightarrow> nat \<Rightarrow> ('w rt, string) comp" where
  "kb_key what cx n =
     (if length (cx_positional cx) < n then native_error what cx
      else need_string (hd (cx_positional cx)) ''key'' cx)"

definition script_scoped_key :: "string \<Rightarrow> string \<Rightarrow> string" where
  "script_scoped_key scope key = scope @ ''.'' @ key"

definition kb_scoped_key :: "string \<Rightarrow> CallContext \<Rightarrow> nat \<Rightarrow> ('w rt, string) comp" where
  "kb_scoped_key what cx n =
     (if length (cx_positional cx) < n then native_error what cx
      else cbind (need_string (cx_positional cx ! 0) ''scope'' cx) (\<lambda>scope.
           cbind (need_string (cx_positional cx ! 1) ''key'' cx) (\<lambda>key.
             if scope \<noteq> ''host'' \<and> scope \<noteq> ''port'' then native_error ''scope must be host or port'' cx
             else cret (script_scoped_key scope key))))"

definition call_kb :: "nat \<Rightarrow> string \<Rightarrow> CallContext \<Rightarrow> ('w rt, Value) comp" where
  "call_kb r meth cx =
     (if meth = ''set'' then
        cbind (kb_key ''kb.set(key, value) requires 2 args'' cx 2) (\<lambda>key.
        cbind (kb_write r key (cx_positional cx ! 1)) (\<lambda>_. cret VNull))
      else if meth = ''get'' then
        cbind (kb_key ''kb.get(key) requires 1 arg'' cx 1) (\<lambda>key.
        cbind (kb_read r key) (\<lambda>v. cret (value_or_null v)))
      else if meth = ''has'' then
        cbind (kb_key ''kb.has(key) requires 1 arg'' cx 1) (\<lambda>key.
        cbind (kb_read r key) (\<lambda>v. cret (VBool (v \<noteq> None))))
      else if meth = ''set_scoped'' then
        cbind (kb_scoped_key ''kb.set_scoped(scope, key, value) requires 3 args'' cx 3) (\<lambda>key.
        cbind (kb_write r key (cx_positional cx ! 2)) (\<lambda>_. cret VNull))
      else if meth = ''get_scoped'' then
        cbind (kb_scoped_key ''kb.get_scoped(scope, key) requires 2 args'' cx 2) (\<lambda>key.
        cbind (kb_read r key) (\<lambda>v. cret (value_or_null v)))
      else
        cbind (kb_scoped_key ''kb.has_scoped(scope, key) requires 2 args'' cx 2) (\<lambda>key.
        cbind (kb_read r key) (\<lambda>v. cret (VBool (v \<noteq> None)))))"

subsection \<open>The CVE database\<close>

definition make_cve_result :: "VerificationResult \<Rightarrow> ('w rt, Value) comp" where
  "make_cve_result v =
     new_object ''CveResult''
       [''vulnerable'' \<mapsto> VBool (vr_vulnerable v),
        ''cve'' \<mapsto> VStr (vr_cve v),
        ''severity'' \<mapsto> VStr (vr_severity v),
        ''title'' \<mapsto> VStr (vr_title v),
        ''description'' \<mapsto> VStr (vr_description v),
        ''evidence'' \<mapsto> VStr (vr_evidence v),
        ''cvss'' \<mapsto> VNum (vr_cvss v),
        ''cvss_vector'' \<mapsto> VStr (vr_cvss_vector v),
        ''remediation'' \<mapsto> VStr (vr_remediation v),
        ''verification'' \<mapsto> VStr (vr_verification v),
        ''confidence'' \<mapsto> VNum (vr_confidence v)]
       [] NoState"

definition make_cve_obj :: "('w rt, Value) comp" where
  "make_cve_obj = new_object ''Cve'' Map.empty [''check'', ''verify''] NoState"

definition cve_check :: "CallContext \<Rightarrow> ('w rt, Value) comp" where
  "cve_check cx =
     cbind (named_string cx ''id'' ''cve id'' []) (\<lambda>id.
     cbind (named_string cx ''product'' ''product'' []) (\<lambda>pr.
     cbind (named_string cx ''version'' ''version'' []) (\<lambda>version.
     cbind get_cve (\<lambda>db. make_cve_result (verify_version db id pr version)))))"

definition target_field :: "(string \<Rightarrow> Value option) \<Rightarrow> string \<Rightarrow> CallContext \<Rightarrow> ('w rt, string) comp" where
  "target_field flds name cx =
     (case flds name of None \<Rightarrow> cret [] | Some v \<Rightarrow> need_string v name cx)"

text \<open>The order in which the two fields are read is unspecified in C++; here, the product first.\<close>

definition cve_verify :: "CallContext \<Rightarrow> ('w rt, Value) comp" where
  "cve_verify cx =
     (case cx_named cx ''target'' of
        None \<Rightarrow> native_error ''cve.verify requires target:'' cx
      | Some (VObj a) \<Rightarrow>
          cbind (cget (\<lambda>s. it_heap s ! a)) (\<lambda>obj.
            if o_type_name obj \<noteq> ''Target'' then
              native_error ''cve.verify target must be a target object'' cx
            else
              cbind (named_string cx ''id'' ''cve id'' []) (\<lambda>id.
              cbind (target_field (o_fields obj) ''product'' cx) (\<lambda>pr.
              cbind (target_field (o_fields obj) ''version'' cx) (\<lambda>version.
              cbind get_cve (\<lambda>db. make_cve_result (verify_version db id pr version))))))
      | Some _ \<Rightarrow> native_error ''cve.verify target must be a target object'' cx)"

definition call_cve :: "string \<Rightarrow> CallContext \<Rightarrow> ('w rt, Value) comp" where
  "call_cve meth cx = (if meth = ''check'' then cve_check cx else cve_verify cx)"

definition positional_string ::
  "CallContext \<Rightarrow> nat \<Rightarrow> string \<Rightarrow> string \<Rightarrow> ('w rt, string) comp" where
  "positional_string cx i what d =
     (if d = [] \<and> i < length (cx_positional cx) then need_string (cx_positional cx ! i) what cx
      else cret d)"

definition call_cve_lookup :: "CallContext \<Rightarrow> ('w rt, Value) comp" where
  "call_cve_lookup cx =
     cbind (named_string cx ''product'' ''product'' []) (\<lambda>pr0.
     cbind (named_string cx ''version'' ''version'' []) (\<lambda>version0.
     cbind (positional_string cx 0 ''product'' pr0) (\<lambda>pr.
     cbind (positional_string cx 1 ''version'' version0) (\<lambda>version.
     cbind get_cve (\<lambda>db. cret (VStr (cve_lookup db pr version)))))))"

subsection \<open>Network functions\<close>

definition net_tcp :: "'w Env \<Rightarrow> CallContext \<Rightarrow> ('w rt, Value) comp" where
  "net_tcp env cx =
     cbind (named_string cx ''host'' ''host'' []) (\<lambda>host.
     cbind (named_int cx ''port'' 0) (\<lambda>port.
     cbind (named_int cx ''timeout_ms'' 2000) (\<lambda>timeout.
       if host = [] \<or> port = 0 then native_error ''net::tcp requires host: and port:'' cx
       else make_tcp_obj env host port timeout)))"

definition net_http :: "CallContext \<Rightarrow> ('w rt, Value) comp" where
  "net_http cx =
     cbind (named_string cx ''host'' ''host'' []) (\<lambda>host.
     cbind (named_int cx ''port'' 80) (\<lambda>port.
     cbind (named_int cx ''timeout_ms'' 3000) (\<lambda>timeout.
       if host = [] then native_error ''net::http requires host:'' cx
       else make_http_obj host port timeout)))"

definition net_tls :: "CallContext \<Rightarrow> ('w rt, Value) comp" where
  "net_tls cx =
     cbind (named_string cx ''host'' ''host'' []) (\<lambda>host.
     cbind (named_int cx ''port'' 443) (\<lambda>port.
     cbind (named_int cx ''timeout_ms'' 3000) (\<lambda>timeout.
       if host = [] then native_error ''net::tls requires host:'' cx
       else make_tls_obj host port timeout)))"

subsection \<open>The library\<close>

definition call_method ::
  "'w Env \<Rightarrow> NativeState Object \<Rightarrow> string \<Rightarrow> CallContext \<Rightarrow> (stmt list \<Rightarrow> ('w rt, unit) comp) \<Rightarrow>
   ('w rt, Value) comp" where
  "call_method env obj meth cx run =
     (case o_native_state obj of
        ResponseState r \<Rightarrow> call_response r meth cx
      | TcpState fd connected \<Rightarrow> call_tcp env fd connected meth cx
      | HttpState host port timeout \<Rightarrow> call_http env host port timeout cx
      | TlsState host port timeout \<Rightarrow> call_tls env host port timeout
      | PluginState r \<Rightarrow> call_plugin r meth cx run
      | KbState r \<Rightarrow> call_kb r meth cx
      | NoState \<Rightarrow> if o_type_name obj = ''Header'' then call_header meth cx else call_cve meth cx)"

definition call_global :: "'w Env \<Rightarrow> nat \<Rightarrow> string \<Rightarrow> CallContext \<Rightarrow> ('w rt, Value) comp" where
  "call_global env r name cx =
     (if name = ''finding'' then call_finding env r cx
      else if name = ''cve_lookup'' then call_cve_lookup cx
      else if name = ''net::tcp'' then net_tcp env cx
      else if name = ''net::http'' then net_http cx
      else net_tls cx)"

definition natives :: "'w Env \<Rightarrow> (NativeState, 'w Scan) native" where
  "natives env f cx run =
     (case f of
        NMethod a meth \<Rightarrow> cbind (cget (\<lambda>s. it_heap s ! a)) (\<lambda>obj. call_method env obj meth cx run)
      | NGlobal r name \<Rightarrow> call_global env r name cx)"

definition def_global :: "string \<Rightarrow> Value \<Rightarrow> ('w rt, unit) comp" where
  "def_global name v = cmodify (define_global name v)"

definition def_global_from :: "string \<Rightarrow> ('w rt, Value) comp \<Rightarrow> ('w rt, unit) comp" where
  "def_global_from name m = cbind m (def_global name)"

definition value_addr :: "Value \<Rightarrow> nat" where
  "value_addr v = (case v of VObj a \<Rightarrow> a | _ \<Rightarrow> 0)"

definition target_from_kb :: "string \<Rightarrow> kb_shared \<Rightarrow> nat \<Rightarrow> ('w rt, unit) comp" where
  "target_from_kb name m a = (case m name of None \<Rightarrow> cret () | Some v \<Rightarrow> set_field a name v)"

definition register_target :: "nat \<Rightarrow> ('w rt, nat) comp" where
  "register_target r =
     cbind (get_run r) (\<lambda>rs.
     cbind (make_target_obj (rs_target_host rs) (rs_target_port rs) (rs_known_service rs)) (\<lambda>tv.
     let a = value_addr tv in
     cbind (mod_run r (\<lambda>rs. rs\<lparr>rs_target := Some a\<rparr>)) (\<lambda>_.
     cbind (set_field a ''product'' (VStr [])) (\<lambda>_.
     cbind (set_field a ''version'' (VStr [])) (\<lambda>_.
     cbind (case rs_kb rs of
              None \<Rightarrow> cret ()
            | Some k \<Rightarrow>
                cbind (get_kb k) (\<lambda>m.
                cbind (target_from_kb ''product'' m a) (\<lambda>_. target_from_kb ''version'' m a)))
       (\<lambda>_. cret a))))))"

definition register_stdlib :: "nat \<Rightarrow> ('w rt, unit) comp" where
  "register_stdlib r =
     cbind (def_global_from ''plugin'' (make_plugin_obj r)) (\<lambda>_.
     cbind (register_target r) (\<lambda>a.
     cbind (def_global ''target'' (VObj a)) (\<lambda>_.
     cbind (def_global ''finding'' (VFn (NGlobal r ''finding''))) (\<lambda>_.
     cbind (def_global_from ''kb'' (make_kb_obj r)) (\<lambda>_.
     cbind (def_global_from ''cve'' make_cve_obj) (\<lambda>_.
     cbind (def_global ''cve_lookup'' (VFn (NGlobal r ''cve_lookup''))) (\<lambda>_.
     cbind (def_global ''net::tcp'' (VFn (NGlobal r ''net::tcp''))) (\<lambda>_.
     cbind (def_global ''net::http'' (VFn (NGlobal r ''net::http''))) (\<lambda>_.
     def_global ''net::tls'' (VFn (NGlobal r ''net::tls'')))))))))))"

subsection \<open>The library keeps the interpreter's contract\<close>

text \<open>
  A tame computation leaves all scopes alone, is never out of fuel, and throws nothing but
  runtime errors.  Every native but \<open>plugin.run\<close> is tame.
\<close>

definition env_same :: "('n, 'x) Interp \<Rightarrow> ('n, 'x) Interp \<Rightarrow> bool" where
  "env_same s s' \<longleftrightarrow> it_locals s' = it_locals s \<and> it_globals s' = it_globals s"

lemma env_same_pre: "preorder_rel env_same"
  by (auto simp: preorder_rel_def env_same_def)

definition tame :: "(('n, 'x) Interp, 'a) comp \<Rightarrow> bool" where
  "tame m \<longleftrightarrow> preserves env_same m \<and> fuelled m"

named_theorems tame_intros \<open>tame computations\<close>

lemma tame_cbind [tame_intros]: "tame m \<Longrightarrow> (\<And>a. tame (f a)) \<Longrightarrow> tame (cbind m f)"
  by (auto simp: tame_def intro!: preserves_cbind fuelled_cbind env_same_pre)

lemma tame_basic [tame_intros]:
  "tame (cret a)" "tame (cstop Undef)" "tame (cget g)" "tame (runtime_error msg l c)"
  by (simp_all add: tame_def preserves_basic[OF env_same_pre] fuelled_basic)

lemma tame_if [tame_intros]: "(b \<Longrightarrow> tame m) \<Longrightarrow> (\<not> b \<Longrightarrow> tame m') \<Longrightarrow> tame (if b then m else m')"
  by simp

lemma tame_option [tame_intros]:
  "tame m \<Longrightarrow> (\<And>a. tame (f a)) \<Longrightarrow> tame (case x of None \<Rightarrow> m | Some a \<Rightarrow> f a)"
  by (cases x) simp_all

lemma tame_modify: "(\<And>s. env_same s (h s)) \<Longrightarrow> tame (cmodify h)"
  by (simp add: tame_def preserves_def fuelled_def cmodify_def)

lemma tame_state [tame_intros]:
  "tame (get_run r)" "tame (mod_run r f)" "tame (get_kb k)" "tame (mod_kb k g)" "tame get_cve"
  "tame (set_field a name v)"
  unfolding get_run_def mod_run_def get_kb_def mod_kb_def get_cve_def set_field_def
  by (intro tame_intros tame_modify; simp add: env_same_def)+

lemma tame_in_world [tame_intros]: "tame (in_world f)"
  by (auto simp: tame_def preserves_def fuelled_def in_world_def env_same_def split: option.split)

lemma tame_new_object [tame_intros]: "tame (new_object t flds meths ns)"
  by (simp add: tame_def preserves_def fuelled_def new_object_def env_same_def)

lemma tame_args [tame_intros]:
  "tame (cast_int d)" "tame (need_string v what cx)" "tame (need_int v what cx)"
  "tame (named_string cx k what t)" "tame (named_int cx k i)" "tame (native_error msg cx)"
proof -
  show c: "tame (cast_int d)" for d
    by (simp add: tame_def preserves_args[OF env_same_pre] fuelled_args)
  show s: "tame (need_string v what cx)" for v what
    unfolding need_string_def by (cases v) (simp_all add: tame_intros)
  show i: "tame (need_int v what cx)" for v what
    unfolding need_int_def by (cases v) (simp_all add: tame_intros c)
  show "tame (named_string cx k what t)" "tame (named_int cx k i)" "tame (native_error msg cx)"
    unfolding named_string_def named_int_def native_error_def
    by (intro tame_option tame_basic s i)+
qed

lemma tame_cwhen [tame_intros]: "tame m \<Longrightarrow> tame (cwhen b m)"
  by (simp add: cwhen_def tame_intros)

lemma tame_header [tame_intros]: "tame (make_header_obj ex v)" "tame (call_header meth cx)"
  unfolding make_header_obj_def call_header_def header_field_def
  by (cases "cx_self cx"; simp add: tame_intros)+

lemma tame_response [tame_intros]: "tame (make_response_obj r)" "tame (call_response r meth cx)"
  unfolding make_response_obj_def call_response_def by (intro tame_intros)+

lemma tame_tcp [tame_intros]: "tame (make_tcp_obj env host port t)" "tame (call_tcp env fd cn meth cx)"
  unfolding make_tcp_obj_def call_tcp_def tcp_read_def case_prod_beta by (intro tame_intros)+

lemma tame_http [tame_intros]: "tame (make_http_obj host port t)" "tame (call_http env host port t cx)"
  unfolding make_http_obj_def call_http_def by (intro tame_intros)+

lemma tame_tls [tame_intros]: "tame (make_tls_obj host port t)" "tame (call_tls env host port t)"
  unfolding make_tls_obj_def call_tls_def make_tls_report_obj_def Let_def by (intro tame_intros)+

lemma tame_plugin_parts [tame_intros]:
  "tame (set_meta r what upd cx)" "tame (plugin_filter r cx)" "tame (plugin_set_service r cx)"
  unfolding set_meta_def plugin_filter_def plugin_set_service_def set_named_run_def mod_meta_def
    set_service_kb_def set_service_target_def set_named_field_def
  by (intro tame_intros)+

lemma tame_finding [tame_intros]: "tame (call_finding env r cx)"
  unfolding call_finding_def verification_arg_def evidence_arg_def push_finding_def
  by (intro tame_intros)

lemma tame_kb [tame_intros]: "tame (call_kb r meth cx)"
  unfolding call_kb_def kb_key_def kb_scoped_key_def kb_read_def kb_write_def by (intro tame_intros)

lemma tame_cve [tame_intros]:
  "tame (call_cve meth cx :: ('w rt, Value) comp)" "tame (call_cve_lookup cx :: ('w rt, Value) comp)"
proof -
  have "tame (cve_check cx :: ('w rt, Value) comp)"
    unfolding cve_check_def make_cve_result_def by (intro tame_intros)
  moreover have "tame (cve_verify cx :: ('w rt, Value) comp)"
    unfolding cve_verify_def make_cve_result_def target_field_def
    by (cases "cx_named cx ''target''"; cases "the (cx_named cx ''target'')"; simp; intro tame_intros)
  ultimately show "tame (call_cve meth cx :: ('w rt, Value) comp)" by (simp add: call_cve_def)
  show "tame (call_cve_lookup cx :: ('w rt, Value) comp)"
    unfolding call_cve_lookup_def positional_string_def by (intro tame_intros)
qed

lemma tame_global: "tame (call_global env r name cx)"
  unfolding call_global_def net_tcp_def net_http_def net_tls_def by (intro tame_intros)

lemma tame_scopes: "tame m \<Longrightarrow> preserves same_scopes m"
  by (auto simp: tame_def preserves_def env_same_def same_scopes_def)

lemma tame_fuelled: "tame m \<Longrightarrow> fuelled m"
  by (simp add: tame_def)

lemma global_scope_same:
  assumes "preserves inner_grows m"
  shows "preserves same_scopes (in_global_scope m)"
proof -
  have "same_scopes s (snd (in_global_scope m s))" for s
  proof -
    obtain r s' where m: "m (s\<lparr>it_locals := [Map.empty]\<rparr>) = (r, s')" by fastforce
    have "inner_grows (s\<lparr>it_locals := [Map.empty]\<rparr>) s'"
      using assms m by (metis preserves_def snd_conv)
    then have "dom (it_globals s') = dom (it_globals s)"
      by (cases "it_locals s'") (simp_all add: inner_grows_def)
    then show ?thesis
      by (cases r; simp add: in_global_scope_def m same_scopes_def Let_def split: exn.split)
  qed
  then show ?thesis by (simp add: preserves_def)
qed

lemma global_scope_fuelled: "fuelled m \<Longrightarrow> fuelled (in_global_scope m)"
proof -
  assume m: "fuelled m"
  have "fst (in_global_scope m s) \<notin> {NoFuel, Terminate}" for s
  proof -
    obtain r s' where e: "m (s\<lparr>it_locals := [Map.empty]\<rparr>) = (r, s')" by fastforce
    then have "r \<notin> {NoFuel, Terminate}" using m by (metis fuelled_def fst_conv)
    then show ?thesis by (cases r; simp add: in_global_scope_def e Let_def split: exn.split)
  qed
  then show ?thesis by (simp add: fuelled_def)
qed

lemma plugin_run_same:
  "(\<And>blk. preserves inner_grows (run blk)) \<Longrightarrow> preserves same_scopes (plugin_run r cx run)"
  unfolding plugin_run_def
  by (cases "cx_block cx")
    (auto intro!: preserves_cbind same_scopes_pre preserves_if tame_scopes[OF tame_state(1)]
      tame_scopes[OF tame_args(6)] tame_scopes[OF tame_basic(1)] global_scope_same)

lemma plugin_run_fuelled:
  "(\<And>blk. cx_block cx = Some blk \<Longrightarrow> fuelled (run blk)) \<Longrightarrow> fuelled (plugin_run r cx run)"
  unfolding plugin_run_def
  by (cases "cx_block cx")
    (auto intro!: fuelled_cbind fuelled_if fuelled_basic global_scope_fuelled
      simp: get_run_def native_error_def)

lemma call_plugin_same:
  assumes "\<And>blk. preserves inner_grows (run blk)"
  shows "preserves same_scopes (call_plugin r meth cx run)"
  unfolding call_plugin_def by (intro preserves_if tame_scopes tame_plugin_parts plugin_run_same assms)

lemma call_plugin_fuelled:
  assumes "\<And>blk. cx_block cx = Some blk \<Longrightarrow> fuelled (run blk)"
  shows "fuelled (call_plugin r meth cx run)"
  unfolding call_plugin_def
  by (intro fuelled_if tame_fuelled tame_plugin_parts plugin_run_fuelled assms)

lemma call_method_tame:
  "(\<exists>r. o_native_state obj = PluginState r) \<or> tame (call_method env obj meth cx run)"
  unfolding call_method_def by (cases "o_native_state obj") (simp_all add: tame_intros)

lemma call_method_same:
  assumes "\<And>blk. preserves inner_grows (run blk)"
  shows "preserves same_scopes (call_method env obj meth cx run)"
  using call_method_tame[of obj env meth cx run]
proof
  assume "\<exists>r. o_native_state obj = PluginState r"
  then show ?thesis by (auto simp: call_method_def intro!: call_plugin_same assms)
qed (rule tame_scopes)

lemma call_method_fuelled:
  assumes "\<And>blk. cx_block cx = Some blk \<Longrightarrow> fuelled (run blk)"
  shows "fuelled (call_method env obj meth cx run)"
  using call_method_tame[of obj env meth cx run]
proof
  assume "\<exists>r. o_native_state obj = PluginState r"
  then show ?thesis by (auto simp: call_method_def intro!: call_plugin_fuelled assms)
qed (rule tame_fuelled)

interpretation lib: native_library "natives env" for env :: "'w Env"
proof
  fix run :: "stmt list \<Rightarrow> ('w rt, unit) comp" and f and cx :: CallContext
  assume run: "\<And>blk. preserves inner_grows (run blk)"
  show "preserves same_scopes (natives env f cx run)"
    unfolding natives_def
    by (cases f) (simp_all add: preserves_cbind same_scopes_pre preserves_basic call_method_same run
        tame_scopes tame_global)
next
  fix run :: "stmt list \<Rightarrow> ('w rt, unit) comp" and f and cx :: CallContext
  assume run: "\<And>blk. cx_block cx = Some blk \<Longrightarrow> fuelled (run blk)"
  show "fuelled (natives env f cx run)"
    unfolding natives_def
    by (cases f) (simp_all add: fuelled_cbind fuelled_basic call_method_fuelled run
        tame_fuelled tame_global)
qed

end
