(* ===== verification/ZtlHistory.thy ===== *)
theory ZtlHistory
  imports ZtlNatives
begin

text \<open>
  What scripts cannot undo: objects keep their type, methods and native state, reported findings
  stay as they were reported, facts of a knowledge base are never deleted, and the CVE tables do
  not change.  The relation \<open>scan_grows\<close> says so, and every native function preserves it.
\<close>

subsection \<open>Growing lists of records\<close>

definition grows_at :: "('a \<Rightarrow> 'a \<Rightarrow> bool) \<Rightarrow> 'a list \<Rightarrow> 'a list \<Rightarrow> bool" where
  "grows_at P xs ys \<longleftrightarrow> length xs \<le> length ys \<and> (\<forall>i < length xs. P (xs ! i) (ys ! i))"

lemma grows_at_refl: "(\<And>x. P x x) \<Longrightarrow> grows_at P xs xs"
  by (simp add: grows_at_def)

lemma grows_at_trans:
  assumes "\<And>x y z. P x y \<Longrightarrow> P y z \<Longrightarrow> P x z" "grows_at P xs ys" "grows_at P ys zs"
  shows "grows_at P xs zs"
proof -
  have "P (xs ! i) (zs ! i)" if "i < length xs" for i
    using that assms(2,3) assms(1)[of "xs ! i" "ys ! i" "zs ! i"] by (simp add: grows_at_def)
  then show ?thesis using assms(2,3) by (simp add: grows_at_def)
qed

lemma grows_at_append: "(\<And>x. P x x) \<Longrightarrow> grows_at P xs (xs @ ys)"
  by (simp add: grows_at_def nth_append)

lemma grows_at_update: "(\<And>x. P x x) \<Longrightarrow> P (xs ! i) v \<Longrightarrow> grows_at P xs (xs[i := v])"
  by (cases "i < length xs") (simp_all add: grows_at_def nth_list_update)

subsection \<open>The relation\<close>

definition object_grows :: "NativeState Object \<Rightarrow> NativeState Object \<Rightarrow> bool" where
  "object_grows a b \<longleftrightarrow>
     o_type_name b = o_type_name a \<and> o_methods b = o_methods a \<and>
     o_native_state b = o_native_state a \<and> dom (o_fields a) \<subseteq> dom (o_fields b)"

text \<open>A finding about a port: the host is filled in later when a plugin has failed.\<close>

definition out_about :: "string \<Rightarrow> int \<Rightarrow> FindingOut \<Rightarrow> bool" where
  "out_about host port f \<longleftrightarrow>
     (fo_host f = [] \<or> fo_host f = host) \<and> fo_port_number f = port16 port \<and>
     (fo_protocol f = P_UNKNOWN \<or> fo_protocol f = P_TCP)"

definition findings_grow :: "RunState \<Rightarrow> RunState \<Rightarrow> bool" where
  "findings_grow a b \<longleftrightarrow>
     (\<exists>fs. rs_findings b = rs_findings a @ fs \<and> list_all (out_about (rs_target_host a) (rs_target_port a)) fs) \<and>
     rs_target_host b = rs_target_host a \<and> rs_target_port b = rs_target_port a \<and>
     rs_known_service b = rs_known_service a \<and> rs_meta_only b = rs_meta_only a \<and> rs_kb b = rs_kb a"

definition facts_grow :: "kb_shared \<Rightarrow> kb_shared \<Rightarrow> bool" where
  "facts_grow a b \<longleftrightarrow> dom a \<subseteq> dom b"

definition scan_grows :: "'w rt \<Rightarrow> 'w rt \<Rightarrow> bool" where
  "scan_grows s s' \<longleftrightarrow>
     grows_at object_grows (it_heap s) (it_heap s') \<and>
     grows_at findings_grow (sc_runs (it_ext s)) (sc_runs (it_ext s')) \<and>
     grows_at facts_grow (sc_kbs (it_ext s)) (sc_kbs (it_ext s')) \<and>
     sc_cve (it_ext s') = sc_cve (it_ext s)"

lemma grows_refl [simp]: "object_grows x x" "findings_grow y y" "facts_grow z z"
  by (simp_all add: object_grows_def findings_grow_def facts_grow_def)

lemma object_grows_trans: "object_grows a b \<Longrightarrow> object_grows b c \<Longrightarrow> object_grows a c"
  by (auto simp: object_grows_def)

lemma findings_grow_trans: "findings_grow a b \<Longrightarrow> findings_grow b c \<Longrightarrow> findings_grow a c"
  unfolding findings_grow_def by (auto simp: list_all_append)

lemma facts_grow_trans: "facts_grow a b \<Longrightarrow> facts_grow b c \<Longrightarrow> facts_grow a c"
  by (auto simp: facts_grow_def)

lemma scan_grows_refl: "scan_grows s s"
  by (simp add: scan_grows_def grows_at_refl)

lemma scan_grows_trans: "scan_grows a b \<Longrightarrow> scan_grows b c \<Longrightarrow> scan_grows a c"
  unfolding scan_grows_def
  by (auto intro: grows_at_trans[of object_grows, OF object_grows_trans]
      grows_at_trans[of findings_grow, OF findings_grow_trans]
      grows_at_trans[of facts_grow, OF facts_grow_trans])

lemma scan_grows_pre: "preorder_rel scan_grows"
  by (auto simp: preorder_rel_def scan_grows_refl intro: scan_grows_trans)

subsection \<open>Natives\<close>

abbreviation keeps_history :: "('w rt, 'a) comp \<Rightarrow> bool" where
  "keeps_history \<equiv> preserves scan_grows"

named_theorems history_intros \<open>computations that keep the history\<close>

lemmas history_basic [history_intros] =
  preserves_cbind[OF scan_grows_pre] preserves_basic[OF scan_grows_pre] preserves_if

lemma history_option [history_intros]:
  "keeps_history m \<Longrightarrow> (\<And>a. keeps_history (f a)) \<Longrightarrow>
     keeps_history (case x of None \<Rightarrow> m | Some a \<Rightarrow> f a)"
  by (cases x) simp_all

lemma history_mod_run [history_intros]: "(\<And>rs. findings_grow rs (f rs)) \<Longrightarrow> keeps_history (mod_run r f)"
  by (simp add: preserves_def mod_run_def cmodify_def scan_grows_def grows_at_refl grows_at_update)

lemma history_mod_kb [history_intros]: "(\<And>m. facts_grow m (f m)) \<Longrightarrow> keeps_history (mod_kb k f)"
  by (simp add: preserves_def mod_kb_def cmodify_def scan_grows_def grows_at_refl grows_at_update)

lemma history_set_field [history_intros]: "keeps_history (set_field a name v)"
  by (auto simp: preserves_def set_field_def cmodify_def scan_grows_def
      intro!: grows_at_refl grows_at_update simp: object_grows_def)

lemma history_state [history_intros]:
  "keeps_history (get_run r)" "keeps_history (get_kb k)" "keeps_history get_cve"
  unfolding get_run_def get_kb_def get_cve_def by (intro history_intros)+

lemma history_in_world [history_intros]: "keeps_history (in_world f)"
  by (auto simp: preserves_def in_world_def scan_grows_def grows_at_refl split: option.split)

lemma history_new_object [history_intros]: "keeps_history (new_object t flds meths ns)"
  by (simp add: preserves_def new_object_def scan_grows_def grows_at_refl grows_at_append)

lemma history_args [history_intros]:
  "keeps_history (cast_int d)" "keeps_history (need_string v what cx)" "keeps_history (need_int v what cx)"
  "keeps_history (named_string cx k what t)" "keeps_history (named_int cx k i)"
  "keeps_history (native_error msg cx)"
proof -
  show c: "keeps_history (cast_int d)" for d by (rule preserves_args[OF scan_grows_pre])
  show s: "keeps_history (need_string v what cx)" for v what
    unfolding need_string_def by (cases v) (simp_all add: history_intros)
  show i: "keeps_history (need_int v what cx)" for v what
    unfolding need_int_def by (cases v) (simp_all add: history_intros c)
  show "keeps_history (named_string cx k what t)" "keeps_history (named_int cx k i)"
    "keeps_history (native_error msg cx)"
    unfolding named_string_def named_int_def native_error_def
    by (intro history_option history_basic s i)+
qed

lemma history_objects [history_intros]:
  "keeps_history (make_header_obj ex v)" "keeps_history (make_response_obj r)"
  "keeps_history (make_tcp_obj env host port t)" "keeps_history (make_http_obj host port t)"
  "keeps_history (make_tls_report_obj rep)" "keeps_history (make_tls_obj host port t)"
  "keeps_history (make_cve_result ver)"
  unfolding make_header_obj_def make_response_obj_def make_tcp_obj_def make_http_obj_def
    make_tls_report_obj_def make_tls_obj_def make_cve_result_def case_prod_beta Let_def
  by (intro history_intros)+

lemma history_header [history_intros]: "keeps_history (call_header meth cx)"
  unfolding call_header_def header_field_def by (cases "cx_self cx"; simp add: history_intros)

lemma history_response [history_intros]: "keeps_history (call_response r meth cx)"
  unfolding call_response_def by (intro history_intros)

lemma history_sockets [history_intros]:
  "keeps_history (call_tcp env fd cn meth cx)" "keeps_history (call_http env host port t cx)"
  "keeps_history (call_tls env host port t)"
  unfolding call_tcp_def tcp_read_def call_http_def call_tls_def by (intro history_intros)+

lemma history_meta [history_intros]: "keeps_history (mod_meta r f)"
  unfolding mod_meta_def by (rule history_mod_run) (simp add: findings_grow_def)

lemma history_set_named [history_intros]:
  "(\<And>t rs. findings_grow rs (upd t rs)) \<Longrightarrow> keeps_history (set_named_run r k upd cx)"
  unfolding set_named_run_def by (intro history_intros)

lemma facts_put_named: "facts_grow m m' \<Longrightarrow> facts_grow m (put_named cx k m')"
  by (auto simp: put_named_def facts_grow_def split: option.split)

lemma history_service [history_intros]:
  "keeps_history (set_service_kb kb svc cx)" "keeps_history (set_service_target t svc cx)"
proof -
  have "facts_grow m (m(''service'' \<mapsto> VStr svc))" for m
    by (auto simp: facts_grow_def)
  then show "keeps_history (set_service_kb kb svc cx)"
    unfolding set_service_kb_def by (intro history_intros facts_put_named)
  show "keeps_history (set_service_target t svc cx)"
    unfolding set_service_target_def set_named_field_def by (intro history_intros)
qed

lemma history_set_service [history_intros]: "keeps_history (plugin_set_service r cx)"
  unfolding plugin_set_service_def
  by (intro history_intros) (simp_all add: findings_grow_def)

lemma history_plugin_parts [history_intros]:
  "keeps_history (set_meta r what upd cx)" "keeps_history (plugin_filter r cx)"
  unfolding set_meta_def plugin_filter_def cwhen_def by (intro history_intros)+

subsection \<open>Computations that only read\<close>

definition reads :: "('s, 'a) comp \<Rightarrow> bool" where
  "reads m \<longleftrightarrow> (\<forall>s. snd (m s) = s)"

lemma reads_cbind: "reads m \<Longrightarrow> (\<And>a. reads (f a)) \<Longrightarrow> reads (cbind m f)"
proof -
  assume m: "reads m" and f: "\<And>a. reads (f a)"
  have "snd (cbind m f s) = s" for s
  proof -
    obtain r s1 where e: "m s = (r, s1)" by fastforce
    then have "s1 = s" using m by (metis reads_def snd_conv)
    then show ?thesis using f by (cases r) (simp_all add: cbind_def e reads_def)
  qed
  then show ?thesis by (simp add: reads_def)
qed

lemma reads_basic:
  "reads (cret a)" "reads (cget g)" "reads (runtime_error msg l c)" "reads (cstop r)"
  by (simp_all add: reads_def cret_def cget_def runtime_error_def cthrow_def cstop_def)

lemma reads_need_string: "reads (need_string v what cx)"
  by (cases v) (simp_all add: need_string_def reads_basic)

lemma reads_args:
  "reads (named_string cx k what d)" "reads (verification_arg cx)" "reads (evidence_arg cx)"
  "reads (get_run r)"
  unfolding named_string_def verification_arg_def evidence_arg_def get_run_def
  by (auto intro!: reads_basic reads_need_string reads_cbind split: option.split)

lemma bind_reads_Ok:
  assumes "reads m" "cbind m f s = (Ok b, s')"
  obtains a where "m s = (Ok a, s)" "f a s = (Ok b, s')"
proof -
  obtain r s1 where e: "m s = (r, s1)" by fastforce
  then have "s1 = s" using assms(1) by (metis reads_def snd_conv)
  with e assms(2) that show ?thesis by (cases r) (auto simp: cbind_def)
qed

lemma get_run_eval: "get_run r s = (Ok (sc_runs (it_ext s) ! r), s)"
  by (simp add: get_run_def cget_def)

text \<open>A finding is pushed on the run it is about.\<close>

definition run_of :: "nat \<Rightarrow> 'w rt \<Rightarrow> RunState" where
  "run_of r s = sc_runs (it_ext s) ! r"

lemma history_push:
  assumes "out_about (rs_target_host (run_of r s)) (rs_target_port (run_of r s)) f"
  shows "scan_grows s (snd (push_finding r f s))"
  using assms
  by (auto simp: push_finding_def mod_run_def cmodify_def scan_grows_def run_of_def findings_grow_def
      intro!: grows_at_refl grows_at_update)

lemma history_after_read:
  "reads m \<Longrightarrow> (\<And>a. scan_grows s (snd (f a s))) \<Longrightarrow> scan_grows s (snd (cbind m f s))"
proof -
  assume m: "reads m" and f: "\<And>a. scan_grows s (snd (f a s))"
  obtain r s1 where e: "m s = (r, s1)" by fastforce
  then have "s1 = s" using m by (metis reads_def snd_conv)
  then show ?thesis using f by (cases r) (simp_all add: cbind_def e scan_grows_refl)
qed

lemma history_finding_last:
  assumes "\<And>now. out_about (rs_target_host (run_of r s)) (rs_target_port (run_of r s)) (f now)"
  shows "scan_grows s (snd (cbind (in_world (\<lambda>w. Some (g w))) (\<lambda>now. cbind (push_finding r (f now)) (\<lambda>_. cret v)) s))"
proof -
  obtain now w where g: "g (sc_world (it_ext s)) = (now, w)" by fastforce
  let ?s = "s\<lparr>it_ext := (it_ext s)\<lparr>sc_world := w\<rparr>\<rparr>"
  have world: "scan_grows s ?s" by (simp add: scan_grows_def grows_at_refl)
  have push: "scan_grows ?s (snd (push_finding r (f now) ?s))"
    by (rule history_push) (use assms in \<open>simp add: run_of_def\<close>)
  have "in_world (\<lambda>w. Some (g w)) s = (Ok now, ?s)" by (simp add: in_world_def g)
  then have "snd (cbind (in_world (\<lambda>w. Some (g w))) (\<lambda>now. cbind (push_finding r (f now)) (\<lambda>_. cret v)) s) =
      snd (push_finding r (f now) ?s)"
    by (simp add: cbind_def push_finding_def mod_run_def cmodify_def cret_def)
  then show ?thesis using scan_grows_trans[OF world push] by (simp only:)
qed

lemma make_finding_about:
  "out_about (rs_target_host rs) (rs_target_port rs) (make_finding rs cx sev title desc cve ver evi rem vec now)"
  by (simp add: out_about_def make_finding_def Let_def)

lemma history_finding [history_intros]: "keeps_history (call_finding env r cx)"
proof -
  have "scan_grows s (snd (call_finding env r cx s))" for s
  proof -
    have e: "call_finding env r cx s = (\<lambda>rs.
     cbind (named_string cx ''severity'' ''severity'' []) (\<lambda>severity.
     cbind (named_string cx ''title'' ''title'' []) (\<lambda>title.
     cbind (named_string cx ''description'' ''description'' []) (\<lambda>description.
     cbind (named_string cx ''cve'' ''cve'' []) (\<lambda>cve.
     cbind (verification_arg cx) (\<lambda>verification.
     cbind (evidence_arg cx) (\<lambda>evidence.
     cbind (named_string cx ''remediation'' ''remediation'' []) (\<lambda>remediation.
     cbind (named_string cx ''cvss_vector'' ''cvss_vector'' []) (\<lambda>cvss_vector.
     cbind (in_world (\<lambda>w. Some (env_now env w))) (\<lambda>now.
     cbind (push_finding r (make_finding rs cx severity title description cve verification evidence
              remediation cvss_vector now)) (\<lambda>_. cret VNull))))))))))) (run_of r s) s"
      by (simp add: call_finding_def cbind_def[of "get_run r"] get_run_eval run_of_def)
    show ?thesis
      unfolding e by (intro history_after_read reads_args history_finding_last make_finding_about)
  qed
  then show ?thesis by (simp add: preserves_def)
qed

lemma history_kb [history_intros]: "keeps_history (call_kb r meth cx)"
proof -
  have w: "keeps_history (kb_write r key v)" for key v
    unfolding kb_write_def by (intro history_intros) (auto simp: facts_grow_def)
  show ?thesis
    unfolding call_kb_def kb_key_def kb_scoped_key_def kb_read_def by (intro history_intros w)
qed

lemma history_cve [history_intros]:
  "keeps_history (call_cve meth cx :: ('w rt, Value) comp)"
  "keeps_history (call_cve_lookup cx :: ('w rt, Value) comp)"
proof -
  have "keeps_history (cve_check cx :: ('w rt, Value) comp)"
    unfolding cve_check_def by (intro history_intros)
  moreover have "keeps_history (cve_verify cx :: ('w rt, Value) comp)"
    unfolding cve_verify_def target_field_def
    by (cases "cx_named cx ''target''"; cases "the (cx_named cx ''target'')"; simp; intro history_intros)
  ultimately show "keeps_history (call_cve meth cx :: ('w rt, Value) comp)" by (simp add: call_cve_def)
  show "keeps_history (call_cve_lookup cx :: ('w rt, Value) comp)"
    unfolding call_cve_lookup_def positional_string_def by (intro history_intros)
qed

lemma history_global [history_intros]: "keeps_history (call_global env r name cx)"
  unfolding call_global_def net_tcp_def net_http_def net_tls_def by (intro history_intros)

lemma scan_grows_env: "it_heap s' = it_heap s \<Longrightarrow> it_ext s' = it_ext s \<Longrightarrow> scan_grows s s'"
  by (simp add: scan_grows_def grows_at_refl)

lemma history_global_scope: "keeps_history m \<Longrightarrow> keeps_history (in_global_scope m)"
proof -
  assume m: "keeps_history m"
  have "scan_grows s (snd (in_global_scope m s))" for s
  proof -
    obtain r s1 where s1: "m (s\<lparr>it_locals := [Map.empty]\<rparr>) = (r, s1)" by fastforce
    have "scan_grows s (s\<lparr>it_locals := [Map.empty]\<rparr>)" by (rule scan_grows_env) simp_all
    moreover have "scan_grows (s\<lparr>it_locals := [Map.empty]\<rparr>) s1"
      using m s1 by (metis preserves_def snd_conv)
    ultimately have "scan_grows s s1" by (rule scan_grows_trans)
    then have "scan_grows s (s1\<lparr>it_locals := it_locals s\<rparr>)" by (simp add: scan_grows_def)
    then show ?thesis by (cases r; simp add: in_global_scope_def s1 Let_def split: exn.split)
  qed
  then show ?thesis by (simp add: preserves_def)
qed

lemma history_plugin:
  "(\<And>blk. keeps_history (run blk)) \<Longrightarrow> keeps_history (call_plugin r meth cx run)"
  unfolding call_plugin_def plugin_run_def by (intro history_intros history_global_scope)

lemma history_method:
  "(\<And>blk. keeps_history (run blk)) \<Longrightarrow> keeps_history (call_method env obj meth cx run)"
  unfolding call_method_def
  by (cases "o_native_state obj") (simp_all add: history_intros history_plugin)

interpretation history: native_relation "natives env" scan_grows for env :: "'w Env"
proof
  show "preorder_rel (scan_grows :: 'w rt \<Rightarrow> 'w rt \<Rightarrow> bool)" by (rule scan_grows_pre)
  show "scan_grows s s'" if "it_heap s' = it_heap s" "it_ext s' = it_ext s" for s s' :: "'w rt"
    using that by (rule scan_grows_env)
  fix run :: "stmt list \<Rightarrow> ('w rt, unit) comp" and f and cx :: CallContext
  assume run: "\<And>blk. keeps_history (run blk)"
  show "keeps_history (natives env f cx run)"
    unfolding natives_def
    by (cases f) (simp_all add: history_basic history_global history_method run)
qed

end
