(* ===== verification/ZtlRunner.thy ===== *)
theory ZtlRunner
  imports ZtlHistory
begin

text \<open>
  Loading and running plugins: \<open>load_plugin\<close>, \<open>load_plugins_dir\<close>, \<open>run_plugin\<close>, \<open>run_for_port\<close> and
  \<open>run_all\<close> of \<open>ztl/runner.cpp\<close>.  A file is its content, or \<open>None\<close> when it cannot be opened; a
  directory is the list \<open>readdir\<close> delivers.
\<close>

record LoadedPlugin =
  lp_program :: "stmt list"
  lp_source_path :: string
  lp_preview_meta :: PluginMeta

record RunOutcome =
  ro_meta :: PluginMeta
  ro_findings :: "FindingOut list"
  ro_service :: string
  ro_product :: string
  ro_version :: string
  ro_port :: int

record DetectedInfo =
  di_service :: string
  di_product :: string
  di_version :: string

subsection \<open>Running a program\<close>

text \<open>\<open>try { m } catch\<close>: the exception, if one was thrown.\<close>

definition ctry :: "('s, unit) comp \<Rightarrow> ('s, exn option) comp" where
  "ctry m s =
     (case m s of
        (Ok _, s') \<Rightarrow> (Ok None, s')
      | (Throw e, s') \<Rightarrow> (Ok (Some e), s')
      | (Undef, s') \<Rightarrow> (Undef, s')
      | (Hang, s') \<Rightarrow> (Hang, s')
      | (Terminate, s') \<Rightarrow> (Terminate, s')
      | (NoFuel, s') \<Rightarrow> (NoFuel, s'))"

definition new_run :: "RunState \<Rightarrow> ('w rt, nat) comp" where
  "new_run rs s =
     (Ok (length (sc_runs (it_ext s))), s\<lparr>it_ext := (it_ext s)\<lparr>sc_runs := sc_runs (it_ext s) @ [rs]\<rparr>\<rparr>)"

text \<open>\<open>make_kb\<close>.\<close>

definition make_kb :: "kb_shared \<Rightarrow> ('w rt, nat) comp" where
  "make_kb m s =
     (Ok (length (sc_kbs (it_ext s))), s\<lparr>it_ext := (it_ext s)\<lparr>sc_kbs := sc_kbs (it_ext s) @ [m]\<rparr>\<rparr>)"

definition new_interpreter :: "('w rt, unit) comp" where
  "new_interpreter = cmodify (\<lambda>s. s\<lparr>it_locals := [], it_globals := Map.empty\<rparr>)"

text \<open>A run state, an interpreter with the library, and the program in it.\<close>

definition start_run :: "'w Env \<Rightarrow> RunState \<Rightarrow> ('w rt, nat) comp" where
  "start_run env rs =
     cbind (new_run rs) (\<lambda>r.
     cbind new_interpreter (\<lambda>_.
     cbind (register_stdlib r) (\<lambda>_. cret r)))"

subsection \<open>Loading\<close>

text \<open>
  The program is run once to learn what it says about itself; if that throws anything, a
  top-level \<open>return\<close> included, what it said is dropped.
\<close>

definition preload_meta :: "'w Env \<Rightarrow> stmt list \<Rightarrow> ('w rt, PluginMeta) comp" where
  "preload_meta env prog =
     cbind (start_run env (run_state_default\<lparr>rs_meta_only := True, rs_target_host := ''0.0.0.0'',
              rs_target_port := 0\<rparr>)) (\<lambda>r.
     cbind (ctry (run_program (natives env) prog)) (\<lambda>e.
       case e of
         None \<Rightarrow> cbind (get_run r) (\<lambda>rs. cret (rs_meta rs))
       | Some _ \<Rightarrow> cret plugin_meta_default))"

definition load_plugin :: "'w Env \<Rightarrow> string \<Rightarrow> string option \<Rightarrow> ('w rt, LoadedPlugin) comp" where
  "load_plugin env path content =
     (case content of
        None \<Rightarrow> cthrow (StdException (''cannot open plugin: '' @ path))
      | Some text \<Rightarrow>
          (case tokenize text of
             Inl e \<Rightarrow> cthrow (StdException (lex_what e))
           | Inr ts \<Rightarrow>
               (case parse_program ts of
                  None \<Rightarrow> cstop NoFuel
                | Some (Inl e) \<Rightarrow> cthrow (StdException (parse_what e))
                | Some (Inr prog) \<Rightarrow>
                    cbind (preload_meta env prog) (\<lambda>m.
                      cret \<lparr>lp_program = prog, lp_source_path = path, lp_preview_meta = m\<rparr>))))"

definition is_plugin_file :: "string \<Rightarrow> bool" where
  "is_plugin_file name \<longleftrightarrow> \<not> length name < 5 \<and> drop (length name - 4) name = ''.ztl''"

text \<open>\<open>out.push_back(load_plugin(...))\<close>; a plugin that throws is skipped.\<close>

definition push_loaded ::
  "('s, LoadedPlugin) comp \<Rightarrow> LoadedPlugin list \<Rightarrow> ('s, LoadedPlugin list) comp" where
  "push_loaded m out s =
     (case m s of
        (Ok p, s') \<Rightarrow> (Ok (out @ [p]), s')
      | (Throw e, s') \<Rightarrow> (Ok out, s')
      | (Undef, s') \<Rightarrow> (Undef, s')
      | (Hang, s') \<Rightarrow> (Hang, s')
      | (Terminate, s') \<Rightarrow> (Terminate, s')
      | (NoFuel, s') \<Rightarrow> (NoFuel, s'))"

fun load_entries ::
  "'w Env \<Rightarrow> string \<Rightarrow> (string \<times> string option) list \<Rightarrow> LoadedPlugin list \<Rightarrow>
   ('w rt, LoadedPlugin list) comp" where
  "load_entries env dir [] out = cret out"
| "load_entries env dir ((name, content) # es) out =
     (if is_plugin_file name then
        cbind (push_loaded (load_plugin env (dir @ ''/'' @ name) content) out) (load_entries env dir es)
      else load_entries env dir es out)"

definition load_plugins_dir ::
  "'w Env \<Rightarrow> string \<Rightarrow> (string \<times> string option) list option \<Rightarrow> ('w rt, LoadedPlugin list) comp" where
  "load_plugins_dir env dir entries =
     (case entries of None \<Rightarrow> cret [] | Some es \<Rightarrow> load_entries env dir es [])"

subsection \<open>Running a plugin on a port\<close>

definition debug_finding :: "LoadedPlugin \<Rightarrow> RunState \<Rightarrow> int \<Rightarrow> string \<Rightarrow> FindingOut" where
  "debug_finding p rs port what =
     finding_out_default
       \<lparr>fo_plugin_name := (if pm_name (rs_meta rs) = [] then lp_source_path p else pm_name (rs_meta rs)),
        fo_severity := ''debug'', fo_title := ''Plugin runtime error'', fo_description := what,
        fo_port_number := port16 port\<rparr>"

fun report_exception :: "LoadedPlugin \<Rightarrow> nat \<Rightarrow> int \<Rightarrow> exn option \<Rightarrow> ('w rt, unit) comp" where
  "report_exception p r port None = cret ()"
| "report_exception p r port (Some (ReturnException v)) = cret ()"
| "report_exception p r port (Some (RuntimeError msg l c)) =
     cbind (get_run r) (\<lambda>rs. push_finding r (debug_finding p rs port (exn_what (RuntimeError msg l c))))"
| "report_exception p r port (Some (StdException msg)) =
     cbind (get_run r) (\<lambda>rs. push_finding r (debug_finding p rs port msg))"

definition run_outcome :: "RunState \<Rightarrow> int \<Rightarrow> RunOutcome" where
  "run_outcome rs port =
     \<lparr>ro_meta = rs_meta rs, ro_findings = rs_findings rs, ro_service = rs_set_service rs,
      ro_product = rs_set_product rs, ro_version = rs_set_version rs,
      ro_port = (if rs_set_service rs = [] then 0 else port)\<rparr>"

definition plugin_state :: "string \<Rightarrow> int \<Rightarrow> string \<Rightarrow> nat option \<Rightarrow> RunState" where
  "plugin_state host port svc kb =
     run_state_default\<lparr>rs_target_host := host, rs_target_port := port, rs_known_service := svc, rs_kb := kb\<rparr>"

text \<open>\<open>std::move(state->findings)\<close> leaves the run without findings.\<close>

definition take_findings :: "nat \<Rightarrow> ('w rt, unit) comp" where
  "take_findings r = mod_run r (\<lambda>rs. rs\<lparr>rs_findings := []\<rparr>)"

definition run_plugin ::
  "'w Env \<Rightarrow> LoadedPlugin \<Rightarrow> string \<Rightarrow> int \<Rightarrow> string \<Rightarrow> nat option \<Rightarrow> ('w rt, RunOutcome) comp" where
  "run_plugin env p host port svc kb =
     cbind (start_run env (plugin_state host port svc kb)) (\<lambda>r.
     cbind (ctry (run_program (natives env) (lp_program p))) (\<lambda>e.
     cbind (report_exception p r port e) (\<lambda>_.
     cbind (get_run r) (\<lambda>rs.
     cbind (take_findings r) (\<lambda>_. cret (run_outcome rs port))))))"

subsection \<open>All plugins on a port\<close>

record PortPass =
  pp_svc :: string
  pp_product :: string
  pp_version :: string
  pp_out :: "FindingOut list"

definition absorb :: "PortPass \<Rightarrow> RunOutcome \<Rightarrow> PortPass" where
  "absorb a r =
     a\<lparr>pp_out := pp_out a @ ro_findings r,
       pp_svc := (if ro_service r \<noteq> [] then ro_service r else pp_svc a),
       pp_product := (if ro_product r \<noteq> [] then ro_product r else pp_product a),
       pp_version := (if ro_version r \<noteq> [] then ro_version r else pp_version a)\<rparr>"

definition wants_any :: "LoadedPlugin \<Rightarrow> string \<Rightarrow> bool" where
  "wants_any p svc \<longleftrightarrow> pm_filter_any (lp_preview_meta p)"

definition wants_service :: "LoadedPlugin \<Rightarrow> string \<Rightarrow> bool" where
  "wants_service p svc \<longleftrightarrow>
     \<not> pm_filter_any (lp_preview_meta p) \<and>
     (pm_filter_service (lp_preview_meta p) = [] \<or> pm_filter_service (lp_preview_meta p) = svc)"

fun port_pass ::
  "'w Env \<Rightarrow> (LoadedPlugin \<Rightarrow> string \<Rightarrow> bool) \<Rightarrow> string \<Rightarrow> int \<Rightarrow> nat option \<Rightarrow> LoadedPlugin list \<Rightarrow>
   PortPass \<Rightarrow> ('w rt, PortPass) comp" where
  "port_pass env wants host port kb [] a = cret a"
| "port_pass env wants host port kb (p # ps) a =
     (if \<not> wants p (pp_svc a) then port_pass env wants host port kb ps a
      else cbind (run_plugin env p host port (pp_svc a) kb) (\<lambda>r.
           port_pass env wants host port kb ps (absorb a r)))"

definition run_for_port ::
  "'w Env \<Rightarrow> LoadedPlugin list \<Rightarrow> string \<Rightarrow> int \<Rightarrow> string \<Rightarrow>
   ('w rt, FindingOut list \<times> DetectedInfo) comp" where
  "run_for_port env plugins host port initial_service =
     cbind (make_kb (if initial_service \<noteq> [] then [''service'' \<mapsto> VStr initial_service] else Map.empty)) (\<lambda>kb.
     cbind (port_pass env wants_any host port (Some kb) plugins
              \<lparr>pp_svc = initial_service, pp_product = [], pp_version = [], pp_out = []\<rparr>) (\<lambda>a.
     cbind (port_pass env wants_service host port (Some kb) plugins a) (\<lambda>b.
       cret (pp_out b, \<lparr>di_service = pp_svc b, di_product = pp_product b, di_version = pp_version b\<rparr>))))"

subsection \<open>All plugins on all ports\<close>

record AllPass =
  ap_service_of :: "int \<Rightarrow> string option"
  ap_all :: "FindingOut list"

text \<open>\<open>kbs[p] = make_kb()\<close> for every port of the list; a repeated port gets the last one.\<close>

fun make_kbs :: "int list \<Rightarrow> (int \<Rightarrow> nat option) \<Rightarrow> ('w rt, int \<Rightarrow> nat option) comp" where
  "make_kbs [] kbs = cret kbs"
| "make_kbs (p # ps) kbs = cbind (make_kb Map.empty) (\<lambda>k. make_kbs ps (kbs(p \<mapsto> k)))"

text \<open>\<open>service_of[port]\<close>: a missing port is the empty string, and is in the map afterwards.\<close>

definition service_at :: "AllPass \<Rightarrow> int \<Rightarrow> string" where
  "service_at a port = (case ap_service_of a port of None \<Rightarrow> [] | Some s \<Rightarrow> s)"

definition touch_service :: "int \<Rightarrow> AllPass \<Rightarrow> AllPass" where
  "touch_service port a = a\<lparr>ap_service_of := (ap_service_of a)(port \<mapsto> service_at a port)\<rparr>"

definition detect_outcome :: "int \<Rightarrow> AllPass \<Rightarrow> RunOutcome \<Rightarrow> AllPass" where
  "detect_outcome port a r =
     a\<lparr>ap_service_of := (if ro_service r \<noteq> [] then (ap_service_of a)(port \<mapsto> ro_service r) else ap_service_of a),
       ap_all := ap_all a @ ro_findings r\<rparr>"

definition check_outcome :: "int \<Rightarrow> AllPass \<Rightarrow> RunOutcome \<Rightarrow> AllPass" where
  "check_outcome port a r = a\<lparr>ap_all := ap_all a @ ro_findings r\<rparr>"

fun ports_loop ::
  "'w Env \<Rightarrow> (LoadedPlugin \<Rightarrow> string \<Rightarrow> bool) \<Rightarrow> (int \<Rightarrow> AllPass \<Rightarrow> RunOutcome \<Rightarrow> AllPass) \<Rightarrow> string \<Rightarrow>
   (int \<Rightarrow> nat option) \<Rightarrow> LoadedPlugin \<Rightarrow> int list \<Rightarrow> AllPass \<Rightarrow> ('w rt, AllPass) comp" where
  "ports_loop env wants outc host kbs p [] a = cret a"
| "ports_loop env wants outc host kbs p (port # ports) a =
     (let a = touch_service port a; svc = service_at a port in
      if \<not> wants p svc then ports_loop env wants outc host kbs p ports a
      else cbind (run_plugin env p host port svc (kbs port)) (\<lambda>r.
           ports_loop env wants outc host kbs p ports (outc port a r)))"

fun plugins_loop ::
  "'w Env \<Rightarrow> (LoadedPlugin \<Rightarrow> bool) \<Rightarrow> (LoadedPlugin \<Rightarrow> string \<Rightarrow> bool) \<Rightarrow>
   (int \<Rightarrow> AllPass \<Rightarrow> RunOutcome \<Rightarrow> AllPass) \<Rightarrow> string \<Rightarrow> (int \<Rightarrow> nat option) \<Rightarrow> int list \<Rightarrow>
   LoadedPlugin list \<Rightarrow> AllPass \<Rightarrow> ('w rt, AllPass) comp" where
  "plugins_loop env sel wants outc host kbs ports [] a = cret a"
| "plugins_loop env sel wants outc host kbs ports (p # ps) a =
     (if \<not> sel p then plugins_loop env sel wants outc host kbs ports ps a
      else cbind (ports_loop env wants outc host kbs p ports a)
             (plugins_loop env sel wants outc host kbs ports ps))"

definition run_all ::
  "'w Env \<Rightarrow> LoadedPlugin list \<Rightarrow> string \<Rightarrow> int list \<Rightarrow> ('w rt, FindingOut list) comp" where
  "run_all env plugins host open_ports =
     cbind (make_kbs open_ports Map.empty) (\<lambda>kbs.
     cbind (plugins_loop env (\<lambda>p. pm_filter_any (lp_preview_meta p)) wants_any detect_outcome host kbs
              open_ports plugins \<lparr>ap_service_of = Map.empty, ap_all = []\<rparr>) (\<lambda>a.
     cbind (plugins_loop env (\<lambda>p. \<not> pm_filter_any (lp_preview_meta p)) wants_service check_outcome host kbs
              open_ports plugins a) (\<lambda>b.
       cret (ap_all b))))"

subsection \<open>Runs never fail\<close>

text \<open>A total computation always delivers a value.\<close>

definition total :: "('s, 'a) comp \<Rightarrow> bool" where
  "total m \<longleftrightarrow> (\<forall>s. \<exists>a s'. m s = (Ok a, s'))"

named_theorems total_intros \<open>total computations\<close>

lemma total_cbind [total_intros]: "total m \<Longrightarrow> (\<And>a. total (f a)) \<Longrightarrow> total (cbind m f)"
  unfolding total_def
proof
  fix s assume m: "\<forall>s. \<exists>a s'. m s = (Ok a, s')" and f: "\<And>a. \<forall>s. \<exists>b s'. f a s = (Ok b, s')"
  obtain a s1 where "m s = (Ok a, s1)" using m by blast
  moreover obtain b s2 where "f a s1 = (Ok b, s2)" using f by blast
  ultimately show "\<exists>b s'. cbind m f s = (Ok b, s')" by (simp add: cbind_def)
qed

lemma total_basic [total_intros]: "total (cret a)" "total (cget g)" "total (cmodify h)"
  by (simp_all add: total_def cret_def cget_def cmodify_def)

lemma total_option [total_intros]:
  "total m \<Longrightarrow> (\<And>a. total (f a)) \<Longrightarrow> total (case x of None \<Rightarrow> m | Some a \<Rightarrow> f a)"
  by (cases x) simp_all

lemma total_state [total_intros]:
  "total (get_run r)" "total (mod_run r f)" "total (get_kb k)" "total (set_field a name v)"
  "total (new_object t flds meths ns)" "total (new_run rs)" "total (make_kb m)" "total new_interpreter"
  "total (push_finding r out)" "total (take_findings r)"
  unfolding get_run_def mod_run_def get_kb_def set_field_def new_interpreter_def push_finding_def take_findings_def
  by (intro total_intros | simp add: total_def new_object_def new_run_def make_kb_def)+

lemma total_stdlib [total_intros]: "total (register_stdlib r)"
  unfolding register_stdlib_def register_target_def def_global_def def_global_from_def
    make_plugin_obj_def make_kb_obj_def make_cve_obj_def make_target_obj_def target_from_kb_def Let_def
  by (intro total_intros)

lemma total_start_run [total_intros]: "total (start_run env rs)"
  unfolding start_run_def by (intro total_intros)

lemma total_report [total_intros]: "total (report_exception p r port e)"
  by (cases "(p, r, port, e)" rule: report_exception.cases) (simp_all add: total_intros)

text \<open>What a run can end with: a value, undefined behaviour of a native call, or a send that
  does not return; never an exception, never out of fuel.\<close>

definition contained :: "('s, 'a) comp \<Rightarrow> bool" where
  "contained m \<longleftrightarrow> (\<forall>s. fst (m s) \<in> {Undef, Hang} \<or> (\<exists>a. fst (m s) = Ok a))"

named_theorems contained_intros \<open>computations that contain their failures\<close>

lemma contained_total [contained_intros]: "total m \<Longrightarrow> contained m"
  by (auto simp: contained_def total_def) (metis fst_conv)

lemma contained_cbind [contained_intros]:
  "contained m \<Longrightarrow> (\<And>a. contained (f a)) \<Longrightarrow> contained (cbind m f)"
proof -
  assume m: "contained m" and f: "\<And>a. contained (f a)"
  have "fst (cbind m f s) \<in> {Undef, Hang} \<or> (\<exists>a. fst (cbind m f s) = Ok a)" for s
  proof -
    obtain r s1 where e: "m s = (r, s1)" by fastforce
    have r: "r \<in> {Undef, Hang} \<or> (\<exists>a. r = Ok a)" using m e by (metis contained_def fst_conv)
    show ?thesis
    proof (cases r)
      case (Ok a)
      then show ?thesis using f[of a] e by (simp add: cbind_def contained_def)
    qed (use r in \<open>simp_all add: cbind_def e\<close>)
  qed
  then show ?thesis by (simp add: contained_def)
qed

lemma contained_ctry [contained_intros]: "fuelled m \<Longrightarrow> contained (ctry m)"
proof -
  assume m: "fuelled m"
  have "fst (ctry m s) \<in> {Undef, Hang} \<or> (\<exists>a. fst (ctry m s) = Ok a)" for s
  proof -
    obtain r s1 where e: "m s = (r, s1)" by fastforce
    then have "r \<notin> {NoFuel, Terminate}" using m by (metis fuelled_def fst_conv)
    then show ?thesis by (cases r) (simp_all add: ctry_def e)
  qed
  then show ?thesis by (simp add: contained_def)
qed

lemma contained_if [contained_intros]: "contained m \<Longrightarrow> contained m' \<Longrightarrow> contained (if b then m else m')"
  by simp

lemma contained_option [contained_intros]:
  "contained m \<Longrightarrow> (\<And>a. contained (f a)) \<Longrightarrow> contained (case x of None \<Rightarrow> m | Some a \<Rightarrow> f a)"
  by (cases x) simp_all

lemma contained_run_plugin [contained_intros]: "contained (run_plugin env p host port svc kb)"
  unfolding run_plugin_def by (intro contained_intros total_intros lib.run_program_fuelled)

lemma contained_preload [contained_intros]: "contained (preload_meta env prog)"
  unfolding preload_meta_def by (intro contained_intros total_intros lib.run_program_fuelled)

lemma contained_port_pass [contained_intros]: "contained (port_pass env wants host port kb ps a)"
proof (induction ps arbitrary: a)
  case (Cons p ps)
  then show ?case by (simp del: if_not_P if_P) (intro conjI impI contained_intros Cons.IH)
qed (simp add: contained_intros total_intros)

lemma contained_run_for_port: "contained (run_for_port env plugins host port svc)"
  unfolding run_for_port_def by (intro contained_intros total_intros)

lemma contained_ports [contained_intros]: "contained (ports_loop env wants outc host kbs p ports a)"
proof (induction ports arbitrary: a)
  case (Cons port ports)
  show ?case unfolding ports_loop.simps Let_def by (intro contained_intros Cons.IH)
qed (simp add: contained_intros total_intros)

lemma contained_plugins [contained_intros]: "contained (plugins_loop env sel wants outc host kbs ports ps a)"
proof (induction ps arbitrary: a)
  case (Cons p ps)
  show ?case unfolding plugins_loop.simps by (intro contained_intros Cons.IH)
qed (simp add: contained_intros total_intros)

lemma total_make_kbs [total_intros]: "total (make_kbs ports kbs)"
  by (induction ports arbitrary: kbs) (simp_all add: total_intros)

lemma contained_run_all: "contained (run_all env plugins host ports)"
  unfolding run_all_def by (intro contained_intros total_intros)

subsection \<open>Runs keep the history\<close>

lemma history_new_run [history_intros]: "keeps_history (new_run rs)"
  by (simp add: preserves_def new_run_def scan_grows_def grows_at_refl grows_at_append)

lemma history_make_kb [history_intros]: "keeps_history (make_kb m)"
  by (simp add: preserves_def make_kb_def scan_grows_def grows_at_refl grows_at_append)

lemma history_envs [history_intros]: "keeps_history new_interpreter" "keeps_history (def_global name v)"
  by (auto simp: preserves_def new_interpreter_def def_global_def define_global_def cmodify_def
      intro: scan_grows_env)

lemma history_stdlib [history_intros]: "keeps_history (register_stdlib r)"
  unfolding register_stdlib_def register_target_def def_global_from_def make_plugin_obj_def
    make_kb_obj_def make_cve_obj_def make_target_obj_def target_from_kb_def Let_def
  by (intro history_intros) (simp add: findings_grow_def)

lemma history_start_run [history_intros]: "keeps_history (start_run env rs)"
  unfolding start_run_def by (intro history_intros)

lemma history_ctry [history_intros]: "keeps_history m \<Longrightarrow> keeps_history (ctry m)"
proof -
  assume m: "keeps_history m"
  have "snd (ctry m s) = snd (m s)" for s
    by (cases "m s"; cases "fst (m s)") (simp_all add: ctry_def)
  then show ?thesis using m by (simp add: preserves_def)
qed

lemma history_report:
  assumes "rs_target_port (run_of r s) = port"
  shows "scan_grows s (snd (report_exception p r port e s))"
proof -
  have "out_about (rs_target_host (run_of r s)) (rs_target_port (run_of r s)) (debug_finding p rs port msg)" for rs msg
    using assms by (simp add: out_about_def debug_finding_def finding_out_default_def)
  then have "scan_grows s (snd (push_finding r (debug_finding p rs port msg) s))" for rs msg by (rule history_push)
  then show ?thesis
    by (cases "(p, r, port, e)" rule: report_exception.cases) (simp_all add: cbind_def get_run_eval cret_def scan_grows_refl)
qed

text \<open>What happens in a run that is newer than a state leaves its history alone.\<close>

lemma history_newer_run:
  assumes "scan_grows s t" "length (sc_runs (it_ext s)) \<le> r"
  shows "scan_grows s (snd (mod_run r f t))"
  using assms by (auto simp: scan_grows_def mod_run_def cmodify_def grows_at_def)

lemma cbind_run: "m s = (Ok a, s') \<Longrightarrow> cbind m f s = f a s'"
  by (simp add: cbind_def)

lemma total_unit: "total m \<Longrightarrow> \<exists>s'. m s = (Ok (), s')"
  by (simp add: total_def)

lemma findings_grow_target:
  "findings_grow a b \<Longrightarrow> rs_target_host b = rs_target_host a \<and> rs_target_port b = rs_target_port a"
  by (simp add: findings_grow_def)

lemma start_run_state:
  obtains s1 where "start_run env rs s = (Ok (length (sc_runs (it_ext s))), s1)" "scan_grows s s1"
    "findings_grow rs (run_of (length (sc_runs (it_ext s))) s1)" "length (sc_runs (it_ext s)) < length (sc_runs (it_ext s1))"
proof -
  let ?n = "length (sc_runs (it_ext s))"
  let ?s0 = "s\<lparr>it_ext := (it_ext s)\<lparr>sc_runs := sc_runs (it_ext s) @ [rs]\<rparr>\<rparr>"
  have n: "new_run rs s = (Ok ?n, ?s0)" by (simp add: new_run_def)
  obtain t1 where t1: "new_interpreter ?s0 = (Ok (), t1)" using total_unit[OF total_state(8)] by blast
  obtain s1 where s1: "register_stdlib ?n t1 = (Ok (), s1)" using total_unit[OF total_stdlib] by blast
  have start: "start_run env rs s = (Ok ?n, s1)"
    unfolding start_run_def
    by (simp only: cbind_run[where m = "new_run rs", OF n] cbind_run[where m = new_interpreter, OF t1]
        cbind_run[where m = "register_stdlib ?n", OF s1] cret_def)
  have "scan_grows ?s0 t1" "scan_grows t1 s1"
    using history_envs(1) history_stdlib t1 s1 unfolding preserves_def by (metis snd_conv)+
  then have g: "scan_grows ?s0 s1" by (rule scan_grows_trans)
  have "scan_grows s ?s0" by (simp add: scan_grows_def grows_at_refl grows_at_append)
  then have old: "scan_grows s s1" using g by (rule scan_grows_trans)
  have r: "grows_at findings_grow (sc_runs (it_ext s) @ [rs]) (sc_runs (it_ext s1))" using g by (simp add: scan_grows_def)
  then have "findings_grow ((sc_runs (it_ext s) @ [rs]) ! ?n) (sc_runs (it_ext s1) ! ?n)"
    unfolding grows_at_def by (metis length_append_singleton lessI)
  then show thesis using that[OF start old] r by (simp add: grows_at_def run_of_def)
qed

lemma grows_run: "scan_grows s s' \<Longrightarrow> r < length (sc_runs (it_ext s)) \<Longrightarrow>
    findings_grow (run_of r s) (run_of r s') \<and> r < length (sc_runs (it_ext s'))"
  by (auto simp: scan_grows_def grows_at_def run_of_def)

lemma cbind_stops:
  "m s = (r, s') \<Longrightarrow> \<forall>a. r \<noteq> Ok a \<Longrightarrow> snd (cbind m f s) = s' \<and> fst (cbind m f s) \<noteq> Ok b"
  by (cases r) (simp_all add: cbind_def)

text \<open>A run on a port keeps the history, and what it returns is about the port.\<close>

lemma run_plugin_run:
  "scan_grows s (snd (run_plugin env p host port svc kb s)) \<and>
   (\<forall>out. fst (run_plugin env p host port svc kb s) = Ok out \<longrightarrow> list_all (out_about host port) (ro_findings out))"
proof -
  let ?n = "length (sc_runs (it_ext s))" and ?prog = "ctry (run_program (natives env) (lp_program p))"
  obtain s1 where s1: "start_run env (plugin_state host port svc kb) s = (Ok ?n, s1)" "scan_grows s s1"
    "findings_grow (plugin_state host port svc kb) (run_of ?n s1)" "?n < length (sc_runs (it_ext s1))"
    by (rule start_run_state)
  obtain e s2 where s2: "?prog s1 = (e, s2)" by fastforce
  have "keeps_history ?prog" by (intro history_intros history.run_program_R)
  then have g2: "scan_grows s1 s2" using s2 by (metis preserves_def snd_conv)
  show ?thesis
  proof (cases e)
    case (Ok x)
    note run2 = grows_run[OF g2 s1(4)]
    have "rs_target_port (run_of ?n s2) = port"
      using findings_grow_target[OF s1(3)] findings_grow_target[OF conjunct1[OF run2]] by (simp add: plugin_state_def)
    from history_report[OF this] have g3: "scan_grows s2 (snd (report_exception p ?n port x s2))" .
    obtain s3 where s3: "report_exception p ?n port x s2 = (Ok (), s3)"
      using total_unit[OF total_report] by blast
    have "findings_grow (plugin_state host port svc kb) (run_of ?n s3)"
      using findings_grow_trans[OF s1(3) findings_grow_trans[OF conjunct1[OF run2] conjunct1[OF grows_run[OF g3 conjunct2[OF run2]]]]]
      by (simp add: s3)
    then have about: "list_all (out_about host port) (rs_findings (run_of ?n s3))"
      by (auto simp: findings_grow_def plugin_state_def run_state_default_def)
    have taken: "take_findings ?n s3 = (Ok (), snd (take_findings ?n s3))" by (simp add: take_findings_def mod_run_def cmodify_def)
    have r: "run_plugin env p host port svc kb s =
        (Ok (run_outcome (run_of ?n s3) port), snd (take_findings ?n s3))"
      unfolding run_plugin_def run_of_def
      by (simp add: cbind_run[where m = "start_run env (plugin_state host port svc kb)", OF s1(1)] cbind_run[where m = ?prog, OF s2[unfolded Ok]]
          cbind_run[where m = "report_exception p ?n port x", OF s3] cbind_run[where m = "get_run ?n", OF get_run_eval]
          cbind_run[where m = "take_findings ?n", OF taken] cret_def)
    have "scan_grows s s3" using scan_grows_trans[OF s1(2) scan_grows_trans[OF g2 g3]] s3 by simp
    then have "scan_grows s (snd (take_findings ?n s3))"
      unfolding take_findings_def by (rule history_newer_run) simp
    then show ?thesis using about by (simp add: r run_outcome_def)
  qed (use scan_grows_trans[OF s1(2) g2] in
      \<open>simp_all add: cbind_stops[where m = ?prog, OF s2] run_plugin_def cbind_run[where m = "start_run env (plugin_state host port svc kb)", OF s1(1)]\<close>)
qed

lemma history_run_plugin [history_intros]: "keeps_history (run_plugin env p host port svc kb)"
  by (simp add: preserves_def run_plugin_run)

lemma history_port_pass [history_intros]: "keeps_history (port_pass env wants host port kb ps a)"
proof (induction ps arbitrary: a)
  case (Cons p ps)
  show ?case unfolding port_pass.simps by (intro history_intros Cons.IH)
qed (simp add: history_intros)

lemma history_run_for_port: "keeps_history (run_for_port env plugins host port svc)"
  unfolding run_for_port_def by (intro history_intros)

lemma port_pass_about:
  "port_pass env wants host port kb ps a s = (Ok b, s') \<Longrightarrow> list_all (out_about host port) (pp_out a) \<Longrightarrow>
     list_all (out_about host port) (pp_out b)"
proof (induction ps arbitrary: a s)
  case (Cons p ps)
  show ?case
  proof (cases "wants p (pp_svc a)")
    case True
    obtain r s1 where r: "run_plugin env p host port (pp_svc a) kb s = (Ok r, s1)"
      "port_pass env wants host port kb ps (absorb a r) s1 = (Ok b, s')"
      using Cons.prems(1) True by (auto simp: cbind_def split: prod.splits outcome.splits)
    then have "list_all (out_about host port) (ro_findings r)"
      using run_plugin_run[of s env p host port "pp_svc a" kb] by simp
    then show ?thesis using Cons.IH[OF r(2)] Cons.prems(2) by (simp add: absorb_def)
  qed (use Cons in auto)
qed (simp add: cret_def)

text \<open>Every finding of the plugins is about the port they ran on.\<close>

lemma run_for_port_about:
  assumes "run_for_port env plugins host port svc s = (Ok (fs, d), s')"
  shows "list_all (out_about host port) fs"
proof -
  obtain kb s1 a s2 b s3 where
    p: "port_pass env wants_any host port (Some kb) plugins \<lparr>pp_svc = svc, pp_product = [], pp_version = [], pp_out = []\<rparr> s1 = (Ok a, s2)"
      "port_pass env wants_service host port (Some kb) plugins a s2 = (Ok b, s3)" "fs = pp_out b"
    using assms unfolding run_for_port_def by (auto simp: cbind_def cret_def split: prod.splits outcome.splits)
  from port_pass_about[OF p(1)] have "list_all (out_about host port) (pp_out a)" by simp
  from port_pass_about[OF p(2) this] show ?thesis by (simp add: p(3))
qed

lemma history_ports [history_intros]: "keeps_history (ports_loop env wants outc host kbs p ports a)"
proof (induction ports arbitrary: a)
  case (Cons port ports)
  show ?case unfolding ports_loop.simps Let_def by (intro history_intros Cons.IH)
qed (simp add: history_intros)

lemma history_plugins [history_intros]: "keeps_history (plugins_loop env sel wants outc host kbs ports ps a)"
proof (induction ps arbitrary: a)
  case (Cons p ps)
  show ?case unfolding plugins_loop.simps by (intro history_intros Cons.IH)
qed (simp add: history_intros)

lemma history_make_kbs [history_intros]: "keeps_history (make_kbs ports kbs)"
  by (induction ports arbitrary: kbs) (simp_all add: history_intros)

lemma history_run_all: "keeps_history (run_all env plugins host ports)"
  unfolding run_all_def by (intro history_intros)

end
