(* ===== verification/ZtlSafety.thy ===== *)
theory ZtlSafety
  imports ZtlRunner KnowledgeBase
begin

text \<open>
  What the plugin system guarantees to a scan, over \<open>ztl/interpreter.cpp\<close> and
  \<open>ztl/runner.cpp\<close>: failures stay inside a plugin run, history is kept, blocks do not leak names,
  filters decide what runs, findings carry the run's target, and the knowledge base keeps its
  scopes apart.
\<close>

text \<open>A world without a network, for concrete runs.\<close>

definition offline_os :: "unit os" where
  "offline_os =
     \<lparr>os_socket = \<lambda>t w. (-1, w), os_close = \<lambda>fd w. w, os_getfl = \<lambda>fd w. (-1, w),
      os_setfl = \<lambda>fd fl w. (-1, w), os_connect = \<lambda>fd a p w. ((-1, ECONNREFUSED), w),
      os_poll = \<lambda>fd e t w. (0, w), os_so_error = \<lambda>fd w. (ECONNREFUSED, w),
      os_send = \<lambda>fd d w. ((-1, ECONNREFUSED), w), os_recv = \<lambda>fd n w. ((-1, []), w),
      os_timeouts = \<lambda>fd a b w. w, os_bind = \<lambda>fd p w. (-1, w), os_sendto = \<lambda>fd d a p w. (-1, w),
      os_recvfrom = \<lambda>fd n w. ((-1, []), w), os_getpid = \<lambda>w. (1, w)\<rparr>"

definition offline_ssl :: "unit ssl" where
  "offline_ssl =
     \<lparr>ssl_ctx = False, ssl_new = \<lambda>w. (False, w), ssl_connect = \<lambda>fd ip cs w. ((-1, SSL_ERROR_OTHER), w),
      ssl_version = \<lambda>w. [], ssl_cipher = \<lambda>w. None, ssl_peer = \<lambda>w. None, ssl_shutdown = \<lambda>w. w\<rparr>"

definition offline_env :: "unit Env" where
  "offline_env = \<lparr>env_os = offline_os, env_ssl = offline_ssl, env_now = \<lambda>w. (0, w)\<rparr>"

definition empty_scan :: "unit rt" where
  "empty_scan = \<lparr>it_locals = [], it_globals = Map.empty, it_heap = [],
     it_ext = \<lparr>sc_runs = [], sc_kbs = [], sc_cve = cve_init, sc_world = ()\<rparr>\<rparr>"

subsection \<open>Failures and history\<close>

text \<open>C1: Whatever a plugin's program is, running it on a port ends with an outcome, in undefined
  behaviour of a native call, or in a send that does not return: no exception of the script
  reaches the scan, and every script terminates.\<close>

theorem run_plugin_contains_failures:
  "fst (run_plugin env p host port svc kb s) \<in> {Undef, Hang} \<or>
   (\<exists>out. fst (run_plugin env p host port svc kb s) = Ok out)"
  using contained_run_plugin[of env p host port svc kb, unfolded contained_def] by blast


subsection \<open>Scopes\<close>

text \<open>C37: The names a block of a script defines are gone when it ends, on every way out: after
  the block each scope has exactly the names it had before.\<close>

theorem block_leaves_scopes:
  "same_scopes s (snd (exec_block (evals (natives env) n) body s))"
  by (rule lib.block_same[OF lib.evals_good, unfolded preserves_def, rule_format])

text \<open>A whole program, whatever it calls, ends with no local scope open and with every global
  name it started with, when it started without local scopes.\<close>

theorem program_keeps_globals:
  assumes "it_locals s = []"
  shows "it_locals (snd (run_program (natives env) prog s)) = [] \<and>
    dom (it_globals s) \<subseteq> dom (it_globals (snd (run_program (natives env) prog s)))"
proof -
  have "inner_grows s (snd (run_program (natives env) prog s))"
    by (rule lib.run_program_grows[unfolded preserves_def, rule_format])
  with assms show ?thesis by (cases "it_locals (snd (run_program (natives env) prog s))")
    (simp_all add: inner_grows_def)
qed

theorem program_keeps_globals_witness:
  "it_locals (snd (run_program (natives offline_env)
     [Stmt (AssignStmt ''b'' (Expr LiteralNull 1 1)) 1 1] empty_scan)) = []"
  using program_keeps_globals[of empty_scan offline_env "[Stmt (AssignStmt ''b'' (Expr LiteralNull 1 1)) 1 1]"]
  by (simp add: empty_scan_def)

subsection \<open>Findings\<close>

lemma in_world_runs:
  "in_world f s = (Ok a, s') \<Longrightarrow>
     sc_runs (it_ext s') = sc_runs (it_ext s) \<and> it_heap s' = it_heap s \<and> sc_kbs (it_ext s') = sc_kbs (it_ext s)"
  by (auto simp: in_world_def split: option.splits)

lemma verification_arg_names:
  "verification_arg cx s = (Ok v, s') \<Longrightarrow>
     v \<in> {''UNKNOWN'', ''VERSION_MATCH'', ''CONFIG_MATCH'', ''ACTIVE_CHECK'', ''NOT_VULNERABLE''}"
proof -
  have n: "verification_to_string x \<in>
      {''UNKNOWN'', ''VERSION_MATCH'', ''CONFIG_MATCH'', ''ACTIVE_CHECK'', ''NOT_VULNERABLE''}" for x
    by (cases x) simp_all
  assume "verification_arg cx s = (Ok v, s')"
  then consider "v = ''UNKNOWN''" | st where "v = verification_to_string (verification_status_from_string st)"
    unfolding verification_arg_def
    by (cases "cx_named cx ''verification''"; cases "the (cx_named cx ''verification'')")
      (auto simp: cret_def cbind_def need_string_def runtime_error_def cthrow_def)
  then show ?thesis using n by cases auto
qed

text \<open>What the run's state alone decides about a finding.\<close>

definition attributed :: "RunState \<Rightarrow> FindingOut \<Rightarrow> bool" where
  "attributed rs f \<longleftrightarrow>
     fo_host f = rs_target_host rs \<and> fo_port_number f = port16 (rs_target_port rs) \<and>
     fo_protocol f = P_TCP \<and> fo_plugin_name f = pm_name (rs_meta rs) \<and>
     fo_service f = finding_service rs \<and> fo_severity f \<noteq> [] \<and>
     fo_confidence_score f = fo_confidence f \<and>
     e_source (fo_evidence_data f) = fo_plugin_name f \<and> e_value (fo_evidence_data f) = fo_evidence f \<and>
     fo_verification f \<in>
       {''UNKNOWN'', ''VERSION_MATCH'', ''CONFIG_MATCH'', ''ACTIVE_CHECK'', ''NOT_VULNERABLE''}"

text \<open>A call of \<open>finding\<close> that returns has added exactly one finding, at the end of its run's
  list and attributed to the run's host, port, plugin and service, with a severity and one of the
  five verification names; all other runs are as they were.\<close>

theorem finding_reports_once:
  assumes "call_finding env r cx s = (Ok v, s')"
  shows "\<exists>f. attributed (sc_runs (it_ext s) ! r) f \<and> v = VNull \<and>
    sc_runs (it_ext s') = (sc_runs (it_ext s))
      [r := (sc_runs (it_ext s) ! r)\<lparr>rs_findings := rs_findings (sc_runs (it_ext s) ! r) @ [f]\<rparr>]"
proof -
  let ?rs = "sc_runs (it_ext s) ! r"
  obtain severity title description cve ver evi rem vec where
    ver: "verification_arg cx s = (Ok ver, s)" and
    rest: "cbind (in_world (\<lambda>w. Some (env_now env w))) (\<lambda>now.
      cbind (push_finding r (make_finding ?rs cx severity title description cve ver evi rem vec now))
        (\<lambda>_. cret VNull)) s = (Ok v, s')"
    using assms unfolding call_finding_def
    by (elim bind_reads_Ok[OF reads_args(1)] bind_reads_Ok[OF reads_args(2)]
        bind_reads_Ok[OF reads_args(3)] bind_reads_Ok[OF reads_args(4)])
      (auto simp: get_run_eval)
  obtain now w where w: "env_now env (sc_world (it_ext s)) = (now, w)" by fastforce
  let ?f = "make_finding ?rs cx severity title description cve ver evi rem vec now"
  have "v = VNull" "sc_runs (it_ext s') = (sc_runs (it_ext s))[r := ?rs\<lparr>rs_findings := rs_findings ?rs @ [?f]\<rparr>]"
    using rest by (auto simp: cbind_def in_world_def w push_finding_def mod_run_def cmodify_def cret_def)
  moreover have "attributed ?rs ?f"
    using verification_arg_names[OF ver] by (simp add: attributed_def make_finding_def Let_def)
  ultimately show ?thesis by blast
qed

text \<open>One run on a port, with a knowledge base of its own.\<close>

definition one_run_scan :: "unit rt" where
  "one_run_scan = empty_scan\<lparr>it_ext := (it_ext empty_scan)
     \<lparr>sc_runs := [plugin_state ''10.0.0.1'' 22 ''ssh'' (Some 0)], sc_kbs := [Map.empty]\<rparr>\<rparr>"

theorem finding_reports_once_witness:
  "\<exists>s' f. call_finding offline_env 0 (make_context VNull [] [''title'' \<mapsto> VStr ''t''] None 1 1) one_run_scan
      = (Ok VNull, s') \<and> fo_host f = ''10.0.0.1'' \<and> fo_service f = ''ssh'' \<and> fo_severity f \<noteq> [] \<and>
    rs_findings (sc_runs (it_ext s') ! 0) = [f]"
proof -
  let ?cx = "make_context VNull [] [''title'' \<mapsto> VStr ''t''] None 1 1"
  obtain s' where s': "call_finding offline_env 0 ?cx one_run_scan = (Ok VNull, s')"
    by (simp add: call_finding_def cbind_def get_run_def cget_def named_string_def need_string_def cret_def
        verification_arg_def evidence_arg_def make_context_def in_world_def offline_env_def push_finding_def
        mod_run_def cmodify_def)
  show ?thesis
    using s' finding_reports_once[OF s']
    by (auto simp: one_run_scan_def empty_scan_def plugin_state_def run_state_default_def attributed_def
        finding_service_def)
qed

subsection \<open>Knowledge bases\<close>

fun scope_name :: "KnowledgeScope \<Rightarrow> string" where
  "scope_name HOST_SCOPE = ''host''"
| "scope_name PORT_SCOPE = ''port''"

interpretation script_kb: scoped_store "\<lambda>m k. m k" "\<lambda>k v m. m(k \<mapsto> v)" "\<lambda>c. script_scoped_key (scope_name c)"
proof
  fix c d n m assume "script_scoped_key (scope_name c) n = script_scoped_key (scope_name d) m"
  then show "c = d \<and> n = m" by (cases c; cases d) (simp_all add: script_scoped_key_def)
qed simp_all

lemma need_string_VStr: "need_string (VStr t) what cx = cret t"
  by (simp add: need_string_def)

lemma scoped_key_eval:
  "cx_positional cx = VStr (scope_name c) # VStr k # vs \<Longrightarrow> n \<le> length vs + 2 \<Longrightarrow>
     kb_scoped_key what cx n s = (Ok (script_scoped_key (scope_name c) k), s)"
  by (cases c) (simp_all add: kb_scoped_key_def need_string_VStr cbind_def cret_def)

text \<open>The knowledge base keeps its scopes apart: after \<open>kb.set_scoped(c, k, v)\<close> a
  \<open>kb.get_scoped(d, l)\<close> of any plugin on the port returns \<open>v\<close> when scope and key are the same and
  otherwise exactly what it would have returned before.\<close>

theorem set_scoped_get_scoped:
  assumes "cx_positional cx = [VStr (scope_name c), VStr k, v]"
    and "cx_positional cx' = [VStr (scope_name d), VStr l]"
    and "rs_kb (sc_runs (it_ext s) ! r) = Some j" "rs_kb (sc_runs (it_ext s) ! r') = Some j"
    and "j < length (sc_kbs (it_ext s))"
  shows "fst (call_kb r' ''get_scoped'' cx' (snd (call_kb r ''set_scoped'' cx s))) =
    (if c = d \<and> k = l then Ok v else fst (call_kb r' ''get_scoped'' cx' s))"
proof -
  let ?key = "script_scoped_key (scope_name c) k" and ?key' = "script_scoped_key (scope_name d) l"
  let ?m = "sc_kbs (it_ext s) ! j"
  let ?s1 = "s\<lparr>it_ext := (it_ext s)\<lparr>sc_kbs := (sc_kbs (it_ext s))[j := ?m(?key \<mapsto> v)]\<rparr>\<rparr>"
  have set: "snd (call_kb r ''set_scoped'' cx s) = ?s1"
    using assms(1,3)
    by (simp add: call_kb_def scoped_key_eval[OF assms(1)] cbind_def kb_write_def get_run_eval mod_kb_def cmodify_def cret_def)
  have get: "fst (call_kb r' ''get_scoped'' cx' t) = Ok (value_or_null ((sc_kbs (it_ext t) ! j) ?key'))"
    if "rs_kb (sc_runs (it_ext t) ! r') = Some j" for t :: "'a rt"
    using that
    by (simp add: call_kb_def scoped_key_eval[OF assms(2)] cbind_def kb_read_def get_run_eval get_kb_def cget_def cret_def)
  have "(?m(?key \<mapsto> v)) ?key' = (if c = d \<and> k = l then Some v else ?m ?key')"
    by (rule script_kb.scoped_get_put)
  then show ?thesis
    using assms(4,5) get[of s] get[of ?s1] by (simp add: set value_or_null_def)
qed

theorem set_scoped_get_scoped_witness:
  "fst (call_kb 0 ''get_scoped'' (make_context VNull [VStr ''port'', VStr ''k''] Map.empty None 1 1)
     (snd (call_kb 0 ''set_scoped'' (make_context VNull [VStr ''host'', VStr ''k'', VNull] Map.empty None 1 1)
        one_run_scan))) =
   fst (call_kb 0 ''get_scoped'' (make_context VNull [VStr ''port'', VStr ''k''] Map.empty None 1 1) one_run_scan)"
  using set_scoped_get_scoped[of "make_context VNull [VStr ''host'', VStr ''k'', VNull] Map.empty None 1 1"
      HOST_SCOPE "''k''" VNull "make_context VNull [VStr ''port'', VStr ''k''] Map.empty None 1 1" PORT_SCOPE
      "''k''" one_run_scan 0 0 0]
  by (simp add: make_context_def one_run_scan_def empty_scan_def plugin_state_def)

text \<open>The host's knowledge base of \<open>core/knowledge_base.cpp\<close>: whatever is written in one scope,
  every fact of the other scope reads as before, and the snapshot that is exported lists each
  key once, in order, with exactly the value that a read returns.\<close>

theorem kb_scopes_and_snapshot:
  assumes "c \<noteq> d" and "kb_ok kb" and kb'_def: "kb' = foldl (\<lambda>b (m, v). kb_set_scoped d m v b) kb ws"
  shows "kb_get_scoped c k kb' = kb_get_scoped c k kb \<and>
    sorted_wrt (<) (map fst (kb_snapshot kb')) \<and>
    ((key, v) \<in> set (kb_snapshot kb') \<longleftrightarrow> kb_get kb' key = Some v)"
proof -
  have "kb_get_scoped c k kb' = kb_get_scoped c k kb"
    using kb.scope_noninterference[OF assms(1), of kb ws k]
    by (simp add: kb'_def kb_get_scoped_def kb_set_scoped_def)
  moreover have ok: "kb_ok kb'"
    using assms(2) unfolding kb'_def by (induction ws arbitrary: kb) auto
  ultimately show ?thesis
    using snapshot_mem[OF ok] by (simp add: kb_ok_def omap_ok_def kb_snapshot_def)
qed

theorem kb_scopes_and_snapshot_witness:
  "kb_get_scoped HOST_SCOPE ''k'' (kb_set_scoped PORT_SCOPE ''k'' ''2'' (kb_set_scoped HOST_SCOPE ''k'' ''1'' kb_new))
     = Some ''1''"
proof -
  have "kb_get_scoped HOST_SCOPE ''k'' (kb_set_scoped HOST_SCOPE ''k'' ''1'' kb_new) = Some ''1''"
    by (simp add: kb_get_scoped_def kb_set_scoped_def)
  then show ?thesis
    using kb_scopes_and_snapshot[of HOST_SCOPE PORT_SCOPE "kb_set_scoped HOST_SCOPE ''k'' ''1'' kb_new" _
        "[(''k'', ''2'')]" "''k''"] by simp
qed


end
