(* ===== verification/ZtlFilter.thy ===== *)
theory ZtlFilter
  imports ZtlSafety
begin

text \<open>
  Two plugin scripts run symbolically through the interpreter: one that filters on a service,
  and one that returns at top level.  Both are statements about the whole path of
  \<open>ztl/runner.cpp\<close> from \<open>register_stdlib\<close> to \<open>run_plugin\<close> and \<open>load_plugin\<close>.
\<close>

subsection \<open>Filters\<close>

text \<open>\<open>plugin.meth(arguments) { block }\<close> as a statement.\<close>

definition plugin_stmt :: "string \<Rightarrow> call_arg list \<Rightarrow> stmt list \<Rightarrow> bool \<Rightarrow> stmt" where
  "plugin_stmt meth args blk hb =
     Stmt (ExprStmt (Expr (Call (Expr (MemberAccess (Expr (Identifier ''plugin'') 1 1) meth) 1 1) args blk hb) 1 1)) 1 1"

text \<open>\<open>plugin.filter(service: "...")\<close> and \<open>plugin.run { ... }\<close>.\<close>

definition filtered_script :: "string \<Rightarrow> stmt list \<Rightarrow> stmt list" where
  "filtered_script svc body =
     [plugin_stmt ''filter'' [CallArg ''service'' (Expr (LiteralString svc) 1 1)] [] False,
      plugin_stmt ''run'' [] body True]"

lemma mod_run_eval:
  "mod_run r f s = (Ok (), s\<lparr>it_ext := (it_ext s)
     \<lparr>sc_runs := (sc_runs (it_ext s))[r := f (sc_runs (it_ext s) ! r)]\<rparr>\<rparr>)"
  by (simp add: mod_run_def cmodify_def)

lemma cbind_Ok: "m s = (Ok a, s') \<Longrightarrow> cbind m f s = f a s'"
  by (simp add: cbind_def)

text \<open>A state in which \<open>plugin\<close> is the plugin object of run \<open>r\<close>.\<close>

definition plugin_ready :: "nat \<Rightarrow> nat \<Rightarrow> 'w rt \<Rightarrow> bool" where
  "plugin_ready r a s \<longleftrightarrow>
     it_locals s = [] \<and> it_globals s ''plugin'' = Some (VObj a) \<and>
     o_native_state (it_heap s ! a) = PluginState r \<and>
     o_methods (it_heap s ! a) = [''name'', ''description'', ''category'', ''filter'', ''set_service'', ''run'']"

lemma invoke_plugin:
  assumes "plugin_ready r a s" "meth \<in> {''filter'', ''run''}"
  shows "invoke_method (natives env) p (VObj a) meth pos named b 1 1 s =
    call_plugin r meth (make_context (VObj a) pos named b 1 1) (exec_stmts p) s"
proof -
  have "meth \<in> set (o_methods (it_heap s ! a))" using assms by (auto simp: plugin_ready_def)
  then show ?thesis
    using assms(1) by (simp add: invoke_method_def natives_def call_method_def cbind_def cget_def plugin_ready_def)
qed

lemma plugin_stmt_eval:
  assumes "plugin_ready r a s" "meth \<in> {''filter'', ''run''}"
    and args: "eval_args (evals (natives env) (Suc n)) args [] Map.empty s = (Ok (pos, named), s)"
  shows "ev_stmt (evals (natives env) (Suc (Suc (Suc n)))) (plugin_stmt meth args blk hb) s =
    cbind (call_plugin r meth (make_context (VObj a) pos named (if hb then Some blk else None) 1 1)
      (exec_stmts (evals (natives env) (Suc n)))) (\<lambda>_. cret ()) s"
proof -
  let ?p = "evals (natives env) (Suc n)" and ?b = "if hb then Some blk else None"
  have id: "ev_expr ?p (Expr (Identifier ''plugin'') 1 1) s = (Ok (VObj a), s)"
    using assms(1) by (simp add: eval_expr_def lookup_name_def cbind_def cget_def cret_def plugin_ready_def all_scopes_def)
  have "eval_call (natives env) ?p (Expr (MemberAccess (Expr (Identifier ''plugin'') 1 1) meth) 1 1) args blk hb 1 1 s =
      invoke_method (natives env) ?p (VObj a) meth pos named ?b 1 1 s"
    unfolding eval_call_def using args id by (simp add: cbind_Ok Let_def del: evals.simps)
  also have "\<dots> = call_plugin r meth (make_context (VObj a) pos named ?b 1 1) (exec_stmts ?p) s"
    by (rule invoke_plugin[OF assms(1,2)])
  finally have "eval_call (natives env) ?p (Expr (MemberAccess (Expr (Identifier ''plugin'') 1 1) meth) 1 1) args blk hb 1 1 s =
    call_plugin r meth (make_context (VObj a) pos named ?b 1 1) (exec_stmts ?p) s" .
  then show ?thesis
    unfolding plugin_stmt_def evals.simps(2)[of _ "Suc (Suc n)"] evals.simps(2)[of _ "Suc n"]
    by (simp add: exec_stmt_def eval_expr_def cbind_def del: evals.simps)
qed

text \<open>The run state after \<open>plugin.filter(service: svc)\<close>.\<close>

definition with_filter :: "string \<Rightarrow> RunState \<Rightarrow> RunState" where
  "with_filter svc rs = rs\<lparr>rs_meta := (rs_meta rs)\<lparr>pm_filter_service := svc\<rparr>\<rparr>"

lemma filter_stmt_eval:
  assumes "plugin_ready r a s"
  shows "ev_stmt (evals (natives env) (Suc (Suc (Suc n))))
      (plugin_stmt ''filter'' [CallArg ''service'' (Expr (LiteralString svc) 1 1)] [] False) s =
    (Ok (), s\<lparr>it_ext := (it_ext s)\<lparr>sc_runs := (sc_runs (it_ext s))[r := with_filter svc (sc_runs (it_ext s) ! r)]\<rparr>\<rparr>)"
proof -
  have "eval_args (evals (natives env) (Suc n)) [CallArg ''service'' (Expr (LiteralString svc) 1 1)] [] Map.empty s
      = (Ok ([], [''service'' \<mapsto> VStr svc]), s)"
    by (simp add: eval_expr_def cbind_def cret_def)
  from plugin_stmt_eval[OF assms _ this, of "''filter''" "[]" False] show ?thesis
    by (simp add: call_plugin_def plugin_filter_def make_context_def cwhen_def cbind_def cret_def
        need_string_VStr mod_meta_def mod_run_eval with_filter_def)
qed

lemma run_stmt_eval:
  assumes "plugin_ready r a s" "\<not> filter_passes (sc_runs (it_ext s) ! r)"
  shows "ev_stmt (evals (natives env) (Suc (Suc (Suc n)))) (plugin_stmt ''run'' [] body True) s = (Ok (), s)"
proof -
  have "eval_args (evals (natives env) (Suc n)) [] [] Map.empty s = (Ok ([], Map.empty), s)"
    by (simp add: cret_def)
  from plugin_stmt_eval[OF assms(1) _ this, of "''run''" body True] show ?thesis
    using assms(2)
    by (simp add: call_plugin_def plugin_run_def make_context_def cbind_def cret_def get_run_eval)
qed

lemma run_stmt_eval_pass:
  assumes "plugin_ready r a s" "filter_passes (sc_runs (it_ext s) ! r)" "\<not> rs_meta_only (sc_runs (it_ext s) ! r)"
  shows "ev_stmt (evals (natives env) (Suc (Suc (Suc n)))) (plugin_stmt ''run'' [] body True) s =
    cbind (in_global_scope (exec_stmts (evals (natives env) (Suc n)) body)) (\<lambda>_. cret ()) s"
proof -
  have "eval_args (evals (natives env) (Suc n)) [] [] Map.empty s = (Ok ([], Map.empty), s)"
    by (simp add: cret_def)
  from plugin_stmt_eval[OF assms(1) _ this, of "''run''" body True] show ?thesis
    using assms(2,3)
    by (simp add: call_plugin_def plugin_run_def make_context_def cbind_def get_run_eval)
qed

text \<open>The state a program starts in.\<close>

lemma start_run_ready:
  obtains s1 where "start_run env rs s = (Ok (length (sc_runs (it_ext s))), s1)"
    and "plugin_ready (length (sc_runs (it_ext s))) (length (it_heap s)) s1"
    and "sc_runs (it_ext s1) = sc_runs (it_ext s) @ [rs\<lparr>rs_target := Some (Suc (length (it_heap s)))\<rparr>]"
    and "sc_kbs (it_ext s1) = sc_kbs (it_ext s)" "sc_world (it_ext s1) = sc_world (it_ext s)"
proof (cases "rs_kb rs")
  case None
  then show ?thesis
    by (intro that[of "snd (start_run env rs s)"])
      (simp_all add: start_run_def new_run_def new_interpreter_def register_stdlib_def register_target_def
        def_global_def def_global_from_def define_global_def make_plugin_obj_def make_kb_obj_def
        make_cve_obj_def make_target_obj_def new_object_def cbind_def cret_def get_run_eval mod_run_eval
        set_field_def cmodify_def value_addr_def Let_def plugin_ready_def nth_append)
next
  case (Some k)
  then show ?thesis
    by (intro that[of "snd (start_run env rs s)"];
      cases "(sc_kbs (it_ext s) ! k) ''product''"; cases "(sc_kbs (it_ext s) ! k) ''version''")
      (simp_all add: start_run_def new_run_def new_interpreter_def register_stdlib_def register_target_def
        def_global_def def_global_from_def define_global_def make_plugin_obj_def make_kb_obj_def
        make_cve_obj_def make_target_obj_def new_object_def cbind_def cret_def get_run_eval mod_run_eval
        set_field_def cmodify_def value_addr_def Let_def plugin_ready_def nth_append target_from_kb_def
        get_kb_def cget_def)
qed

lemma size_stmt_ge: "4 \<le> size (plugin_stmt meth args blk hb)"
  by (simp add: plugin_stmt_def)

lemma filtered_script_fuel:
  "\<exists>n. size_list size (filtered_script svc body) = Suc (Suc (Suc n))"
proof -
  have "3 \<le> size_list size (filtered_script svc body)"
    using size_stmt_ge[of "''run''" "[]" body True] by (simp add: filtered_script_def)
  then show ?thesis by (intro exI[of _ "size_list size (filtered_script svc body) - 3"]) simp
qed

lemma filtered_program_eval:
  assumes "plugin_ready r a s" "\<not> filter_passes (with_filter svc (sc_runs (it_ext s) ! r))"
    "r < length (sc_runs (it_ext s))"
  shows "run_program (natives env) (filtered_script svc body) s =
    (Ok (), s\<lparr>it_ext := (it_ext s)\<lparr>sc_runs := (sc_runs (it_ext s))[r := with_filter svc (sc_runs (it_ext s) ! r)]\<rparr>\<rparr>)"
proof -
  let ?s = "s\<lparr>it_ext := (it_ext s)\<lparr>sc_runs := (sc_runs (it_ext s))[r := with_filter svc (sc_runs (it_ext s) ! r)]\<rparr>\<rparr>"
  have ready: "plugin_ready r a ?s" using assms(1) by (simp add: plugin_ready_def)
  have np: "\<not> filter_passes (sc_runs (it_ext ?s) ! r)" using assms(2,3) by simp
  obtain n where n: "size_list size (filtered_script svc body) = Suc (Suc (Suc n))"
    using filtered_script_fuel by blast
  show ?thesis
    unfolding run_program_def n
    by (simp add: filtered_script_def cbind_def filter_stmt_eval[OF assms(1)] run_stmt_eval[OF ready np]
        cret_def del: evals.simps)
qed

text \<open>A plugin with a service filter does nothing on another service: for every block, target
  and knowledge base, running \<open>plugin.filter(service: S); plugin.run { block }\<close> on a port whose known
  service is not \<open>S\<close> returns, reports and detects nothing, leaves the knowledge bases and the world
  untouched, and keeps the filter in the plugin's metadata.\<close>

theorem filter_skips_other_service:
  assumes "svc \<noteq> known" "svc \<noteq> []" "lp_program p = filtered_script svc body"
  shows "\<exists>out s'. run_plugin env p host port known kb s = (Ok out, s') \<and>
    ro_findings out = [] \<and> ro_service out = [] \<and> pm_filter_service (ro_meta out) = svc \<and>
    sc_kbs (it_ext s') = sc_kbs (it_ext s) \<and> sc_world (it_ext s') = sc_world (it_ext s)"
proof -
  let ?r = "length (sc_runs (it_ext s))" and ?rs = "plugin_state host port known kb"
  obtain s1 where s1: "start_run env ?rs s = (Ok ?r, s1)" "plugin_ready ?r (length (it_heap s)) s1"
    "sc_runs (it_ext s1) = sc_runs (it_ext s) @ [?rs\<lparr>rs_target := Some (Suc (length (it_heap s)))\<rparr>]"
    "sc_kbs (it_ext s1) = sc_kbs (it_ext s)" "sc_world (it_ext s1) = sc_world (it_ext s)"
    by (rule start_run_ready)
  have "\<not> filter_passes (with_filter svc (sc_runs (it_ext s1) ! ?r))"
    using assms(1,2)
    by (simp add: s1(3) filter_passes_def with_filter_def plugin_state_def run_state_default_def plugin_meta_default_def)
  from filtered_program_eval[OF s1(2) this]
  have "run_plugin env p host port known kb s =
      (Ok (run_outcome (with_filter svc (sc_runs (it_ext s1) ! ?r)) port),
       s1\<lparr>it_ext := (it_ext s1)\<lparr>sc_runs := (sc_runs (it_ext s1))[?r := (with_filter svc (sc_runs (it_ext s1) ! ?r))\<lparr>rs_findings := []\<rparr>]\<rparr>\<rparr>)"
    by (simp add: run_plugin_def s1(1) s1(3) ctry_def assms(3) cbind_def cret_def get_run_eval take_findings_def mod_run_def cmodify_def)
  then show ?thesis
    using s1(3-5) by (simp add: run_outcome_def with_filter_def plugin_state_def run_state_default_def)
qed

theorem filter_skips_other_service_witness:
  "\<exists>out s'. run_plugin offline_env \<lparr>lp_program = filtered_script ''ssh'' [], lp_source_path = ''a.ztl'',
      lp_preview_meta = plugin_meta_default\<rparr> ''10.0.0.1'' 80 ''http'' (Some 0) one_run_scan = (Ok out, s') \<and>
    ro_findings out = []"
  using filter_skips_other_service[of "''ssh''" "''http''" "\<lparr>lp_program = filtered_script ''ssh'' [],
      lp_source_path = ''a.ztl'', lp_preview_meta = plugin_meta_default\<rparr>" "[]" offline_env "''10.0.0.1''" 80
      "Some 0" one_run_scan]
  by auto

subsection \<open>Loading\<close>

text \<open>\<open>plugin.filter(service: "...")\<close>, then \<open>return\<close> at top level.\<close>

definition returning_script :: "string \<Rightarrow> stmt list" where
  "returning_script svc =
     [plugin_stmt ''filter'' [CallArg ''service'' (Expr (LiteralString svc) 1 1)] [] False,
      Stmt (ReturnStmt None) 2 1]"

lemma return_stmt_eval:
  "ev_stmt (evals native (Suc n)) (Stmt (ReturnStmt None) l c) s = (Throw (ReturnException VNull), s)"
  by (simp add: exec_stmt_def cthrow_def)

lemma returning_program_eval:
  assumes "plugin_ready r a s"
  shows "run_program (natives env) (returning_script svc) s =
    (Throw (ReturnException VNull),
     s\<lparr>it_ext := (it_ext s)\<lparr>sc_runs := (sc_runs (it_ext s))[r := with_filter svc (sc_runs (it_ext s) ! r)]\<rparr>\<rparr>)"
proof -
  have "3 \<le> size_list size (returning_script svc)"
    using size_stmt_ge[of "''filter''" "[CallArg ''service'' (Expr (LiteralString svc) 1 1)]" "[]" False]
    by (simp add: returning_script_def)
  then have "size_list size (returning_script svc) = Suc (Suc (Suc (size_list size (returning_script svc) - 3)))"
    by simp
  then obtain n where n: "size_list size (returning_script svc) = Suc (Suc (Suc n))" by blast
  show ?thesis
    unfolding run_program_def n
    by (simp add: returning_script_def cbind_def filter_stmt_eval[OF assms] return_stmt_eval del: evals.simps)
qed

text \<open>What a plugin says about itself is lost when its program ends in a top-level \<open>return\<close>:
  the program \<open>plugin.filter(service: S); return\<close> loads with empty metadata although it returns in
  the ordinary way, so the selection of plugins takes it for one without a filter; running it on a
  port, the same statement does set the filter.\<close>

theorem preload_return_loses_filter:
  "fst (preload_meta env (returning_script svc) s) = Ok plugin_meta_default \<and>
   (\<exists>out. fst (run_plugin env \<lparr>lp_program = returning_script svc, lp_source_path = path, lp_preview_meta = m\<rparr>
      host port known kb s) = Ok out \<and> pm_filter_service (ro_meta out) = svc)"
proof
  obtain s1 where "start_run env (run_state_default\<lparr>rs_meta_only := True, rs_target_host := ''0.0.0.0'',
      rs_target_port := 0\<rparr>) s = (Ok (length (sc_runs (it_ext s))), s1)"
    "plugin_ready (length (sc_runs (it_ext s))) (length (it_heap s)) s1"
    by (rule start_run_ready)
  then show "fst (preload_meta env (returning_script svc) s) = Ok plugin_meta_default"
    by (simp add: preload_meta_def cbind_def ctry_def returning_program_eval cret_def)
next
  obtain s1 where "start_run env (plugin_state host port known kb) s = (Ok (length (sc_runs (it_ext s))), s1)"
    "plugin_ready (length (sc_runs (it_ext s))) (length (it_heap s)) s1"
    "sc_runs (it_ext s1) = sc_runs (it_ext s) @
       [(plugin_state host port known kb)\<lparr>rs_target := Some (Suc (length (it_heap s)))\<rparr>]"
    by (rule start_run_ready)
  then show "\<exists>out. fst (run_plugin env \<lparr>lp_program = returning_script svc, lp_source_path = path,
      lp_preview_meta = m\<rparr> host port known kb s) = Ok out \<and> pm_filter_service (ro_meta out) = svc"
    by (simp add: run_plugin_def cbind_def ctry_def returning_program_eval cret_def get_run_eval
        run_outcome_def with_filter_def take_findings_def mod_run_def cmodify_def)
qed

end
