(* ===== verification/ZtlStrings.thy ===== *)
theory ZtlStrings
  imports ZtlInterp
begin

text \<open>
  The bounds of the string methods of scripts (\<open>call_string_method\<close> in
  \<open>ztl/interpreter.cpp\<close>), where a double becomes an index.
\<close>

lemma d_of_int_not_negative: "0 \<le> i \<Longrightarrow> i < 2 ^ 53 \<Longrightarrow> \<not> d_lt (d_of_int i) d_zero"
proof (cases "i = 0")
  case True
  then show ?thesis by (simp add: d_of_int_def rnd_def d_lt_def signed_def)
next
  case False
  assume a: "0 \<le> i" "i < 2 ^ 53"
  define L where "L = bit_len \<bar>i\<bar>"
  have "d_of_int i = DFin (i < 0) (\<bar>i\<bar> * 2 ^ nat (53 - L)) (L - 53)"
    unfolding d_of_int_def L_def by (rule rnd_exact_int) (use False a in auto)
  then show ?thesis using a by (simp add: d_lt_def signed_def Let_def pow2_def not_less)
qed

text \<open>\<open>s.slice(a, b)\<close> clamps: for all indexes that are not negative, in range or not, and in
  either order, it is the text between them, the empty string when there is none.\<close>

theorem slice_clamps:
  assumes "0 \<le> a" "a < 2 ^ 53" "0 \<le> b" "b < 2 ^ 53"
  shows "string_slice str [VNum (d_of_int a), VNum (d_of_int b)] l c s =
    (Ok (VStr (drop (nat a) (take (nat b) str))), s)"
proof -
  have t: "d_trunc (d_of_int a) = Some a" "d_trunc (d_of_int b) = Some b"
    using assms d_trunc_of_int by simp_all
  have lt: "\<not> d_lt (d_of_int b) d_zero" using assms d_of_int_not_negative by simp
  show ?thesis using assms lt
    by (auto simp: string_slice_def slice_end_def arg_number_def cast_size_def cast_range_def cbind_def cret_def
        t Let_def drop_take nat_diff_distrib min_def)
qed

theorem slice_clamps_witness:
  "string_slice ''banner'' [VNum (d_of_int 2), VNum (d_of_int 99)] 1 1 () = (Ok (VStr ''nner''), ())"
  using slice_clamps[of 2 99 "''banner''" 1 1 "()"] by (simp add: numeral_eq_Suc)

text \<open>A negative start index is not clamped: the conversion of the negative double to \<open>size_t\<close> is
  undefined behaviour, for \<open>slice\<close> and for \<open>byte_at\<close> alike.\<close>

theorem negative_index_undefined:
  assumes "0 < i" "i < 2 ^ 53"
  shows "fst (call_string_method str ''slice'' (VNum (d_of_int (- i)) # rest) l c s) = Undef \<and>
    fst (call_string_method str ''byte_at'' (VNum (d_of_int (- i)) # rest) l c s) = Undef"
  using assms d_trunc_of_int[of "- i"]
  by (simp_all add: call_string_method_def string_slice_def arg_number_def cast_size_def cast_range_def
      cbind_def cret_def cstop_def)

theorem negative_index_undefined_witness:
  "fst (call_string_method ''banner'' ''slice'' [VNum (d_of_int (- 1))] 1 1 ()) = Undef"
  using negative_index_undefined[of 1 "''banner''" "[]" 1 1 "()"] by simp

end
