(* ===== verification/Bytes.thy ===== *)
theory Bytes
  imports Transport
begin

text \<open>
  Byte-level helpers of the protocol checks: big-endian fields and the outcome of code that may
  read outside a buffer.
\<close>

datatype 'a checked = Done 'a | OutOfBounds | NoReturn

text \<open>Network byte order.\<close>

definition put_be16 :: "16 word \<Rightarrow> byte list" where
  "put_be16 w = [hi_byte w, lo_byte w]"

definition get_be16 :: "byte \<Rightarrow> byte \<Rightarrow> 16 word" where
  "get_be16 hi lo = or (push_bit 8 (ucast hi)) (ucast lo)"

definition put_be32 :: "32 word \<Rightarrow> byte list" where
  "put_be32 v = [ucast (drop_bit 24 v), ucast (drop_bit 16 v), ucast (drop_bit 8 v), ucast v]"

definition get_be32 :: "byte \<Rightarrow> byte \<Rightarrow> byte \<Rightarrow> byte \<Rightarrow> 32 word" where
  "get_be32 a b c d =
     or (or (or (push_bit 24 (ucast a)) (push_bit 16 (ucast b))) (push_bit 8 (ucast c))) (ucast d)"

lemma byte_of_char [simp]: "char_of_byte (byte_of c) = c"
  by (simp add: byte_of_def char_of_byte_def unat_of_nat_small)

lemma char_of_byte [simp]: "byte_of (char_of_byte b) = b"
proof -
  have "unat b < 256" by (rule unat_byte)
  then show ?thesis by (simp add: byte_of_def char_of_byte_def)
qed

lemma map_char_byte [simp]: "map byte_of (map char_of_byte bs) = bs" "map char_of_byte (map byte_of s) = s"
  by (simp_all add: comp_def map_idI)

lemma map_char_byte_comp [simp]: "map (byte_of \<circ> char_of_byte) bs = bs" "map (char_of_byte \<circ> byte_of) s = s"
  by (simp_all add: comp_def)

lemma unat_byte_of [simp]: "unat (byte_of c) = code c"
  by (simp add: byte_of_def unat_of_nat_small)

lemma get_put_be16 [simp]: "get_be16 (hi_byte w) (lo_byte w) = w"
  unfolding get_be16_def hi_byte_def lo_byte_def
proof (rule bit_word_eqI)
  fix n assume "n < LENGTH(16)"
  then show "bit (or (push_bit 8 (ucast (ucast (drop_bit 8 w) :: byte))) (ucast (ucast w :: byte)) :: 16 word) n = bit w n"
    by (cases "n < 8") (auto simp: bit_simps)
qed

lemma get_put_be32 [simp]:
  "get_be32 (ucast (drop_bit 24 v)) (ucast (drop_bit 16 v)) (ucast (drop_bit 8 v)) (ucast v) = v"
  unfolding get_be32_def
proof (rule bit_word_eqI)
  fix n assume "n < LENGTH(32)"
  then show "bit (or (or (or (push_bit 24 (ucast (ucast (drop_bit 24 v) :: byte)))
      (push_bit 16 (ucast (ucast (drop_bit 16 v) :: byte)))) (push_bit 8 (ucast (ucast (drop_bit 8 v) :: byte))))
      (ucast (ucast v :: byte)) :: 32 word) n = bit v n"
    by (cases "n < 8"; cases "n < 16"; cases "n < 24") (auto simp: bit_simps)
qed

lemma unat_byte_at: "unat (ucast (drop_bit k v) :: byte) = unat v div 2 ^ k mod 256" for v :: "32 word"
proof -
  have "unat (drop_bit k v) = unat v div 2 ^ k"
    by (simp only: unsigned_drop_bit_eq drop_bit_eq_div[where 'a = nat] take_bit_nat_eq_self[OF unsigned_less])
  then show ?thesis by (simp add: unsigned_ucast_eq take_bit_eq_mod)
qed

lemma quad_bytes:
  fixes a b c d :: nat
  assumes "b < 256" "c < 256" "d < 256"
  defines "n \<equiv> a * 2 ^ 24 + b * 2 ^ 16 + c * 2 ^ 8 + d"
  shows "n div 2 ^ 24 = a" "n div 2 ^ 16 mod 256 = b" "n div 2 ^ 8 mod 256 = c" "n mod 256 = d"
proof -
  show "n div 2 ^ 24 = a"
    using assms by (intro div_nat_eqI) simp_all
  have "n div 2 ^ 16 = a * 256 + b"
    using assms by (intro div_nat_eqI) simp_all
  then show "n div 2 ^ 16 mod 256 = b" using assms by simp
  have "n div 2 ^ 8 = (a * 256 + b) * 256 + c"
    using assms by (intro div_nat_eqI) simp_all
  then show "n div 2 ^ 8 mod 256 = c" using assms(2) by (simp only: mod_mult_self3 mod_less)
  have "n = (a * 65536 + b * 256 + c) * 256 + d" by (simp add: n_def)
  then show "n mod 256 = d" using assms(3) by (simp only: mod_mult_self3 mod_less)
qed

lemma unat_get_be32:
  "unat (get_be32 a b c d) = unat a * 2 ^ 24 + unat b * 2 ^ 16 + unat c * 2 ^ 8 + unat d"
proof -
  let ?n = "unat a * 2 ^ 24 + unat b * 2 ^ 16 + unat c * 2 ^ 8 + unat d"
  define v :: "32 word" where "v = word_of_nat ?n"
  have u: "unat a < 256" "unat b < 256" "unat c < 256" "unat d < 256" by (rule unat_byte)+
  then have n: "unat v = ?n" unfolding v_def by (intro unat_of_nat_small) simp
  have "ucast (drop_bit 24 v) = a" "ucast (drop_bit 16 v) = b" "ucast (drop_bit 8 v) = c"
    using u quad_bytes[of "unat b" "unat c" "unat d" "unat a"]
    by (simp_all only: word_unat_eq_iff unat_byte_at n mod_less)
  moreover have "ucast v = d"
    using u quad_bytes(4)[of "unat b" "unat c" "unat d" "unat a"] unat_byte_at[of 0 v]
    by (simp add: word_unat_eq_iff n)
  ultimately have "get_be32 a b c d = v" using get_put_be32[of v] by simp
  then show ?thesis using n by simp
qed

end
