(* ===== verification/Terrapin.thy ===== *)
theory Terrapin
  imports Bytes Findings KnowledgeBase
begin

text \<open>
  \<open>protocols/ssh/terrapin.cpp\<close>: the active check for CVE-2023-48795.  It offers its own
  SSH_MSG_KEXINIT, reads the server's and decides on the algorithm lists in it.  A
  \<open>std::string\<close> may be indexed up to its length (the terminating NUL); reading beyond is
  \<open>OutOfBounds\<close>.
\<close>

record KexInit =
  ki_kex_algorithms :: "string list"
  ki_encryption_algorithms_s_to_c :: "string list"
  ki_mac_algorithms_s_to_c :: "string list"

subsection \<open>The client's packet\<close>

definition encode_uint32 :: "32 word \<Rightarrow> byte list" where
  "encode_uint32 v = put_be32 v"

definition append_name_list :: "byte list \<Rightarrow> string \<Rightarrow> byte list" where
  "append_name_list out l = out @ encode_uint32 (word_of_nat (length l)) @ map byte_of l"

definition kexinit_lists :: "string list" where
  "kexinit_lists =
     [''curve25519-sha256,curve25519-sha256@libssh.org,ecdh-sha2-nistp256'',
      ''ssh-ed25519,rsa-sha2-256,rsa-sha2-512,ecdsa-sha2-nistp256'',
      ''aes128-ctr,aes192-ctr,aes256-ctr'',
      ''aes128-ctr,aes192-ctr,aes256-ctr'',
      ''hmac-sha2-256,hmac-sha2-512'',
      ''hmac-sha2-256,hmac-sha2-512'',
      ''none'', ''none'', [], []]"

definition build_kexinit_payload :: "byte list" where
  "build_kexinit_payload =
     foldl append_name_list (20 # replicate 16 0) kexinit_lists @ [0] @ encode_uint32 0"

definition frame_pad_len :: "nat \<Rightarrow> nat" where
  "frame_pad_len sz =
     (let pad = 8 - (1 + sz) mod 8 in if pad < 4 then pad + 8 else pad)"

definition frame_ssh_packet :: "byte list \<Rightarrow> byte list" where
  "frame_ssh_packet payload =
     (let pad_len = frame_pad_len (length payload)
      in encode_uint32 (word_of_nat (1 + length payload + pad_len)) @ [word_of_nat pad_len] @
         payload @ replicate pad_len 0)"

subsection \<open>The server's packet\<close>

text \<open>\<open>raw[i]\<close> and a copy of \<open>n\<close> bytes from \<open>i\<close>.\<close>

definition raw_byte :: "string \<Rightarrow> nat \<Rightarrow> byte option" where
  "raw_byte raw i =
     (if i < length raw then Some (byte_of (raw ! i)) else if i = length raw then Some 0 else None)"

definition raw_be32 :: "string \<Rightarrow> nat \<Rightarrow> (32 word) option" where
  "raw_be32 raw i =
     (case (raw_byte raw i, raw_byte raw (i + 1), raw_byte raw (i + 2), raw_byte raw (i + 3)) of
        (Some a, Some b, Some c, Some d) \<Rightarrow> Some (get_be32 a b c d)
      | _ \<Rightarrow> None)"

definition raw_copy :: "string \<Rightarrow> nat \<Rightarrow> nat \<Rightarrow> string option" where
  "raw_copy raw i n =
     (if i + n \<le> length raw + 1 then Some (take n (drop i (raw @ [NUL]))) else None)"

text \<open>The names of the list and the position behind it; \<open>None\<close> is the result \<open>false\<close>.\<close>

definition read_name_list :: "string \<Rightarrow> nat \<Rightarrow> nat \<Rightarrow> (string list \<times> nat) option checked" where
  "read_name_list raw pos endp =
     (if endp < pos + 4 then Done None
      else case raw_be32 raw pos of
        None \<Rightarrow> OutOfBounds
      | Some list_len \<Rightarrow>
          if endp < pos + 4 + unat list_len then Done None
          else case raw_copy raw (pos + 4) (unat list_len) of
                 None \<Rightarrow> OutOfBounds
               | Some l \<Rightarrow>
                   Done (Some (filter (\<lambda>x. x \<noteq> []) (getlines (CHR '','') l), pos + 4 + unat list_len)))"

fun read_name_lists :: "string \<Rightarrow> nat \<Rightarrow> nat \<Rightarrow> nat \<Rightarrow> string list list option checked" where
  "read_name_lists raw 0 pos endp = Done (Some [])"
| "read_name_lists raw (Suc n) pos endp =
     (case read_name_list raw pos endp of
        Done (Some (l, pos')) \<Rightarrow>
          (case read_name_lists raw n pos' endp of
             Done (Some ls) \<Rightarrow> Done (Some (l # ls))
           | r \<Rightarrow> r)
      | Done None \<Rightarrow> Done None
      | OutOfBounds \<Rightarrow> OutOfBounds
      | NoReturn \<Rightarrow> NoReturn)"

text \<open>
  \<open>4 + packet_length\<close> and \<open>4 + packet_length - pad_len\<close> are computed in 32 bits before they are
  compared as \<open>size_t\<close>.
\<close>

definition parse_kexinit :: "string \<Rightarrow> KexInit option checked" where
  "parse_kexinit raw =
     (if length raw < 6 then Done None
      else
        let packet_length = get_be32 (byte_of (raw ! 0)) (byte_of (raw ! 1)) (byte_of (raw ! 2)) (byte_of (raw ! 3));
            pad_len = byte_of (raw ! 4);
            payload_end = unat (4 + packet_length - ucast pad_len)
        in if length raw < unat (4 + packet_length) then Done None
           else if payload_end \<le> 5 then Done None
           else if byte_of (raw ! 5) \<noteq> 20 then Done None
           else case read_name_lists raw 6 22 payload_end of
                  Done (Some ls) \<Rightarrow>
                    Done (Some \<lparr>ki_kex_algorithms = ls ! 0, ki_encryption_algorithms_s_to_c = ls ! 3,
                                ki_mac_algorithms_s_to_c = ls ! 5\<rparr>)
                | Done None \<Rightarrow> Done None
                | OutOfBounds \<Rightarrow> OutOfBounds
                | NoReturn \<Rightarrow> NoReturn)"

definition any_cbc :: "string list \<Rightarrow> bool" where
  "any_cbc ciphers = (\<exists>c\<in>set ciphers. str_contains c ''-cbc'')"

definition any_etm :: "string list \<Rightarrow> bool" where
  "any_etm macs = (\<exists>m\<in>set macs. str_contains m ''-etm@'')"

text \<open>Is there a KEXINIT packet at \<open>pos\<close>?\<close>

definition kexinit_at :: "string \<Rightarrow> nat \<Rightarrow> bool" where
  "kexinit_at raw pos \<longleftrightarrow>
     pos + 4 \<le> length raw \<and>
     (let plen = unat (get_be32 (byte_of (raw ! pos)) (byte_of (raw ! (pos + 1))) (byte_of (raw ! (pos + 2)))
                   (byte_of (raw ! (pos + 3))))
      in 0 < plen \<and> plen < 65536 \<and> pos + 4 + plen \<le> length raw \<and>
         pos + 5 < length raw \<and> byte_of (raw ! (pos + 5)) = 20)"

function strip_from :: "string \<Rightarrow> nat \<Rightarrow> string" where
  "strip_from raw pos =
     (if length raw \<le> pos then raw
      else if kexinit_at raw pos then drop pos raw
      else case str_find raw [LF] pos of None \<Rightarrow> raw | Some i \<Rightarrow> strip_from raw (i + 1))"
  by pat_completeness auto
termination
  by (relation "measure (\<lambda>(raw, pos). length raw - pos)") (auto dest: str_find_Some_bound)

declare strip_from.simps [simp del]

definition strip_pre_kexinit_lines :: "string \<Rightarrow> string" where
  "strip_pre_kexinit_lines raw = strip_from raw 0"

text \<open>Chunks until \<open>needed\<close> bytes are there or none comes.\<close>

function receive_more :: "'w os \<Rightarrow> int \<Rightarrow> int \<Rightarrow> nat \<Rightarrow> string \<Rightarrow> 'w \<Rightarrow> string \<times> 'w" where
  "receive_more os fd timeout_ms needed buffer w =
     (if needed \<le> length buffer then (buffer, w)
      else let r = tcp_receive os fd timeout_ms w in
           if fst r = [] then (buffer, snd r)
           else receive_more os fd timeout_ms needed (buffer @ fst r) (snd r))"
  by pat_completeness auto
termination
  by (relation "measure (\<lambda>(os, fd, t, needed, buffer, w). needed - length buffer)")
    (auto intro!: diff_less_mono2 simp: Let_def)

declare receive_more.simps [simp del]

definition receive_at_least :: "'w os \<Rightarrow> int \<Rightarrow> nat \<Rightarrow> int \<Rightarrow> 'w \<Rightarrow> string \<times> 'w" where
  "receive_at_least os fd needed timeout_ms w = receive_more os fd timeout_ms needed [] w"

subsection \<open>The verdict\<close>

definition has_chacha :: "KexInit \<Rightarrow> bool" where
  "has_chacha ki \<longleftrightarrow> ''chacha20-poly1305@openssh.com'' \<in> set (ki_encryption_algorithms_s_to_c ki)"

definition has_strict_kex :: "KexInit \<Rightarrow> bool" where
  "has_strict_kex ki \<longleftrightarrow> ''kex-strict-s-v00@openssh.com'' \<in> set (ki_kex_algorithms ki)"

definition cbc_etm_vuln :: "KexInit \<Rightarrow> bool" where
  "cbc_etm_vuln ki \<longleftrightarrow> any_cbc (ki_encryption_algorithms_s_to_c ki) \<and> any_etm (ki_mac_algorithms_s_to_c ki)"

definition terrapin_evidence :: "KexInit \<Rightarrow> string" where
  "terrapin_evidence ki =
     (if has_chacha ki then ''chacha20-poly1305@openssh.com supported; '' else []) @
     (if cbc_etm_vuln ki then ''CBC ciphers combined with Encrypt-then-MAC supported; '' else []) @
     ''kex-strict-s-v00@openssh.com NOT offered by server''"

definition terrapin_finding :: "64 word \<Rightarrow> Port \<Rightarrow> KexInit \<Rightarrow> Finding" where
  "terrapin_finding now port ki =
     (let evidence = terrapin_evidence ki in
      finding_default
        \<lparr>f_plugin_name := ''ssh-terrapin'', f_title := ''SSH Terrapin Prefix Truncation Weakness'',
         f_severity := MEDIUM, f_confidence := C_VERIFIED, f_confidence_score := d_of_dec False 99 (-2),
         f_verification := ''ACTIVE_CHECK'', f_timestamp := now, f_cve_id := ''CVE-2023-48795'',
         f_port_number := p_number port, f_service := p_service port, f_product := p_product port,
         f_version := p_version port,
         f_description :=
           ''The SSH server supports algorithms vulnerable to the Terrapin prefix-truncation '' @
           ''attack (chacha20-poly1305 or CBC-with-Encrypt-then-MAC) and does not advertise the '' @
           ''strict key exchange countermeasure. Evidence: '' @ evidence @
           ''. Update the SSH server or restrict the offered algorithms.'',
         f_evidence := evidence,
         f_evidence_data := \<lparr>e_type = ''protocol'', e_source = ''ssh-kex'', e_value = evidence,
           e_details = ''SSH algorithm negotiation''\<rparr>\<rparr>)"

definition terrapin_verdict :: "64 word \<Rightarrow> Port \<Rightarrow> KexInit \<Rightarrow> Finding option" where
  "terrapin_verdict now port ki =
     (if has_strict_kex ki \<or> (\<not> has_chacha ki \<and> \<not> cbc_etm_vuln ki) then None
      else Some (terrapin_finding now port ki))"

definition join_algorithms :: "string list \<Rightarrow> string" where
  "join_algorithms l = join_with '','' l"

definition terrapin_facts :: "Port \<Rightarrow> KexInit \<Rightarrow> KnowledgeBase \<Rightarrow> KnowledgeBase" where
  "terrapin_facts port ki kb =
     (let pref = ''port/'' @ show_nat (unat (p_number port)) @ ''/ssh/'' in
      kb_set (pref @ ''mac_algorithms_s2c'') (join_algorithms (ki_mac_algorithms_s_to_c ki))
        (kb_set (pref @ ''encryption_algorithms_s2c'') (join_algorithms (ki_encryption_algorithms_s_to_c ki))
           (kb_set (pref @ ''kex_algorithms'') (join_algorithms (ki_kex_algorithms ki)) kb)))"

subsection \<open>The check\<close>

text \<open>The exchange on an open connection: the response, or \<open>None\<close> when the check gives up.\<close>

definition terrapin_exchange :: "'w os \<Rightarrow> int \<Rightarrow> 'w \<Rightarrow> (string option \<times> 'w) checked" where
  "terrapin_exchange os fd w =
     (let (server_banner, w) = tcp_receive os fd 2000 w in
      if take 4 server_banner \<noteq> ''SSH-'' then Done (None, w)
      else case tcp_send os fd (''SSH-2.0-ZeroTrust_Scanner'' @ [CR, LF]) w of
        None \<Rightarrow> NoReturn
      | Some (False, w) \<Rightarrow> Done (None, w)
      | Some (True, w) \<Rightarrow>
          (case tcp_send os fd (map char_of_byte (frame_ssh_packet build_kexinit_payload)) w of
             None \<Rightarrow> NoReturn
           | Some (False, w) \<Rightarrow> Done (None, w)
           | Some (True, w) \<Rightarrow>
               let (response, w) = receive_at_least os fd 5 3000 w in
               if length response < 5 then Done (None, w)
               else
                 let trimmed = strip_pre_kexinit_lines response in
                 if length trimmed < 5 then Done (None, w)
                 else
                   let packet_length = get_be32 (byte_of (trimmed ! 0)) (byte_of (trimmed ! 1))
                         (byte_of (trimmed ! 2)) (byte_of (trimmed ! 3));
                       (trimmed, w) = receive_more os fd 2000 (unat (4 + packet_length)) trimmed w
                   in Done (Some trimmed, w)))"

definition check_terrapin ::
  "'w os \<Rightarrow> ('w \<Rightarrow> 64 word \<times> 'w) \<Rightarrow> Port \<Rightarrow> string \<Rightarrow> KnowledgeBase \<Rightarrow> 'w \<Rightarrow>
   (Finding option \<times> KnowledgeBase \<times> 'w) checked" where
  "check_terrapin os clock port target_ip kb w =
     (if p_service port \<noteq> ''ssh'' then Done (None, kb, w)
      else
        let (fd, w) = tcp_new os w;
            (st, w) = tcp_connect os fd target_ip (int (unat (p_number port))) 3000 w
        in if p_state st \<noteq> S_OPEN then Done (None, kb, tcp_delete os fd w)
           else case terrapin_exchange os fd w of
             OutOfBounds \<Rightarrow> OutOfBounds
           | NoReturn \<Rightarrow> NoReturn
           | Done (None, w) \<Rightarrow> Done (None, kb, tcp_delete os fd w)
           | Done (Some trimmed, w) \<Rightarrow>
               (case parse_kexinit trimmed of
                  OutOfBounds \<Rightarrow> OutOfBounds
                | NoReturn \<Rightarrow> NoReturn
                | Done None \<Rightarrow> Done (None, kb, tcp_delete os fd w)
                | Done (Some ki) \<Rightarrow>
                    let kb' = terrapin_facts port ki kb in
                    if terrapin_verdict 0 port ki = None then Done (None, kb', tcp_delete os fd w)
                    else let (now, w) = clock w
                         in Done (terrapin_verdict now port ki, kb', tcp_delete os fd w)))"

subsection \<open>Reading a server's offer\<close>

definition name_list_bytes :: "string \<Rightarrow> byte list" where
  "name_list_bytes l = encode_uint32 (word_of_nat (length l)) @ map byte_of l"

text \<open>A KEXINIT payload as servers build it, and its packet.\<close>

definition kexinit_payload :: "byte list \<Rightarrow> string list list \<Rightarrow> byte list \<Rightarrow> byte list" where
  "kexinit_payload cookie offer trailer =
     20 # cookie @ concat (map (\<lambda>l. name_list_bytes (join_with '','' l)) offer) @ trailer"

definition good_names :: "string list \<Rightarrow> bool" where
  "good_names l \<longleftrightarrow> (\<forall>x\<in>set l. x \<noteq> [] \<and> CHR '','' \<notin> set x)"

lemma append_name_lists: "foldl append_name_list out ls = out @ concat (map name_list_bytes ls)"
  by (induction ls arbitrary: out) (simp_all add: append_name_list_def name_list_bytes_def)

lemma length_encode_uint32 [simp]: "length (encode_uint32 v) = 4"
  by (simp add: encode_uint32_def put_be32_def)

lemma length_name_list_bytes [simp]: "length (name_list_bytes l) = 4 + length l"
  by (simp add: name_list_bytes_def)

lemma raw_be32_put:
  "raw_be32 (pre @ map char_of_byte (encode_uint32 v) @ post) (length pre) = Some v"
  by (simp add: raw_be32_def raw_byte_def encode_uint32_def put_be32_def nth_append)

lemma raw_copy_mid: "raw_copy (pre @ s @ post) (length pre) (length s) = Some s"
  by (simp add: raw_copy_def)

lemma read_name_list_put:
  assumes "length s < 2 ^ 32" "length pre + 4 + length s \<le> endp"
  shows "read_name_list (pre @ map char_of_byte (name_list_bytes s) @ post) (length pre) endp =
    Done (Some (filter (\<lambda>x. x \<noteq> []) (getlines (CHR '','') s), length pre + 4 + length s))"
proof -
  let ?pre = "pre @ map char_of_byte (encode_uint32 (word_of_nat (length s)))"
  have u: "unat (word_of_nat (length s) :: 32 word) = length s"
    using assms(1) by (simp add: unat_of_nat_small)
  have b: "raw_be32 (pre @ map char_of_byte (encode_uint32 (word_of_nat (length s))) @ s @ post) (length pre)
      = Some (word_of_nat (length s))"
    by (rule raw_be32_put)
  have c: "raw_copy (pre @ map char_of_byte (encode_uint32 (word_of_nat (length s))) @ s @ post) (length pre + 4)
      (length s) = Some s"
    using raw_copy_mid[of ?pre s post] by simp
  show ?thesis
    using assms(2) by (simp add: read_name_list_def name_list_bytes_def b c u)
qed

lemma read_name_lists_put:
  assumes "\<forall>s\<in>set ss. length s < 2 ^ 32"
    and "length pre + length (concat (map name_list_bytes ss)) \<le> endp"
  shows "read_name_lists (pre @ map char_of_byte (concat (map name_list_bytes ss)) @ post) (length ss) (length pre) endp
    = Done (Some (map (\<lambda>s. filter (\<lambda>x. x \<noteq> []) (getlines (CHR '','') s)) ss))"
  using assms
proof (induction ss arbitrary: pre)
  case (Cons s ss)
  let ?rest = "map char_of_byte (concat (map name_list_bytes ss)) @ post"
  have "read_name_list (pre @ map char_of_byte (name_list_bytes s) @ ?rest) (length pre) endp =
      Done (Some (filter (\<lambda>x. x \<noteq> []) (getlines (CHR '','') s), length pre + 4 + length s))"
    by (rule read_name_list_put) (use Cons.prems in auto)
  moreover have "read_name_lists ((pre @ map char_of_byte (name_list_bytes s)) @ ?rest) (length ss)
      (length (pre @ map char_of_byte (name_list_bytes s))) endp =
      Done (Some (map (\<lambda>s. filter (\<lambda>x. x \<noteq> []) (getlines (CHR '','') s)) ss))"
    by (rule Cons.IH) (use Cons.prems in auto)
  ultimately show ?case by (simp add: add.assoc)
qed simp

lemma names_read_back: "good_names l \<Longrightarrow> filter (\<lambda>x. x \<noteq> []) (getlines (CHR '','') (join_with '','' l)) = l"
proof -
  assume g: "good_names l"
  then have "getlines (CHR '','') (join_with '','' l) = l"
    by (intro getlines_join) (auto simp: good_names_def)
  then show ?thesis using g by (simp add: good_names_def filter_id_conv)
qed

lemma frame_pad_len_bound: "frame_pad_len n < 16"
proof -
  define r where "r = 8 - (1 + n) mod 8"
  have "r \<le> 8" by (simp add: r_def)
  then show ?thesis unfolding frame_pad_len_def Let_def r_def[symmetric] by simp
qed

lemma parse_kexinit_eval:
  assumes "6 \<le> length raw" "byte_of (raw ! 5) = 20"
    and "get_be32 (byte_of (raw ! 0)) (byte_of (raw ! 1)) (byte_of (raw ! 2)) (byte_of (raw ! 3)) = pl"
    and "unat (4 + pl) \<le> length raw" "unat (4 + pl - ucast (byte_of (raw ! 4))) = endp" "5 < endp"
    and "read_name_lists raw 6 22 endp = Done (Some ls)"
  shows "parse_kexinit raw = Done (Some \<lparr>ki_kex_algorithms = ls ! 0, ki_encryption_algorithms_s_to_c = ls ! 3,
      ki_mac_algorithms_s_to_c = ls ! 5\<rparr>)"
  using assms(1,2,4,6,7) unfolding parse_kexinit_def Let_def assms(3,5) by simp

lemma take_drop_offer:
  "concat (map (\<lambda>l. name_list_bytes (join_with '','' l)) offer) =
     concat (map name_list_bytes (map (join_with '','') (take n offer))) @
     concat (map (\<lambda>l. name_list_bytes (join_with '','' l)) (drop n offer))"
  by (simp add: comp_def flip: concat_append map_append)

lemma length_in_concat: "s \<in> set ss \<Longrightarrow> length s \<le> length (concat (map name_list_bytes ss))"
  by (induction ss) auto

text \<open>The whole offer: the parser finds the three lists the check looks at.\<close>

lemma parse_kexinit_offer:
  assumes "length cookie = 16" "\<forall>l\<in>set offer. good_names l" "6 \<le> length offer"
    and "length (kexinit_payload cookie offer trailer) < 2 ^ 31"
  shows "parse_kexinit (map char_of_byte (frame_ssh_packet (kexinit_payload cookie offer trailer)) @ extra) =
    Done (Some \<lparr>ki_kex_algorithms = offer ! 0, ki_encryption_algorithms_s_to_c = offer ! 3,
      ki_mac_algorithms_s_to_c = offer ! 5\<rparr>)"
proof -
  let ?p = "kexinit_payload cookie offer trailer"
  define pad where "pad = frame_pad_len (length ?p)"
  define L where "L = 1 + length ?p + pad"
  let ?raw = "map char_of_byte (frame_ssh_packet ?p) @ extra"
  define ss where "ss = map (join_with '','') (take 6 offer)"
  define post where "post = map char_of_byte (concat (map (\<lambda>l. name_list_bytes (join_with '','' l)) (drop 6 offer)) @
    trailer @ replicate pad 0) @ extra"
  define pre where "pre = map char_of_byte (encode_uint32 (word_of_nat L) @ [word_of_nat pad] @ 20 # cookie)"
  have pad: "pad < 16" unfolding pad_def by (rule frame_pad_len_bound)
  have uL: "unat (word_of_nat L :: 32 word) = L"
    using assms(4) pad unfolding L_def by (intro unat_of_nat_small) simp
  have uL4: "unat (4 + word_of_nat L :: 32 word) = 4 + L"
  proof -
    have "(4 + word_of_nat L :: 32 word) = word_of_nat (4 + L)" by simp
    moreover have "unat (word_of_nat (4 + L) :: 32 word) = 4 + L"
      using assms(4) pad by (intro unat_of_nat_small) (simp add: L_def)
    ultimately show ?thesis by (simp only:)
  qed
  have uE: "unat (4 + word_of_nat L - ucast (word_of_nat pad :: byte) :: 32 word) = 5 + length ?p"
  proof -
    have "(ucast (word_of_nat pad :: byte) :: 32 word) = word_of_nat pad"
      using pad by (simp add: word_unat_eq_iff unsigned_ucast_eq unat_of_nat_small take_bit_nat_eq_self)
    then have "4 + word_of_nat L - ucast (word_of_nat pad :: byte) = (word_of_nat (5 + length ?p) :: 32 word)"
      by (simp add: L_def)
    moreover have "unat (word_of_nat (5 + length ?p) :: 32 word) = 5 + length ?p"
      using assms(4) by (intro unat_of_nat_small) simp
    ultimately show ?thesis by (simp only:)
  qed
  have body: "?p = 20 # cookie @ concat (map name_list_bytes ss) @
      concat (map (\<lambda>l. name_list_bytes (join_with '','' l)) (drop 6 offer)) @ trailer"
    unfolding kexinit_payload_def take_drop_offer[of offer 6] ss_def by (simp only: append_assoc)
  have frame: "frame_ssh_packet ?p = encode_uint32 (word_of_nat L) @ [word_of_nat pad] @ ?p @ replicate pad 0"
    by (simp add: frame_ssh_packet_def Let_def pad_def L_def)
  have raw: "?raw = pre @ map char_of_byte (concat (map name_list_bytes ss)) @ post"
    unfolding frame unfolding body by (simp add: pre_def post_def)
  have len: "length ss = 6" "length pre = 22" using assms(1,3) by (simp_all add: ss_def pre_def)
  have bnd: "22 + length (concat (map name_list_bytes ss)) \<le> 5 + length ?p"
    using assms(1) unfolding body by simp
  have "length s < 2 ^ 32" if "s \<in> set ss" for s
    using length_in_concat[OF that] bnd assms(4) by simp
  then have "read_name_lists ?raw 6 22 (5 + length ?p) =
      Done (Some (map (\<lambda>s. filter (\<lambda>x. x \<noteq> []) (getlines (CHR '','') s)) ss))"
    using read_name_lists_put[of ss pre "5 + length ?p" post] len bnd unfolding raw by simp
  moreover have "map (\<lambda>s. filter (\<lambda>x. x \<noteq> []) (getlines (CHR '','') s)) ss = take 6 offer"
    using assms(2) by (auto simp: ss_def intro!: map_idI names_read_back dest: in_set_takeD)
  ultimately have lists: "read_name_lists ?raw 6 22 (5 + length ?p) = Done (Some (take 6 offer))" by simp
  have hd: "?raw = map char_of_byte (put_be32 (word_of_nat L)) @ char_of_byte (word_of_nat pad) # char_of_byte 20 #
      map char_of_byte (cookie @ concat (map name_list_bytes ss)) @ post"
    unfolding frame unfolding body by (simp add: post_def encode_uint32_def)
  have "length ?raw = 4 + L + length extra" unfolding frame by (simp add: L_def)
  then have "6 \<le> length ?raw" "unat (4 + word_of_nat L :: 32 word) \<le> length ?raw"
    unfolding uL4 by (simp_all add: L_def kexinit_payload_def)
  moreover have "byte_of (?raw ! 5) = 20" "byte_of (?raw ! 4) = word_of_nat pad"
    "get_be32 (byte_of (?raw ! 0)) (byte_of (?raw ! 1)) (byte_of (?raw ! 2)) (byte_of (?raw ! 3)) = word_of_nat L"
    unfolding hd put_be32_def by simp_all
  moreover have "5 < 5 + length ?p" by (simp add: kexinit_payload_def)
  ultimately have "parse_kexinit ?raw = Done (Some \<lparr>ki_kex_algorithms = take 6 offer ! 0,
      ki_encryption_algorithms_s_to_c = take 6 offer ! 3, ki_mac_algorithms_s_to_c = take 6 offer ! 5\<rparr>)"
    using uE lists by (intro parse_kexinit_eval) (simp_all only:)
  then show ?thesis by simp
qed

lemma read_name_list_in:
  assumes "endp \<le> length raw"
  shows "read_name_list raw pos endp \<noteq> OutOfBounds" "read_name_list raw pos endp \<noteq> NoReturn"
  using assms
  by (auto simp: read_name_list_def raw_be32_def raw_byte_def raw_copy_def split: option.split)

lemma read_name_lists_in:
  assumes "endp \<le> length raw"
  shows "read_name_lists raw n pos endp \<noteq> OutOfBounds \<and> read_name_lists raw n pos endp \<noteq> NoReturn"
proof (induction n arbitrary: pos)
  case (Suc n)
  show ?case
  proof (cases "read_name_list raw pos endp")
    case (Done r)
    show ?thesis
    proof (cases r)
      case (Some lp)
      then obtain l p where "r = Some (l, p)" by (cases lp) auto
      then show ?thesis using Done Suc[of p]
        by (cases "read_name_lists raw n p endp") (auto split: option.split)
    qed (simp add: Done)
  qed (use read_name_list_in[OF assms] in auto)
qed simp

subsection \<open>What the check decides\<close>

text \<open>C23: The check decides the vulnerability from what the server offers: for every KEXINIT packet a
  server can send, with any cookie, at least six lists of comma-free names and any trailer and
  following bytes (up to 2 GiB), the three lists that matter are read back exactly, and a finding is made
  exactly when strict key exchange is not offered and ChaCha20-Poly1305, or a CBC cipher together with an
  encrypt-then-MAC algorithm, is.\<close>

theorem terrapin_decides_offer:
  assumes "length cookie = 16" "\<forall>l\<in>set offer. good_names l" "6 \<le> length offer"
    and "length (kexinit_payload cookie offer trailer) < 2 ^ 31"
  shows "parse_kexinit (map char_of_byte (frame_ssh_packet (kexinit_payload cookie offer trailer)) @ extra) =
      Done (Some \<lparr>ki_kex_algorithms = offer ! 0, ki_encryption_algorithms_s_to_c = offer ! 3, ki_mac_algorithms_s_to_c = offer ! 5\<rparr>) \<and>
    (terrapin_verdict now port \<lparr>ki_kex_algorithms = offer ! 0, ki_encryption_algorithms_s_to_c = offer ! 3, ki_mac_algorithms_s_to_c = offer ! 5\<rparr> \<noteq> None \<longleftrightarrow>
       ''kex-strict-s-v00@openssh.com'' \<notin> set (offer ! 0) \<and>
       (''chacha20-poly1305@openssh.com'' \<in> set (offer ! 3) \<or>
        (\<exists>c\<in>set (offer ! 3). \<exists>a b. c = a @ ''-cbc'' @ b) \<and>
        (\<exists>m\<in>set (offer ! 5). \<exists>a b. m = a @ ''-etm@'' @ b)))"
  using parse_kexinit_offer[OF assms, of extra]
  by (simp add: terrapin_verdict_def has_strict_kex_def has_chacha_def cbc_etm_vuln_def any_cbc_def any_etm_def
      str_contains_iff)

theorem terrapin_decides_offer_witness:
  "\<exists>ki. parse_kexinit (map char_of_byte (frame_ssh_packet (kexinit_payload (replicate 16 7)
      [[''curve25519-sha256''], [''ssh-ed25519''], [''aes128-cbc''], [''aes128-cbc'', ''aes256-ctr''],
       [''hmac-sha2-256''], [''hmac-sha2-256-etm@openssh.com'']] [])) @ ''x'') = Done (Some ki) \<and>
    ki_encryption_algorithms_s_to_c ki = [''aes128-cbc'', ''aes256-ctr''] \<and> terrapin_verdict 0 port_default ki \<noteq> None"
proof -
  have "\<exists>a b. ''aes128-cbc'' = a @ ''-cbc'' @ b" by (rule exI[of _ "''aes128''"]) simp
  moreover have "\<exists>a b. ''hmac-sha2-256-etm@openssh.com'' = a @ ''-etm@'' @ b"
    by (rule exI[of _ "''hmac-sha2-256''"]) simp
  ultimately show ?thesis
    using terrapin_decides_offer[of "replicate 16 7" "[[''curve25519-sha256''], [''ssh-ed25519''], [''aes128-cbc''],
        [''aes128-cbc'', ''aes256-ctr''], [''hmac-sha2-256''], [''hmac-sha2-256-etm@openssh.com'']]" "[]" "''x''"
        0 port_default]
    by (simp add: good_names_def kexinit_payload_def join_with_Cons)
qed

text \<open>Reading the server's KEXINIT stays inside the received bytes whenever the packet length
  leaves room for the padding and the addition of 4 does not wrap in 32 bits.\<close>

theorem parse_kexinit_in_bounds:
  assumes "6 \<le> length raw"
    and "unat (get_be32 (byte_of (raw ! 0)) (byte_of (raw ! 1)) (byte_of (raw ! 2)) (byte_of (raw ! 3))) + 4 < 2 ^ 32"
    and "code (raw ! 4) \<le>
      unat (get_be32 (byte_of (raw ! 0)) (byte_of (raw ! 1)) (byte_of (raw ! 2)) (byte_of (raw ! 3))) + 4"
  shows "parse_kexinit raw \<noteq> OutOfBounds"
proof -
  let ?pl = "get_be32 (byte_of (raw ! 0)) (byte_of (raw ! 1)) (byte_of (raw ! 2)) (byte_of (raw ! 3))"
  let ?pad = "byte_of (raw ! 4)"
  have four: "unat (4 + ?pl) = 4 + unat ?pl"
    using assms(2) by (subst unat_add_lem[THEN iffD1]) simp_all
  have p: "unat (ucast ?pad :: 32 word) = code (raw ! 4)" by (simp add: unat_ucast32)
  then have "(ucast ?pad :: 32 word) \<le> 4 + ?pl" using assms(3) four by (simp add: word_le_nat_alt)
  then have "unat (4 + ?pl - ucast ?pad) = 4 + unat ?pl - code (raw ! 4)"
    by (simp only: unat_sub p four)
  then have le: "unat (4 + ?pl - ucast ?pad) \<le> unat (4 + ?pl)" using four by simp
  show ?thesis
  proof (cases "length raw < unat (4 + ?pl)")
    case True
    then show ?thesis by (simp add: parse_kexinit_def Let_def)
  next
    case False
    then have "unat (4 + ?pl - ucast ?pad) \<le> length raw" using le by simp
    from read_name_lists_in[OF this, of 6 22] show ?thesis
      by (auto simp: parse_kexinit_def Let_def split: checked.split option.split)
  qed
qed

theorem parse_kexinit_in_bounds_witness:
  "parse_kexinit [NUL, NUL, NUL, CHR 0x02, CHR 0x01, CHR 0x14] \<noteq> OutOfBounds"
  by (rule parse_kexinit_in_bounds) (simp_all add: unat_get_be32)

text \<open>The subtraction of the padding wraps: six bytes from a server, a packet length of 2 with 255
  bytes of padding, make the parser read behind the end of the buffer.\<close>

theorem parse_kexinit_wraps:
  "parse_kexinit [NUL, NUL, NUL, CHR 0x02, CHR 0xFF, CHR 0x14] = OutOfBounds"
proof -
  have pl: "get_be32 (byte_of NUL) (byte_of NUL) (byte_of NUL) (byte_of (CHR 0x02)) = 2"
    by (simp add: word_unat_eq_iff unat_get_be32)
  have b: "byte_of (CHR 0xFF) = 255" "byte_of (CHR 0x14) = 20"
    by (simp_all add: byte_of_def)
  let ?raw = "[NUL, NUL, NUL, CHR 0x02, CHR 0xFF, CHR 0x14]"
  have e: "unat (4 + 2 - ucast (255 :: byte) :: 32 word) = 4294967047" by simp
  have "read_name_list ?raw 22 4294967047 = OutOfBounds"
    by (simp add: read_name_list_def raw_be32_def raw_byte_def)
  then have l: "read_name_lists ?raw (Suc 5) 22 4294967047 = OutOfBounds"
    by (simp only: read_name_lists.simps checked.case)
  have n: "?raw ! 0 = NUL" "?raw ! 1 = NUL" "?raw ! 2 = NUL" "?raw ! 3 = CHR 0x02" "?raw ! 4 = CHR 0xFF"
    "?raw ! 5 = CHR 0x14" "length ?raw = 6"
    by simp_all
  have s: "(6::nat) = Suc 5" by simp
  show ?thesis
    unfolding parse_kexinit_def Let_def n pl b e s[symmetric] using l[folded s] by simp
qed

end
