(* ===== verification/TlsChecks.thy ===== *)
theory TlsChecks
  imports Terrapin
begin

text \<open>
  \<open>protocols/tls/checks.cpp\<close> and \<open>run_native_checks\<close> of \<open>scan/cve.cpp\<close>: the TLS checks of a
  port, over the handshake of \<open>Transport\<close>, and the registry of the native checks.  The clock is a
  parameter; a check returns its finding, when there is one, and the next world.
\<close>

type_synonym 'w clock = "'w \<Rightarrow> 64 word \<times> 'w"

definition port_looks_like_tls :: "Port \<Rightarrow> bool" where
  "port_looks_like_tls port = (p_number port \<in> {443, 465, 636, 989, 990, 993, 995, 5061, 8443})"

definition make_finding ::
  "'w clock \<Rightarrow> Port \<Rightarrow> string \<Rightarrow> string \<Rightarrow> Severity \<Rightarrow> string \<Rightarrow> 'w \<Rightarrow> Finding \<times> 'w" where
  "make_finding clock port plugin_name title sev description w =
     (let (now, w) = clock w in
      (finding_default
         \<lparr>f_plugin_name := plugin_name, f_title := title, f_severity := sev, f_confidence := C_VERIFIED,
          f_confidence_score := d_of_dec False 99 (-2), f_verification := ''ACTIVE_CHECK'',
          f_timestamp := now, f_port_number := p_number port, f_service := p_service port,
          f_product := p_product port, f_version := p_version port, f_description := description,
          f_evidence := description,
          f_evidence_data := \<lparr>e_type = ''protocol'', e_source = ''tls-handshake'', e_value = description,
            e_details = plugin_name\<rparr>\<rparr>, w))"

definition tls_finding ::
  "'w clock \<Rightarrow> Port \<Rightarrow> string \<Rightarrow> string \<Rightarrow> Severity \<Rightarrow> string \<Rightarrow> 'w \<Rightarrow> Finding option \<times> 'w" where
  "tls_finding clock port plugin_name title sev description w =
     apfst Some (make_finding clock port plugin_name title sev description w)"

section \<open>Checks on the report of the first handshake\<close>

definition check_tls_supported :: "'w clock \<Rightarrow> Port \<Rightarrow> TlsHandshakeReport \<Rightarrow> 'w \<Rightarrow> Finding option \<times> 'w" where
  "check_tls_supported clock port handshake w =
     tls_finding clock port ''tls-supported''
       (''TLS/SSL service detected on port '' @ show_nat (unat (p_number port))) INFO
       (''The service on this port accepts TLS connections. Protocol negotiated: '' @
        tr_protocol_version handshake @ ''. Cipher: '' @ tr_cipher_name handshake @ ''.'') w"

definition check_certificate_expired ::
  "'w clock \<Rightarrow> Port \<Rightarrow> TlsHandshakeReport \<Rightarrow> 'w \<Rightarrow> Finding option \<times> 'w" where
  "check_certificate_expired clock port handshake w =
     (let cert = tr_certificate handshake in
      if \<not> tr_certificate_present handshake then (None, w)
      else if \<not> tc_expired cert then (None, w)
      else tls_finding clock port ''tls-cert-expired'' ''SSL Certificate Expired'' HIGH
             (''The X.509 certificate served by the TLS endpoint is expired. Subject: '' @ tc_subject cert @
              ''. Not After: '' @ tc_not_after cert @ ''. Days since expiry: '' @
              show_int (- tc_days_until_expiry cert) @ ''.'') w)"

definition check_certificate_self_signed ::
  "'w clock \<Rightarrow> Port \<Rightarrow> TlsHandshakeReport \<Rightarrow> 'w \<Rightarrow> Finding option \<times> 'w" where
  "check_certificate_self_signed clock port handshake w =
     (let cert = tr_certificate handshake in
      if \<not> tr_certificate_present handshake then (None, w)
      else if \<not> tc_self_signed cert then (None, w)
      else tls_finding clock port ''tls-cert-self-signed'' ''SSL Self-Signed Certificate'' MEDIUM
             (''The X.509 certificate served by the TLS endpoint is self-signed, meaning it is '' @
              ''not issued by a trusted certificate authority. Clients will not be able to verify '' @
              ''the identity of the server. Subject: '' @ tc_subject cert @ ''.'') w)"

text \<open>The reason a signature algorithm is weak, if it is.\<close>

definition weak_signature_reason :: "string \<Rightarrow> string option" where
  "weak_signature_reason sig =
     (if str_contains sig ''md5'' then Some ''MD5-based signature (broken hash)''
      else if str_contains sig ''sha1'' \<or> str_contains sig ''sha-1''
      then Some ''SHA-1 signature (deprecated, collision-vulnerable)''
      else None)"

definition check_weak_signature ::
  "'w clock \<Rightarrow> Port \<Rightarrow> TlsHandshakeReport \<Rightarrow> 'w \<Rightarrow> Finding option \<times> 'w" where
  "check_weak_signature clock port handshake w =
     (if \<not> tr_certificate_present handshake then (None, w)
      else
        let sig = tc_signature_algorithm (tr_certificate handshake) in
        case weak_signature_reason sig of
          None \<Rightarrow> (None, w)
        | Some reason \<Rightarrow>
            tls_finding clock port ''tls-cert-weak-signature''
              ''SSL Certificate Signed With Weak Hash Algorithm'' MEDIUM
              (''The X.509 certificate uses a weak signature algorithm: '' @ sig @ '' ('' @ reason @
               ''). Modern trust stores reject or warn on such certificates.'') w)"

definition old_protocol :: "string \<Rightarrow> (Severity \<times> string) option" where
  "old_protocol v =
     (if v = ''SSLv3'' then Some (HIGH, ''SSLv3 is broken (POODLE, CVE-2014-3566) and must be disabled'')
      else if v = ''TLSv1'' \<or> v = ''TLSv1.0'' then
        Some (MEDIUM, ''TLS 1.0 is deprecated (BEAST, RFC 8996) and must be disabled'')
      else if v = ''TLSv1.1'' then Some (MEDIUM, ''TLS 1.1 is deprecated (RFC 8996) and must be disabled'')
      else None)"

definition check_old_protocol ::
  "'w clock \<Rightarrow> Port \<Rightarrow> TlsHandshakeReport \<Rightarrow> 'w \<Rightarrow> Finding option \<times> 'w" where
  "check_old_protocol clock port handshake w =
     (let v = tr_protocol_version handshake in
      case old_protocol v of
        None \<Rightarrow> (None, w)
      | Some (sev, reason) \<Rightarrow>
          tls_finding clock port ''tls-old-protocol'' (''Deprecated TLS Protocol Version ('' @ v @ '')'') sev
            (''The server negotiated a deprecated TLS protocol version ('' @ v @ ''). '' @ reason @ ''.'') w)"

section \<open>Checks that open a handshake of their own\<close>

definition cipher_is_anonymous :: "string \<Rightarrow> bool" where
  "cipher_is_anonymous name \<longleftrightarrow>
     has_prefix ''ADH-'' name \<or> has_prefix ''AECDH-'' name \<or> str_contains name ''-ANON-''"

definition cipher_is_null :: "string \<Rightarrow> bool" where
  "cipher_is_null name \<longleftrightarrow>
     str_contains name ''-NULL-'' \<or> has_prefix ''NULL-'' name \<or>
     (str_contains name ''-NULL'' \<and> \<not> str_contains name ''-NULL@'')"

text \<open>
  The common shape: a handshake with a cipher list, and a finding when it succeeds with a cipher
  that the check is about.
\<close>

definition check_cipher_list ::
  "'w os \<Rightarrow> 'w ssl \<Rightarrow> 'w clock \<Rightarrow> Port \<Rightarrow> string \<Rightarrow> string \<Rightarrow> (string \<Rightarrow> bool) \<Rightarrow> string \<Rightarrow> string \<Rightarrow>
   Severity \<Rightarrow> (string \<Rightarrow> string) \<Rightarrow> 'w \<Rightarrow> Finding option \<times> 'w" where
  "check_cipher_list os ssl clock port target_ip ciphers accept plugin_name title sev describe w =
     (let (handshake, w) =
            handshake_with_ciphers os ssl target_ip (int (unat (p_number port))) ciphers 3000 w
      in if tr_result handshake \<noteq> TLS_OK then (None, w)
         else if \<not> accept (tr_cipher_name handshake) then (None, w)
         else tls_finding clock port plugin_name title sev (describe (tr_cipher_name handshake)) w)"

definition check_anonymous_ciphers ::
  "'w os \<Rightarrow> 'w ssl \<Rightarrow> 'w clock \<Rightarrow> Port \<Rightarrow> string \<Rightarrow> 'w \<Rightarrow> Finding option \<times> 'w" where
  "check_anonymous_ciphers os ssl clock port target_ip =
     check_cipher_list os ssl clock port target_ip ''aNULL'' cipher_is_anonymous ''tls-anonymous-ciphers''
       ''SSL Anonymous Cipher Suites Supported'' HIGH
       (\<lambda>name.
         ''The TLS server accepted an anonymous cipher suite ('' @ name @
         ''). Anonymous ciphers offer no way to verify the server'' @ [CHR 0x27] @ ''s identity and expose '' @
         ''connections to man-in-the-middle attacks. Reconfigure the service to disable anonymous '' @
         ''cipher suites (ADH / AECDH).'')"

text \<open>The description has a dash outside ASCII, three bytes of UTF-8.\<close>

definition check_null_ciphers ::
  "'w os \<Rightarrow> 'w ssl \<Rightarrow> 'w clock \<Rightarrow> Port \<Rightarrow> string \<Rightarrow> 'w \<Rightarrow> Finding option \<times> 'w" where
  "check_null_ciphers os ssl clock port target_ip =
     check_cipher_list os ssl clock port target_ip ''eNULL'' cipher_is_null ''tls-null-ciphers''
       ''SSL NULL Cipher Suites Supported'' CRITICAL
       (\<lambda>name.
         ''The TLS server accepted a NULL-encryption cipher suite ('' @ name @
         ''). NULL ciphers provide integrity but no confidentiality '' @ [CHR 0xE2, CHR 0x80, CHR 0x94] @
         '' all data is sent in plain text over the wire. Disable NULL cipher suites (eNULL).'')"

record WeakCipherGroup =
  wg_openssl_expr :: string
  wg_finding_id :: string
  wg_title :: string
  wg_severity :: Severity
  wg_reason :: string
  wg_cipher_name_marker :: string

definition weak_cipher_groups :: "WeakCipherGroup list" where
  "weak_cipher_groups =
     [\<lparr>wg_openssl_expr = ''RC4'', wg_finding_id = ''tls-rc4-supported'',
       wg_title = ''SSL RC4 Cipher Suites Supported'', wg_severity = HIGH,
       wg_reason = ''RC4 has known biases that allow plaintext recovery (RFC 7465, CVE-2013-2566).'',
       wg_cipher_name_marker = ''RC4''\<rparr>,
      \<lparr>wg_openssl_expr = ''3DES'', wg_finding_id = ''tls-3des-supported'',
       wg_title = ''SSL 3DES Cipher Suites Supported (Sweet32)'', wg_severity = MEDIUM,
       wg_reason = ''3DES uses a 64-bit block size and is vulnerable to birthday attacks on long sessions '' @
         ''(Sweet32, CVE-2016-2183).'',
       wg_cipher_name_marker = ''3DES''\<rparr>,
      \<lparr>wg_openssl_expr = ''DES:!3DES'', wg_finding_id = ''tls-des-supported'',
       wg_title = ''SSL DES Cipher Suites Supported'', wg_severity = HIGH,
       wg_reason = ''Single-DES uses a 56-bit key that is trivially brute-forced with modern hardware.'',
       wg_cipher_name_marker = ''-DES-''\<rparr>,
      \<lparr>wg_openssl_expr = ''EXPORT'', wg_finding_id = ''tls-export-supported'',
       wg_title = ''SSL Export-Grade Cipher Suites Supported (FREAK/Logjam)'', wg_severity = HIGH,
       wg_reason = ''Export-grade ciphers use 40- or 56-bit keys and are broken by design (FREAK '' @
         ''CVE-2015-0204, Logjam CVE-2015-4000).'',
       wg_cipher_name_marker = ''EXP''\<rparr>]"

definition check_weak_cipher_group ::
  "'w os \<Rightarrow> 'w ssl \<Rightarrow> 'w clock \<Rightarrow> Port \<Rightarrow> string \<Rightarrow> WeakCipherGroup \<Rightarrow> 'w \<Rightarrow> Finding option \<times> 'w" where
  "check_weak_cipher_group os ssl clock port target_ip grp =
     check_cipher_list os ssl clock port target_ip (wg_openssl_expr grp)
       (\<lambda>name. str_contains name (wg_cipher_name_marker grp)) (wg_finding_id grp) (wg_title grp)
       (wg_severity grp)
       (\<lambda>name.
         ''The TLS server accepted a weak cipher suite ('' @ name @ ''). '' @ wg_reason grp @
         '' Disable this cipher category on the server.'')"

section \<open>All checks of a port\<close>

text \<open>The checks in order; each finding is pushed when there is one.\<close>

fun push_findings :: "('w \<Rightarrow> Finding option \<times> 'w) list \<Rightarrow> 'w \<Rightarrow> Finding list \<times> 'w" where
  "push_findings [] w = ([], w)"
| "push_findings (check # checks) w =
     (let (f, w) = check w; (fs, w) = push_findings checks w in
      ((case f of None \<Rightarrow> fs | Some x \<Rightarrow> x # fs), w))"

definition tls_prefix :: "Port \<Rightarrow> string" where
  "tls_prefix port = ''port/'' @ show_nat (unat (p_number port)) @ ''/tls/''"

definition bool_text :: "bool \<Rightarrow> string" where
  "bool_text b = (if b then ''true'' else ''false'')"

definition tls_facts :: "Port \<Rightarrow> TlsHandshakeReport \<Rightarrow> KnowledgeBase \<Rightarrow> KnowledgeBase" where
  "tls_facts port handshake kb =
     (let pref = tls_prefix port; cert = tr_certificate handshake;
          kb = kb_set (pref @ ''cipher'') (tr_cipher_name handshake)
                 (kb_set (pref @ ''protocol_version'') (tr_protocol_version handshake) kb)
      in if \<not> tr_certificate_present handshake then kb
         else kb_set (pref @ ''cert_expired'') (bool_text (tc_expired cert))
                (kb_set (pref @ ''cert_self_signed'') (bool_text (tc_self_signed cert))
                  (kb_set (pref @ ''cert_signature_algorithm'') (tc_signature_algorithm cert)
                    (kb_set (pref @ ''cert_not_after'') (tc_not_after cert)
                      (kb_set (pref @ ''cert_issuer'') (tc_issuer cert)
                        (kb_set (pref @ ''cert_subject'') (tc_subject cert) kb))))))"

text \<open>The checks on the report, then the ones with a handshake of their own.\<close>

definition passive_checks :: "'w clock \<Rightarrow> Port \<Rightarrow> TlsHandshakeReport \<Rightarrow> ('w \<Rightarrow> Finding option \<times> 'w) list" where
  "passive_checks clock port handshake =
     [check_tls_supported clock port handshake, check_certificate_expired clock port handshake,
      check_certificate_self_signed clock port handshake, check_weak_signature clock port handshake,
      check_old_protocol clock port handshake]"

definition active_checks ::
  "'w os \<Rightarrow> 'w ssl \<Rightarrow> 'w clock \<Rightarrow> Port \<Rightarrow> string \<Rightarrow> ('w \<Rightarrow> Finding option \<times> 'w) list" where
  "active_checks os ssl clock port target_ip =
     check_anonymous_ciphers os ssl clock port target_ip # check_null_ciphers os ssl clock port target_ip #
     map (check_weak_cipher_group os ssl clock port target_ip) weak_cipher_groups"

definition run_tls_checks ::
  "'w os \<Rightarrow> 'w ssl \<Rightarrow> 'w clock \<Rightarrow> Port \<Rightarrow> string \<Rightarrow> KnowledgeBase \<Rightarrow> 'w \<Rightarrow>
   Finding list \<times> KnowledgeBase \<times> 'w" where
  "run_tls_checks os ssl clock port target_ip kb w =
     (if \<not> port_looks_like_tls port then ([], kb, w)
      else
        let (handshake, w) = tls_handshake os ssl target_ip (int (unat (p_number port))) 3000 w
        in if tr_result handshake \<noteq> TLS_OK then ([], kb, w)
           else
             let kb = tls_facts port handshake kb;
                 (fs, w) = push_findings (passive_checks clock port handshake @ active_checks os ssl clock port target_ip) w
             in (fs, kb, w))"

section \<open>The registry of native checks\<close>

text \<open>The registry holds the Terrapin check for the service \<open>ssh\<close>; the TLS checks follow.\<close>

definition run_native_checks ::
  "'w os \<Rightarrow> 'w ssl \<Rightarrow> 'w clock \<Rightarrow> Port \<Rightarrow> string \<Rightarrow> KnowledgeBase \<Rightarrow> 'w \<Rightarrow>
   (Finding list \<times> KnowledgeBase \<times> 'w) checked" where
  "run_native_checks os ssl clock port target_ip kb w =
     (case (if ''ssh'' \<noteq> p_service port then Done (None, kb, w)
            else check_terrapin os clock port target_ip kb w) of
        OutOfBounds \<Rightarrow> OutOfBounds
      | NoReturn \<Rightarrow> NoReturn
      | Done (f, kb, w) \<Rightarrow>
          let (tls_findings, kb, w) = run_tls_checks os ssl clock port target_ip kb w
          in Done ((case f of None \<Rightarrow> [] | Some x \<Rightarrow> [x]) @ tls_findings, kb, w))"

section \<open>What the checks report\<close>

text \<open>Every finding of these checks is a verified one about the port; the scan fills in host and protocol.\<close>

definition verified_on :: "Port \<Rightarrow> Finding \<Rightarrow> bool" where
  "verified_on port f \<longleftrightarrow>
     f_verification f = ''ACTIVE_CHECK'' \<and> f_confidence f = C_VERIFIED \<and>
     f_port_number f = p_number port \<and> f_service f = p_service port \<and>
     f_product f = p_product port \<and> f_version f = p_version port \<and> f_evidence f \<noteq> [] \<and>
     f_host f = [] \<and> f_protocol f = P_UNKNOWN"

text \<open>A check that can report under one name only.\<close>

definition reports_as :: "Port \<Rightarrow> string \<Rightarrow> ('w \<Rightarrow> Finding option \<times> 'w) \<Rightarrow> bool" where
  "reports_as port name check \<longleftrightarrow>
     (\<forall>w f. fst (check w) = Some f \<longrightarrow> f_plugin_name f = name \<and> verified_on port f)"

lemma tls_finding_report:
  "fst (tls_finding clock port name title sev desc w) \<noteq> None"
  "description \<noteq> [] \<Longrightarrow> fst (tls_finding clock port name title sev description w) = Some f \<Longrightarrow>
     f_plugin_name f = name \<and> verified_on port f"
  by (auto simp: tls_finding_def make_finding_def verified_on_def finding_default_def split: prod.splits)

lemma passive_reports_as:
  "reports_as port ''tls-supported'' (check_tls_supported clock port h)"
  "reports_as port ''tls-cert-expired'' (check_certificate_expired clock port h)"
  "reports_as port ''tls-cert-self-signed'' (check_certificate_self_signed clock port h)"
  "reports_as port ''tls-cert-weak-signature'' (check_weak_signature clock port h)"
  "reports_as port ''tls-old-protocol'' (check_old_protocol clock port h)"
  unfolding reports_as_def check_tls_supported_def check_certificate_expired_def
    check_certificate_self_signed_def check_weak_signature_def check_old_protocol_def Let_def
  by (auto dest!: tls_finding_report(2)[rotated] split: if_splits option.splits prod.splits)

lemma cipher_list_reports_as:
  "(\<And>n. describe n \<noteq> []) \<Longrightarrow>
   reports_as port name (check_cipher_list os ssl clock port ip ciphers accept name title sev describe)"
  unfolding reports_as_def check_cipher_list_def
  by (auto dest!: tls_finding_report(2)[rotated] split: if_splits prod.splits)

lemma active_reports_as:
  "reports_as port ''tls-anonymous-ciphers'' (check_anonymous_ciphers os ssl clock port ip)"
  "reports_as port ''tls-null-ciphers'' (check_null_ciphers os ssl clock port ip)"
  "reports_as port (wg_finding_id g) (check_weak_cipher_group os ssl clock port ip g)"
  unfolding check_anonymous_ciphers_def check_null_ciphers_def check_weak_cipher_group_def
  by (rule cipher_list_reports_as; simp)+

text \<open>Findings come in the order of the checks, at most one of each.\<close>

lemma push_findings_names:
  "list_all2 (reports_as port) names checks \<Longrightarrow>
   subseq (map f_plugin_name (fst (push_findings checks w))) names \<and>
   list_all (verified_on port) (fst (push_findings checks w))"
proof (induction checks arbitrary: names w)
  case (Cons c cs)
  then obtain n ns where ns: "names = n # ns" "reports_as port n c" "list_all2 (reports_as port) ns cs"
    by (auto simp: list_all2_Cons2)
  obtain f w1 where c: "c w = (f, w1)" by fastforce
  from Cons.IH[OF ns(3), of w1] show ?case
    using ns(2)[unfolded reports_as_def, rule_format, of w]
    by (cases f) (auto simp: ns(1) c split: prod.splits)
qed simp

lemma push_findings_Cons:
  "fst (push_findings (c # cs) w) = (case fst (c w) of None \<Rightarrow> [] | Some f \<Rightarrow> [f]) @ fst (push_findings cs (snd (c w)))"
  "snd (push_findings (c # cs) w) = snd (push_findings cs (snd (c w)))"
  by (auto split: prod.splits option.splits)

lemma push_findings_append:
  "fst (push_findings (xs @ ys) w) = fst (push_findings xs w) @ fst (push_findings ys (snd (push_findings xs w)))"
  by (induction xs arbitrary: w) (simp_all add: push_findings_Cons del: push_findings.simps(2))

text \<open>What the report of the handshake alone decides.\<close>

definition passive_names :: "TlsHandshakeReport \<Rightarrow> string list" where
  "passive_names h =
     ''tls-supported'' #
     (if tr_certificate_present h \<and> tc_expired (tr_certificate h) then [''tls-cert-expired''] else []) @
     (if tr_certificate_present h \<and> tc_self_signed (tr_certificate h) then [''tls-cert-self-signed''] else []) @
     (if tr_certificate_present h \<and>
         (\<exists>p\<in>{''md5'', ''sha1'', ''sha-1''}. str_contains (tc_signature_algorithm (tr_certificate h)) p)
      then [''tls-cert-weak-signature''] else []) @
     (if tr_protocol_version h \<in> {''SSLv3'', ''TLSv1'', ''TLSv1.0'', ''TLSv1.1''} then [''tls-old-protocol''] else [])"

definition active_names :: "string list" where
  "active_names = [''tls-anonymous-ciphers'', ''tls-null-ciphers'', ''tls-rc4-supported'', ''tls-3des-supported'',
     ''tls-des-supported'', ''tls-export-supported'']"

definition names_of :: "('w \<Rightarrow> Finding option \<times> 'w) \<Rightarrow> 'w \<Rightarrow> string list" where
  "names_of c w = (case fst (c w) of None \<Rightarrow> [] | Some f \<Rightarrow> [f_plugin_name f])"

lemma push_names_Cons:
  "map f_plugin_name (fst (push_findings (c # cs) w)) =
   names_of c w @ map f_plugin_name (fst (push_findings cs (snd (c w))))"
  by (simp add: push_findings_Cons names_of_def del: push_findings.simps split: option.splits)

lemma names_of_tls_finding:
  "(case fst (tls_finding clock port name title sev desc w) of None \<Rightarrow> [] | Some f \<Rightarrow> [f_plugin_name f]) = [name]"
  by (simp add: tls_finding_def make_finding_def split: prod.splits)

lemma passive_names_of:
  "names_of (check_tls_supported clock port h) w = [''tls-supported'']"
  "names_of (check_certificate_expired clock port h) w =
     (if tr_certificate_present h \<and> tc_expired (tr_certificate h) then [''tls-cert-expired''] else [])"
  "names_of (check_certificate_self_signed clock port h) w =
     (if tr_certificate_present h \<and> tc_self_signed (tr_certificate h) then [''tls-cert-self-signed''] else [])"
  "names_of (check_weak_signature clock port h) w =
     (if tr_certificate_present h \<and>
         (\<exists>p\<in>{''md5'', ''sha1'', ''sha-1''}. str_contains (tc_signature_algorithm (tr_certificate h)) p)
      then [''tls-cert-weak-signature''] else [])"
  "names_of (check_old_protocol clock port h) w =
     (if tr_protocol_version h \<in> {''SSLv3'', ''TLSv1'', ''TLSv1.0'', ''TLSv1.1''} then [''tls-old-protocol''] else [])"
  unfolding names_of_def check_tls_supported_def check_certificate_expired_def check_certificate_self_signed_def
    check_weak_signature_def check_old_protocol_def Let_def
  by (auto simp: names_of_tls_finding weak_signature_reason_def old_protocol_def)

lemma passive_findings:
  "map f_plugin_name (fst (push_findings (passive_checks clock port h) w)) = passive_names h"
  by (simp only: passive_checks_def passive_names_def push_names_Cons passive_names_of push_findings.simps(1)
      fst_conv list.map append_Nil2 append_assoc append_Cons append_Nil)

lemma passive_verified:
  "list_all2 (reports_as port)
     [''tls-supported'', ''tls-cert-expired'', ''tls-cert-self-signed'', ''tls-cert-weak-signature'', ''tls-old-protocol'']
     (passive_checks clock port h)"
  by (simp add: passive_checks_def passive_reports_as)

lemma active_verified:
  "list_all2 (reports_as port) active_names (active_checks os ssl clock port ip)"
proof -
  have "list_all2 (reports_as port) (map wg_finding_id weak_cipher_groups)
      (map (check_weak_cipher_group os ssl clock port ip) weak_cipher_groups)"
    by (simp add: list_all2_conv_all_nth active_reports_as)
  then have "list_all2 (reports_as port)
      (''tls-anonymous-ciphers'' # ''tls-null-ciphers'' # map wg_finding_id weak_cipher_groups)
      (active_checks os ssl clock port ip)"
    by (simp add: active_checks_def active_reports_as)
  then show ?thesis by (simp add: active_names_def weak_cipher_groups_def)
qed

definition sample_os :: "unit os" where
  "sample_os =
     \<lparr>os_socket = \<lambda>t w. (3, w), os_close = \<lambda>fd w. w, os_getfl = \<lambda>fd w. (0, w),
      os_setfl = \<lambda>fd fl w. (0, w), os_connect = \<lambda>fd a p w. ((0, 0), w),
      os_poll = \<lambda>fd e t w. (0, w), os_so_error = \<lambda>fd w. (0, w),
      os_send = \<lambda>fd d w. ((-1, 0), w), os_recv = \<lambda>fd n w. ((-1, []), w),
      os_timeouts = \<lambda>fd a b w. w, os_bind = \<lambda>fd p w. (-1, w), os_sendto = \<lambda>fd d a p w. (-1, w),
      os_recvfrom = \<lambda>fd n w. ((-1, []), w), os_getpid = \<lambda>w. (1, w)\<rparr>"

text \<open>A server that accepts every cipher list with TLS 1.0, a 3DES cipher and an expired certificate.\<close>

definition sample_ssl :: "unit ssl" where
  "sample_ssl =
     \<lparr>ssl_ctx = True, ssl_new = \<lambda>w. (True, w), ssl_connect = \<lambda>fd ip cs w. ((1, SSL_ERROR_OTHER), w),
      ssl_version = \<lambda>w. ''TLSv1'', ssl_cipher = \<lambda>w. Some ''DES-CBC3-SHA'',
      ssl_peer = \<lambda>w. Some \<lparr>x_subject_name = Some \<lparr>xn_oneline = Some ''/CN=a''\<rparr>,
        x_issuer_name = Some \<lparr>xn_oneline = Some ''/CN=b''\<rparr>, x_not_before = None,
        x_not_after = Some \<lparr>at_print = Some ''Jan 1'', at_diff = (-30, 0)\<rparr>, x_name_cmp = -1, x_signature = None\<rparr>,
      ssl_shutdown = \<lambda>w. w\<rparr>"

lemma sample_handshake:
  "handshake_with_ciphers sample_os sample_ssl ip port ciphers t w =
   (case inet_pton ip of None \<Rightarrow> (report_default\<lparr>tr_result := TLS_REFUSED\<rparr>, w) | Some a \<Rightarrow>
     (report_default\<lparr>tr_result := TLS_OK, tr_protocol_version := ''TLSv1'', tr_cipher_name := ''DES-CBC3-SHA'',
        tr_certificate := \<lparr>tc_subject = ''/CN=a'', tc_issuer = ''/CN=b'', tc_not_before = [], tc_not_after = ''Jan 1'',
          tc_signature_algorithm = [], tc_self_signed = False, tc_expired = True, tc_days_until_expiry = -30\<rparr>,
        tr_certificate_present := True\<rparr>, w))"
  by (simp add: handshake_with_ciphers_def connect_tcp_def tls_session_def sample_os_def sample_ssl_def
      extract_cert_info_def cert_simps report_default_def c_str_def split: option.split)

text \<open>C21: The findings of a TLS port, read off the first handshake: when it succeeds on a port of
  the TLS list, the checks report in this order \<open>tls-supported\<close>, then an expired certificate, a
  self-signed one, a weak signature and an old protocol version exactly when the report says so, and
  then at most one finding for each cipher category tried; every finding is an active check with
  evidence, of the port's number, service, product and version.\<close>

theorem tls_checks_verdict:
  assumes "port_looks_like_tls port"
    and "tls_handshake os ssl ip (int (unat (p_number port))) 3000 w = (h, w1)" "tr_result h = TLS_OK"
    and "run_tls_checks os ssl clock port ip kb w = (fs, kb', w')"
  shows "(\<exists>active. map f_plugin_name fs = passive_names h @ active \<and> subseq active active_names) \<and>
    list_all (verified_on port) fs"
proof -
  let ?p = "passive_checks clock port h" and ?a = "active_checks os ssl clock port ip"
  have fs: "fs = fst (push_findings ?p w1) @ fst (push_findings ?a (snd (push_findings ?p w1)))"
    using assms by (simp add: run_tls_checks_def Let_def push_findings_append[symmetric] split: prod.splits)
  show ?thesis
    using push_findings_names[OF passive_verified[of port clock h], of w1]
      push_findings_names[OF active_verified[of port os ssl clock ip], of "snd (push_findings ?p w1)"]
    unfolding fs by (auto simp: passive_findings)
qed

theorem tls_checks_verdict_witness:
  "\<exists>active. map f_plugin_name (fst (run_tls_checks sample_os sample_ssl (\<lambda>w. (0, w))
      (port_default\<lparr>p_number := 443\<rparr>) ''10.0.0.1'' kb_new ())) =
    [''tls-supported'', ''tls-cert-expired'', ''tls-old-protocol''] @ active \<and> subseq active active_names"
proof -
  obtain a where a: "inet_pton ''10.0.0.1'' = Some a"
    by (simp add: inet_pton_def c_str_def is_digit_def digit_val_def)
  let ?port = "port_default\<lparr>p_number := 443\<rparr>"
  obtain fs kb' w' where r: "run_tls_checks sample_os sample_ssl (\<lambda>w. (0, w)) ?port ''10.0.0.1'' kb_new () = (fs, kb', w')"
    using prod_cases3 by blast
  show ?thesis
    using tls_checks_verdict[OF _ _ _ r] 
    by (simp add: tls_handshake_def sample_handshake a passive_names_def port_looks_like_tls_def r str_contains_iff)
qed

text \<open>A port that is not tried, or whose handshake fails, leaves nothing: no finding and no fact.\<close>

theorem tls_checks_quiet:
  assumes "\<not> port_looks_like_tls port \<or>
    tr_result (fst (tls_handshake os ssl ip (int (unat (p_number port))) 3000 w)) \<noteq> TLS_OK"
  shows "fst (run_tls_checks os ssl clock port ip kb w) = [] \<and> fst (snd (run_tls_checks os ssl clock port ip kb w)) = kb"
  using assms by (auto simp: run_tls_checks_def split: prod.splits)

theorem tls_checks_quiet_witness:
  "fst (run_tls_checks sample_os sample_ssl (\<lambda>w. (0, w)) (port_default\<lparr>p_number := 80\<rparr>) ''10.0.0.1'' kb_new ()) = []"
  using tls_checks_quiet[of "port_default\<lparr>p_number := 80\<rparr>" sample_os sample_ssl "''10.0.0.1''" "()" "\<lambda>w. (0, w)" kb_new]
  by (simp add: port_looks_like_tls_def)

section \<open>Sweet32\<close>

text \<open>The names OpenSSL gives to the 3DES suites with RSA, DSS and ECDSA certificates and to the
  anonymous ones.\<close>

definition openssl_3des_names :: "string list" where
  "openssl_3des_names =
     [''DES-CBC3-SHA'', ''EDH-RSA-DES-CBC3-SHA'', ''DHE-RSA-DES-CBC3-SHA'', ''EDH-DSS-DES-CBC3-SHA'',
      ''DHE-DSS-DES-CBC3-SHA'', ''ECDHE-RSA-DES-CBC3-SHA'', ''ECDHE-ECDSA-DES-CBC3-SHA'', ''ADH-DES-CBC3-SHA'',
      ''AECDH-DES-CBC3-SHA'']"

lemma marker_missed:
  assumes "\<not> str_contains (tr_cipher_name (fst (handshake_with_ciphers os ssl ip (int (unat (p_number port)))
      (wg_openssl_expr g) 3000 w))) (wg_cipher_name_marker g)"
  shows "fst (check_weak_cipher_group os ssl clock port ip g w) = None"
  using assms
  by (cases "handshake_with_ciphers os ssl ip (int (unat (p_number port))) (wg_openssl_expr g) 3000 w")
    (simp add: check_weak_cipher_group_def check_cipher_list_def del: append_Cons append_Nil append_assoc)

text \<open>The 3DES check misses a server that negotiates 3DES: the names of the suites say
  \<open>DES-CBC3\<close>, not the marker \<open>3DES\<close>, so the handshake succeeds and no finding is made.\<close>

theorem tls_3des_not_reported:
  assumes "tr_cipher_name (fst (handshake_with_ciphers os ssl ip (int (unat (p_number port))) ''3DES'' 3000 w))
      \<in> set openssl_3des_names"
  shows "fst (check_weak_cipher_group os ssl clock port ip (weak_cipher_groups ! 1) w) = None"
proof (rule marker_missed)
  have "list_all (\<lambda>n. \<not> str_contains n ''3DES'') openssl_3des_names"
    by (simp add: openssl_3des_names_def str_contains_def str_find_def has_prefix_def)
  then show "\<not> str_contains (tr_cipher_name (fst (handshake_with_ciphers os ssl ip (int (unat (p_number port)))
      (wg_openssl_expr (weak_cipher_groups ! 1)) 3000 w))) (wg_cipher_name_marker (weak_cipher_groups ! 1))"
    using assms by (auto simp: list_all_iff weak_cipher_groups_def)
qed

theorem tls_3des_not_reported_witness:
  "fst (check_weak_cipher_group sample_os sample_ssl (\<lambda>w. (0, w)) (port_default\<lparr>p_number := 443\<rparr>) ''10.0.0.1''
     (weak_cipher_groups ! 1) ()) = None"
  by (rule tls_3des_not_reported)
    (simp add: sample_handshake openssl_3des_names_def inet_pton_def c_str_def is_digit_def digit_val_def)

text \<open>The suites of TLS 1.3.  \<open>SSL_set_ciphersuites\<close> knows no others: it refuses the expressions of the
  checks, which leaves the suites of TLS 1.3 on offer, and its result is not looked at.\<close>

definition tls13_suites :: "string list" where
  "tls13_suites =
     [''TLS_AES_256_GCM_SHA384'', ''TLS_CHACHA20_POLY1305_SHA256'', ''TLS_AES_128_GCM_SHA256'', ''TLS_AES_128_CCM_SHA256'',
      ''TLS_AES_128_CCM_8_SHA256'']"

text \<open>So a server that speaks TLS 1.3 hides its weak ciphers: it answers each of the checks with one of these
  suites, and none of them reports anything, whatever the server accepts in older versions.\<close>

theorem tls13_hides_weak_ciphers:
  assumes "g \<in> set weak_cipher_groups"
    and "tr_cipher_name (fst (handshake_with_ciphers os ssl ip (int (unat (p_number port))) (wg_openssl_expr g) 3000 w))
      \<in> set tls13_suites"
  shows "fst (check_weak_cipher_group os ssl clock port ip g w) = None"
proof (rule marker_missed)
  have "list_all (\<lambda>m. list_all (\<lambda>n. \<not> str_contains n m) tls13_suites) (map wg_cipher_name_marker weak_cipher_groups)"
    by (simp add: tls13_suites_def weak_cipher_groups_def str_contains_def str_find_def has_prefix_def)
  then show "\<not> str_contains (tr_cipher_name (fst (handshake_with_ciphers os ssl ip (int (unat (p_number port)))
      (wg_openssl_expr g) 3000 w))) (wg_cipher_name_marker g)"
    using assms by (auto simp: list_all_iff)
qed

theorem tls13_hides_weak_ciphers_witness:
  "list_all (\<lambda>g. fst (check_weak_cipher_group sample_os (sample_ssl\<lparr>ssl_cipher := \<lambda>w. Some ''TLS_AES_256_GCM_SHA384''\<rparr>)
     (\<lambda>w. (0, w)) (port_default\<lparr>p_number := 443\<rparr>) ''10.0.0.1'' g ()) = None) weak_cipher_groups"
proof -
  have "fst (check_weak_cipher_group sample_os (sample_ssl\<lparr>ssl_cipher := \<lambda>w. Some ''TLS_AES_256_GCM_SHA384''\<rparr>)
     (\<lambda>w. (0, w)) (port_default\<lparr>p_number := 443\<rparr>) ''10.0.0.1'' g ()) = None" if "g \<in> set weak_cipher_groups" for g
    by (rule tls13_hides_weak_ciphers[OF that])
      (simp add: handshake_with_ciphers_def connect_tcp_def tls_session_def sample_os_def sample_ssl_def inet_pton_def c_str_def
        is_digit_def digit_val_def text_or_empty_def Let_def tls13_suites_def)
  then show ?thesis by (simp only: list_all_iff) blast
qed

section \<open>What the native checks write\<close>

definition port_prefix :: "16 word \<Rightarrow> string" where
  "port_prefix n = ''port/'' @ show_nat (unat n) @ ''/''"

lemma port_prefix_disjoint:
  assumes "m \<noteq> n" shows "\<not> has_prefix (port_prefix n) (port_prefix m @ rest)"
proof
  assume "has_prefix (port_prefix n) (port_prefix m @ rest)"
  then obtain r where "show_nat (unat m) @ CHR ''/'' # rest = show_nat (unat n) @ CHR ''/'' # r"
    by (auto simp: has_prefix_iff port_prefix_def)
  then have "takeWhile is_digit (show_nat (unat m) @ CHR ''/'' # rest) =
      takeWhile is_digit (show_nat (unat n) @ CHR ''/'' # r)" by (rule arg_cong)
  moreover have "\<not> is_digit (CHR ''/'')" by (simp add: is_digit_def)
  ultimately have "show_nat (unat m) = show_nat (unat n)"
    using takeWhile_show_nat[of "CHR ''/'' # rest" "unat m"] takeWhile_show_nat[of "CHR ''/'' # r" "unat n"]
    by (simp only: list.sel list.distinct simp_thms)
  then show False using assms by (simp add: word_unat_eq_iff)
qed

lemma kb_get_set_other: "\<not> has_prefix p k \<Longrightarrow> kb_get (kb_set (p @ x) v kb) k = kb_get kb k"
  by (auto simp: has_prefix_iff)

lemma tls_facts_other:
  assumes "\<not> has_prefix (port_prefix (p_number port)) k"
  shows "kb_get (tls_facts port h kb) k = kb_get kb k"
proof -
  have "k \<noteq> tls_prefix port @ x" for x
    using assms by (auto simp: tls_prefix_def port_prefix_def has_prefix_iff)
  then show ?thesis by (simp add: tls_facts_def Let_def)
qed

lemma terrapin_facts_other:
  assumes "\<not> has_prefix (port_prefix (p_number port)) k"
  shows "kb_get (terrapin_facts port ki kb) k = kb_get kb k"
proof -
  have "k \<noteq> ''port/'' @ show_nat (unat (p_number port)) @ ''/ssh/'' @ x" for x
    using assms by (auto simp: port_prefix_def has_prefix_iff)
  then show ?thesis by (simp add: terrapin_facts_def Let_def)
qed

lemma check_terrapin_Done:
  assumes "check_terrapin os clock port ip kb w = Done (f, kb', w')"
  shows "(\<forall>x. f = Some x \<longrightarrow> verified_on port x) \<and>
    (\<not> has_prefix (port_prefix (p_number port)) k \<longrightarrow> kb_get kb' k = kb_get kb k)"
proof -
  have v: "verified_on port x" if "terrapin_verdict now port ki = Some x" for now ki x
    using that by (auto simp: terrapin_verdict_def terrapin_finding_def Let_def verified_on_def
        terrapin_evidence_def finding_default_def split: if_splits)
  from assms show ?thesis
    unfolding check_terrapin_def Let_def
    by (auto split: if_splits prod.splits checked.splits option.splits simp: terrapin_facts_other dest: v)
qed

lemma run_tls_checks_report:
  assumes "run_tls_checks os ssl clock port ip kb w = (fs, kb', w')"
  shows "list_all (verified_on port) fs \<and>
    (\<not> has_prefix (port_prefix (p_number port)) k \<longrightarrow> kb_get kb' k = kb_get kb k)"
proof -
  have "list_all (verified_on port)
      (fst (push_findings (passive_checks clock port h @ active_checks os ssl clock port ip) w))" for h w
    using push_findings_names[OF passive_verified[of port clock h]]
      push_findings_names[OF active_verified[of port os ssl clock ip]]
    by (simp add: push_findings_append)
  from assms this[of _ _] show ?thesis
    unfolding run_tls_checks_def Let_def
    by (auto split: if_splits prod.splits simp: tls_facts_other) (metis fst_conv)
qed

lemma run_native_checks_about:
  assumes "run_native_checks os ssl clock port ip kb w = Done (fs, kb', w')"
  shows "list_all (verified_on port) fs \<and>
    (\<forall>k. \<not> has_prefix (port_prefix (p_number port)) k \<longrightarrow> kb_get kb' k = kb_get kb k) \<and>
    (\<forall>m rest. m \<noteq> p_number port \<longrightarrow>
       kb_get kb' (port_prefix m @ rest) = kb_get kb (port_prefix m @ rest))"
proof -
  obtain f kb1 w1 where t: "(if ''ssh'' \<noteq> p_service port then Done (None, kb, w)
      else check_terrapin os clock port ip kb w) = Done (f, kb1, w1)"
    and r: "run_native_checks os ssl clock port ip kb w =
      (let (tls_findings, kb, w) = run_tls_checks os ssl clock port ip kb1 w1
       in Done ((case f of None \<Rightarrow> [] | Some x \<Rightarrow> [x]) @ tls_findings, kb, w))"
    using assms unfolding run_native_checks_def by (auto split: checked.splits)
  obtain ts where ts: "run_tls_checks os ssl clock port ip kb1 w1 = (ts, kb', w')"
    "fs = (case f of None \<Rightarrow> [] | Some x \<Rightarrow> [x]) @ ts"
    using assms r by (auto split: prod.splits)
  have t1: "(\<forall>x. f = Some x \<longrightarrow> verified_on port x) \<and>
      (\<not> has_prefix (port_prefix (p_number port)) k \<longrightarrow> kb_get kb1 k = kb_get kb k)" for k
    using t check_terrapin_Done[of os clock port ip kb w f kb1 w1] by (auto split: if_splits)
  then show ?thesis
    using run_tls_checks_report[OF ts(1)] port_prefix_disjoint
    by (auto simp: ts(2) split: option.splits)
qed

text \<open>C22: The native checks of a port keep to it: whatever the server answers, their findings are of
  its number and its service, every one an active check with evidence, and they write only facts
  below \<open>port/N/\<close>, so that what another port's checks wrote, or wrote about the host, is unchanged.\<close>

theorem native_checks_isolated:
  assumes "run_native_checks os ssl clock port ip kb w = Done (fs, kb', w')"
  shows "list_all (verified_on port) fs \<and>
    (\<forall>k. \<not> has_prefix (port_prefix (p_number port)) k \<longrightarrow> kb_get kb' k = kb_get kb k) \<and>
    (\<forall>m rest. m \<noteq> p_number port \<longrightarrow>
       kb_get kb' (port_prefix m @ rest) = kb_get kb (port_prefix m @ rest))"
  using assms by (rule run_native_checks_about)

theorem native_checks_isolated_witness:
  "run_native_checks sample_os sample_ssl (\<lambda>w. (0, w)) (port_default\<lparr>p_number := 80\<rparr>) ''10.0.0.1'' kb_new ()
     = Done ([], kb_new, ()) \<and>
   kb_get kb_new (port_prefix 443 @ ''tls/cipher'') = None"
proof -
  have r: "run_native_checks sample_os sample_ssl (\<lambda>w. (0, w)) (port_default\<lparr>p_number := 80\<rparr>) ''10.0.0.1'' kb_new ()
     = Done ([], kb_new, ())"
    by (simp add: run_native_checks_def run_tls_checks_def port_looks_like_tls_def port_default_def)
  then show ?thesis using native_checks_isolated[OF r] by (simp add: r)
qed

end
