(* ===== verification/Processor.thy ===== *)
theory Processor
  imports CveDb
begin

text \<open>
  \<open>processor/processor.cpp\<close> and \<open>logging/logging.cpp\<close>: the service patterns and the
  recognition of a distribution in a banner.  The patterns of the file are arbitrary regular
  expressions: \<open>compile\<close> and \<open>search\<close> stand for \<open>std::regex\<close>.  The seven expressions of the
  code itself are modelled with their matcher; they repeat single characters only, and are taken not to
  be too complex for a banner.
\<close>

section \<open>Logging\<close>

datatype stream = Cout | Cerr

type_synonym log_output = "(stream \<times> string) list"

definition log_info :: "string \<Rightarrow> stream \<times> string" where
  "log_info message = (Cout, ''[INFO] '' @ message @ [LF])"

definition log_warn :: "string \<Rightarrow> stream \<times> string" where
  "log_warn message = (Cerr, ''[WARN] '' @ message @ [LF])"

definition log_error :: "string \<Rightarrow> stream \<times> string" where
  "log_error message = (Cerr, ''[ERROR] '' @ message @ [LF])"

section \<open>Service patterns\<close>

record 're ServicePattern =
  sp_pattern :: 're
  sp_service :: string

record 're Processor =
  service_patterns :: "'re ServicePattern list"
  pr_output :: log_output

definition pr_print :: "stream \<times> string \<Rightarrow> 're Processor \<Rightarrow> 're Processor" where
  "pr_print line st = st\<lparr>pr_output := pr_output st @ [line]\<rparr>"

definition add_pattern :: "'re \<Rightarrow> string \<Rightarrow> 're Processor \<Rightarrow> 're Processor" where
  "add_pattern re service st =
     st\<lparr>service_patterns := service_patterns st @ [\<lparr>sp_pattern = re, sp_service = service\<rparr>]\<rparr>"

text \<open>
  The lines of the file.  The number of patterns loaded is returned, or \<open>None\<close> when an
  expression does not compile: the \<open>regex_error\<close> leaves the function, with the patterns of the
  lines before.
\<close>

fun load_lines ::
  "(string \<Rightarrow> bool \<Rightarrow> 're option) \<Rightarrow> string list \<Rightarrow> nat \<Rightarrow> 're Processor \<Rightarrow> nat option \<times> 're Processor" where
  "load_lines compile [] loaded st = (Some loaded, st)"
| "load_lines compile (line # ls) loaded st =
     (if line = [] \<or> hd line = CHR ''#'' then load_lines compile ls loaded st
      else
        let flds = getlines TAB line in
        if flds = [] \<or> flds ! 0 \<noteq> ''match'' then load_lines compile ls loaded st
        else if length flds < 3 then
          load_lines compile ls loaded (pr_print (log_warn (''Invalid line at '' @ line)) st)
        else case compile (flds ! 2) (3 < length flds \<and> flds ! 3 = ''icase'') of
               None \<Rightarrow> (None, st)
             | Some re \<Rightarrow> load_lines compile ls (Suc loaded) (add_pattern re (flds ! 1) st))"

text \<open>\<open>True\<close>: the function returned; \<open>False\<close>: it threw.\<close>

definition load_patterns ::
  "(string \<Rightarrow> bool \<Rightarrow> 're option) \<Rightarrow> string \<Rightarrow> string option \<Rightarrow> 're Processor \<Rightarrow> bool \<times> 're Processor" where
  "load_patterns compile path content st =
     (case content of
        None \<Rightarrow> (True, pr_print (log_error (''Unable to open pattern file at '' @ path)) st)
      | Some text \<Rightarrow>
          (case load_lines compile (getlines LF text) 0 st of
             (None, st) \<Rightarrow> (False, st)
           | (Some loaded, st) \<Rightarrow>
               (True, pr_print (log_info (''Initialized '' @ show_nat loaded @ '' probes from '' @ path)) st)))"

text \<open>
  \<open>search re s\<close> is what \<open>std::regex_search\<close> does: it finds a match, with the text of it and of every group of
  the expression, finds none, or throws \<open>std::regex_error\<close> (the expression is too complex for the text).
\<close>

datatype RegexSearch = Found "string list" | NotFound | RegexError

text \<open>\<open>None\<close>: the exception leaves the function.\<close>

fun detect_service_from ::
  "('re \<Rightarrow> string \<Rightarrow> RegexSearch) \<Rightarrow> 're ServicePattern list \<Rightarrow> Port \<Rightarrow> string \<Rightarrow> Port option" where
  "detect_service_from search [] port banner = Some (port\<lparr>p_service := []\<rparr>)"
| "detect_service_from search (sp # sps) port banner =
     (case search (sp_pattern sp) banner of
        Found matches \<Rightarrow>
          let port = port\<lparr>p_service := sp_service sp\<rparr>;
              port = (if 1 < length matches then port\<lparr>p_product := matches ! 1\<rparr> else port)
          in Some (if 2 < length matches then port\<lparr>p_version := matches ! 2\<rparr> else port)
      | NotFound \<Rightarrow> detect_service_from search sps port banner
      | RegexError \<Rightarrow> None)"

definition detect_service ::
  "('re \<Rightarrow> string \<Rightarrow> RegexSearch) \<Rightarrow> 're Processor \<Rightarrow> Port \<Rightarrow> string \<Rightarrow> Port option" where
  "detect_service search st port banner = detect_service_from search (service_patterns st) port banner"

section \<open>Distributions\<close>

text \<open>
  The expressions of the code: a concatenation of characters, of \<open>[...]+\<close>, of \<open>\b\<close> and of the
  ends of a group.
\<close>

datatype re_item = Lit char | Plus "char \<Rightarrow> bool" | WordBoundary | Open | Close

definition word_char :: "char option \<Rightarrow> bool" where
  "word_char c = (case c of None \<Rightarrow> False | Some x \<Rightarrow> is_alnum x \<or> x = CHR ''_'')"

definition next_char :: "string \<Rightarrow> char option" where
  "next_char s = (case s of [] \<Rightarrow> None | c # _ \<Rightarrow> Some c)"

text \<open>The first that succeeds.\<close>

fun first_some :: "'a option list \<Rightarrow> 'a option" where
  "first_some [] = None"
| "first_some (None # xs) = first_some xs"
| "first_some (Some x # xs) = Some x"

text \<open>
  The match of an expression at a position, by backtracking with the longest repetition first:
  \<open>prev\<close> is the character before the position, \<open>opn\<close> the text from the start of the open group,
  \<open>caps\<close> the groups closed so far.
\<close>

fun match_here :: "re_item list \<Rightarrow> char option \<Rightarrow> string \<Rightarrow> string \<Rightarrow> string list \<Rightarrow> string list option" where
  "match_here [] prev s opn caps = Some caps"
| "match_here (Lit c # is) prev s opn caps =
     (if s \<noteq> [] \<and> hd s = c then match_here is (Some c) (tl s) opn caps else None)"
| "match_here (Plus P # is) prev s opn caps =
     first_some (map (\<lambda>k. match_here is (Some (s ! (k - 1))) (drop k s) opn caps)
       (rev [1..<Suc (length (takeWhile P s))]))"
| "match_here (WordBoundary # is) prev s opn caps =
     (if word_char prev \<noteq> word_char (next_char s) then match_here is prev s opn caps else None)"
| "match_here (Open # is) prev s opn caps = match_here is prev s s caps"
| "match_here (Close # is) prev s opn caps =
     match_here is prev s opn (caps @ [take (length opn - length s) opn])"

text \<open>The leftmost position at which it matches; the result is the list of the groups.\<close>

fun search_from :: "re_item list \<Rightarrow> char option \<Rightarrow> string \<Rightarrow> string list option" where
  "search_from re prev [] = match_here re prev [] [] []"
| "search_from re prev (c # s) =
     (case match_here re prev (c # s) (c # s) [] of
        Some caps \<Rightarrow> Some caps
      | None \<Rightarrow> search_from re (Some c) s)"

definition lits :: "string \<Rightarrow> re_item list" where
  "lits s = map Lit s"

text \<open>\<open>[0-9a-zA-Z.~+_-]\<close>.\<close>

definition revision_char :: "char \<Rightarrow> bool" where
  "revision_char c \<longleftrightarrow> is_alnum c \<or> c \<in> set ''.~+_-''"

record DistroPattern =
  dp_pattern :: "re_item list"
  dp_tag :: string

definition distro_patterns :: "DistroPattern list" where
  "distro_patterns =
     [\<lparr>dp_pattern = Open # lits ''Ubuntu-'' @ [Plus revision_char, Close], dp_tag = ''Ubuntu''\<rparr>,
      \<lparr>dp_pattern = Open # lits ''Debian-'' @ [Plus revision_char, Close], dp_tag = ''Debian''\<rparr>,
      \<lparr>dp_pattern = WordBoundary # lits ''el'' @ [Open, Plus is_digit, Close, Lit (CHR ''_''), Open, Plus is_digit, Close],
       dp_tag = ''RHEL''\<rparr>,
      \<lparr>dp_pattern = lits ''.fc'' @ [Open, Plus is_digit, Close], dp_tag = ''Fedora''\<rparr>,
      \<lparr>dp_pattern = lits ''.amzn'' @ [Open, Plus is_digit, Close], dp_tag = ''AmazonLinux''\<rparr>,
      \<lparr>dp_pattern = lits ''+alpine'', dp_tag = ''Alpine''\<rparr>,
      \<lparr>dp_pattern = lits ''+suse'', dp_tag = ''SUSE''\<rparr>]"

fun detect_distro_from :: "DistroPattern list \<Rightarrow> Port \<Rightarrow> string \<Rightarrow> Port" where
  "detect_distro_from [] port banner = port"
| "detect_distro_from (dp # dps) port banner =
     (case search_from (dp_pattern dp) None banner of
        Some groups \<Rightarrow>
          let port = port\<lparr>p_distro := dp_tag dp\<rparr>
          in if groups \<noteq> [] \<and> groups ! 0 \<noteq> []
             then port\<lparr>p_distro := p_distro port @ '' ('' @ groups ! 0 @ '')''\<rparr> else port
      | None \<Rightarrow> detect_distro_from dps port banner)"

definition detect_distro :: "Port \<Rightarrow> string \<Rightarrow> Port" where
  "detect_distro port banner = detect_distro_from distro_patterns port banner"

section \<open>Loading\<close>

text \<open>A line of the pattern file.\<close>

definition pattern_line :: "string \<times> string \<times> bool \<Rightarrow> string" where
  "pattern_line p = (case p of (service, re, icase) \<Rightarrow>
     ''match'' @ [TAB] @ service @ [TAB] @ re @ (if icase then TAB # ''icase'' else []))"

definition plain_field :: "string \<Rightarrow> bool" where
  "plain_field f \<longleftrightarrow> f \<noteq> [] \<and> TAB \<notin> set f \<and> LF \<notin> set f"

definition good_pattern :: "(string \<Rightarrow> bool \<Rightarrow> 're option) \<Rightarrow> string \<times> string \<times> bool \<Rightarrow> bool" where
  "good_pattern compile p = (case p of (service, re, icase) \<Rightarrow>
     plain_field service \<and> plain_field re \<and> compile re icase \<noteq> None)"

definition compiled :: "(string \<Rightarrow> bool \<Rightarrow> 're option) \<Rightarrow> string \<times> string \<times> bool \<Rightarrow> 're ServicePattern" where
  "compiled compile p = (case p of (service, re, icase) \<Rightarrow>
     \<lparr>sp_pattern = the (compile re icase), sp_service = service\<rparr>)"

lemma pattern_line_fields:
  assumes "plain_field service" "plain_field re"
  shows "getlines TAB (pattern_line (service, re, icase)) =
    [''match'', service, re] @ (if icase then [''icase''] else [])"
  using assms
  by (cases icase) (simp_all add: pattern_line_def plain_field_def getlines_field getlines_last
      getlines_field[of TAB "''match''", simplified] getlines_last[of TAB "''icase''", simplified])

lemma load_lines_patterns:
  assumes "\<forall>p\<in>set ps. good_pattern compile p"
  shows "load_lines compile (map pattern_line ps) n st =
    (Some (n + length ps), st\<lparr>service_patterns := service_patterns st @ map (compiled compile) ps\<rparr>)"
  using assms
proof (induction ps arbitrary: n st)
  case (Cons p ps)
  obtain service re icase where p: "p = (service, re, icase)" by (cases p)
  then have ok: "plain_field service" "plain_field re" and "compile re icase \<noteq> None"
    using Cons.prems by (auto simp: good_pattern_def)
  then obtain c where c: "compile re icase = Some c" by blast
  have ne: "pattern_line p \<noteq> []" "hd (pattern_line p) = CHR ''m''" by (simp_all add: p pattern_line_def)
  have "load_lines compile (map pattern_line (p # ps)) n st =
      load_lines compile (map pattern_line ps) (Suc n) (add_pattern c service st)"
    using pattern_line_fields[OF ok, of icase] ne c by (cases icase) (simp_all add: p Let_def)
  then show ?case using Cons by (simp add: add_pattern_def p compiled_def c)
qed simp

text \<open>Loading a written pattern file gives the patterns back: for any list of services and
  expressions that compile, free of tabs and line breaks, with or without \<open>icase\<close>, the patterns are
  added in the order of the file, all of them, and their number is logged.\<close>

theorem load_patterns_roundtrip:
  assumes "\<forall>p\<in>set ps. good_pattern compile p"
  shows "load_patterns compile path (Some (unlines (map pattern_line ps))) st =
    (True, st\<lparr>service_patterns := service_patterns st @ map (compiled compile) ps,
      pr_output := pr_output st @ [log_info (''Initialized '' @ show_nat (length ps) @ '' probes from '' @ path)]\<rparr>)"
proof -
  have "LF \<notin> set (pattern_line p)" if "p \<in> set ps" for p
    using assms that by (auto simp: good_pattern_def plain_field_def pattern_line_def split: prod.splits)
  then have "getlines LF (unlines (map pattern_line ps)) = map pattern_line ps"
    by (intro getlines_unlines) auto
  then show ?thesis
    by (simp add: load_patterns_def load_lines_patterns[OF assms] pr_print_def)
qed

theorem load_patterns_roundtrip_witness:
  "fst (load_patterns (\<lambda>re icase. Some (re, icase)) ''p.txt''
     (Some (unlines (map pattern_line [(''ssh'', ''^SSH-'', False), (''http'', ''^http/1'', True)])))
     \<lparr>service_patterns = [], pr_output = []\<rparr>)"
  by (subst load_patterns_roundtrip) (simp_all add: good_pattern_def plain_field_def)

section \<open>From the banner to the backport check\<close>

lemma match_lits:
  "match_here (lits p @ is) prev s opn caps =
     (if has_prefix p s then match_here is (if p = [] then prev else Some (last p)) (drop (length p) s) opn caps
      else None)"
proof (induction p arbitrary: prev s)
  case (Cons c p)
  then show ?case by (cases s) (auto simp: lits_def has_prefix_def)
qed (simp add: lits_def)

lemma first_some_hd: "xs \<noteq> [] \<Longrightarrow> hd xs = Some y \<Longrightarrow> first_some xs = Some y"
  by (cases xs) auto

text \<open>A group of a text and the longest run of a class after it.\<close>

lemma match_group:
  "match_here (Open # lits p @ [Plus P, Close]) prev s opn [] =
     (if has_prefix p s \<and> takeWhile P (drop (length p) s) \<noteq> []
      then Some [p @ takeWhile P (drop (length p) s)] else None)"
proof -
  define r where "r = drop (length p) s"
  define v where "v = takeWhile P r"
  have "match_here [Plus P, Close] q r s [] = (if v \<noteq> [] then Some [take (length s - (length r - length v)) s] else None)"
    for q
  proof (cases "v = []")
    case False
    then have "rev [1..<Suc (length v)] = length v # rev [1..<length v]" by (simp add: Suc_le_eq)
    then show ?thesis using False unfolding v_def by simp
  qed (simp add: v_def)
  moreover have "take (length s - (length r - length v)) s = p @ v" if "has_prefix p s"
  proof -
    have s: "s = p @ r" using that unfolding has_prefix_def r_def by (metis append_take_drop_id)
    have r: "r = v @ dropWhile P r" unfolding v_def by simp
    have "length s - (length r - length v) = length (p @ v)"
      unfolding s using arg_cong[OF r, of length] by simp
    moreover have "take (length (p @ v)) (p @ v @ dropWhile P r) = p @ v" by simp
    ultimately show ?thesis using s r by metis
  qed
  ultimately show ?thesis
    by (simp add: match_lits r_def[symmetric] v_def[symmetric])
qed

lemma search_group_none:
  "\<not> str_contains s p \<Longrightarrow> search_from (Open # lits p @ [Plus P, Close]) prev s = None"
proof (induction s arbitrary: prev)
  case (Cons c s)
  then have "\<not> has_prefix p (c # s)" "\<not> str_contains s p"
    by (force simp: str_contains_iff has_prefix_iff, metis append_Cons str_contains_iff)
  with Cons.IH show ?case by (simp add: match_group del: match_here.simps)
qed (auto simp: match_group str_contains_iff has_prefix_iff simp del: match_here.simps)

text \<open>The first occurrence of the text decides.\<close>

lemma search_group:
  assumes "p \<noteq> []" "\<not> str_contains (pre @ butlast p) p" "v \<noteq> []" "\<forall>c\<in>set v. P c" "post = [] \<or> \<not> P (hd post)"
  shows "search_from (Open # lits p @ [Plus P, Close]) prev (pre @ p @ v @ post) = Some [p @ v]"
  using assms(2)
proof (induction pre arbitrary: prev)
  case Nil
  have "takeWhile P (v @ post) = v" using assms(4,5) by (cases post) (auto simp: takeWhile_append)
  then have "match_here (Open # lits p @ [Plus P, Close]) prev (p @ v @ post) (p @ v @ post) [] = Some [p @ v]"
    using assms(3) by (simp add: match_group del: match_here.simps)
  then show ?case using assms(1) by (cases "p @ v @ post") (auto simp del: match_here.simps)
next
  case (Cons c pre)
  have "\<not> has_prefix p (c # pre @ p @ v @ post)"
  proof
    assume "has_prefix p (c # pre @ p @ v @ post)"
    then have "take (length p) ((c # pre) @ p @ v @ post) = p" by (simp add: has_prefix_def)
    moreover have "length p \<le> length ((c # pre) @ butlast p)" by simp
    moreover have "(c # pre) @ p @ v @ post = ((c # pre) @ butlast p) @ [last p] @ v @ post"
      using assms(1) by (simp add: append_butlast_last_id)
    ultimately have "take (length p) ((c # pre) @ butlast p) = p" by (metis take_append diff_is_0_eq take0 append_Nil2)
    then show False using Cons.prems by (metis append_take_drop_id append_Nil str_contains_iff)
  qed
  moreover have "\<not> str_contains (pre @ butlast p) p" using Cons.prems by (metis append_Cons str_contains_iff)
  ultimately show ?case using Cons.IH by (simp add: match_group del: match_here.simps)
qed

text \<open>The tag of a distribution, read back by the backport check.\<close>

definition distro_text :: "string \<Rightarrow> string \<Rightarrow> string" where
  "distro_text os v = os @ '' ('' @ os @ ''-'' @ v @ '')''"

lemma revision_char_plain: "revision_char c \<Longrightarrow> c \<noteq> CHR ''('' \<and> c \<noteq> CHR '')''"
  by (auto simp: revision_char_def is_alnum_def is_alpha_def is_upper_def is_lower_def is_digit_def)

lemma rfind_open: "CHR ''('' \<notin> set b \<Longrightarrow> str_rfind_char (a @ CHR ''('' # b) (CHR ''('') = Some (length a)"
  by (simp add: str_rfind_char_append str_rfind_char_None)

lemma rfind_close: "str_rfind_char (a @ [CHR '')'']) (CHR '')'') = Some (length a)"
  by (simp add: str_rfind_char_append)

lemma parse_distro_text:
  assumes "v \<noteq> []" "\<forall>c\<in>set v. revision_char c" "CHR ''('' \<notin> set os"
    and name: "name = (if str_contains (lower (distro_text os v)) ''ubuntu'' then ''ubuntu''
      else if str_contains (lower (distro_text os v)) ''debian'' then ''debian'' else [])" "name \<noteq> []"
  shows "parse_distro_tag (distro_text os v) =
    \<lparr>dt_distro = name, dt_revision = strip_prefix (strip_prefix (os @ ''-'' @ v) ''Ubuntu-'') ''Debian-''\<rparr>"
proof -
  have nov: "CHR ''('' \<notin> set v" using assms(2) revision_char_plain by blast
  have o: "str_rfind_char (distro_text os v) (CHR ''('') = Some (length os + 1)"
    using rfind_open[of "os @ ''-'' @ v @ '')''" "os @ '' ''"] nov assms(3) by (simp add: distro_text_def)
  have c: "str_rfind_char (distro_text os v) (CHR '')'') = Some (length os + 1 + (1 + length (os @ ''-'' @ v)))"
    using rfind_close[of "os @ '' ('' @ os @ ''-'' @ v"] by (simp add: distro_text_def)
  have body: "take (length (os @ ''-'' @ v)) (drop (length os + 2) (distro_text os v)) = os @ ''-'' @ v"
    by (simp add: distro_text_def)
  show ?thesis
    using body unfolding parse_distro_tag_def Let_def o c name(1)[symmetric] option.case prod.case
    by (simp add: name(2) add.commute)
qed

text \<open>The revision of an Ubuntu package travels from the banner to the backport check: for any
  banner in which \<open>Ubuntu-\<close> is first followed by a revision of the characters of package versions,
  the tag that \<open>detect_distro\<close> stores is read by the backport check as the distribution \<open>ubuntu\<close>
  with exactly that revision.\<close>

theorem ubuntu_revision_travels:
  assumes "v \<noteq> []" "\<forall>c\<in>set v. revision_char c" "post = [] \<or> \<not> revision_char (hd post)"
    and "\<not> str_contains (pre @ ''Ubuntu'') ''Ubuntu-''" "\<not> has_prefix ''Debian-'' v"
  shows "parse_distro_tag (p_distro (detect_distro port (pre @ ''Ubuntu-'' @ v @ post))) =
    \<lparr>dt_distro = ''ubuntu'', dt_revision = v\<rparr>"
proof -
  have "search_from (Open # lits ''Ubuntu-'' @ [Plus revision_char, Close]) None (pre @ ''Ubuntu-'' @ v @ post)
      = Some [''Ubuntu-'' @ v]"
    by (rule search_group) (use assms(1-4) in simp_all)
  then have d: "p_distro (detect_distro port (pre @ ''Ubuntu-'' @ v @ post)) = distro_text ''Ubuntu'' v"
    by (simp add: detect_distro_def distro_patterns_def distro_text_def)
  have "lower (distro_text ''Ubuntu'' v) = ''ubuntu'' @ lower ('' (Ubuntu-'' @ v @ '')'')"
    by (simp add: distro_text_def lower_def to_lower_char_def is_upper_def char_of_def bit_0)
  then have "str_contains (lower (distro_text ''Ubuntu'' v)) ''ubuntu''"
    unfolding str_contains_iff by (metis append_Nil)
  moreover have "strip_prefix (strip_prefix (''Ubuntu'' @ ''-'' @ v) ''Ubuntu-'') ''Debian-'' = v"
    using assms(5) by (simp add: strip_prefix_def has_prefix_def)
  ultimately show ?thesis
    unfolding d using parse_distro_text[OF assms(1,2), of "''Ubuntu''" "''ubuntu''"] by simp
qed

theorem ubuntu_revision_travels_witness:
  "parse_distro_tag (p_distro (detect_distro port_default
     (''SSH-2.0-OpenSSH_8.9p1 '' @ ''Ubuntu-'' @ ''3ubuntu0.10'' @ [CR, LF]))) =
   \<lparr>dt_distro = ''ubuntu'', dt_revision = ''3ubuntu0.10''\<rparr>"
  by (rule ubuntu_revision_travels)
    (simp_all add: revision_char_def is_alnum_def is_alpha_def is_upper_def is_lower_def is_digit_def
      str_contains_def str_find_def has_prefix_def)

text \<open>The same for Debian, when the text does not mention Ubuntu.\<close>

theorem debian_revision_travels:
  assumes "v \<noteq> []" "\<forall>c\<in>set v. revision_char c" "post = [] \<or> \<not> revision_char (hd post)"
    and "\<not> str_contains (pre @ ''Debian'') ''Debian-''"
    and "\<not> str_contains (pre @ ''Debian-'' @ v @ post) ''Ubuntu-''"
    and "\<not> str_contains (lower (distro_text ''Debian'' v)) ''ubuntu''"
  shows "parse_distro_tag (p_distro (detect_distro port (pre @ ''Debian-'' @ v @ post))) =
    \<lparr>dt_distro = ''debian'', dt_revision = v\<rparr>"
proof -
  have "search_from (Open # lits ''Debian-'' @ [Plus revision_char, Close]) None (pre @ ''Debian-'' @ v @ post)
      = Some [''Debian-'' @ v]"
    by (rule search_group) (use assms(1-4) in simp_all)
  moreover note search_group_none[OF assms(5), of revision_char None]
  ultimately have d: "p_distro (detect_distro port (pre @ ''Debian-'' @ v @ post)) = distro_text ''Debian'' v"
    by (simp add: detect_distro_def distro_patterns_def distro_text_def)
  have "lower (distro_text ''Debian'' v) = ''debian'' @ lower ('' (Debian-'' @ v @ '')'')"
    by (simp add: distro_text_def lower_def to_lower_char_def is_upper_def char_of_def bit_0)
  then have "str_contains (lower (distro_text ''Debian'' v)) ''debian''"
    unfolding str_contains_iff by (metis append_Nil)
  moreover have "strip_prefix (strip_prefix (''Debian'' @ ''-'' @ v) ''Ubuntu-'') ''Debian-'' = v"
    by (simp add: strip_prefix_def has_prefix_def)
  ultimately show ?thesis
    unfolding d using parse_distro_text[OF assms(1,2), of "''Debian''" "''debian''"] assms(6) by simp
qed

end
