(* ===== verification/TcpRange.thy ===== *)
theory TcpRange
  imports TlsChecks ZtlSafety Processor "HOL-Library.Multiset"
begin

text \<open>
  \<open>scan/tcp_range.cpp\<close>: the scan of the ports of a host.  The tasks of the pool run here one after the
  other in an arbitrary order, which is an argument; \<open>RangeThreads\<close> interleaves them.  What tasks share,
  they share under a mutex (the two result vectors), through atomic steps (the knowledge base, the
  progress counter) or only read it (patterns, plugins, databases).  \<open>std::sort\<close> is an argument too: it is not stable, so
  what is proved here holds for every function that sorts.
\<close>

section \<open>Findings of plugins\<close>

definition severity_of_text :: "string \<Rightarrow> Severity" where
  "severity_of_text s =
     (let sev = upper s in
      if sev = ''CRITICAL'' then CRITICAL
      else if sev = ''HIGH'' then HIGH
      else if sev = ''MEDIUM'' then MEDIUM
      else if sev = ''LOW'' then LOW
      else INFO)"

definition confidence_of_text :: "string \<Rightarrow> Confidence" where
  "confidence_of_text verification =
     (if verification = ''ACTIVE_CHECK'' then C_VERIFIED
      else if verification = ''VERSION_MATCH'' then C_VERSION_MATCH
      else C_UNKNOWN)"

definition to_finding :: "FindingOut \<Rightarrow> Finding" where
  "to_finding f =
     \<lparr>f_plugin_name = fo_plugin_name f, f_title = fo_title f, f_severity = severity_of_text (fo_severity f),
      f_confidence = confidence_of_text (fo_verification f), f_verification = fo_verification f,
      f_confidence_score = fo_confidence_score f, f_host = fo_host f, f_port_number = fo_port_number f,
      f_protocol = fo_protocol f, f_scope = fo_scope f, f_service = fo_service f, f_product = fo_product f,
      f_version = fo_version f,
      f_description = fo_description f @
        (if fo_evidence f = [] then [] else '' | evidence: '' @ fo_evidence f),
      f_evidence = fo_evidence f, f_evidence_data = fo_evidence_data f, f_references = fo_references f,
      f_remediation = fo_remediation f, f_cvss_vector = fo_cvss_vector f, f_cvss = fo_cvss f,
      f_cve_id = fo_cve_id f, f_timestamp = fo_timestamp f\<rparr>"

section \<open>One open port\<close>

text \<open>An action on the world that may read out of bounds.\<close>

definition in_checked :: "('w \<Rightarrow> ('a \<times> 'w) checked) \<Rightarrow> ('w rt, 'a) comp" where
  "in_checked f s =
     (case f (sc_world (it_ext s)) of
        OutOfBounds \<Rightarrow> (Undef, s)
      | NoReturn \<Rightarrow> (Hang, s)
      | Done (a, w) \<Rightarrow> (Ok a, s\<lparr>it_ext := (it_ext s)\<lparr>sc_world := w\<rparr>\<rparr>))"

definition http_probe :: "string \<Rightarrow> string" where
  "http_probe ip =
     ''GET / HTTP/1.0'' @ [CR, LF] @ ''Host: '' @ ip @ [CR, LF] @ ''Connection: close'' @ [CR, LF, CR, LF]"

definition grab_banner :: "'w os \<Rightarrow> int \<Rightarrow> string \<Rightarrow> 'w \<Rightarrow> (string \<times> 'w) option" where
  "grab_banner os fd ip w =
     (let (banner, w) = tcp_receive os fd 800 w in
      if banner \<noteq> [] then Some (banner, w)
      else case tcp_send os fd (http_probe ip) w of
             None \<Rightarrow> None
           | Some (sent, w) \<Rightarrow> Some (if sent then tcp_receive os fd 800 w else ([], w)))"

text \<open>What recognises services: the patterns of \<open>Processor\<close> with their regular expressions.\<close>

record 're Detector =
  dt_search :: "'re \<Rightarrow> string \<Rightarrow> RegexSearch"
  dt_processor :: "'re Processor"

definition identify :: "'re Detector \<Rightarrow> Port \<Rightarrow> string \<Rightarrow> Port option" where
  "identify dt result banner =
     (if banner = [] then Some result
      else map_option (\<lambda>result. detect_distro result banner)
             (detect_service (dt_search dt) (dt_processor dt) result banner))"

text \<open>\<open>std::regex_error\<close> leaves the task.\<close>

definition identified :: "'re Detector \<Rightarrow> Port \<Rightarrow> string \<Rightarrow> ('s, Port) comp" where
  "identified dt result banner =
     (case identify dt result banner of
        None \<Rightarrow> cthrow (StdException ''regex_error'')
      | Some result \<Rightarrow> cret result)"

definition adopt_detected :: "DetectedInfo \<Rightarrow> Port \<Rightarrow> Port" where
  "adopt_detected detected result =
     (let r = (if di_service detected \<noteq> [] then result\<lparr>p_service := di_service detected\<rparr> else result);
          r = (if di_product detected \<noteq> [] then r\<lparr>p_product := di_product detected\<rparr> else r)
      in if di_version detected \<noteq> [] then r\<lparr>p_version := di_version detected\<rparr> else r)"

text \<open>\<open>check_port\<close> reads the clock once for each of its findings.\<close>

fun read_clocks :: "'w Env \<Rightarrow> nat \<Rightarrow> ('w rt, (64 word) list) comp" where
  "read_clocks env 0 = cret []"
| "read_clocks env (Suc n) =
     cbind (in_world (\<lambda>w. Some (env_now env w))) (\<lambda>t. cbind (read_clocks env n) (\<lambda>ts. cret (t # ts)))"

definition check_port_now :: "'w Env \<Rightarrow> Port \<Rightarrow> ('w rt, Finding list) comp" where
  "check_port_now env port =
     cbind get_cve (\<lambda>st.
       case check_port st (\<lambda>_. 0) port of
         None \<Rightarrow> cstop Hang
       | Some fs \<Rightarrow>
           cbind (read_clocks env (length fs)) (\<lambda>ts.
             case check_port st (\<lambda>n. ts ! n) port of None \<Rightarrow> cstop Hang | Some fs \<Rightarrow> cret fs))"

definition plugin_cves :: "Finding list \<Rightarrow> string set" where
  "plugin_cves local = set (filter (\<lambda>c. c \<noteq> []) (map f_cve_id local))"

definition add_cves :: "Finding list \<Rightarrow> Finding list \<Rightarrow> Finding list" where
  "add_cves local cves = local @ filter (\<lambda>f. f_cve_id f \<notin> plugin_cves local) cves"

definition fill_in :: "string \<Rightarrow> Port \<Rightarrow> Finding \<Rightarrow> Finding" where
  "fill_in ip result f =
     (let f = (if f_host f = [] then f\<lparr>f_host := ip\<rparr> else f);
          f = (if f_protocol f = P_UNKNOWN then f\<lparr>f_protocol := p_protocol result\<rparr> else f);
          f = (if f_service f = [] then f\<lparr>f_service := p_service result\<rparr> else f);
          f = (if f_product f = [] then f\<lparr>f_product := p_product result\<rparr> else f)
      in if f_version f = [] then f\<lparr>f_version := p_version result\<rparr> else f)"

definition probe_port ::
  "'w Env \<Rightarrow> 're Detector \<Rightarrow> LoadedPlugin list \<Rightarrow> string \<Rightarrow> int \<Rightarrow> Port \<Rightarrow> KnowledgeBase \<Rightarrow>
   ('w rt, Port \<times> Finding list \<times> KnowledgeBase) comp" where
  "probe_port env dt plugins ip fd result kb =
     cbind (in_world (grab_banner (env_os env) fd ip)) (\<lambda>banner.
     cbind (identified dt result banner) (\<lambda>result.
     cbind (in_checked (\<lambda>w. case run_native_checks (env_os env) (env_ssl env) (env_now env) result ip kb w of
              Done (fs, kb, w) \<Rightarrow> Done ((fs, kb), w) | OutOfBounds \<Rightarrow> OutOfBounds | NoReturn \<Rightarrow> NoReturn))
       (\<lambda>(native, kb).
     cbind (run_for_port env plugins ip (int (unat (p_number result))) (p_service result))
       (\<lambda>(plugin_findings, detected).
     let result = adopt_detected detected result; local = native @ map to_finding plugin_findings in
     cbind (check_port_now env result) (\<lambda>cves.
       cret (result, deduplicate_findings (map (fill_in ip result) (add_cves local cves)), kb))))))"

section \<open>The tasks of the pool\<close>

record LiveSink =
  sink_progress :: bool
  sink_on_port_open :: bool

text \<open>
  What the tasks share; \<open>rg_calls\<close> are the uses of the sink, in the order in which they take effect: the calls
  of \<open>on_port_open\<close> and the increments of \<open>progress\<close>.
\<close>

datatype SinkCall = PortOpen Port "Finding list" | Progress

record RangeState =
  rg_kb :: KnowledgeBase
  rg_ports :: "Port list"
  rg_findings :: "Finding list"
  rg_calls :: "SinkCall list"

definition range_start :: RangeState where
  "range_start = \<lparr>rg_kb = kb_new, rg_ports = [], rg_findings = [], rg_calls = []\<rparr>"

fun open_calls :: "SinkCall list \<Rightarrow> (Port \<times> Finding list) list" where
  "open_calls [] = []"
| "open_calls (PortOpen q fs # cs) = (q, fs) # open_calls cs"
| "open_calls (Progress # cs) = open_calls cs"

fun progress_calls :: "SinkCall list \<Rightarrow> int" where
  "progress_calls [] = 0"
| "progress_calls (PortOpen q fs # cs) = progress_calls cs"
| "progress_calls (Progress # cs) = progress_calls cs + 1"

definition rg_events :: "RangeState \<Rightarrow> (Port \<times> Finding list) list" where
  "rg_events rg = open_calls (rg_calls rg)"

definition rg_progress :: "RangeState \<Rightarrow> int" where
  "rg_progress rg = progress_calls (rg_calls rg)"

definition count_progress :: "LiveSink \<Rightarrow> RangeState \<Rightarrow> RangeState" where
  "count_progress sink rg = (if sink_progress sink then rg\<lparr>rg_calls := rg_calls rg @ [Progress]\<rparr> else rg)"

definition announce :: "LiveSink \<Rightarrow> Port \<Rightarrow> Finding list \<Rightarrow> RangeState \<Rightarrow> RangeState" where
  "announce sink result local rg =
     (if sink_on_port_open sink then rg\<lparr>rg_calls := rg_calls rg @ [PortOpen result local]\<rparr> else rg)"

definition publish :: "Port \<Rightarrow> Finding list \<Rightarrow> RangeState \<Rightarrow> RangeState" where
  "publish result local rg = rg\<lparr>rg_ports := rg_ports rg @ [result], rg_findings := rg_findings rg @ local\<rparr>"

definition report_open :: "LiveSink \<Rightarrow> Port \<Rightarrow> Finding list \<Rightarrow> KnowledgeBase \<Rightarrow> RangeState \<Rightarrow> RangeState" where
  "report_open sink result local kb rg = publish result local (announce sink result local (rg\<lparr>rg_kb := kb\<rparr>))"

lemma open_calls_append: "open_calls (cs @ ds) = open_calls cs @ open_calls ds"
  by (induction cs rule: open_calls.induct) auto

lemma progress_calls_append: "progress_calls (cs @ ds) = progress_calls cs + progress_calls ds"
  by (induction cs rule: progress_calls.induct) auto

lemma progress_calls_nonneg: "0 \<le> progress_calls cs"
  by (induction cs rule: progress_calls.induct) auto

lemmas range_changes = count_progress_def announce_def publish_def report_open_def rg_events_def rg_progress_def
  open_calls_append progress_calls_append

definition scan_task ::
  "'w Env \<Rightarrow> 're Detector \<Rightarrow> LoadedPlugin list \<Rightarrow> LiveSink \<Rightarrow> string \<Rightarrow> int \<Rightarrow> int \<Rightarrow> RangeState \<Rightarrow>
   ('w rt, RangeState) comp" where
  "scan_task env dt plugins sink ip timeout p rg =
     cbind (in_world (\<lambda>w. Some (tcp_new (env_os env) w))) (\<lambda>fd.
     cbind (in_world (\<lambda>w. Some (tcp_connect (env_os env) fd ip p timeout w))) (\<lambda>result.
     cbind (if p_state result \<noteq> S_OPEN then cret rg
            else cbind (probe_port env dt plugins ip fd result (rg_kb rg)) (\<lambda>(result, local, kb).
                   cret (report_open sink result local kb rg))) (\<lambda>rg.
     cbind (in_world (\<lambda>w. Some ((), tcp_delete (env_os env) fd w))) (\<lambda>_.
       cret (count_progress sink rg)))))"

text \<open>A worker catches nothing: an exception that leaves its task ends the program.\<close>

definition in_worker :: "('s, 'a) comp \<Rightarrow> ('s, 'a) comp" where
  "in_worker m s = (case m s of (Throw e, s') \<Rightarrow> (Terminate, s') | r \<Rightarrow> r)"

text \<open>Tasks one after the other, each on the state that the ones before left.\<close>

fun run_tasks :: "('a \<Rightarrow> 'r \<Rightarrow> ('s, 'r) comp) \<Rightarrow> 'a list \<Rightarrow> 'r \<Rightarrow> ('s, 'r) comp" where
  "run_tasks task [] rg = cret rg"
| "run_tasks task (p # ps) rg = cbind (task p rg) (run_tasks task ps)"

record TcpRangeResult =
  tr_ports :: "Port list"
  tr_findings :: "Finding list"

record Sorter =
  sort_ports :: "Port list \<Rightarrow> Port list"
  sort_findings :: "Finding list \<Rightarrow> Finding list"

definition finish_range :: "Sorter \<Rightarrow> RangeState \<Rightarrow> TcpRangeResult" where
  "finish_range srt rg =
     \<lparr>tr_ports = sort_ports srt (rg_ports rg),
      tr_findings = deduplicate_findings (sort_findings srt (rg_findings rg))\<rparr>"

text \<open>The tasks enqueued, for the ports from \<open>start_port\<close> to \<open>end_port\<close>.\<close>

definition port_range :: "int \<Rightarrow> int \<Rightarrow> int list" where
  "port_range start_port end_port = [start_port..end_port]"

definition tcp_range_scan ::
  "'w Env \<Rightarrow> 're Detector \<Rightarrow> Sorter \<Rightarrow> (int list \<Rightarrow> int list) \<Rightarrow> string \<Rightarrow> int \<Rightarrow> int \<Rightarrow> LoadedPlugin list \<Rightarrow>
   LiveSink \<Rightarrow> int \<Rightarrow> ('w rt, TcpRangeResult \<times> RangeState) comp" where
  "tcp_range_scan env dt srt schedule ip start_port end_port plugins sink connect_timeout_ms =
     cbind (run_tasks (\<lambda>p rg. in_worker (scan_task env dt plugins sink ip connect_timeout_ms p rg))
              (schedule (port_range start_port end_port)) range_start) (\<lambda>rg.
       cret (finish_range srt rg, rg))"

section \<open>Failures\<close>

text \<open>How a computation can end but by a result, undefined behaviour or not at all: by an exception when \<open>E\<close>
  holds, by the end of the program when \<open>T\<close> does.\<close>

definition ends :: "bool \<Rightarrow> bool \<Rightarrow> ('s, 'a) comp \<Rightarrow> bool" where
  "ends E T m \<longleftrightarrow>
     (\<forall>s. fst (m s) \<in> {Undef, Hang} \<or> (\<exists>a. fst (m s) = Ok a) \<or> (E \<and> (\<exists>e. fst (m s) = Throw e)) \<or> (T \<and> fst (m s) = Terminate))"

lemma ends_contained: "contained m \<Longrightarrow> ends E T m"
  by (auto simp: contained_def ends_def)

lemma ends_cbind:
  assumes m: "ends E T m" and f: "\<And>a. ends E T (f a)"
  shows "ends E T (cbind m f)"
proof -
  have "fst (cbind m f s) \<in> {Undef, Hang} \<or> (\<exists>a. fst (cbind m f s) = Ok a) \<or> (E \<and> (\<exists>e. fst (cbind m f s) = Throw e)) \<or>
      (T \<and> fst (cbind m f s) = Terminate)" for s
  proof -
    obtain r s' where e: "m s = (r, s')" by fastforce
    then have "r \<in> {Undef, Hang} \<or> (\<exists>a. r = Ok a) \<or> (E \<and> (\<exists>e. r = Throw e)) \<or> (T \<and> r = Terminate)"
      using m by (metis ends_def fst_conv)
    then consider "\<exists>a. r = Ok a" | "r \<in> {Undef, Hang}" | "E" "\<exists>e. r = Throw e" | "T" "r = Terminate" by blast
    then show ?thesis
    proof cases
      case 1
      then obtain a where "r = Ok a" ..
      then show ?thesis using f[of a] e by (simp add: cbind_def ends_def)
    qed (use e in \<open>auto simp: cbind_def\<close>)
  qed
  then show ?thesis by (simp add: ends_def)
qed

lemma ends_if: "ends E T m \<Longrightarrow> ends E T m' \<Longrightarrow> ends E T (if b then m else m')"
  by simp

lemma ends_prod: "(\<And>a b. ends E T (f a b)) \<Longrightarrow> ends E T (case x of (a, b) \<Rightarrow> f a b)"
  by (cases x) simp

lemma ends_in_worker: "ends E T m \<Longrightarrow> ends False (E \<or> T) (in_worker m)"
proof -
  assume m: "ends E T m"
  have "fst (in_worker m s) \<in> {Undef, Hang} \<or> (\<exists>a. fst (in_worker m s) = Ok a) \<or> ((E \<or> T) \<and> fst (in_worker m s) = Terminate)" for s
  proof -
    obtain r s' where "m s = (r, s')" by fastforce
    then show ?thesis using m[unfolded ends_def, rule_format, of s] by (cases r) (auto simp: in_worker_def)
  qed
  then show ?thesis by (simp add: ends_def)
qed

lemma contained_cret: "contained (cret a)"
  by (simp add: contained_def cret_def)

lemma contained_in_world: "contained (in_world f)"
  by (auto simp: contained_def in_world_def split: option.split)

lemma contained_in_checked: "contained (in_checked f)"
  by (auto simp: contained_def in_checked_def split: checked.split)

lemma contained_read_clocks: "contained (read_clocks env n)"
  by (induction n) (auto intro!: contained_cret contained_cbind contained_in_world)

lemma contained_check_port_now: "contained (check_port_now env port)"
  unfolding check_port_now_def
  by (intro contained_cbind contained_option contained_read_clocks contained_cret)
    (auto simp: contained_def get_cve_def cget_def cstop_def)

text \<open>A pattern of services whose search throws for some banner.\<close>

definition search_throws :: "'re Detector \<Rightarrow> bool" where
  "search_throws dt \<longleftrightarrow>
     (\<exists>sp\<in>set (service_patterns (dt_processor dt)). \<exists>banner. dt_search dt (sp_pattern sp) banner = RegexError)"

lemma detect_service_throws:
  "detect_service_from search sps q banner = None \<Longrightarrow> \<exists>sp\<in>set sps. search (sp_pattern sp) banner = RegexError"
  by (induction sps) (auto simp: Let_def split: RegexSearch.splits)

lemma ends_identified: "ends (search_throws dt) T (identified dt result banner)"
  using detect_service_throws[of "dt_search dt" "service_patterns (dt_processor dt)" result banner]
  by (fastforce simp: ends_def identified_def identify_def detect_service_def search_throws_def cret_def cthrow_def split: option.splits)

lemma ends_probe_port: "ends (search_throws dt) T (probe_port env dt plugins ip fd result kb)"
  unfolding probe_port_def Let_def
  by (intro ends_cbind ends_prod ends_identified ends_contained contained_in_world contained_in_checked contained_run_for_port
      contained_check_port_now contained_cret)

lemma ends_scan_task: "ends (search_throws dt) T (scan_task env dt plugins sink ip timeout p rg)"
  unfolding scan_task_def
  by (intro ends_cbind ends_prod ends_if ends_probe_port ends_contained contained_in_world contained_cret)

lemma ends_run_tasks: "(\<And>p rg. ends E T (task p rg)) \<Longrightarrow> ends E T (run_tasks task ps rg)"
proof (induction ps arbitrary: rg)
  case (Cons p ps)
  then show ?case by (simp add: ends_cbind)
qed (simp add: ends_contained contained_cret)

lemma ends_range_scan: "ends False (search_throws dt) (tcp_range_scan env dt srt schedule ip start_port end_port plugins sink timeout)"
proof -
  have "ends False (search_throws dt) (in_worker (scan_task env dt plugins sink ip timeout p rg))" for p rg
    using ends_in_worker[OF ends_scan_task[of dt False env plugins sink ip timeout p rg]] by simp
  then show ?thesis
    unfolding tcp_range_scan_def by (intro ends_cbind[OF ends_run_tasks] ends_contained[OF contained_cret])
qed


section \<open>What a scan returns\<close>

lemma cbind_Ok_iff:
  "cbind m f s = (Ok b, s') \<longleftrightarrow> (\<exists>a s1. m s = (Ok a, s1) \<and> f a s1 = (Ok b, s'))"
  by (auto simp: cbind_def split: prod.splits outcome.splits)

text \<open>A property of the shared state that each task extends by its port.\<close>

lemma run_tasks_invariant:
  assumes "run_tasks task ps rg s = (Ok rg', s')" "I prev rg"
    and "\<And>p prev rg s rg' s'. p \<in> set ps \<Longrightarrow> I prev rg \<Longrightarrow> task p rg s = (Ok rg', s') \<Longrightarrow> I (prev @ [p]) rg'"
  shows "I (prev @ ps) rg'"
  using assms
proof (induction ps arbitrary: rg s prev)
  case (Cons p ps)
  from Cons.prems(1) obtain rg1 s1 where 1: "task p rg s = (Ok rg1, s1)" "run_tasks task ps rg1 s1 = (Ok rg', s')"
    by (auto simp: cbind_Ok_iff)
  have "I ((prev @ [p]) @ ps) rg'"
    using Cons.IH[OF 1(2)] Cons.prems(2,3) 1(1) by (meson list.set_intros)
  then show ?case by simp
qed (simp add: cret_def)

lemma identify_keeps:
  assumes "identify dt result banner = Some q"
  shows "p_number q = p_number result \<and> p_state q = p_state result \<and> p_protocol q = p_protocol result"
proof -
  have d: "p_number (detect_distro_from dps q b) = p_number q \<and> p_state (detect_distro_from dps q b) = p_state q \<and>
      p_protocol (detect_distro_from dps q b) = p_protocol q" for dps and q :: Port and b
    by (induction dps) (auto simp: Let_def split: option.split)
  have v: "detect_service_from f sps q b = Some r \<Longrightarrow>
      p_number r = p_number q \<and> p_state r = p_state q \<and> p_protocol r = p_protocol q" for f sps and q r :: Port and b
    by (induction sps) (auto simp: Let_def split: RegexSearch.splits if_splits)
  show ?thesis using assms by (auto simp: identify_def detect_service_def detect_distro_def d split: if_splits dest!: v)
qed

lemma identified_Ok: "identified dt result banner s = (Ok q, s') \<longleftrightarrow> identify dt result banner = Some q \<and> s' = s"
  by (auto simp: identified_def cret_def cthrow_def split: option.splits)

lemma in_worker_Ok: "in_worker m s = (Ok a, s') \<longleftrightarrow> m s = (Ok a, s')"
  by (auto simp: in_worker_def split: prod.splits outcome.splits)

lemma adopt_keeps:
  "p_number (adopt_detected d q) = p_number q \<and> p_state (adopt_detected d q) = p_state q \<and>
   p_protocol (adopt_detected d q) = p_protocol q"
  by (simp add: adopt_detected_def Let_def)

lemma tcp_connect_port:
  "p_number (fst (tcp_connect os fd ip p t w)) = port16 p \<and> p_protocol (fst (tcp_connect os fd ip p t w)) = P_TCP"
  by (auto simp: tcp_connect_def tcp_result_def Let_def split: option.splits prod.splits)

text \<open>
  What a finding says about its host and port: it is of this host, this port number and TCP, and it names a
  service, product and version whenever one of the port is known (its own where its source gave one, or else
  the port's).
\<close>

definition described :: "string \<Rightarrow> Port \<Rightarrow> Finding \<Rightarrow> bool" where
  "described ip port f \<longleftrightarrow>
     f_host f = ip \<and> f_port_number f = p_number port \<and> f_protocol f = P_TCP \<and>
     (f_service f = [] \<longrightarrow> p_service port = []) \<and> (f_product f = [] \<longrightarrow> p_product port = []) \<and>
     (f_version f = [] \<longrightarrow> p_version port = [])"

text \<open>The same before the task fills it in.\<close>

definition raised :: "string \<Rightarrow> 16 word \<Rightarrow> Finding \<Rightarrow> bool" where
  "raised ip n f \<longleftrightarrow>
     (f_host f = [] \<or> f_host f = ip) \<and> f_port_number f = n \<and> (f_protocol f = P_UNKNOWN \<or> f_protocol f = P_TCP)"

lemma fill_in_described:
  "raised ip (p_number port) f \<Longrightarrow> p_protocol port = P_TCP \<Longrightarrow> described ip port (fill_in ip port f)"
  by (auto simp: described_def raised_def fill_in_def Let_def)

lemma native_raised:
  "run_native_checks os ssl clock port ip kb w = Done (fs, kb', w') \<Longrightarrow> \<forall>f\<in>set fs. raised ip (p_number port) f"
  using run_native_checks_about[of os ssl clock port ip kb w fs kb' w']
  by (auto simp: list_all_iff verified_on_def raised_def)

lemma scripts_raised:
  assumes "run_for_port env plugins ip (int (unat n)) svc s = (Ok (fs, d), s')"
  shows "\<forall>f\<in>set (map to_finding fs). raised ip n f"
proof -
  have "port16 (int (unat n)) = n" by (simp add: port16_def)
  then show ?thesis
    using run_for_port_about[OF assms] by (auto simp: list_all_iff out_about_def raised_def to_finding_def)
qed

lemma cves_raised:
  assumes "check_port_now env port s = (Ok fs, s')" "p_protocol port = P_TCP"
  shows "\<forall>f\<in>set fs. raised ip (p_number port) f"
proof -
  have "\<forall>f\<in>set gs. f_host f = [] \<and> f_port_number f = p_number port \<and> f_protocol f = p_protocol port"
    if "check_port st clock port = Some gs" for st clock gs
    using check_port_about[OF that] .
  then show ?thesis
    using assms unfolding check_port_now_def raised_def
    by (fastforce simp: cbind_Ok_iff cret_def cstop_def split: option.splits)
qed

lemma add_cves_raised:
  "\<forall>f\<in>set local. raised ip n f \<Longrightarrow> \<forall>f\<in>set cves. raised ip n f \<Longrightarrow> \<forall>f\<in>set (add_cves local cves). raised ip n f"
  by (auto simp: add_cves_def)

text \<open>What holds of all findings, whatever their evidence and description, holds after deduplication.\<close>

lemma dedup_all:
  assumes "\<forall>f\<in>set fs. P f" "\<And>f e d. P f \<Longrightarrow> P (f\<lparr>f_evidence := e\<rparr>) \<and> P (f\<lparr>f_description := d\<rparr>)"
  shows "\<forall>f\<in>set (deduplicate_findings fs). P f"
proof
  fix g assume g: "g \<in> set (deduplicate_findings fs)"
  have m: "P (merge_finding c f)" if "P c" "P f" for c f
    using that assms(2) by (simp add: merge_finding_def Let_def)
  have "P (merge_all gs)" if "gs \<noteq> []" "\<forall>f\<in>set gs. P f" for gs
    using that
  proof (induction gs rule: merge_all_induct)
    case (snoc f fs)
    then show ?case by (simp add: m)
  qed simp
  moreover obtain k where k: "k \<in> finding_identity ` set fs" "g = merge_all (of_identity fs k)"
    using g by (auto simp: dedup_refines dedup_spec_def)
  moreover have "of_identity fs k \<noteq> []" "\<forall>f\<in>set (of_identity fs k). P f"
    using of_identity_nonempty[OF k(1)] assms(1) by (auto simp: of_identity_def)
  ultimately show "P g" by simp
qed

lemma dedup_described:
  "\<forall>f\<in>set fs. described ip port f \<Longrightarrow> \<forall>f\<in>set (deduplicate_findings fs). described ip port f"
  by (rule dedup_all) (simp_all add: described_def)

text \<open>The findings that the task of a port announces and publishes.\<close>

definition found_on :: "string \<Rightarrow> Port \<Rightarrow> Finding list \<Rightarrow> bool" where
  "found_on ip port fs \<longleftrightarrow> (\<forall>f\<in>set fs. described ip port f) \<and> distinct (map finding_identity fs)"

lemma collect_found:
  assumes "\<forall>f\<in>set fs. raised ip (p_number port) f" "p_protocol port = P_TCP"
  shows "found_on ip port (deduplicate_findings (map (fill_in ip port) fs))"
  unfolding found_on_def identities_dedup
  by (intro conjI dedup_described distinct_firsts) (use assms fill_in_described in auto)

lemma probe_port_result:
  assumes "probe_port env dt plugins ip fd result kb s = (Ok (port, local, kb'), s')" "p_protocol result = P_TCP"
  shows "p_number port = p_number result \<and> p_state port = p_state result \<and> p_protocol port = P_TCP \<and>
    found_on ip port local"
proof -
  obtain banner q s1 w native kb1 w' s2 scripts detected s3 s4 cves where
    q: "identify dt result banner = Some q"
    and native: "run_native_checks (env_os env) (env_ssl env) (env_now env) q ip kb w = Done (native, kb1, w')"
    and scripts: "run_for_port env plugins ip (int (unat (p_number q))) (p_service q) s2 = (Ok (scripts, detected), s3)"
    and port: "port = adopt_detected detected q"
    and cves: "check_port_now env port s3 = (Ok cves, s4)"
    and local: "local = deduplicate_findings (map (fill_in ip port) (add_cves (native @ map to_finding scripts) cves))"
    using assms(1) unfolding probe_port_def Let_def
    by (auto simp: cbind_Ok_iff identified_Ok in_checked_def cret_def split: prod.splits checked.splits)
  have k: "p_number port = p_number result \<and> p_state port = p_state result \<and> p_protocol port = P_TCP" "p_number q = p_number port"
    using adopt_keeps[of detected q] identify_keeps[OF q] assms(2) by (simp_all add: port)
  have "\<forall>f\<in>set (add_cves (native @ map to_finding scripts) cves). raised ip (p_number port) f"
    using native_raised[OF native] scripts_raised[OF scripts] cves_raised[OF cves, of ip] k by (intro add_cves_raised) auto
  then show ?thesis using collect_found k(1) unfolding local by blast
qed

lemma distinct_submset:
  assumes "distinct ys" "mset xs \<subseteq># mset ys"
  shows "distinct xs"
proof -
  obtain M where "mset ys = mset xs + M" using assms(2) by (auto simp: subset_mset.le_iff_add)
  moreover obtain zs where "M = mset zs" using ex_mset by metis
  ultimately have "mset ys = mset (xs @ zs)" by simp
  then show ?thesis using mset_eq_imp_distinct_iff[of ys "xs @ zs"] assms(1) by simp
qed

text \<open>What the tasks have done after the ports \<open>prev\<close>.\<close>

definition range_inv :: "string \<Rightarrow> LiveSink \<Rightarrow> int list \<Rightarrow> RangeState \<Rightarrow> bool" where
  "range_inv ip sink prev rg \<longleftrightarrow>
     rg_progress rg = (if sink_progress sink then int (length prev) else 0) \<and>
     mset (map p_number (rg_ports rg)) \<subseteq># mset (map port16 prev) \<and>
     (\<forall>port\<in>set (rg_ports rg). p_state port = S_OPEN \<and> p_protocol port = P_TCP) \<and>
     (\<forall>f\<in>set (rg_findings rg). \<exists>port\<in>set (rg_ports rg). described ip port f) \<and>
     (\<forall>(q, fs)\<in>set (rg_events rg). found_on ip q fs) \<and>
     (sink_on_port_open sink \<longrightarrow>
        mset (map fst (rg_events rg)) = mset (rg_ports rg) \<and>
        mset (concat (map snd (rg_events rg))) = mset (rg_findings rg))"

lemma range_inv_start: "range_inv ip sink [] range_start"
  by (simp add: range_inv_def range_start_def range_changes)

lemma range_inv_closed: "range_inv ip sink prev rg \<Longrightarrow> range_inv ip sink (prev @ [p]) (count_progress sink rg)"
  by (auto simp: range_inv_def range_changes intro: subset_mset.order_trans)

lemma range_inv_open:
  assumes "range_inv ip sink prev rg" "p_number port = port16 p" "p_state port = S_OPEN" "p_protocol port = P_TCP"
    "found_on ip port local"
  shows "range_inv ip sink (prev @ [p]) (count_progress sink (report_open sink port local kb rg))"
  using assms by (auto simp: range_inv_def range_changes found_on_def)

lemma scan_task_invariant:
  assumes "scan_task env dt plugins sink ip timeout p rg s = (Ok rg', s')" "range_inv ip sink prev rg"
  shows "range_inv ip sink (prev @ [p]) rg'"
proof -
  obtain fd s0 result s1 s2 rg1 where result: "in_world (\<lambda>w. Some (tcp_connect (env_os env) fd ip p timeout w)) s0 = (Ok result, s1)"
    and rg1: "(if p_state result \<noteq> S_OPEN then cret rg
            else cbind (probe_port env dt plugins ip fd result (rg_kb rg)) (\<lambda>(result, local, kb).
                   cret (report_open sink result local kb rg))) s1 = (Ok rg1, s2)"
    and rg': "rg' = count_progress sink rg1"
    using assms(1) unfolding scan_task_def by (auto simp: cbind_Ok_iff cret_def)
  have port: "p_number result = port16 p" "p_protocol result = P_TCP"
    using result tcp_connect_port[of "env_os env" fd ip p timeout "sc_world (it_ext s0)"]
    by (auto simp: in_world_def split: prod.splits)
  show ?thesis
  proof (cases "p_state result = S_OPEN")
    case False
    then have "rg1 = rg" using rg1 by (simp add: cret_def)
    then show ?thesis using assms(2) by (simp add: rg' range_inv_closed)
  next
    case True
    then obtain q local kb where probe: "probe_port env dt plugins ip fd result (rg_kb rg) s1 = (Ok (q, local, kb), s2)"
      "rg1 = report_open sink q local kb rg"
      using rg1 by (auto simp: cbind_Ok_iff cret_def)
    from probe_port_result[OF probe(1) port(2)] port True
    have "p_number q = port16 p" "p_state q = S_OPEN" "p_protocol q = P_TCP" "found_on ip q local"
      by auto
    from range_inv_open[OF assms(2) this] show ?thesis by (simp add: rg' probe(2))
  qed
qed

lemma tcp_range_invariant:
  assumes "tcp_range_scan env dt srt schedule ip start_port end_port plugins sink timeout s = (Ok (r, rg), s')"
  shows "range_inv ip sink (schedule (port_range start_port end_port)) rg \<and> r = finish_range srt rg"
proof -
  obtain s1 where t: "run_tasks (\<lambda>p rg. in_worker (scan_task env dt plugins sink ip timeout p rg))
      (schedule (port_range start_port end_port)) range_start s = (Ok rg, s1)" "r = finish_range srt rg"
    using assms(1) unfolding tcp_range_scan_def by (auto simp: cbind_Ok_iff cret_def)
  from run_tasks_invariant[where I = "range_inv ip sink", OF t(1) range_inv_start]
  have "range_inv ip sink ([] @ schedule (port_range start_port end_port)) rg"
    using scan_task_invariant unfolding in_worker_Ok by blast
  then show ?thesis using t(2) by simp
qed

text \<open>\<open>std::sort\<close> by port number: a permutation, in order; which one among equal ports is open.\<close>

definition sorts :: "Sorter \<Rightarrow> bool" where
  "sorts srt \<longleftrightarrow>
     (\<forall>ps. mset (sort_ports srt ps) = mset ps \<and> sorted (map p_number (sort_ports srt ps))) \<and>
     (\<forall>fs. mset (sort_findings srt fs) = mset fs \<and> sorted (map f_port_number (sort_findings srt fs)))"

lemma range_result:
  assumes inv: "range_inv ip sink sch rg" and "sorts srt" "mset sch = mset (port_range start_port end_port)"
    and "0 \<le> start_port" "end_port \<le> 65535"
  shows "sorted (map p_number (sort_ports srt (rg_ports rg)))" "distinct (map p_number (sort_ports srt (rg_ports rg)))"
    and "\<forall>port\<in>set (sort_ports srt (rg_ports rg)). p_state port = S_OPEN \<and> p_protocol port = P_TCP \<and>
       start_port \<le> uint (p_number port) \<and> uint (p_number port) \<le> end_port"
    and "distinct (map finding_identity (deduplicate_findings (sort_findings srt (rg_findings rg))))"
    and "\<forall>f\<in>set (deduplicate_findings (sort_findings srt (rg_findings rg))).
      \<exists>port\<in>set (sort_ports srt (rg_ports rg)). described ip port f"
proof -
  have set_sch: "set sch = {start_port..end_port}" and dist: "distinct sch"
    using assms(3) mset_eq_imp_distinct_iff[OF assms(3)] by (auto dest: mset_eq_setD simp: port_range_def)
  have u: "uint (port16 p) = p" if "p \<in> {start_port..end_port}" for p
    using that assms(4,5) by (simp add: port16_def uint_word_of_int)
  then have inj: "inj_on port16 {start_port..end_port}" by (metis inj_on_def)
  have sub: "mset (map p_number (rg_ports rg)) \<subseteq># mset (map port16 sch)" using inv by (simp add: range_inv_def)
  have "distinct (map port16 sch)" using dist inj by (simp add: distinct_map set_sch)
  then have d: "distinct (map p_number (rg_ports rg))"
    using sub by (rule distinct_submset)
  have n: "start_port \<le> uint (p_number port) \<and> uint (p_number port) \<le> end_port"
    if "port \<in> set (rg_ports rg)" for port
  proof -
    have "p_number port \<in> port16 ` {start_port..end_port}"
      using set_mset_mono[OF sub] that set_sch by auto
    then show ?thesis using u by auto
  qed
  let ?ports = "sort_ports srt (rg_ports rg)"
  have mp: "mset ?ports = mset (rg_ports rg)"
    and mf: "mset (sort_findings srt (rg_findings rg)) = mset (rg_findings rg)"
    using assms(2) by (simp_all add: sorts_def)
  note sets = mset_eq_setD[OF mp] mset_eq_setD[OF mf]
  show "sorted (map p_number ?ports)" using assms(2) by (simp add: sorts_def)
  show "distinct (map p_number ?ports)"
    using d mset_eq_imp_distinct_iff[of "map p_number ?ports" "map p_number (rg_ports rg)"] mp by simp
  show "\<forall>f\<in>set (deduplicate_findings (sort_findings srt (rg_findings rg))). \<exists>port\<in>set ?ports. described ip port f"
    by (rule dedup_all) (use inv sets in \<open>auto simp: range_inv_def described_def\<close>)
  show "\<forall>port\<in>set ?ports. p_state port = S_OPEN \<and> p_protocol port = P_TCP \<and>
       start_port \<le> uint (p_number port) \<and> uint (p_number port) \<le> end_port"
    using inv n by (auto simp: range_inv_def sets(1))
  show "distinct (map finding_identity (deduplicate_findings (sort_findings srt (rg_findings rg))))"
    by (simp add: identities_dedup)
qed

lemma finished_range:
  assumes inv: "range_inv ip sink sch rg" and r: "r = finish_range srt rg"
    and "sorts srt" "mset sch = mset (port_range start_port end_port)" "0 \<le> start_port" "end_port \<le> 65535"
  shows "sorted (map p_number (tr_ports r)) \<and> distinct (map p_number (tr_ports r)) \<and>
    (\<forall>port\<in>set (tr_ports r). p_state port = S_OPEN \<and> p_protocol port = P_TCP \<and>
       start_port \<le> uint (p_number port) \<and> uint (p_number port) \<le> end_port) \<and>
    distinct (map finding_identity (tr_findings r)) \<and>
    (\<forall>f\<in>set (tr_findings r). \<exists>port\<in>set (tr_ports r). described ip port f) \<and>
    rg_progress rg = (if sink_progress sink then int (length (port_range start_port end_port)) else 0) \<and>
    (sink_on_port_open sink \<longrightarrow>
       mset (map fst (rg_events rg)) = mset (tr_ports r) \<and> (\<forall>(port, fs)\<in>set (rg_events rg). found_on ip port fs) \<and>
       (\<exists>fs. mset fs = mset (concat (map snd (rg_events rg))) \<and> tr_findings r = deduplicate_findings fs))"
proof -
  have "mset (tr_ports r) = mset (rg_ports rg)" "mset (sort_findings srt (rg_findings rg)) = mset (rg_findings rg)"
    using assms(3) by (simp_all add: r finish_range_def sorts_def)
  moreover have "length sch = length (port_range start_port end_port)" using assms(4) by (rule mset_eq_length)
  moreover have "\<exists>fs. mset fs = mset (concat (map snd (rg_events rg))) \<and> tr_findings r = deduplicate_findings fs"
    if "sink_on_port_open sink"
    using that inv calculation(2) by (intro exI[of _ "sort_findings srt (rg_findings rg)"]) (simp add: r finish_range_def range_inv_def)
  ultimately show ?thesis
    using range_result[OF inv assms(3-6)] inv by (simp add: r finish_range_def range_inv_def)
qed

text \<open>C4: What a finished scan returns, for every order of its tasks, every server, every sort that sorts and every
  range within 0 to 65535: the ports are sorted by number, open, distinct and of the range; the findings have
  pairwise different identities, and each is of the host scanned, of the number of one of these ports and of TCP,
  and names a service, a product and a version whenever this port has one; the progress counter has advanced by
  one for every port of the range; \<open>on_port_open\<close> was called once for each of the ports returned, with findings
  that are of this port in the same sense and have pairwise different identities; and the findings returned are those
  of all these calls together, deduplicated.\<close>

theorem tcp_range_scan_result:
  assumes "tcp_range_scan env dt srt schedule ip start_port end_port plugins sink timeout s = (Ok (r, rg), s')"
    and "sorts srt" "mset (schedule (port_range start_port end_port)) = mset (port_range start_port end_port)"
    and "0 \<le> start_port" "end_port \<le> 65535"
  shows "sorted (map p_number (tr_ports r)) \<and> distinct (map p_number (tr_ports r)) \<and>
    (\<forall>port\<in>set (tr_ports r). p_state port = S_OPEN \<and> p_protocol port = P_TCP \<and>
       start_port \<le> uint (p_number port) \<and> uint (p_number port) \<le> end_port) \<and>
    distinct (map finding_identity (tr_findings r)) \<and>
    (\<forall>f\<in>set (tr_findings r). \<exists>port\<in>set (tr_ports r). described ip port f) \<and>
    rg_progress rg = (if sink_progress sink then int (length (port_range start_port end_port)) else 0) \<and>
    (sink_on_port_open sink \<longrightarrow>
       mset (map fst (rg_events rg)) = mset (tr_ports r) \<and> (\<forall>(port, fs)\<in>set (rg_events rg). found_on ip port fs) \<and>
       (\<exists>fs. mset fs = mset (concat (map snd (rg_events rg))) \<and> tr_findings r = deduplicate_findings fs))"
  using tcp_range_invariant[OF assms(1)] finished_range[OF _ _ assms(2,3,4,5)] by blast

definition sample_env :: "unit Env" where
  "sample_env = \<lparr>env_os = sample_os, env_ssl = sample_ssl, env_now = \<lambda>w. (0, w)\<rparr>"

definition no_detector :: "string Detector" where
  "no_detector = \<lparr>dt_search = \<lambda>re s. NotFound, dt_processor = \<lparr>service_patterns = [], pr_output = []\<rparr>\<rparr>"

definition key_sorter :: Sorter where
  "key_sorter = \<lparr>sort_ports = sort_key p_number, sort_findings = sort_key f_port_number\<rparr>"

lemma key_sorter_sorts: "sorts key_sorter"
  by (simp add: sorts_def key_sorter_def)

lemma sample_scan:
  "tcp_range_scan sample_env no_detector key_sorter rev ''10.0.0.1'' 80 80 [] \<lparr>sink_progress = True, sink_on_port_open = True\<rparr>
     1000 empty_scan =
   (Ok (\<lparr>tr_ports = [tcp_result 80 S_OPEN], tr_findings = []\<rparr>,
        \<lparr>rg_kb = kb_new, rg_ports = [tcp_result 80 S_OPEN], rg_findings = [],
         rg_calls = [PortOpen (tcp_result 80 S_OPEN) [], Progress]\<rparr>),
    empty_scan\<lparr>it_ext := (it_ext empty_scan)\<lparr>sc_kbs := [Map.empty]\<rparr>\<rparr>)"
proof -
  obtain a where ip: "inet_pton ''10.0.0.1'' = Some a"
    by (simp add: inet_pton_def c_str_def is_digit_def digit_val_def)
  have connect: "tcp_connect sample_os 3 ''10.0.0.1'' 80 1000 () = (tcp_result 80 S_OPEN, ())"
    by (simp add: tcp_connect_def ip set_nonblocking_def set_blocking_def sample_os_def)
  have banner: "grab_banner sample_os 3 ''10.0.0.1'' () = Some ([], ())"
    by (simp add: grab_banner_def tcp_receive_def tcp_send_def tcp_send_loop.simps http_probe_def sample_os_def EINTR_def)
  let ?port = "tcp_result 80 S_OPEN"
  have port: "p_number ?port = 80" "p_service ?port = []" "p_product ?port = []" "p_version ?port = []"
    "p_protocol ?port = P_TCP" "p_state ?port = S_OPEN"
    by (simp_all add: tcp_result_def port_default_def port16_def)
  have native: "run_native_checks sample_os sample_ssl (env_now sample_env) ?port ''10.0.0.1'' kb_new () = Done ([], kb_new, ())"
    by (simp add: run_native_checks_def run_tls_checks_def port_looks_like_tls_def port)
  have w: "empty_scan\<lparr>it_ext := (it_ext empty_scan)\<lparr>sc_world := ()\<rparr>\<rparr> = empty_scan"
    by (simp add: empty_scan_def)
  let ?s = "empty_scan\<lparr>it_ext := (it_ext empty_scan)\<lparr>sc_kbs := [Map.empty]\<rparr>\<rparr>"
  have w': "?s\<lparr>it_ext := (it_ext ?s)\<lparr>sc_world := ()\<rparr>\<rparr> = ?s" by (simp add: empty_scan_def)
  have plugins: "run_for_port sample_env [] ''10.0.0.1'' 80 [] empty_scan =
      (Ok ([], \<lparr>di_service = [], di_product = [], di_version = []\<rparr>), ?s)"
    by (simp add: run_for_port_def make_kb_def cbind_def cret_def empty_scan_def)
  have cves: "check_port_now sample_env ?port ?s = (Ok [], ?s)"
    by (simp add: check_port_now_def get_cve_def cget_def cbind_def cret_def check_port_def port)
  have "identified no_detector ?port [] empty_scan = (Ok ?port, empty_scan)" "adopt_detected \<lparr>di_service = [], di_product = [], di_version = []\<rparr> ?port = ?port"
    by (simp_all add: identified_Ok identify_def adopt_detected_def)
  moreover have "deduplicate_findings (map (fill_in ''10.0.0.1'' ?port) (add_cves [] [])) = []"
    by (simp add: add_cves_def deduplicate_findings_def)
  moreover have "in_world (grab_banner (env_os sample_env) 3 ''10.0.0.1'') empty_scan = (Ok [], empty_scan)"
    by (simp add: in_world_def banner w sample_env_def)
  moreover have "in_checked (\<lambda>w. case run_native_checks (env_os sample_env) (env_ssl sample_env) (env_now sample_env) ?port ''10.0.0.1'' kb_new w of
      Done (fs, kb, w) \<Rightarrow> Done ((fs, kb), w) | OutOfBounds \<Rightarrow> OutOfBounds | NoReturn \<Rightarrow> NoReturn) empty_scan = (Ok ([], kb_new), empty_scan)"
    using native by (simp add: in_checked_def w sample_env_def)
  ultimately have probe: "probe_port sample_env no_detector [] ''10.0.0.1'' 3 ?port kb_new empty_scan = (Ok (?port, [], kb_new), ?s)"
    using plugins cves unfolding probe_port_def Let_def
    by (simp add: cbind_Ok_iff port cret_def)
  have "tcp_new (env_os sample_env) () = (3, ())" "tcp_delete (env_os sample_env) 3 () = ()"
    by (simp_all add: tcp_new_def tcp_delete_def sample_env_def sample_os_def)
  then have task: "scan_task sample_env no_detector [] \<lparr>sink_progress = True, sink_on_port_open = True\<rparr> ''10.0.0.1'' 1000 80 range_start
      empty_scan = (Ok (\<lparr>rg_kb = kb_new, rg_ports = [?port], rg_findings = [], rg_calls = [PortOpen ?port [], Progress]\<rparr>), ?s)"
    using probe connect unfolding scan_task_def
    by (simp add: cbind_Ok_iff cret_def in_world_def w w' port sample_env_def range_changes range_start_def)
  show ?thesis
    by (simp add: tcp_range_scan_def port_range_def cbind_Ok_iff in_worker_Ok task cret_def finish_range_def key_sorter_def
        deduplicate_findings_def)
qed

theorem tcp_range_scan_result_witness:
  "sorted (map p_number [tcp_result 80 S_OPEN]) \<and> 80 \<le> uint (p_number (tcp_result 80 S_OPEN))"
  using tcp_range_scan_result[OF sample_scan key_sorter_sorts] by (simp add: port_range_def)

section \<open>The order of the findings\<close>

lemma subseq_firsts: "subseq (firsts xs) xs"
proof (induction xs)
  case (Cons x xs)
  have "subseq (filter (\<lambda>y. y \<noteq> x) (firsts xs)) (firsts xs)" by (rule subseq_filter_left)
  from subseq_order.trans[OF this Cons.IH] have "subseq (filter (\<lambda>y. y \<noteq> x) (firsts xs)) xs" .
  then show ?case unfolding firsts.simps by (rule subseq_Cons2)
next
  case Nil show ?case unfolding firsts.simps by (rule subseq_order.order_refl)
qed
lemma sorted_subseq_map: 
  assumes "subseq xs ys" "sorted (map f ys)" shows "sorted (map f xs)"
proof -
  obtain N where "xs = nths ys N" using assms(1) unfolding subseq_conv_nths by blast
  then show ?thesis using sorted_nths[OF assms(2), of N] by (simp only: nths_map)
qed

lemma merge_finding_port: "f_port_number (merge_finding c f) = f_port_number c \<or> f_port_number (merge_finding c f) = f_port_number f"
  by (simp add: merge_finding_def Let_def)

lemma merge_all_port:
  "gs \<noteq> [] \<Longrightarrow> \<forall>f\<in>set gs. f_port_number f = n \<Longrightarrow> f_port_number (merge_all gs) = n"
proof (induction gs rule: merge_all_induct)
  case (snoc f fs)
  have n: "f_port_number f = n" using snoc.prems by simp
  have m: "f_port_number (merge_all fs) = n" by (rule snoc.IH) (use snoc.prems in simp)
  show ?case using merge_finding_port[of "merge_all fs" f] unfolding n m by blast
qed simp

lemma dedup_sorted:
  assumes "sorted (map f_port_number fs)"
    and same: "\<forall>f\<in>set fs. \<forall>g\<in>set fs. finding_identity f = finding_identity g \<longrightarrow> f_port_number f = f_port_number g"
  shows "sorted (map f_port_number (deduplicate_findings fs))"
proof -
  define port where "port = (\<lambda>k. f_port_number (merge_all (of_identity fs k)))"
  have pf: "port (finding_identity f) = f_port_number f" if f: "f \<in> set fs" for f
    unfolding port_def
  proof (rule merge_all_port)
    show "of_identity fs (finding_identity f) \<noteq> []" using f by (intro of_identity_nonempty imageI)
    show "\<forall>g\<in>set (of_identity fs (finding_identity f)). f_port_number g = f_port_number f"
    proof
      fix g assume "g \<in> set (of_identity fs (finding_identity f))"
      then have "g \<in> set fs" "finding_identity g = finding_identity f" by (simp_all add: of_identity_def)
      then show "f_port_number g = f_port_number f" by (rule same[rule_format, OF _ f])
    qed
  qed
  have "map f_port_number fs = map (port \<circ> finding_identity) fs"
    unfolding comp_def by (intro map_cong refl pf[symmetric])
  then have "map f_port_number fs = map port (map finding_identity fs)" by (simp only: map_map)
  then have "sorted (map port (firsts (map finding_identity fs)))"
    using assms(1) by (intro sorted_subseq_map[OF subseq_firsts]) (simp only:)
  then show ?thesis unfolding dedup_refines dedup_spec_def port_def map_map comp_def .
qed

text \<open>The findings of a scan come sorted by port number when none of them is about the whole host
  and the parts of their keys hold no separator.\<close>

theorem scan_findings_sorted:
  assumes "sorts srt" "\<forall>f\<in>set (rg_findings rg). bar_free f \<and> f_scope f \<noteq> ''HOST''"
  shows "sorted (map f_port_number (tr_findings (finish_range srt rg)))"
proof -
  let ?fs = "sort_findings srt (rg_findings rg)"
  have fs: "set ?fs = set (rg_findings rg)" "sorted (map f_port_number ?fs)"
    using assms(1) by (auto simp: sorts_def dest: mset_eq_setD)
  have "sorted (map f_port_number (deduplicate_findings ?fs))"
    by (rule dedup_sorted[OF fs(2)]) (use assms(2) finding_identity_parts in \<open>auto simp: fs(1)\<close>)
  then show ?thesis by (simp add: finish_range_def)
qed

lemma dedup_around:
  "finding_identity c = finding_identity a \<Longrightarrow> finding_identity b \<noteq> finding_identity a \<Longrightarrow>
   deduplicate_findings [a, b, c] = [merge_finding a c, b]"
  by (simp add: dedup_refines dedup_spec_def of_identity_def merge_all_def)

definition port_finding :: "string \<Rightarrow> 16 word \<Rightarrow> string \<Rightarrow> string \<Rightarrow> Finding" where
  "port_finding scope n cve verification = finding_default
     \<lparr>f_scope := scope, f_port_number := n, f_cve_id := cve, f_verification := verification, f_evidence := ''e''\<rparr>"

theorem scan_findings_sorted_witness:
  "sorted (map f_port_number (tr_findings (finish_range key_sorter
     (range_start\<lparr>rg_findings := [port_finding ''PORT'' 80 ''CVE-1'' ''VERSION_MATCH'',
        port_finding ''PORT'' 22 ''CVE-1'' ''VERSION_MATCH'']\<rparr>))))"
  by (rule scan_findings_sorted[OF key_sorter_sorts])
    (simp add: port_finding_def bar_free_def finding_default_def)

text \<open>With findings about the host the order is lost, although the scan is said to return
  everything sorted by port number: deduplication after the sort puts the better finding of port 80
  in the place of the one of port 22, before the others of port 22.\<close>

theorem host_findings_unsorted:
  "map f_port_number (tr_findings (finish_range key_sorter
     (range_start\<lparr>rg_findings := [port_finding ''HOST'' 22 ''CVE-1'' ''VERSION_MATCH'',
        port_finding ''PORT'' 22 ''CVE-2'' ''VERSION_MATCH'', port_finding ''HOST'' 80 ''CVE-1'' ''ACTIVE_CHECK'']\<rparr>))) =
   [80, 22]"
proof -
  let ?a = "port_finding ''HOST'' 22 ''CVE-1'' ''VERSION_MATCH''"
  let ?b = "port_finding ''PORT'' 22 ''CVE-2'' ''VERSION_MATCH''"
  let ?c = "port_finding ''HOST'' 80 ''CVE-1'' ''ACTIVE_CHECK''"
  have n: "f_port_number ?a = 22" "f_port_number ?b = 22" "f_port_number ?c = 80"
    by (simp_all add: port_finding_def)
  have i: "finding_identity ?c = finding_identity ?a" "finding_identity ?b \<noteq> finding_identity ?a"
    by (simp_all add: port_finding_def finding_default_def finding_identity_def finding_id_def)
  have "merge_finding ?a ?c = ?c"
    by (simp add: merge_finding_def better_def verification_rank_def port_finding_def finding_default_def)
  then have "f_port_number (merge_finding ?a ?c) = 80" by (simp only: n)
  moreover have "sort_key f_port_number [?a, ?b, ?c] = [?a, ?b, ?c]" by (simp add: n)
  ultimately show ?thesis
    using dedup_around[OF i] by (simp add: finish_range_def key_sorter_def range_start_def n del: sort_key_simps)
qed

end
