(* ===== verification/Reporter.thy ===== *)
theory Reporter
  imports Processor "HOL-Library.Multiset" "HOL-Library.Signed_Division"
begin

text \<open>
  \<open>scan/reporter.cpp\<close> and \<open>protocols/tcp/os_fingerprint.hpp\<close>: the progress bar of the command
  line.  A tick counts, looks at the highest percentage, raises it by a compare-and-swap when its own is higher,
  and prints its line under a mutex; ticks of several workers interleave at each of these steps.  \<open>int\<close> overflow is undefined behaviour: \<open>None\<close>.
\<close>

section \<open>Operating system by TTL\<close>

definition guess_os_by_ttl :: "int \<Rightarrow> string" where
  "guess_os_by_ttl ttl =
     (if ttl \<le> 0 then []
      else if ttl \<le> 64 then ''Linux/Unix/macOS''
      else if ttl \<le> 128 then ''Windows''
      else if ttl \<le> 255 then ''Network device (Cisco/Solaris)''
      else [])"

section \<open>The bar\<close>

text \<open>The result of \<open>int\<close> arithmetic, when it is in range.\<close>

definition checked_int :: "int \<Rightarrow> int option" where
  "checked_int i = (if - INT_MAX - 1 \<le> i \<and> i \<le> INT_MAX then Some i else None)"

definition build_bar :: "int \<Rightarrow> int \<Rightarrow> string" where
  "build_bar percent width =
     (let filled = (width * percent) sdiv 100 in
      ''['' @ map (\<lambda>i. if int i < filled then CHR ''#'' else CHR '' '') [0..<nat width] @ '']'')"

record CliReporter =
  stage_name :: string
  total :: int
  completed :: int
  last_percent :: int
  rp_output :: log_output

definition reporter_new :: CliReporter where
  "reporter_new = \<lparr>stage_name = [], total = 0, completed = 0, last_percent = -1, rp_output = []\<rparr>"

definition rp_print :: "string \<Rightarrow> CliReporter \<Rightarrow> CliReporter" where
  "rp_print s r = r\<lparr>rp_output := rp_output r @ [(Cerr, s)]\<rparr>"

definition reporter_begin :: "string \<Rightarrow> int \<Rightarrow> CliReporter \<Rightarrow> CliReporter" where
  "reporter_begin stage total_items r =
     rp_print (stage @ '' ('' @ show_int total_items @ '' items)'' @ [LF])
       (r\<lparr>stage_name := stage, total := total_items, completed := 0, last_percent := -1\<rparr>)"

text \<open>\<open>++completed\<close>.\<close>

definition tick_count :: "CliReporter \<Rightarrow> int \<times> CliReporter" where
  "tick_count r = (completed r + 1, r\<lparr>completed := completed r + 1\<rparr>)"

definition tick_percent :: "CliReporter \<Rightarrow> int \<Rightarrow> int option" where
  "tick_percent r d =
     (if 0 < total r then map_option (\<lambda>x. x sdiv total r) (checked_int (d * 100)) else Some 100)"

definition progress_line :: "CliReporter \<Rightarrow> int \<Rightarrow> int \<Rightarrow> string" where
  "progress_line r percent d =
     [CR] @ build_bar percent 30 @ '' '' @ show_int percent @ ''%  '' @ show_int d @ ''/'' @ show_int (total r)"

text \<open>The compare-and-swap that succeeds, and the line printed after it under the mutex.\<close>

definition tick_raise :: "int \<Rightarrow> CliReporter \<Rightarrow> CliReporter" where
  "tick_raise percent r = r\<lparr>last_percent := percent\<rparr>"

definition tick_print :: "int \<Rightarrow> int \<Rightarrow> CliReporter \<Rightarrow> CliReporter" where
  "tick_print percent d r = rp_print (progress_line r percent d) r"

text \<open>A tick that no other interleaves with.\<close>

definition reporter_tick :: "CliReporter \<Rightarrow> CliReporter option" where
  "reporter_tick r =
     (let (d, r) = tick_count r in
      map_option (\<lambda>percent. if last_percent r < percent then tick_print percent d (tick_raise percent r) else r)
        (tick_percent r d))"

definition reporter_end :: "CliReporter \<Rightarrow> CliReporter" where
  "reporter_end r =
     rp_print ([CR] @ build_bar 100 30 @ '' 100%  '' @ show_int (total r) @ ''/'' @ show_int (total r) @ [LF]) r"

section \<open>Ticks of several workers\<close>

text \<open>
  Where a tick is: it has counted; it has its percentage and has looked at the highest one; it has raised that
  and is about to print.
\<close>

datatype Tick = Counted int | Looked int int int | Printing int int

record Ticking =
  tk_reporter :: CliReporter
  tk_ticks :: "Tick list"

text \<open>A compare-and-swap that fails, spuriously too, loads the highest percentage anew.\<close>

inductive tick_step :: "Ticking \<Rightarrow> Ticking \<Rightarrow> bool" where
  count: "tick_count (tk_reporter s) = (d, r) \<Longrightarrow>
    tick_step s \<lparr>tk_reporter = r, tk_ticks = tk_ticks s @ [Counted d]\<rparr>"
| look: "i < length (tk_ticks s) \<Longrightarrow> tk_ticks s ! i = Counted d \<Longrightarrow> tick_percent (tk_reporter s) d = Some p \<Longrightarrow>
    tick_step s (s\<lparr>tk_ticks := (tk_ticks s)[i := Looked d p (last_percent (tk_reporter s))]\<rparr>)"
| retry: "i < length (tk_ticks s) \<Longrightarrow> tk_ticks s ! i = Looked d p e \<Longrightarrow> e < p \<Longrightarrow>
    tick_step s (s\<lparr>tk_ticks := (tk_ticks s)[i := Looked d p (last_percent (tk_reporter s))]\<rparr>)"
| swap: "i < length (tk_ticks s) \<Longrightarrow> tk_ticks s ! i = Looked d p e \<Longrightarrow> e < p \<Longrightarrow> last_percent (tk_reporter s) = e \<Longrightarrow>
    tick_step s \<lparr>tk_reporter = tick_raise p (tk_reporter s), tk_ticks = (tk_ticks s)[i := Printing d p]\<rparr>"
| leave: "i < length (tk_ticks s) \<Longrightarrow> tk_ticks s ! i = Looked d p e \<Longrightarrow> p \<le> e \<Longrightarrow>
    tick_step s (s\<lparr>tk_ticks := remove_at i (tk_ticks s)\<rparr>)"
| print: "i < length (tk_ticks s) \<Longrightarrow> tk_ticks s ! i = Printing d p \<Longrightarrow>
    tick_step s \<lparr>tk_reporter = tick_print p d (tk_reporter s), tk_ticks = remove_at i (tk_ticks s)\<rparr>"

inductive ticking :: "string \<Rightarrow> int \<Rightarrow> CliReporter \<Rightarrow> Ticking \<Rightarrow> bool" for stage items r0 where
  start: "ticking stage items r0 \<lparr>tk_reporter = reporter_begin stage items r0, tk_ticks = []\<rparr>"
| step: "ticking stage items r0 s \<Longrightarrow> tick_step s s' \<Longrightarrow> ticking stage items r0 s'"

section \<open>The percentage\<close>

lemma sdiv_nonneg: "0 \<le> a \<Longrightarrow> 0 < b \<Longrightarrow> a sdiv b = a div b" for a b :: int
  by (auto simp: signed_divide_int_def sgn_if)

lemma checked_int_ok: "0 \<le> i \<Longrightarrow> i \<le> INT_MAX \<Longrightarrow> checked_int i = Some i"
  by (simp add: checked_int_def INT_MAX_def)

lemma tick_percent_value:
  assumes "0 < total r" "total r * 100 \<le> INT_MAX" "0 \<le> d" "d \<le> total r"
  shows "tick_percent r d = Some (d * 100 div total r)"
proof -
  have "d * 100 \<le> INT_MAX" using assms(2,4) by linarith
  then show ?thesis using assms by (simp add: tick_percent_def checked_int_ok sdiv_nonneg)
qed

lemma percent_bounds:
  assumes "0 < n" "0 \<le> d" "d \<le> n" shows "0 \<le> d * 100 div n" "d * 100 div n \<le> (100 :: int)"
proof -
  show "0 \<le> d * 100 div n" using assms by (simp add: pos_imp_zdiv_nonneg_iff)
  have "d * 100 div n \<le> n * 100 div n" using assms by (intro zdiv_mono1) auto
  then show "d * 100 div n \<le> 100" using assms(1) by simp
qed

text \<open>The lines of a list of ticks, each with its percentage and its count, and the percentages that ticks
  are about to print.\<close>

definition tick_lines :: "CliReporter \<Rightarrow> (int \<times> int) list \<Rightarrow> log_output" where
  "tick_lines r ls = map (\<lambda>(p, d). (Cerr, progress_line r p d)) ls"

definition about_to_print :: "Tick \<Rightarrow> int multiset" where
  "about_to_print t = (case t of Printing d p \<Rightarrow> {#p#} | _ \<Rightarrow> {#})"

definition claimed :: "(int \<times> int) list \<Rightarrow> Tick list \<Rightarrow> int multiset" where
  "claimed ls ts = mset (map fst ls) + sum_list (map about_to_print ts)"

definition tick_of :: "int \<Rightarrow> Tick \<Rightarrow> bool" where
  "tick_of d t \<longleftrightarrow> (case t of Counted d' \<Rightarrow> d' = d | Looked d' p e \<Rightarrow> d' = d | Printing d' p \<Rightarrow> False)"

definition tick_ok :: "CliReporter \<Rightarrow> Tick \<Rightarrow> bool" where
  "tick_ok r t \<longleftrightarrow>
     (case t of Counted d \<Rightarrow> 1 \<le> d \<and> d \<le> completed r
      | Looked d p e \<Rightarrow> 1 \<le> d \<and> d \<le> completed r \<and> p = d * 100 div total r \<and> e \<le> last_percent r
      | Printing d p \<Rightarrow> 1 \<le> d \<and> d \<le> completed r \<and> p = d * 100 div total r)"

text \<open>
  While no more ticks than items have come: every count is still on its way or its percentage has been reached;
  every percentage printed, or about to be, was claimed by one tick; and the highest is one of them.
\<close>

definition tick_inv :: "CliReporter \<Rightarrow> int \<Rightarrow> Ticking \<Rightarrow> (int \<times> int) list \<Rightarrow> bool" where
  "tick_inv r0 items s ls \<longleftrightarrow>
     (let r = tk_reporter s in
      total r = items \<and> total r0 = items \<and> 0 \<le> completed r \<and> -1 \<le> last_percent r \<and>
      rp_output r = rp_output r0 @ tick_lines r0 ls \<and>
      (\<forall>(p, d)\<in>set ls. 1 \<le> d \<and> d \<le> completed r \<and> p = d * 100 div items) \<and>
      (\<forall>t\<in>set (tk_ticks s). tick_ok r t) \<and>
      (\<forall>d. 1 \<le> d \<longrightarrow> d \<le> completed r \<longrightarrow> (\<exists>t\<in>set (tk_ticks s). tick_of d t) \<or> d * 100 div items \<le> last_percent r) \<and>
      (\<forall>p. count (claimed ls (tk_ticks s)) p \<le> 1) \<and>
      (\<forall>p\<in>#claimed ls (tk_ticks s). p \<le> last_percent r) \<and>
      (last_percent r = -1 \<or> last_percent r \<in># claimed ls (tk_ticks s)))"

lemma lines_same: "total r = total r' \<Longrightarrow> tick_lines r ls = tick_lines r' ls"
  by (simp add: tick_lines_def progress_line_def)

lemma lines_snoc: "tick_lines r (ls @ [(p, d)]) = tick_lines r ls @ [(Cerr, progress_line r p d)]"
  by (simp add: tick_lines_def)

lemma claimed_iff: "p \<in># claimed ls ts \<longleftrightarrow> (\<exists>d. (p, d) \<in> set ls) \<or> (\<exists>d. Printing d p \<in> set ts)"
proof -
  have "p \<in># sum_list (map about_to_print ts) \<longleftrightarrow> (\<exists>d. Printing d p \<in> set ts)"
    by (induction ts) (auto simp: about_to_print_def split: Tick.splits)
  then show ?thesis by (force simp: claimed_def)
qed

lemma at_most_once: "(\<And>x. count (mset xs) x \<le> 1) \<Longrightarrow> distinct xs"
proof (induction xs)
  case (Cons a xs)
  have "count (mset xs) x \<le> count (mset (a # xs)) x" for x by simp
  then have "count (mset xs) x \<le> 1" for x using Cons.prems le_trans by blast
  moreover have "a \<notin> set xs" using Cons.prems[of a] by (simp add: count_eq_zero_iff)
  ultimately show ?case using Cons.IH by simp
qed simp

lemma claimed_update:
  "i < length ts \<Longrightarrow> claimed ls (ts[i := t]) + about_to_print (ts ! i) = claimed ls ts + about_to_print t"
  using sum_update[of i ts about_to_print t] by (simp add: claimed_def add.assoc)

lemma claimed_remove: "i < length ts \<Longrightarrow> claimed ls (remove_at i ts) + about_to_print (ts ! i) = claimed ls ts"
  using sum_remove_at[of i ts about_to_print] by (simp add: claimed_def add.assoc)

lemma covered_update:
  assumes "i < length ts" "\<exists>t\<in>set ts. tick_of d t" "\<not> tick_of d (ts ! i) \<or> tick_of d t'"
  shows "\<exists>t\<in>set (ts[i := t']). tick_of d t"
  using assms set_update_memI[OF assms(1), of t'] kept_by_update[of _ ts i t'] by metis

lemma covered_remove:
  assumes "i < length ts" "\<exists>t\<in>set ts. tick_of d t" "\<not> tick_of d (ts ! i)"
  shows "\<exists>t\<in>set (remove_at i ts). tick_of d t"
  using assms set_remove_at[OF assms(1)] by auto

lemma ticks_update: "\<forall>t\<in>set ts. P t \<Longrightarrow> P t' \<Longrightarrow> \<forall>t\<in>set (ts[i := t']). P t"
  using set_update_subset_insert by fastforce

lemma ticks_remove: "i < length ts \<Longrightarrow> \<forall>t\<in>set ts. P t \<Longrightarrow> \<forall>t\<in>set (remove_at i ts). P t"
  using set_remove_at by fastforce

lemmas tick_steps = tick_raise_def tick_print_def rp_print_def tick_count_def

text \<open>The parts of the invariant.\<close>

lemma tick_invI:
  assumes "total (tk_reporter s) = items" "total r0 = items" "0 \<le> completed (tk_reporter s)" "-1 \<le> last_percent (tk_reporter s)"
    "rp_output (tk_reporter s) = rp_output r0 @ tick_lines r0 ls"
    "\<forall>(p, d)\<in>set ls. 1 \<le> d \<and> d \<le> completed (tk_reporter s) \<and> p = d * 100 div items"
    "\<forall>t\<in>set (tk_ticks s). tick_ok (tk_reporter s) t"
    "\<And>d. 1 \<le> d \<Longrightarrow> d \<le> completed (tk_reporter s) \<Longrightarrow>
       (\<exists>t\<in>set (tk_ticks s). tick_of d t) \<or> d * 100 div items \<le> last_percent (tk_reporter s)"
    "\<And>p. count (claimed ls (tk_ticks s)) p \<le> 1"
    "\<And>p. p \<in># claimed ls (tk_ticks s) \<Longrightarrow> p \<le> last_percent (tk_reporter s)"
    "last_percent (tk_reporter s) = -1 \<or> last_percent (tk_reporter s) \<in># claimed ls (tk_ticks s)"
  shows "tick_inv r0 items s ls"
  using assms by (simp add: tick_inv_def Let_def)

lemma tick_invD:
  assumes "tick_inv r0 items s ls"
  shows "total (tk_reporter s) = items" "total r0 = items" "0 \<le> completed (tk_reporter s)" "-1 \<le> last_percent (tk_reporter s)"
    "rp_output (tk_reporter s) = rp_output r0 @ tick_lines r0 ls"
    "\<forall>(p, d)\<in>set ls. 1 \<le> d \<and> d \<le> completed (tk_reporter s) \<and> p = d * 100 div items"
    "\<forall>t\<in>set (tk_ticks s). tick_ok (tk_reporter s) t"
    "1 \<le> d \<Longrightarrow> d \<le> completed (tk_reporter s) \<Longrightarrow>
       (\<exists>t\<in>set (tk_ticks s). tick_of d t) \<or> d * 100 div items \<le> last_percent (tk_reporter s)"
    "count (claimed ls (tk_ticks s)) p \<le> 1"
    "p \<in># claimed ls (tk_ticks s) \<Longrightarrow> p \<le> last_percent (tk_reporter s)"
    "last_percent (tk_reporter s) = -1 \<or> last_percent (tk_reporter s) \<in># claimed ls (tk_ticks s)"
  using assms unfolding tick_inv_def Let_def by blast+

lemma tick_inv_same:
  assumes inv: "tick_inv r0 items s ls" and "tk_reporter s' = tk_reporter s" "claimed ls (tk_ticks s') = claimed ls (tk_ticks s)"
    and "\<forall>t\<in>set (tk_ticks s'). tick_ok (tk_reporter s) t"
    and "\<And>d. \<exists>t\<in>set (tk_ticks s). tick_of d t \<Longrightarrow>
      (\<exists>t\<in>set (tk_ticks s'). tick_of d t) \<or> d * 100 div items \<le> last_percent (tk_reporter s)"
  shows "tick_inv r0 items s' ls"
  using tick_invD[OF inv] assms(2-5) by (intro tick_invI) (simp_all, blast)

lemma tick_inv_step:
  assumes step: "tick_step s s'" and inv: "tick_inv r0 items s ls" and items: "0 < items" "items * 100 \<le> INT_MAX"
    and le: "completed (tk_reporter s') \<le> items"
  shows "\<exists>ls'. tick_inv r0 items s' ls'"
  using step
proof cases
  case (count d r)
  then have r: "total r = items" "completed r = completed (tk_reporter s) + 1" "d = completed (tk_reporter s) + 1"
      "last_percent r = last_percent (tk_reporter s)" "rp_output r = rp_output (tk_reporter s)"
    using tick_invD(1)[OF inv] by (auto simp: tick_count_def)
  have c: "claimed ls (tk_ticks s') = claimed ls (tk_ticks s)" by (simp add: count(1) claimed_def about_to_print_def)
  have ok: "tick_ok r t" if "tick_ok (tk_reporter s) t" for t
    using that r tick_invD(1)[OF inv] by (auto simp: tick_ok_def split: Tick.splits)
  have "tick_inv r0 items s' ls"
  proof (rule tick_invI, goal_cases)
    case (8 d')
    then show ?case using tick_invD(8)[OF inv, of d'] r by (cases "d' = d") (auto simp: count(1) tick_of_def)
  qed (use tick_invD[OF inv] r c ok in \<open>fastforce simp: count(1) tick_ok_def\<close>)+
  then show ?thesis ..
next
  case (look i d p)
  have d: "1 \<le> d" "d \<le> completed (tk_reporter s)"
    using tick_invD(7)[OF inv] nth_mem[OF look(2)] look(3) by (auto simp: tick_ok_def)
  have "p = d * 100 div items"
    using tick_percent_value[of "tk_reporter s" d] tick_invD(1)[OF inv] items d le look(1,4) by simp
  then have "tick_ok (tk_reporter s) (Looked d p (last_percent (tk_reporter s)))"
    using d tick_invD(1)[OF inv] by (simp add: tick_ok_def)
  then have "tick_inv r0 items s' ls"
    using ticks_update[OF tick_invD(7)[OF inv]] claimed_update[OF look(2), of ls] covered_update[OF look(2)]
    by (intro tick_inv_same[OF inv]) (auto simp: look(1,3) about_to_print_def tick_of_def)
  then show ?thesis ..
next
  case (retry i d p e)
  have "tick_ok (tk_reporter s) (Looked d p e)" using tick_invD(7)[OF inv] nth_mem[OF retry(2)] retry(3) by metis
  then have "tick_ok (tk_reporter s) (Looked d p (last_percent (tk_reporter s)))" by (simp add: tick_ok_def)
  then have "tick_inv r0 items s' ls"
    using ticks_update[OF tick_invD(7)[OF inv]] claimed_update[OF retry(2), of ls] covered_update[OF retry(2)]
    by (intro tick_inv_same[OF inv]) (auto simp: retry(1,3) about_to_print_def tick_of_def)
  then show ?thesis ..
next
  case (leave i d p e)
  have ok: "tick_ok (tk_reporter s) (Looked d p e)" using tick_invD(7)[OF inv] nth_mem[OF leave(2)] leave(3) by metis
  then have "d * 100 div items \<le> last_percent (tk_reporter s)"
    using leave(4) tick_invD(1)[OF inv] by (simp add: tick_ok_def)
  then have "tick_inv r0 items s' ls"
    using ticks_remove[OF leave(2) tick_invD(7)[OF inv]] claimed_remove[OF leave(2), of ls] covered_remove[OF leave(2)]
    by (intro tick_inv_same[OF inv]) (auto simp: leave(1,3) about_to_print_def tick_of_def)
  then show ?thesis ..
next
  case (swap i d p e)
  let ?r = "tk_reporter s"
  have ok: "tick_ok ?r (Looked d p e)" using tick_invD(7)[OF inv] nth_mem[OF swap(2)] swap(3) by metis
  have c: "claimed ls (tk_ticks s') = add_mset p (claimed ls (tk_ticks s))"
    using claimed_update[OF swap(2), of ls "Printing d p"] by (simp add: swap(1,3) about_to_print_def)
  have c': "claimed ls ((tk_ticks s)[i := Printing d p]) = add_mset p (claimed ls (tk_ticks s))" using c by (simp add: swap(1))
  have new: "p \<notin># claimed ls (tk_ticks s)" using tick_invD(10)[OF inv, of p] swap(4,5) by auto
  have oks: "tick_ok (tick_raise p ?r) t" if "tick_ok ?r t" for t
    using that swap(4,5) by (auto simp: tick_ok_def tick_raise_def split: Tick.splits)
  have "tick_ok ?r (Printing d p)" using ok by (simp add: tick_ok_def)
  then have ticks: "\<forall>t\<in>set (tk_ticks s'). tick_ok (tick_raise p ?r) t"
    using ticks_update[OF tick_invD(7)[OF inv], of "Printing d p" i] oks by (simp add: swap(1))
  have "tick_inv r0 items s' ls"
  proof (rule tick_invI, goal_cases)
    case (7)
    then show ?case using ticks by (simp add: swap(1))
  next
    case (8 d')
    then consider "\<exists>t\<in>set (tk_ticks s). tick_of d' t" | "d' * 100 div items \<le> last_percent ?r"
      using tick_invD(8)[OF inv, of d'] by (auto simp: swap(1) tick_raise_def)
    then show ?case
    proof cases
      case 1
      show ?thesis
      proof (cases "d' = d")
        case True
        then show ?thesis using ok tick_invD(1)[OF inv] by (simp add: swap(1) tick_raise_def tick_ok_def)
      next
        case False
        then show ?thesis using covered_update[OF swap(2) 1, of "Printing d p"] by (simp add: swap(1,3) tick_of_def)
      qed
    qed (use swap in \<open>simp add: tick_raise_def\<close>)
  next
    case (9 q)
    then show ?case using tick_invD(9)[OF inv, of q] new by (auto simp: c count_eq_zero_iff)
  next
    case (10 q)
    then show ?case using tick_invD(10)[OF inv, of q] swap(4,5) by (auto simp: c' swap(1) tick_raise_def)
  next
    case 4
    show ?case using tick_invD(4)[OF inv] swap(4,5) by (simp add: swap(1) tick_raise_def)
  qed (use tick_invD(1-3,5,6)[OF inv] c in \<open>simp_all add: swap(1) tick_raise_def\<close>)
  then show ?thesis ..
next
  case (print i d p)
  let ?r = "tk_reporter s"
  have ok: "tick_ok ?r (Printing d p)" using tick_invD(7)[OF inv] nth_mem[OF print(2)] print(3) by metis
  have c: "claimed (ls @ [(p, d)]) (tk_ticks s') = claimed ls (tk_ticks s)"
    using claimed_remove[OF print(2), of ls] by (simp add: print(1,3) about_to_print_def claimed_def ac_simps)
  have oks: "tick_ok (tick_print p d ?r) t \<longleftrightarrow> tick_ok ?r t" for t
    by (auto simp: tick_ok_def tick_print_def rp_print_def split: Tick.splits)
  have line: "progress_line ?r p d = progress_line r0 p d"
    using tick_invD(1,2)[OF inv] by (simp add: progress_line_def)
  have "tick_inv r0 items s' (ls @ [(p, d)])"
  proof (rule tick_invI, goal_cases)
    case 5
    then show ?case using tick_invD(5)[OF inv] line by (simp add: print(1) tick_print_def rp_print_def lines_snoc)
  next
    case 6
    then show ?case using tick_invD(1,6)[OF inv] ok by (auto simp: print(1) tick_print_def rp_print_def tick_ok_def)
  next
    case 7
    then show ?case using ticks_remove[OF print(2) tick_invD(7)[OF inv]] by (simp add: print(1) oks)
  next
    case (8 d')
    then show ?case
      using tick_invD(8)[OF inv, of d'] covered_remove[OF print(2), of d'] by (auto simp: print(1,3) tick_print_def rp_print_def tick_of_def)
  qed (use tick_invD[OF inv] c in \<open>simp_all add: print(1) tick_print_def rp_print_def\<close>)
  then show ?thesis ..
qed

lemma completed_mono: "tick_step s s' \<Longrightarrow> completed (tk_reporter s) \<le> completed (tk_reporter s')"
  by (induction rule: tick_step.induct) (auto simp: tick_steps)

lemma tick_inv_reachable:
  assumes "ticking stage items r0 s" "0 < items" "items * 100 \<le> INT_MAX" "completed (tk_reporter s) \<le> items"
  shows "\<exists>ls. tick_inv (reporter_begin stage items r0) items s ls"
  using assms(1,4)
proof (induction rule: ticking.induct)
  case start
  have "tick_inv (reporter_begin stage items r0) items \<lparr>tk_reporter = reporter_begin stage items r0, tk_ticks = []\<rparr> []"
    by (rule tick_invI) (simp_all add: reporter_begin_def rp_print_def tick_lines_def claimed_def)
  then show ?case ..
next
  case (step s s')
  then show ?case using completed_mono[OF step.hyps(2)] tick_inv_step[OF step.hyps(2) _ assms(2,3)] by fastforce
qed

lemma percent_full: "0 < items \<Longrightarrow> d \<le> items \<Longrightarrow> d * 100 div items = 100 \<Longrightarrow> d = items" for items :: int
proof -
  assume a: "0 < items" "d \<le> items" "d * 100 div items = 100"
  have "d * 100 div items * items \<le> d * 100" using a(1) by (simp add: minus_mod_eq_div_mult [symmetric])
  then show "d = items" using a by simp
qed

text \<open>C35: The bar of a run, however the ticks of the workers interleave: as long as no more ticks
  than items have come and a hundred times their number fits an \<open>int\<close>, no tick is undefined; the highest
  percentage is at most 100; what has been printed since the run began is one line for each of some ticks,
  with the tick's count and its percentage of the items, and no percentage is printed twice; and when all items
  have ticked and every tick is through, the highest percentage is 100 and the line of the last item, at 100
  percent, is among those printed (not always the last of them, see \<open>percent_may_fall\<close>).\<close>

theorem reporter_reaches_100:
  assumes "ticking stage items r0 s" "0 < items" "items * 100 \<le> INT_MAX" "completed (tk_reporter s) \<le> items"
  shows "(\<forall>d. Counted d \<in> set (tk_ticks s) \<longrightarrow> tick_percent (tk_reporter s) d \<noteq> None) \<and>
    last_percent (tk_reporter s) \<le> 100 \<and>
    (\<exists>ls. rp_output (tk_reporter s) = rp_output (reporter_begin stage items r0) @ tick_lines (tk_reporter s) ls \<and>
      (\<forall>(p, d)\<in>set ls. 1 \<le> d \<and> d \<le> items \<and> p = d * 100 div items) \<and> distinct (map fst ls) \<and>
      (tk_ticks s = [] \<and> completed (tk_reporter s) = items \<longrightarrow>
        last_percent (tk_reporter s) = 100 \<and> (100, items) \<in> set ls))"
proof -
  let ?r = "tk_reporter s"
  obtain ls where ti: "tick_inv (reporter_begin stage items r0) items s ls" using tick_inv_reachable[OF assms] ..
  note inv = tick_invD[OF ti]
  have defined: "tick_percent ?r d \<noteq> None" if "Counted d \<in> set (tk_ticks s)" for d
    using inv(7) that assms(2-4) inv(1) tick_percent_value[of ?r d] by (auto simp: tick_ok_def)
  have claims: "p \<le> 100" if "p \<in># claimed ls (tk_ticks s)" for p
    using that[unfolded claimed_iff]
  proof (elim disjE exE)
    fix d assume "(p, d) \<in> set ls"
    then show ?thesis using inv(6) percent_bounds(2)[OF assms(2), of d] assms(4) by fastforce
  next
    fix d assume "Printing d p \<in> set (tk_ticks s)"
    then show ?thesis using inv(1,7) percent_bounds(2)[OF assms(2), of d] assms(4) by (fastforce simp: tick_ok_def)
  qed
  have top: "last_percent ?r \<le> 100" using inv(11) claims by auto
  have "count (mset (map fst ls)) p \<le> 1" for p using inv(9)[of p] by (simp add: claimed_def)
  then have dist: "distinct (map fst ls)" by (rule at_most_once)
  have lines: "\<forall>(p, d)\<in>set ls. 1 \<le> d \<and> d \<le> items \<and> p = d * 100 div items" using inv(6) assms(4) by fastforce
  have full: "last_percent ?r = 100 \<and> (100, items) \<in> set ls" if through: "tk_ticks s = []" "completed ?r = items"
  proof -
    have "items * 100 div items \<le> last_percent ?r" using inv(8)[of items] assms(2) through by simp
    then have p: "last_percent ?r = 100" using top assms(2) by simp
    then obtain d where "(100, d) \<in> set ls" using inv(11) through by (auto simp: claimed_iff)
    moreover from this have "d = items" using lines percent_full[OF assms(2), of d] by fastforce
    ultimately show ?thesis using p by simp
  qed
  have out: "rp_output ?r = rp_output (reporter_begin stage items r0) @ tick_lines ?r ls"
    using inv(5) lines_same[of "reporter_begin stage items r0" ?r ls] inv(1,2) by simp
  show ?thesis using defined top out lines dist full by blast
qed

text \<open>Two items, and the tick of the first prints after that of the second.\<close>

lemma percent_may_fall:
  "\<exists>s. ticking ''Scan'' 2 reporter_new s \<and> tk_ticks s = [] \<and> completed (tk_reporter s) = 2 \<and> last_percent (tk_reporter s) = 100 \<and>
     rp_output (tk_reporter s) =
       rp_output (reporter_begin ''Scan'' 2 reporter_new) @ tick_lines (tk_reporter s) [(100, 2), (50, 1)]"
proof -
  let ?b = "reporter_begin ''Scan'' 2 reporter_new"
  let ?r = "\<lambda>c p. \<lparr>stage_name = ''Scan'', total = 2, completed = c, last_percent = p, rp_output = rp_output ?b\<rparr>"
  let ?s = "\<lambda>r ts. \<lparr>tk_reporter = r, tk_ticks = ts\<rparr>"
  let ?reach = "ticking ''Scan'' 2 reporter_new"
  have f: "?b = ?r 0 (-1)" by (simp add: reporter_begin_def rp_print_def reporter_new_def)
  have 1: "?reach (?s (?r 0 (-1)) [])" using ticking.start f by metis
  have 2: "?reach (?s (?r 1 (-1)) [Counted 1])"
    by (rule ticking.step[OF 1]) (use tick_step.count[of "?s (?r 0 (-1)) []"] in \<open>simp add: tick_count_def\<close>)
  have 3: "?reach (?s (?r 2 (-1)) [Counted 1, Counted 2])"
    by (rule ticking.step[OF 2]) (use tick_step.count[of "?s (?r 1 (-1)) [Counted 1]"] in \<open>simp add: tick_count_def\<close>)
  have p: "tick_percent (?r 2 q) 1 = Some 50" "tick_percent (?r 2 q) 2 = Some 100" for q
    by (simp_all add: tick_percent_def checked_int_def INT_MAX_def sdiv_nonneg)
  have 4: "?reach (?s (?r 2 (-1)) [Looked 1 50 (-1), Counted 2])"
    by (rule ticking.step[OF 3])
      (use tick_step.look[of 0 "?s (?r 2 (-1)) [Counted 1, Counted 2]" 1 50] p in simp)
  have 5: "?reach (?s (?r 2 50) [Printing 1 50, Counted 2])"
    by (rule ticking.step[OF 4])
      (use tick_step.swap[of 0 "?s (?r 2 (-1)) [Looked 1 50 (-1), Counted 2]" 1 50 "-1"] in \<open>simp add: tick_raise_def\<close>)
  have 6: "?reach (?s (?r 2 50) [Printing 1 50, Looked 2 100 50])"
    by (rule ticking.step[OF 5])
      (use tick_step.look[of 1 "?s (?r 2 50) [Printing 1 50, Counted 2]" 2 100] p in simp)
  have 7: "?reach (?s (?r 2 100) [Printing 1 50, Printing 2 100])"
    by (rule ticking.step[OF 6])
      (use tick_step.swap[of 1 "?s (?r 2 50) [Printing 1 50, Looked 2 100 50]" 2 100 50] in \<open>simp add: tick_raise_def\<close>)
  have 8: "?reach (?s (tick_print 100 2 (?r 2 100)) [Printing 1 50])"
    by (rule ticking.step[OF 7])
      (use tick_step.print[of 1 "?s (?r 2 100) [Printing 1 50, Printing 2 100]" 2 100] in \<open>simp add: remove_at_def\<close>)
  have 9: "?reach (?s (tick_print 50 1 (tick_print 100 2 (?r 2 100))) [])"
    by (rule ticking.step[OF 8])
      (use tick_step.print[of 0 "?s (tick_print 100 2 (?r 2 100)) [Printing 1 50]" 1 50] in \<open>simp add: remove_at_def\<close>)
  have "progress_line (tick_print 100 2 (?r 2 100)) 50 1 = progress_line (?r 2 100) 50 1"
    by (simp add: progress_line_def tick_print_def rp_print_def)
  then show ?thesis
    by (intro exI[of _ "?s (tick_print 50 1 (tick_print 100 2 (?r 2 100))) []"] conjI 9)
      (simp_all add: tick_print_def rp_print_def tick_lines_def progress_line_def)
qed

theorem reporter_reaches_100_witness:
  "\<exists>s. ticking ''Scan'' 2 reporter_new s \<and> tk_ticks s = [] \<and>
     (\<exists>ls. rp_output (tk_reporter s) = rp_output (reporter_begin ''Scan'' 2 reporter_new) @ tick_lines (tk_reporter s) ls \<and>
       (100, 2) \<in> set ls \<and> distinct (map fst ls))"
proof -
  obtain s where s: "ticking ''Scan'' 2 reporter_new s" "tk_ticks s = []" "completed (tk_reporter s) = 2"
    using percent_may_fall by blast
  then show ?thesis using reporter_reaches_100[OF s(1)] by (auto simp: INT_MAX_def)
qed

text \<open>The percentage overflows in a large scan: the tick that counts 21474837 probes multiplies
  beyond the range of \<open>int\<close>, whatever the total is, and every tick before it is defined.\<close>

theorem tick_overflow_point:
  assumes "0 < total r" "0 \<le> completed r"
  shows "reporter_tick r = None \<longleftrightarrow> 21474836 \<le> completed r"
  using assms
  by (auto simp: reporter_tick_def tick_count_def tick_percent_def checked_int_def INT_MAX_def Let_def)

theorem tick_overflow_point_witness:
  "reporter_tick (reporter_new\<lparr>total := 268431360, completed := 21474836\<rparr>) = None"
  by (subst tick_overflow_point) simp_all

end
