(* ===== verification/Dns.thy ===== *)
theory Dns
  imports Bytes
begin

text \<open>
  \<open>protocols/dns/resolver.cpp\<close>: the query for an A record, and the reading of the response.
  Packets are byte lists; reading the four bytes of an address that are not there is
  \<open>OutOfBounds\<close>.  The random query id is an argument.
\<close>

definition encode_label :: "string \<Rightarrow> byte list" where
  "encode_label l = (word_of_nat (length l) :: byte) # map byte_of l"

text \<open>The labels between dots; the text after a last dot, when empty, is no label.\<close>

definition encode_hostname :: "string \<Rightarrow> byte list" where
  "encode_hostname hostname = concat (map encode_label (getlines (CHR ''.'') hostname)) @ [0]"

definition dns_header :: "16 word \<Rightarrow> 16 word \<Rightarrow> 16 word \<Rightarrow> 16 word \<Rightarrow> 16 word \<Rightarrow> 16 word \<Rightarrow> byte list" where
  "dns_header ident flgs qdcount ancount nscount arcount =
     put_be16 ident @ put_be16 flgs @ put_be16 qdcount @ put_be16 ancount @ put_be16 nscount @ put_be16 arcount"

definition build_query :: "string \<Rightarrow> 16 word \<Rightarrow> byte list" where
  "build_query hostname query_id =
     dns_header query_id 0x0100 1 0 0 0 @ encode_hostname hostname @ put_be16 1 @ put_be16 1"

function skip_name :: "byte list \<Rightarrow> nat \<Rightarrow> nat" where
  "skip_name data off =
     (if off < length data then
        if data ! off AND 0xC0 = 0xC0 then off + 2
        else if data ! off = 0 then off + 1
        else skip_name data (off + (1 + unat (data ! off)))
      else off)"
  by pat_completeness auto
termination by (relation "measure (\<lambda>(data, off). length data - off)") auto

declare skip_name.simps [simp del]

definition be16_at :: "byte list \<Rightarrow> nat \<Rightarrow> 16 word" where
  "be16_at data i = get_be16 (data ! i) (data ! (i + 1))"

text \<open>The loop over the answers, \<open>n\<close> of them left.\<close>

fun read_answers :: "byte list \<Rightarrow> nat \<Rightarrow> nat \<Rightarrow> string option checked" where
  "read_answers data 0 off = Done None"
| "read_answers data (Suc n) off =
     (let o1 = skip_name data off in
      if length data < o1 + 10 then Done None
      else
        let typ = be16_at data o1; rdlength = be16_at data (o1 + 8); o2 = o1 + 10 in
        if typ = 1 \<and> rdlength = 4 then
          if length data < o2 + 4 then OutOfBounds
          else Done (Some (inet_ntop (get_be32 (data ! o2) (data ! (o2 + 1)) (data ! (o2 + 2)) (data ! (o2 + 3)))))
        else read_answers data n (o2 + unat rdlength))"

definition read_response :: "byte list \<Rightarrow> string option checked" where
  "read_response response =
     (if length response < 12 then Done None
      else
        let ancount = be16_at response 6 in
        if ancount = 0 then Done None
        else read_answers response (unat ancount) (skip_name response 12 + 4))"

definition dns_resolve ::
  "'w os \<Rightarrow> string \<Rightarrow> int \<Rightarrow> 16 word \<Rightarrow> 'w \<Rightarrow> string option checked \<times> 'w" where
  "dns_resolve os hostname timeout_ms query_id w =
     (let (fd, w) = udp_new os w;
          (sent, w) = udp_send os fd ''8.8.8.8'' 53 (map char_of_byte (build_query hostname query_id)) w
      in if \<not> sent then (Done None, udp_delete os fd w)
         else
           let (raw, w) = udp_receive os fd timeout_ms w in
           if raw = [] then (Done None, udp_delete os fd w)
           else (read_response (map byte_of raw), udp_delete os fd w))"

subsection \<open>Names and records as servers write them\<close>

text \<open>A name: labels of 1 to 63 bytes, ended by the root label or by a compression pointer.\<close>

datatype name_end = Root | Pointer byte

record dns_name =
  dn_labels :: "string list"
  dn_end :: name_end

definition good_label :: "string \<Rightarrow> bool" where
  "good_label l \<longleftrightarrow> l \<noteq> [] \<and> length l \<le> 63"

definition good_name :: "dns_name \<Rightarrow> bool" where
  "good_name nm \<longleftrightarrow> (\<forall>l\<in>set (dn_labels nm). good_label l)"

fun encode_end :: "name_end \<Rightarrow> byte list" where
  "encode_end Root = [0]"
| "encode_end (Pointer b) = [0xC0, b]"

definition encode_name :: "dns_name \<Rightarrow> byte list" where
  "encode_name nm = concat (map encode_label (dn_labels nm)) @ encode_end (dn_end nm)"

record dns_rr =
  rr_name :: dns_name
  rr_type :: "16 word"
  rr_class :: "16 word"
  rr_ttl :: "32 word"
  rr_data :: "byte list"

definition good_rr :: "dns_rr \<Rightarrow> bool" where
  "good_rr rr \<longleftrightarrow> good_name (rr_name rr) \<and> length (rr_data rr) < 65536"

definition encode_rr :: "dns_rr \<Rightarrow> byte list" where
  "encode_rr rr =
     encode_name (rr_name rr) @ put_be16 (rr_type rr) @ put_be16 (rr_class rr) @ put_be32 (rr_ttl rr) @
     put_be16 (word_of_nat (length (rr_data rr))) @ rr_data rr"

text \<open>A response to one question, with any id, flags and further sections.\<close>

definition dns_message :: "16 word \<Rightarrow> 16 word \<Rightarrow> dns_name \<Rightarrow> dns_rr list \<Rightarrow> byte list \<Rightarrow> byte list" where
  "dns_message ident flgs q rrs rest =
     dns_header ident flgs 1 (word_of_nat (length rrs)) 0 0 @ encode_name q @ put_be16 1 @ put_be16 1 @
     concat (map encode_rr rrs) @ rest"

definition is_a_record :: "dns_rr \<Rightarrow> bool" where
  "is_a_record rr \<longleftrightarrow> rr_type rr = 1 \<and> length (rr_data rr) = 4"

definition rr_address :: "dns_rr \<Rightarrow> string" where
  "rr_address rr = join_with ''.'' (map (\<lambda>b. show_nat (unat b)) (rr_data rr))"

fun first_a :: "dns_rr list \<Rightarrow> string option" where
  "first_a [] = None"
| "first_a (rr # rrs) = (if is_a_record rr then Some (rr_address rr) else first_a rrs)"

subsection \<open>Reading what was written\<close>

lemma label_byte:
  assumes "good_label l"
  shows "(word_of_nat (length l) :: byte) AND 0xC0 \<noteq> 0xC0" "(word_of_nat (length l) :: byte) \<noteq> 0"
    "unat (word_of_nat (length l) :: byte) = length l"
proof -
  have le: "length l \<le> 63" "length l \<noteq> 0" using assms by (auto simp: good_label_def)
  show u: "unat (word_of_nat (length l) :: byte) = length l"
    using le by (simp add: unat_of_nat_small)
  then show "(word_of_nat (length l) :: byte) \<noteq> 0" using le by (metis unsigned_0)
  have "unat (word_of_nat (length l) AND 0xC0 :: byte) \<le> unat (word_of_nat (length l) :: byte)"
    by (metis and.commute word_and_le1 word_le_nat_alt and.left_idem word_and_le2)
  then show "(word_of_nat (length l) :: byte) AND 0xC0 \<noteq> 0xC0"
    using u le by auto
qed

lemma skip_label:
  assumes "good_label l"
  shows "skip_name (pre @ encode_label l @ post) (length pre) =
    skip_name (pre @ encode_label l @ post) (length pre + length (encode_label l))"
  using label_byte[OF assms]
  by (subst skip_name.simps) (simp add: encode_label_def nth_append)

lemma skip_labels:
  assumes "\<forall>l\<in>set ls. good_label l"
  shows "skip_name (pre @ concat (map encode_label ls) @ post) (length pre) =
    skip_name (pre @ concat (map encode_label ls) @ post) (length pre + length (concat (map encode_label ls)))"
  using assms
proof (induction ls arbitrary: pre)
  case (Cons l ls)
  have "skip_name (pre @ encode_label l @ (concat (map encode_label ls) @ post)) (length pre) =
      skip_name ((pre @ encode_label l) @ concat (map encode_label ls) @ post) (length (pre @ encode_label l))"
    using skip_label[of l pre] Cons.prems by simp
  also have "\<dots> = skip_name ((pre @ encode_label l) @ concat (map encode_label ls) @ post)
      (length (pre @ encode_label l) + length (concat (map encode_label ls)))"
    by (rule Cons.IH) (use Cons.prems in simp)
  finally show ?case by (simp add: add.assoc)
qed simp

lemma skip_encode_name:
  assumes "good_name nm"
  shows "skip_name (pre @ encode_name nm @ post) (length pre) = length pre + length (encode_name nm)"
proof -
  let ?ls = "concat (map encode_label (dn_labels nm))"
  have "skip_name (pre @ ?ls @ (encode_end (dn_end nm) @ post)) (length pre) =
      skip_name (pre @ ?ls @ (encode_end (dn_end nm) @ post)) (length pre + length ?ls)"
    by (rule skip_labels) (use assms in \<open>simp add: good_name_def\<close>)
  also have "\<dots> = length pre + length ?ls + length (encode_end (dn_end nm))"
    by (subst skip_name.simps) (cases "dn_end nm"; simp add: nth_append)
  finally show ?thesis by (simp add: encode_name_def)
qed

lemma length_put [simp]: "length (put_be16 w) = 2" "length (put_be32 v) = 4"
  by (simp_all add: put_be16_def put_be32_def)

lemma be16_at_put: "be16_at (xs @ put_be16 w @ ys) (length xs) = w"
  by (simp add: be16_at_def put_be16_def nth_append)

lemma be16_at_put_at: "i = length xs \<Longrightarrow> be16_at (xs @ put_be16 w @ ys) i = w"
  by (simp add: be16_at_put)

lemma inet_ntop_bytes:
  "inet_ntop (get_be32 a b c d) = join_with ''.'' (map (\<lambda>b. show_nat (unat b)) [a, b, c, d])"
proof -
  let ?w = "get_be32 a b c d"
  have u: "unat a < 256" "unat b < 256" "unat c < 256" "unat d < 256" by (rule unat_byte)+
  have "unat ?w = unat a * 2 ^ 24 + unat b * 2 ^ 16 + unat c * 2 ^ 8 + unat d" by (rule unat_get_be32)
  then have "addr_octets ?w = map unat [a, b, c, d]"
    using u quad_bytes[of "unat b" "unat c" "unat d" "unat a"]
    by (simp only: addr_octets_def list.map)
  then show ?thesis by (simp add: inet_ntop_def)
qed

lemma read_answers_first:
  assumes "\<forall>rr\<in>set rrs. good_rr rr"
  shows "read_answers (pre @ concat (map encode_rr rrs) @ rest) (length rrs) (length pre) = Done (first_a rrs)"
  using assms
proof (induction rrs arbitrary: pre)
  case (Cons rr rrs)
  define nm where "nm = encode_name (rr_name rr)"
  define len :: "16 word" where "len = word_of_nat (length (rr_data rr))"
  define tail where "tail = concat (map encode_rr rrs) @ rest"
  define post where "post = put_be16 (rr_class rr) @ put_be32 (rr_ttl rr) @ put_be16 len @ rr_data rr @ tail"
  let ?data = "pre @ nm @ put_be16 (rr_type rr) @ post"
  have data: "pre @ concat (map encode_rr (rr # rrs)) @ rest = ?data"
    by (simp add: encode_rr_def nm_def post_def len_def tail_def)
  have "good_name (rr_name rr)" using Cons.prems by (simp add: good_rr_def)
  then have o1: "skip_name ?data (length pre) = length pre + length nm"
    unfolding nm_def by (rule skip_encode_name)
  have len: "unat len = length (rr_data rr)"
    using Cons.prems by (simp add: len_def good_rr_def unat_of_nat_small)
  have ty: "be16_at ?data (length pre + length nm) = rr_type rr"
    using be16_at_put[of "pre @ nm" "rr_type rr" post] by simp
  have rdl: "be16_at ?data (length pre + length nm + 8) = len"
    using be16_at_put_at[of "length pre + length nm + 8"
        "pre @ nm @ put_be16 (rr_type rr) @ put_be16 (rr_class rr) @ put_be32 (rr_ttl rr)" len "rr_data rr @ tail"]
    by (simp add: post_def)
  have len4: "len = 4 \<longleftrightarrow> length (rr_data rr) = 4"
    by (simp add: word_unat_eq_iff len)
  show ?case
  proof (cases "is_a_record rr")
    case True
    then obtain a b c d where abcd: "rr_data rr = [a, b, c, d]"
      by (auto simp: is_a_record_def numeral_eq_Suc length_Suc_conv)
    let ?xs = "pre @ nm @ put_be16 (rr_type rr) @ put_be16 (rr_class rr) @ put_be32 (rr_ttl rr) @ put_be16 len"
    have d4: "?data = ?xs @ [a, b, c, d] @ tail" by (simp add: post_def abcd)
    have "?data ! (length pre + length nm + 10 + k) = [a, b, c, d] ! k" if "k < 4" for k
      unfolding d4 using that nth_append[of "[a, b, c, d]" tail k] by (simp add: nth_append)
    from this[of 0] this[of 1] this[of 2] this[of 3] have
      "?data ! (length pre + length nm + 10) = a" "?data ! (length pre + length nm + 10 + 1) = b"
      "?data ! (length pre + length nm + 10 + 2) = c" "?data ! (length pre + length nm + 10 + 3) = d"
      by simp_all
    then show ?thesis
      using True o1 ty rdl len4 unfolding data
      by (simp add: Let_def is_a_record_def post_def abcd rr_address_def inet_ntop_bytes)
  next
    case False
    have e: "encode_rr rr = nm @ put_be16 (rr_type rr) @ put_be16 (rr_class rr) @ put_be32 (rr_ttl rr) @
        put_be16 len @ rr_data rr"
      by (simp add: encode_rr_def nm_def len_def)
    have "read_answers ?data (length rrs) (length pre + length nm + 10 + unat len) = Done (first_a rrs)"
      using Cons.IH[of "pre @ encode_rr rr"] Cons.prems
      by (simp add: e post_def tail_def len add.assoc)
    then show ?thesis
      using False o1 ty rdl len4 unfolding data
      by (auto simp add: Let_def is_a_record_def post_def)
  qed
qed simp

subsection \<open>What the resolver returns\<close>

text \<open>C24: Reading a DNS response is the inverse of writing one: for a response with any id and flags,
  any question name and up to 65535 records whose names are labels or end in a compression pointer,
  the resolver returns the address of the first A record, in dotted form, and nothing when there is
  none, whatever follows the records.\<close>

theorem resolver_reads_first_address:
  assumes "good_name q" "\<forall>rr\<in>set rrs. good_rr rr" "length rrs < 65536"
  shows "read_response (dns_message ident flgs q rrs rest) = Done (first_a rrs)"
proof -
  let ?h = "dns_header ident flgs 1 (word_of_nat (length rrs)) 0 0"
  let ?body = "concat (map encode_rr rrs) @ rest"
  let ?msg = "dns_message ident flgs q rrs rest"
  have h: "length ?h = 12" by (simp add: dns_header_def)
  have "be16_at ?msg 6 = word_of_nat (length rrs)"
    using be16_at_put_at[of 6 "put_be16 ident @ put_be16 flgs @ put_be16 1"]
    by (simp add: dns_message_def dns_header_def)
  moreover have "skip_name ?msg 12 = 12 + length (encode_name q)"
    using skip_encode_name[OF assms(1), of ?h] by (simp add: dns_message_def h)
  moreover have "read_answers ?msg (length rrs) (12 + length (encode_name q) + 4) = Done (first_a rrs)"
    using read_answers_first[OF assms(2), of "?h @ encode_name q @ put_be16 1 @ put_be16 1" rest]
    by (simp add: dns_message_def h add.assoc)
  moreover have n: "unat (word_of_nat (length rrs) :: 16 word) = length rrs"
    using assms(3) by (simp add: unat_of_nat_small)
  moreover have "(word_of_nat (length rrs) :: 16 word) = 0 \<longleftrightarrow> rrs = []"
    using n by (metis length_0_conv unat_eq_zero unsigned_0)
  ultimately show ?thesis
    using h by (auto simp: read_response_def Let_def dns_message_def)
qed

theorem resolver_reads_first_address_witness:
  "read_response (dns_message 7 0x8180 \<lparr>dn_labels = [''www'', ''de''], dn_end = Root\<rparr>
     [\<lparr>rr_name = \<lparr>dn_labels = [], dn_end = Pointer 12\<rparr>, rr_type = 5, rr_class = 1, rr_ttl = 60, rr_data = [1, 0x78, 0]\<rparr>,
      \<lparr>rr_name = \<lparr>dn_labels = [''x''], dn_end = Root\<rparr>, rr_type = 1, rr_class = 1, rr_ttl = 60, rr_data = [10, 0, 0, 7]\<rparr>]
     []) = Done (Some ''10.0.0.7'')"
  by (subst resolver_reads_first_address)
    (simp_all add: good_name_def good_rr_def good_label_def is_a_record_def rr_address_def join_with_Cons
      show_nat.simps digit_char_eqs del: One_nat_def)

text \<open>The length of a record is not checked against the response: when the response ends right
  after the header of an A record of four bytes, the address is read from behind the buffer.\<close>

theorem resolver_reads_past_response:
  assumes "good_name q" "good_name nm"
  shows "read_response (dns_header ident flgs 1 1 0 0 @ encode_name q @ put_be16 1 @ put_be16 1 @
    encode_name nm @ put_be16 1 @ put_be16 1 @ put_be32 ttl @ put_be16 4) = OutOfBounds"
proof -
  let ?h = "dns_header ident flgs 1 1 0 0"
  let ?pre = "?h @ encode_name q @ put_be16 1 @ put_be16 1"
  let ?msg = "?pre @ encode_name nm @ put_be16 1 @ put_be16 1 @ put_be32 ttl @ put_be16 4"
  have h: "length ?h = 12" by (simp add: dns_header_def)
  have "be16_at ?msg 6 = 1"
    using be16_at_put_at[of 6 "put_be16 ident @ put_be16 flgs @ put_be16 1"] by (simp add: dns_header_def)
  moreover have "skip_name ?msg 12 = 12 + length (encode_name q)"
    using skip_encode_name[OF assms(1), of ?h] by (simp add: h)
  moreover have "skip_name ?msg (length ?pre) = length ?pre + length (encode_name nm)"
    by (rule skip_encode_name[OF assms(2)])
  moreover have "be16_at ?msg (length ?pre + length (encode_name nm)) = 1"
    using be16_at_put_at[of "length ?pre + length (encode_name nm)" "?pre @ encode_name nm"] by simp
  moreover have "be16_at ?msg (length ?pre + length (encode_name nm) + 8) = 4"
    using be16_at_put_at[of "length ?pre + length (encode_name nm) + 8"
        "?pre @ encode_name nm @ put_be16 1 @ put_be16 1 @ put_be32 ttl" 4 "[]"] by simp
  ultimately show ?thesis
    using h by (simp add: read_response_def Let_def add.assoc add.commute add.left_commute)
qed

theorem resolver_reads_past_response_witness:
  "read_response (dns_header 1 0 1 1 0 0 @ encode_name \<lparr>dn_labels = [''a''], dn_end = Root\<rparr> @
    put_be16 1 @ put_be16 1 @ encode_name \<lparr>dn_labels = [], dn_end = Pointer 12\<rparr> @
    put_be16 1 @ put_be16 1 @ put_be32 60 @ put_be16 4) = OutOfBounds"
  by (rule resolver_reads_past_response) (simp_all add: good_name_def good_label_def)

end
