(* ===== verification/FullScan.thy ===== *)
theory FullScan
  imports TcpRange Reporter Dns
begin

text \<open>
  \<open>main.cpp\<close>: the interactive program.  Its input is the text of \<open>std::cin\<close>, its files are
  arguments (\<open>None\<close>: cannot be opened), \<open>webui::run\<close> is an argument.  What is written to \<open>cout\<close>
  and to \<open>cerr\<close> is collected separately, the progress bar in the reporter.
\<close>

section \<open>Reading the answers\<close>

record istream =
  is_text :: string
  is_fail :: bool

definition skip_ws :: "string \<Rightarrow> string" where
  "skip_ws s = dropWhile is_space s"

text \<open>
  \<open>cin >> i\<close>: nothing happens on a failed stream; at the end of the input the stream fails and
  the variable is unchanged; without digits it is set to 0, out of range to the limit, and the
  stream fails.
\<close>

definition read_int :: "int \<Rightarrow> istream \<Rightarrow> int \<times> istream" where
  "read_int old st =
     (if is_fail st then (old, st)
      else
        let s = skip_ws (is_text st) in
        if s = [] then (old, st\<lparr>is_text := [], is_fail := True\<rparr>)
        else
          let neg = (hd s = CHR ''-'');
              body = (if neg \<or> hd s = CHR ''+'' then tl s else s);
              ds = takeWhile is_digit body;
              st = st\<lparr>is_text := dropWhile is_digit body\<rparr>;
              v = (if neg then - int (digits_val ds) else int (digits_val ds))
          in if ds = [] then (0, st\<lparr>is_fail := True\<rparr>)
             else if v < INT_MIN then (INT_MIN, st\<lparr>is_fail := True\<rparr>)
             else if INT_MAX < v then (INT_MAX, st\<lparr>is_fail := True\<rparr>)
             else (v, st))"

text \<open>\<open>cin >> s\<close> into an empty string.\<close>

definition read_word :: "istream \<Rightarrow> string \<times> istream" where
  "read_word st =
     (if is_fail st then ([], st)
      else
        let s = skip_ws (is_text st) in
        if s = [] then ([], st\<lparr>is_text := [], is_fail := True\<rparr>)
        else (takeWhile (\<lambda>c. \<not> is_space c) s, st\<lparr>is_text := dropWhile (\<lambda>c. \<not> is_space c) s\<rparr>))"

section \<open>The report of a host\<close>

definition pad_right :: "string \<Rightarrow> nat \<Rightarrow> string" where
  "pad_right s width = (if width \<le> length s then s else s @ replicate (width - length s) (CHR '' ''))"

definition product_text :: "Port \<Rightarrow> string" where
  "product_text p =
     (let prod = p_product p;
          prod = (if p_version p \<noteq> [] then prod @ (if prod = [] then [] else '' '') @ p_version p else prod)
      in if p_distro p \<noteq> [] then prod @ (if prod = [] then [] else '' '') @ ''['' @ p_distro p @ '']'' else prod)"

definition port_row :: "Port \<Rightarrow> string" where
  "port_row p =
     pad_right (show_nat (unat (p_number p)) @ ''/tcp'') 10 @ pad_right ''open'' 7 @
     pad_right (if p_service p = [] then ''-'' else p_service p) 12 @
     (if product_text p = [] then ''-'' else product_text p) @ [LF]"

definition finding_row :: "Finding \<Rightarrow> string" where
  "finding_row f =
     ''  '' @ pad_right (''['' @ severity_to_string (f_severity f) @ '']'') 12 @
     pad_right (''['' @ confidence_to_string (f_confidence f) @ '']'') 17 @
     pad_right (''['' @ verification_label (f_verification f) @ '']'') 20 @
     pad_right (show_nat (unat (f_port_number f)) @ ''/tcp'') 10 @ f_title f @ [LF] @
     (if f_description f = [] then [] else ''      '' @ f_description f @ [LF])"

definition host_up_text :: "string \<Rightarrow> int \<Rightarrow> string" where
  "host_up_text os_guess ttl =
     ''Host is up'' @
     (if os_guess \<noteq> [] \<or> 0 < ttl then
        '' ('' @ (if 0 < ttl then ''ttl='' @ show_int ttl else []) @
        (if os_guess \<noteq> [] then (if 0 < ttl then '', '' else []) @ ''os='' @ os_guess else []) @ '')''
      else []) @ [LF, LF]"

definition print_host_report ::
  "Sorter \<Rightarrow> string \<Rightarrow> string \<Rightarrow> string \<Rightarrow> int \<Rightarrow> Port list \<Rightarrow> Finding list \<Rightarrow> string" where
  "print_host_report srt ip hostname os_guess ttl ports findings =
     (let ports = sort_ports srt ports; findings = sort_findings srt findings in
      [LF] @ ''Scan report for '' @ (if hostname \<noteq> [] then hostname @ '' ('' @ ip @ '')'' else ip) @ [LF] @
      host_up_text os_guess ttl @
      (if ports = [] then ''No open ports.'' @ [LF]
       else pad_right ''PORT'' 10 @ pad_right ''STATE'' 7 @ pad_right ''SERVICE'' 12 @ ''PRODUCT'' @ [LF] @
            concat (map port_row ports)) @
      (if findings = [] then []
       else [LF] @ ''Findings ('' @ show_nat (length findings) @ ''):'' @ [LF] @ concat (map finding_row findings)))"

section \<open>The full scan\<close>

definition icmp_delete :: "'w os \<Rightarrow> int \<Rightarrow> 'w \<Rightarrow> 'w" where
  "icmp_delete os fd w = (if fd \<noteq> -1 then os_close os fd w else w)"

text \<open>
  The task of a port: the stages are those of \<open>tcp_range_scan\<close>, without a sink, and the reporter
  ticks on every way out.
\<close>

definition no_sink :: LiveSink where
  "no_sink = \<lparr>sink_progress = False, sink_on_port_open = False\<rparr>"

record HostRun =
  hr_range :: RangeState
  hr_reporter :: CliReporter

definition full_task ::
  "'w Env \<Rightarrow> 're Detector \<Rightarrow> LoadedPlugin list \<Rightarrow> string \<Rightarrow> int \<Rightarrow> HostRun \<Rightarrow> ('w rt, HostRun) comp" where
  "full_task env dt plugins target_ip p h =
     cbind (scan_task env dt plugins no_sink target_ip 1000 p (hr_range h)) (\<lambda>rg.
       case reporter_tick (hr_reporter h) of
         None \<Rightarrow> cstop Undef
       | Some r \<Rightarrow> cret \<lparr>hr_range = rg, hr_reporter = r\<rparr>)"

definition scanned_host :: "Sorter \<Rightarrow> string \<Rightarrow> Host \<Rightarrow> RangeState \<Rightarrow> Host" where
  "scanned_host srt target_ip ping_result rg =
     host_default\<lparr>h_ip := target_ip, h_state := h_state ping_result, h_ttl := h_ttl ping_result,
       h_os_guess := guess_os_by_ttl (h_ttl ping_result), h_kb := kb_snapshot (rg_kb rg),
       h_ports := sort_ports srt (rg_ports rg),
       h_findings := deduplicate_findings (sort_findings srt (rg_findings rg))\<rparr>"

record FullScan =
  fl_reporter :: CliReporter
  fl_hosts :: "Host list"
  fl_out :: string

text \<open>\<open>junk\<close> is what the uninitialised receive buffer of the ping holds.\<close>

definition scan_host ::
  "'w Env \<Rightarrow> 're Detector \<Rightarrow> Sorter \<Rightarrow> (int list \<Rightarrow> int list) \<Rightarrow> byte list \<Rightarrow> LoadedPlugin list \<Rightarrow> int \<Rightarrow> int \<Rightarrow>
   string \<Rightarrow> FullScan \<Rightarrow> ('w rt, FullScan) comp" where
  "scan_host env dt srt schedule junk plugins start_port end_port target_ip fl =
     cbind (in_world (\<lambda>w. Some (icmp_new (env_os env) w))) (\<lambda>fd.
     cbind (in_world (\<lambda>w. Some (icmp_ping (env_os env) junk fd target_ip 1000 w))) (\<lambda>ping_result.
     cbind (run_tasks (\<lambda>p h. in_worker (full_task env dt plugins target_ip p h)) (schedule (port_range start_port end_port))
              \<lparr>hr_range = range_start, hr_reporter = fl_reporter fl\<rparr>) (\<lambda>h.
     let host = scanned_host srt target_ip ping_result (hr_range h) in
     cbind (in_world (\<lambda>w. Some ((), icmp_delete (env_os env) fd w))) (\<lambda>_.
       cret \<lparr>fl_reporter = hr_reporter h, fl_hosts = fl_hosts fl @ [host],
             fl_out = fl_out fl @ print_host_report srt target_ip (h_hostname host) (h_os_guess host) (h_ttl host)
               (h_ports host) (h_findings host)\<rparr>))))"

text \<open>\<open>end_port - start_port + 1\<close> and the product with the number of hosts, in \<open>int\<close>.\<close>

definition total_scans :: "nat \<Rightarrow> int \<Rightarrow> int \<Rightarrow> int option" where
  "total_scans n start_port end_port =
     (case checked_int (end_port - start_port) of
        None \<Rightarrow> None
      | Some d \<Rightarrow>
          (case checked_int (d + 1) of
             None \<Rightarrow> None
           | Some ports_per_host \<Rightarrow> checked_int (int n * ports_per_host)))"

definition full_scan ::
  "'w Env \<Rightarrow> 're Detector \<Rightarrow> Sorter \<Rightarrow> (int list \<Rightarrow> int list) \<Rightarrow> byte list \<Rightarrow> LoadedPlugin list \<Rightarrow> string list \<Rightarrow>
   int \<Rightarrow> int \<Rightarrow> ('w rt, FullScan) comp" where
  "full_scan env dt srt schedule junk plugins targets start_port end_port =
     (case total_scans (length targets) start_port end_port of
        None \<Rightarrow> cstop Undef
      | Some n \<Rightarrow>
          cbind (run_tasks (scan_host env dt srt schedule junk plugins start_port end_port) targets
                   \<lparr>fl_reporter = reporter_begin ''Full scan'' n reporter_new, fl_hosts = [],
                    fl_out = ''Scanning '' @ show_nat (length targets) @ '' host(s) on ports '' @
                      show_int start_port @ ''-'' @ show_int end_port @ [LF, LF]\<rparr>) (\<lambda>fl.
            cret (fl\<lparr>fl_reporter := reporter_end (fl_reporter fl), fl_out := fl_out fl @ [LF] @ ''Done.'' @ [LF]\<rparr>)))"

section \<open>The program\<close>

record Exit =
  ex_code :: int
  ex_out :: string
  ex_err :: string
  ex_progress :: log_output

text \<open>What the program finds outside itself.\<close>

record ('w, 're) Program =
  pg_env :: "'w Env"
  pg_compile :: "string \<Rightarrow> bool \<Rightarrow> 're option"
  pg_search :: "'re \<Rightarrow> string \<Rightarrow> RegexSearch"
  pg_sorter :: Sorter
  pg_schedule :: "int list \<Rightarrow> int list"
  pg_junk :: "byte list"
  pg_uninit :: int
  pg_query_id :: "16 word"
  pg_patterns :: "string option"
  pg_database :: "string option"
  pg_fixes :: "string option"
  pg_plugins :: "(string \<times> string option) list option"
  pg_webui :: "LoadedPlugin list \<Rightarrow> ('w rt, int) comp"

definition exit_with :: "int \<Rightarrow> string \<Rightarrow> string \<Rightarrow> Exit" where
  "exit_with rc out err = \<lparr>ex_code = rc, ex_out = out, ex_err = err, ex_progress = []\<rparr>"

definition main_load :: "('w, 're) Program \<Rightarrow> ('w rt, 're Detector \<times> LoadedPlugin list) comp" where
  "main_load pg =
     (case load_patterns (pg_compile pg) ''data/zt-service-probes.txt'' (pg_patterns pg)
             \<lparr>service_patterns = [], pr_output = []\<rparr> of
        (False, pr) \<Rightarrow> cthrow (StdException ''regex_error'')
      | (True, pr) \<Rightarrow>
          cbind (cmodify (\<lambda>s. s\<lparr>it_ext := (it_ext s)\<lparr>sc_cve :=
              load_distro_fixes (pg_fixes pg) (load_database (pg_database pg) (sc_cve (it_ext s)))\<rparr>\<rparr>)) (\<lambda>_.
          cbind (load_plugins_dir (pg_env pg) ''data/plugins'' (pg_plugins pg)) (\<lambda>plugins.
            cret (\<lparr>dt_search = pg_search pg, dt_processor = pr\<rparr>, plugins))))"

definition port_text :: "Port \<Rightarrow> string" where
  "port_text p =
     ''Port: '' @ show_nat (unat (p_number p)) @ '', Protocol: '' @ protocol_to_string (p_protocol p) @
     '', State: '' @ port_state_to_string (p_state p) @ [LF]"

text \<open>No exit, and a world that is not read: \<open>std::regex_error\<close> leaves \<open>main\<close>.\<close>

definition tcp_mode :: "'w os \<Rightarrow> 're Detector \<Rightarrow> string \<Rightarrow> int \<Rightarrow> 'w \<Rightarrow> (Exit option \<times> 'w) option" where
  "tcp_mode os dt ip port w =
     (let (fd, w) = tcp_new os w;
          (result, w) = tcp_connect os fd ip port 2000 w;
          out = port_text result
      in if p_state result \<noteq> S_OPEN then
           Some (Some (exit_with 1 out (''TCP connection failed'' @ [LF])), tcp_delete os fd w)
         else
           let out = out @ ''TCP connected!'' @ [LF] in
           case tcp_send os fd ''Hello from ZeroTrust!'' w of
             None \<Rightarrow> None
           | Some (False, w) \<Rightarrow> Some (Some (exit_with 1 out (''TCP send failed'' @ [LF])), tcp_delete os fd w)
           | Some (True, w) \<Rightarrow>
               let (response, w) = tcp_receive os fd 2000 w in
               case detect_service (dt_search dt) (dt_processor dt) result response of
                 None \<Rightarrow> Some (None, w)
               | Some result \<Rightarrow>
                   Some (Some (exit_with 0
                     (out @ ''Received: '' @ response @ [LF] @ ''Service: '' @ p_service result @ '', Product: '' @
                      p_product result @ '', Version: '' @ p_version result @ [LF]) []), tcp_delete os fd w))"

definition udp_mode :: "'w os \<Rightarrow> string \<Rightarrow> int \<Rightarrow> 'w \<Rightarrow> Exit \<times> 'w" where
  "udp_mode os ip port w =
     (let (fd, w) = udp_new os w; (sent, w) = udp_send os fd ip port ''Hello from ZeroTrust!'' w
      in ((if sent then exit_with 0 (''UDP packet sent!'' @ [LF]) [] else exit_with 1 [] (''UDP send failed'' @ [LF])),
          udp_delete os fd w))"

definition icmp_mode :: "'w os \<Rightarrow> byte list \<Rightarrow> string \<Rightarrow> 'w \<Rightarrow> Exit \<times> 'w" where
  "icmp_mode os junk ip w =
     (let (fd, w) = icmp_new os w;
          (result, w) = icmp_ping os junk fd ip 2000 w;
          out = ''Host: '' @ h_ip result @ '', State: '' @ host_state_to_string (h_state result) @ [LF]
      in ((if h_state result \<noteq> H_ALIVE then exit_with 1 out (''Host did not respond to ping'' @ [LF])
           else exit_with 0 (out @ ''Host is alive!'' @ [LF]) []), icmp_delete os fd w))"

definition range_mode ::
  "('w, 're) Program \<Rightarrow> 're Detector \<Rightarrow> LoadedPlugin list \<Rightarrow> string \<Rightarrow> int \<Rightarrow> int \<Rightarrow> ('w rt, Exit) comp" where
  "range_mode pg dt plugins ip start_port end_port =
     cbind (tcp_range_scan (pg_env pg) dt (pg_sorter pg) (pg_schedule pg) ip start_port end_port plugins no_sink 1000)
       (\<lambda>(r, rg). cret (exit_with 0 (print_host_report (pg_sorter pg) ip [] [] 0 (tr_ports r) (tr_findings r)) []))"

definition full_mode ::
  "('w, 're) Program \<Rightarrow> 're Detector \<Rightarrow> LoadedPlugin list \<Rightarrow> string \<Rightarrow> int \<Rightarrow> int \<Rightarrow> ('w rt, Exit) comp" where
  "full_mode pg dt plugins ip start_port end_port =
     (let targets = expand_cidr ip in
      if targets = [] then cret (exit_with 1 [] (''No hosts to scan'' @ [LF]))
      else cbind (full_scan (pg_env pg) dt (pg_sorter pg) (pg_schedule pg) (pg_junk pg) plugins targets start_port end_port)
             (\<lambda>fl. cret \<lparr>ex_code = 0, ex_out = fl_out fl, ex_err = [], ex_progress = rp_output (fl_reporter fl)\<rparr>))"

text \<open>The name of a single target is resolved unless it is an address.\<close>

definition resolve_target :: "('w, 're) Program \<Rightarrow> string \<Rightarrow> 'w \<Rightarrow> ((string option \<times> string) \<times> 'w) checked" where
  "resolve_target pg ip w =
     (if CHR ''/'' \<in> set ip \<or> inet_pton ip \<noteq> None then Done ((Some ip, []), w)
      else case dns_resolve (env_os (pg_env pg)) ip 2000 (pg_query_id pg) w of
        (OutOfBounds, w) \<Rightarrow> OutOfBounds
      | (NoReturn, w) \<Rightarrow> NoReturn
      | (Done None, w) \<Rightarrow> Done ((None, ''Resolving '' @ ip @ ''...'' @ [LF]), w)
      | (Done (Some r), w) \<Rightarrow>
          Done ((Some r, ''Resolving '' @ ip @ ''...'' @ [LF] @ ''Resolved '' @ ip @ '' -> '' @ r @ [LF]), w))"

definition menu :: string where
  "menu =
     ''Choose protocol:'' @ [LF] @ ''1. TCP'' @ [LF] @ ''2. UDP'' @ [LF] @ ''3. ICMP (ping)'' @ [LF] @
     ''4. TCP port range scan'' @ [LF] @ ''5. Full scan (CIDR + OS fingerprint)'' @ [LF] @
     ''6. Start web UI (SSO via AGG One)'' @ [LF] @ ''Protocol: ''"

definition prepend_out :: "string \<Rightarrow> Exit \<Rightarrow> Exit" where
  "prepend_out out e = e\<lparr>ex_out := out @ ex_out e\<rparr>"

text \<open>Reading the two ends of the range.\<close>

definition read_range :: "istream \<Rightarrow> int \<times> int" where
  "read_range st = (let (start_port, st) = read_int 0 st; (end_port, st) = read_int 0 st in (start_port, end_port))"

definition run_mode ::
  "('w, 're) Program \<Rightarrow> 're Detector \<Rightarrow> LoadedPlugin list \<Rightarrow> int \<Rightarrow> string \<Rightarrow> istream \<Rightarrow> ('w rt, Exit) comp" where
  "run_mode pg dt plugins protocol ip st =
     (let os = env_os (pg_env pg); port = fst (read_int 0 st); (start_port, end_port) = read_range st;
          ask = ''Start port: '' @ ''End port: ''
      in if protocol = 1 then
           cbind (in_world (tcp_mode os dt ip port)) (\<lambda>e.
             case e of None \<Rightarrow> cthrow (StdException ''regex_error'') | Some e \<Rightarrow> cret (prepend_out ''Port: '' e))
         else if protocol = 2 then
           cbind (in_world (\<lambda>w. Some (udp_mode os ip port w))) (\<lambda>e. cret (prepend_out ''Port: '' e))
         else if protocol = 3 then in_world (\<lambda>w. Some (icmp_mode os (pg_junk pg) ip w))
         else if protocol = 4 then
           cbind (range_mode pg dt plugins ip start_port end_port) (\<lambda>e. cret (prepend_out ask e))
         else if protocol = 5 then
           cbind (full_mode pg dt plugins ip start_port end_port) (\<lambda>e. cret (prepend_out ask e))
         else cret (exit_with 1 [] (''Invalid protocol'' @ [LF])))"

definition program_main :: "('w, 're) Program \<Rightarrow> string \<Rightarrow> ('w rt, Exit) comp" where
  "program_main pg stdin =
     cbind (main_load pg) (\<lambda>(dt, plugins).
     let (protocol, st) = read_int (pg_uninit pg) \<lparr>is_text = stdin, is_fail = False\<rparr> in
     if protocol = 6 then cbind (pg_webui pg plugins) (\<lambda>rc. cret (exit_with rc menu []))
     else
       let (ip, st) = read_word st in
       cbind (in_checked (resolve_target pg ip)) (\<lambda>(resolved, out).
         let out = menu @ ''IP or CIDR (e.g. 192.168.1.0/24): '' @ out in
         case resolved of
           None \<Rightarrow> cret (exit_with 1 out (''Could not resolve hostname: '' @ ip @ [LF]))
         | Some ip \<Rightarrow> cbind (run_mode pg dt plugins protocol ip st) (\<lambda>e. cret (prepend_out out e))))"

section \<open>What a full scan returns\<close>

text \<open>The reporter after \<open>k\<close> ticks one after the other.\<close>

definition ticked :: "int \<Rightarrow> nat \<Rightarrow> CliReporter \<Rightarrow> bool" where
  "ticked n k r \<longleftrightarrow>
     total r = n \<and> completed r = int k \<and> last_percent r = (if k = 0 then -1 else int k * 100 div n)"

lemma ticked_begin: "ticked n 0 (reporter_begin stage n r)"
  by (simp add: ticked_def reporter_begin_def rp_print_def)

lemma ticked_tick:
  assumes "ticked n k r" "0 < n" "reporter_tick r = Some r'"
  shows "ticked n (Suc k) r'"
proof -
  have le: "int k * 100 div n \<le> int (Suc k) * 100 div n" using assms(2) by (intro zdiv_mono1) auto
  have pos: "0 \<le> int (Suc k) * 100 div n" using assms(2) by (simp add: pos_imp_zdiv_nonneg_iff)
  have r: "total r = n" "completed r = int k" "last_percent r = (if k = 0 then -1 else int k * 100 div n)"
    using assms(1) by (auto simp: ticked_def)
  define r1 where "r1 = snd (tick_count r)"
  have c: "tick_count r = (int (Suc k), r1)" "total r1 = n" "last_percent r1 = last_percent r" "completed r1 = int (Suc k)"
    using r by (simp_all add: r1_def tick_count_def)
  obtain p where p: "tick_percent r1 (int (Suc k)) = Some p"
    and r': "r' = (if last_percent r1 < p then tick_print p (int (Suc k)) (tick_raise p r1) else r1)"
    using assms(3) by (auto simp: reporter_tick_def c(1))
  have "p = int (Suc k) * 100 div n"
    using p c(2) assms(2) by (auto simp: tick_percent_def checked_int_def sdiv_nonneg split: if_splits)
  then show ?thesis using r le pos c(2-4) by (auto simp: r' ticked_def tick_print_def tick_raise_def rp_print_def)
qed

definition host_run_inv :: "string \<Rightarrow> int \<Rightarrow> nat \<Rightarrow> int list \<Rightarrow> HostRun \<Rightarrow> bool" where
  "host_run_inv ip n k prev h \<longleftrightarrow>
     range_inv ip no_sink prev (hr_range h) \<and> ticked n (k + length prev) (hr_reporter h)"

lemma full_task_invariant:
  assumes "full_task env dt plugins ip p h s = (Ok h', s')" "host_run_inv ip n k prev h" "0 < n"
  shows "host_run_inv ip n k (prev @ [p]) h'"
proof -
  obtain rg s1 r where "scan_task env dt plugins no_sink ip 1000 p (hr_range h) s = (Ok rg, s1)"
    "reporter_tick (hr_reporter h) = Some r" "h' = \<lparr>hr_range = rg, hr_reporter = r\<rparr>"
    using assms(1) unfolding full_task_def
    by (auto simp: cbind_Ok_iff cret_def cstop_def split: option.splits)
  then show ?thesis
    using scan_task_invariant[of env dt plugins no_sink ip 1000 p "hr_range h" s rg s1 prev]
      ticked_tick[of n "k + length prev" "hr_reporter h" r] assms(2,3)
    by (simp add: host_run_inv_def)
qed

text \<open>A host in the result.\<close>

definition host_ok :: "int \<Rightarrow> int \<Rightarrow> Host \<Rightarrow> bool" where
  "host_ok start_port end_port host \<longleftrightarrow>
     sorted (map p_number (h_ports host)) \<and> distinct (map p_number (h_ports host)) \<and>
     (\<forall>port\<in>set (h_ports host). p_state port = S_OPEN \<and> p_protocol port = P_TCP \<and>
        start_port \<le> uint (p_number port) \<and> uint (p_number port) \<le> end_port) \<and>
     distinct (map finding_identity (h_findings host)) \<and>
     (\<forall>f\<in>set (h_findings host). \<exists>port\<in>set (h_ports host). described (h_ip host) port f) \<and>
     h_os_guess host = guess_os_by_ttl (h_ttl host)"

lemma scan_host_result:
  assumes "scan_host env dt srt schedule junk plugins start_port end_port ip fl s = (Ok fl', s')"
    and "sorts srt" "mset (schedule (port_range start_port end_port)) = mset (port_range start_port end_port)"
    and "0 \<le> start_port" "end_port \<le> 65535" "0 < n" "ticked n k (fl_reporter fl)"
  shows "\<exists>host. fl_hosts fl' = fl_hosts fl @ [host] \<and> h_ip host = ip \<and> host_ok start_port end_port host \<and>
    ticked n (k + length (port_range start_port end_port)) (fl_reporter fl')"
proof -
  obtain s1 ping h s2 where t: "run_tasks (\<lambda>p h. in_worker (full_task env dt plugins ip p h)) (schedule (port_range start_port end_port))
      \<lparr>hr_range = range_start, hr_reporter = fl_reporter fl\<rparr> s1 = (Ok h, s2)"
    and fl': "fl_reporter fl' = hr_reporter h" "fl_hosts fl' = fl_hosts fl @ [scanned_host srt ip ping (hr_range h)]"
    using assms(1) unfolding scan_host_def by (auto simp: cbind_Ok_iff cret_def Let_def)
  have "host_run_inv ip n k [] \<lparr>hr_range = range_start, hr_reporter = fl_reporter fl\<rparr>"
    using assms(7) by (simp add: host_run_inv_def range_inv_start)
  from run_tasks_invariant[where I = "host_run_inv ip n k", OF t this]
  have "host_run_inv ip n k ([] @ schedule (port_range start_port end_port)) h"
    using full_task_invariant[OF _ _ assms(6)] unfolding in_worker_Ok by blast
  then have inv: "range_inv ip no_sink (schedule (port_range start_port end_port)) (hr_range h)"
    "ticked n (k + length (schedule (port_range start_port end_port))) (hr_reporter h)"
    by (simp_all add: host_run_inv_def)
  have "length (schedule (port_range start_port end_port)) = length (port_range start_port end_port)"
    using assms(3) by (rule mset_eq_length)
  then show ?thesis
    using range_result[OF inv(1) assms(2,3,4,5)] inv(2)
    by (intro exI[of _ "scanned_host srt ip ping (hr_range h)"]) (simp add: fl' scanned_host_def host_ok_def)
qed

definition full_inv :: "int \<Rightarrow> int \<Rightarrow> int \<Rightarrow> string list \<Rightarrow> FullScan \<Rightarrow> bool" where
  "full_inv n start_port end_port prev fl \<longleftrightarrow>
     map h_ip (fl_hosts fl) = prev \<and> list_all (host_ok start_port end_port) (fl_hosts fl) \<and>
     ticked n (length prev * length (port_range start_port end_port)) (fl_reporter fl)"

text \<open>C8: What a finished full scan returns, when the ends of the range are ports in order (0 to 65535; the program
  does not check it) and the sort sorts: one host for every target, in their order, each with its open ports
  sorted by number, distinct and of the range, its findings with pairwise different identities, each of this host, of
  the number of one of these ports and of TCP, and naming a service, a product and a version whenever this port has
  one, and the operating system that its TTL suggests; the reporter has counted every probe of every host, its highest
  percentage is 100, and the last line of the progress bar is that of all probes at 100 percent.\<close>

theorem full_scan_result:
  assumes "full_scan env dt srt schedule junk plugins targets start_port end_port s = (Ok fl, s')"
    and "sorts srt" "mset (schedule (port_range start_port end_port)) = mset (port_range start_port end_port)"
    and "targets \<noteq> []" "0 \<le> start_port" "start_port \<le> end_port" "end_port \<le> 65535"
    and "n = int (length targets) * (end_port - start_port + 1)"
  shows "map h_ip (fl_hosts fl) = targets \<and> list_all (host_ok start_port end_port) (fl_hosts fl) \<and>
    completed (fl_reporter fl) = n \<and> last_percent (fl_reporter fl) = 100 \<and>
    last (rp_output (fl_reporter fl)) =
      (Cerr, [CR] @ build_bar 100 30 @ '' 100%  '' @ show_int n @ ''/'' @ show_int n @ [LF])"
proof -
  note n_def = assms(8)
  have len: "int (length (port_range start_port end_port)) = end_port - start_port + 1"
    using assms(6) by (simp add: port_range_def)
  have n: "0 < n" using assms(4,6) by (simp add: n_def)
  have tot: "total_scans (length targets) start_port end_port = Some n \<or> total_scans (length targets) start_port end_port = None"
    by (auto simp: total_scans_def checked_int_def n_def)
  obtain out fl1 s1 where run: "run_tasks (scan_host env dt srt schedule junk plugins start_port end_port) targets
      \<lparr>fl_reporter = reporter_begin ''Full scan'' n reporter_new, fl_hosts = [], fl_out = out\<rparr> s = (Ok fl1, s1)"
    and fl: "fl_hosts fl = fl_hosts fl1" "fl_reporter fl = reporter_end (fl_reporter fl1)"
    using assms(1) tot unfolding full_scan_def by (auto simp: cbind_Ok_iff cret_def cstop_def)
  have "full_inv n start_port end_port ([] @ targets) fl1"
  proof (rule run_tasks_invariant[OF run])
    show "full_inv n start_port end_port []
        \<lparr>fl_reporter = reporter_begin ''Full scan'' n reporter_new, fl_hosts = [], fl_out = out\<rparr>"
      by (simp add: full_inv_def ticked_begin)
  next
    fix t prev f s f' s'
    assume "t \<in> set targets" "full_inv n start_port end_port prev f"
      "scan_host env dt srt schedule junk plugins start_port end_port t f s = (Ok f', s')"
    then show "full_inv n start_port end_port (prev @ [t]) f'"
      using scan_host_result[of env dt srt schedule junk plugins start_port end_port t f s f' s' n] assms n
      by (fastforce simp: full_inv_def add.commute)
  qed
  then have inv: "map h_ip (fl_hosts fl1) = targets" "list_all (host_ok start_port end_port) (fl_hosts fl1)"
    "ticked n (length targets * length (port_range start_port end_port)) (fl_reporter fl1)"
    by (simp_all add: full_inv_def)
  define k where "k = length targets * length (port_range start_port end_port)"
  have k: "int k = n" using len by (simp add: k_def n_def)
  have t: "completed (fl_reporter fl1) = int k" "last_percent (fl_reporter fl1) = int k * 100 div n" "total (fl_reporter fl1) = n"
    using inv(3) n k unfolding k_def[symmetric] ticked_def by auto
  have "n * 100 div n = 100" using n by simp
  then have "last_percent (fl_reporter fl) = 100" using t(2) k by (simp add: fl reporter_end_def rp_print_def)
  moreover have "completed (fl_reporter fl) = n" using t(1) k by (simp add: fl reporter_end_def rp_print_def)
  moreover have "last (rp_output (fl_reporter fl)) =
      (Cerr, [CR] @ build_bar 100 30 @ '' 100%  '' @ show_int n @ ''/'' @ show_int n @ [LF])"
    by (simp add: fl reporter_end_def rp_print_def t(3))
  ultimately show ?thesis using inv(1,2) by (simp add: fl)
qed

lemma offline_world: "empty_scan\<lparr>it_ext := (it_ext empty_scan)\<lparr>sc_world := w\<rparr>\<rparr> = empty_scan"
  by (simp add: empty_scan_def)

lemma offline_task:
  "scan_task offline_env dt plugins no_sink ip t p rg empty_scan = (Ok rg, empty_scan)"
  by (simp add: scan_task_def cbind_def in_world_def cret_def offline_world offline_env_def offline_os_def tcp_new_def
      tcp_delete_def tcp_connect_def tcp_result_def range_changes no_sink_def)

lemma offline_full_scan:
  "\<exists>fl s'. full_scan offline_env no_detector key_sorter rev junk [] [''10.0.0.1''] 80 80 empty_scan = (Ok fl, s')"
proof -
  obtain r where r: "reporter_tick (reporter_begin ''Full scan'' 1 reporter_new) = Some r"
    by (simp add: reporter_tick_def tick_count_def tick_percent_def reporter_begin_def rp_print_def
        checked_int_def INT_MAX_def)
  have t: "total_scans 1 80 80 = Some 1" by (simp add: total_scans_def checked_int_def INT_MAX_def)
  have task: "full_task offline_env no_detector [] ''10.0.0.1'' 80
      \<lparr>hr_range = range_start, hr_reporter = reporter_begin ''Full scan'' 1 reporter_new\<rparr> empty_scan =
    (Ok \<lparr>hr_range = range_start, hr_reporter = r\<rparr>, empty_scan)"
    by (simp add: full_task_def cbind_def offline_task r cret_def)
  have w: "in_world (\<lambda>w. Some (icmp_new (env_os offline_env) ())) empty_scan = (Ok (-1), empty_scan)"
    "in_world (\<lambda>w. Some ((), ())) empty_scan = (Ok (), empty_scan)"
    "in_world (\<lambda>w. Some (icmp_ping (env_os offline_env) junk (-1) ''10.0.0.1'' 1000 ())) empty_scan =
      (Ok (host_default\<lparr>h_ip := ''10.0.0.1'', h_state := H_UNKNOWN\<rparr>), empty_scan)"
    by (simp_all add: in_world_def offline_world offline_env_def offline_os_def icmp_new_def icmp_delete_def icmp_ping_def Let_def)
  show ?thesis
    by (simp add: full_scan_def t[simplified] scan_host_def cbind_def w task in_worker_def port_range_def cret_def Let_def)
qed

theorem full_scan_result_witness:
  "\<exists>fl s'. full_scan offline_env no_detector key_sorter rev [] [] [''10.0.0.1''] 80 80 empty_scan = (Ok fl, s') \<and>
     map h_ip (fl_hosts fl) = [''10.0.0.1''] \<and> last_percent (fl_reporter fl) = 100"
proof -
  obtain fl s' where f: "full_scan offline_env no_detector key_sorter rev [] [] [''10.0.0.1''] 80 80 empty_scan = (Ok fl, s')"
    using offline_full_scan by blast
  from full_scan_result[OF f key_sorter_sorts] show ?thesis using f by auto
qed

section \<open>Answers typed by the user\<close>

lemma skip_ws_stop: "\<forall>c\<in>set ws. is_space c \<Longrightarrow> s = [] \<or> \<not> is_space (hd s) \<Longrightarrow> skip_ws (ws @ s) = s"
  unfolding skip_ws_def by (cases s) (auto simp: dropWhile_append)

lemma show_int_head: "show_int i \<noteq> []" "\<not> is_space (hd (show_int i))"
proof -
  have "\<not> is_space (hd (show_nat n))" for n using hd_show_nat_digit[of n] is_digit_not_space by blast
  moreover have "\<not> is_space (CHR ''-'')" by (simp add: is_space_def)
  ultimately show "show_int i \<noteq> []" "\<not> is_space (hd (show_int i))" by (simp_all add: show_int_def)
qed

text \<open>A number typed in decimal is read back, and the rest of the input is left.\<close>

lemma read_int_show:
  assumes "\<forall>c\<in>set ws. is_space c" "INT_MIN \<le> i" "i \<le> INT_MAX" "rest = [] \<or> \<not> is_digit (hd rest)"
  shows "read_int old \<lparr>is_text = ws @ show_int i @ rest, is_fail = False\<rparr> = (i, \<lparr>is_text = rest, is_fail = False\<rparr>)"
proof -
  have s: "skip_ws (ws @ show_int i @ rest) = show_int i @ rest"
    by (rule skip_ws_stop[OF assms(1)]) (simp add: show_int_head)
  have t: "takeWhile is_digit (show_nat n @ rest) = show_nat n" "dropWhile is_digit (show_nat n @ rest) = rest" for n
    using takeWhile_show_nat[OF assms(4)] dropWhile_show_nat[OF assms(4)] by auto
  have h: "hd (show_nat n @ rest) \<noteq> CHR ''-'' \<and> hd (show_nat n @ rest) \<noteq> CHR ''+''" for n
    using hd_show_nat_digit[of n] by (auto simp: is_digit_def)
  show ?thesis
  proof (cases "i < 0")
    case True
    then have e: "show_int i @ rest = CHR ''-'' # (show_nat (nat (- i)) @ rest)" by (simp add: show_int_def)
    show ?thesis
      using True assms(2,3) unfolding read_int_def istream.simps trans[OF s e]
      by (simp add: Let_def t)
  next
    case False
    then have e: "show_int i @ rest = show_nat (nat i) @ rest" by (simp add: show_int_def)
    show ?thesis
      using False assms(2,3) h[of "nat i"] unfolding read_int_def istream.simps trans[OF s e]
      by (simp add: Let_def t)
  qed
qed

lemma read_word_plain:
  assumes "\<forall>c\<in>set ws. is_space c" "w \<noteq> []" "\<forall>c\<in>set w. \<not> is_space c" "is_space c"
  shows "read_word \<lparr>is_text = ws @ w @ c # rest, is_fail = False\<rparr> = (w, \<lparr>is_text = c # rest, is_fail = False\<rparr>)"
proof -
  have s: "skip_ws (ws @ w @ c # rest) = w @ c # rest"
    by (rule skip_ws_stop[OF assms(1)]) (use assms(2,3) in \<open>cases w; simp\<close>)
  have "takeWhile (\<lambda>c. \<not> is_space c) (w @ c # rest) = w" "dropWhile (\<lambda>c. \<not> is_space c) (w @ c # rest) = c # rest"
    using assms(3,4) by (auto simp: takeWhile_append dropWhile_append)
  then show ?thesis using assms(2) by (simp add: read_word_def s)
qed

text \<open>What the user types for a scan: the choice, the target and the range, a line each.\<close>

definition scan_answers :: "int \<Rightarrow> string \<Rightarrow> int \<Rightarrow> int \<Rightarrow> string" where
  "scan_answers protocol ip start_port end_port =
     show_int protocol @ [LF] @ ip @ [LF] @ show_int start_port @ [LF] @ show_int end_port @ [LF]"

text \<open>C29: The program runs the scan the user asks for: once the databases and plugins have loaded,
  answering 5, a network and a range runs the full scan of the addresses that the network expands to
  on exactly this range, for every network and all ends that fit an \<open>int\<close>.\<close>

theorem program_runs_full_scan:
  assumes "main_load pg s = (Ok (dt, plugins), s1)"
    and "CHR ''/'' \<in> set ip" "\<forall>c\<in>set ip. \<not> is_space c"
    and "INT_MIN \<le> start_port" "start_port \<le> INT_MAX" "INT_MIN \<le> end_port" "end_port \<le> INT_MAX"
  shows "\<exists>out. program_main pg (scan_answers 5 ip start_port end_port) s =
    cbind (full_mode pg dt plugins ip start_port end_port) (\<lambda>e. cret (prepend_out out e)) s1"
proof -
  have five: "INT_MIN \<le> 5" "5 \<le> INT_MAX" by (simp_all add: INT_MIN_def INT_MAX_def)
  have sp: "is_space LF" "\<not> is_digit LF" by (simp_all add: is_space_def is_digit_def)
  have ip: "ip \<noteq> []" using assms(2) by auto
  let ?r1 = "LF # ip @ LF # show_int start_port @ LF # show_int end_port @ [LF]"
  let ?r2 = "LF # show_int start_port @ LF # show_int end_port @ [LF]"
  have 1: "read_int old \<lparr>is_text = scan_answers 5 ip start_port end_port, is_fail = False\<rparr> =
      (5, \<lparr>is_text = ?r1, is_fail = False\<rparr>)" for old
    using read_int_show[OF _ five, of "[]" ?r1 old] sp by (simp add: scan_answers_def)
  have 2: "read_word \<lparr>is_text = ?r1, is_fail = False\<rparr> = (ip, \<lparr>is_text = ?r2, is_fail = False\<rparr>)"
    using read_word_plain[of "[LF]" ip LF "show_int start_port @ LF # show_int end_port @ [LF]"] ip assms(3) sp by simp
  have "read_int 0 \<lparr>is_text = ?r2, is_fail = False\<rparr> =
      (start_port, \<lparr>is_text = LF # show_int end_port @ [LF], is_fail = False\<rparr>)"
    using read_int_show[OF _ assms(4,5), of "[LF]" "LF # show_int end_port @ [LF]" 0] sp by simp
  moreover have "read_int 0 \<lparr>is_text = LF # show_int end_port @ [LF], is_fail = False\<rparr> =
      (end_port, \<lparr>is_text = [LF], is_fail = False\<rparr>)"
    using read_int_show[OF _ assms(6,7), of "[LF]" "[LF]" 0] sp by simp
  ultimately have 3: "read_range \<lparr>is_text = ?r2, is_fail = False\<rparr> = (start_port, end_port)"
    by (simp add: read_range_def)
  have 4: "in_checked (resolve_target pg ip) s1 = (Ok (Some ip, []), s1)"
    using assms(2) by (simp add: in_checked_def resolve_target_def)
  show ?thesis
    by (rule exI[of _ "menu @ ''IP or CIDR (e.g. 192.168.1.0/24): '' @ ''Start port: '' @ ''End port: ''"])
      (simp add: program_main_def cbind_def assms(1) 1 2 4 run_mode_def 3 cret_def prepend_out_def split: prod.split outcome.split)
qed

definition sample_program :: "(unit, string) Program" where
  "sample_program =
     \<lparr>pg_env = offline_env, pg_compile = \<lambda>re icase. Some re, pg_search = \<lambda>re s. NotFound, pg_sorter = key_sorter,
      pg_schedule = \<lambda>ps. ps, pg_junk = [], pg_uninit = 0, pg_query_id = 0, pg_patterns = None, pg_database = None,
      pg_fixes = None, pg_plugins = None, pg_webui = \<lambda>plugins. cret 0\<rparr>"

theorem program_runs_full_scan_witness:
  "\<exists>dt out s1. program_main sample_program (scan_answers 5 ''10.0.0.0/30'' 1 1024) empty_scan =
    cbind (full_mode sample_program dt [] ''10.0.0.0/30'' 1 1024) (\<lambda>e. cret (prepend_out out e)) s1"
proof -
  obtain dt s1 where l: "main_load sample_program empty_scan = (Ok (dt, []), s1)"
    by (simp add: main_load_def sample_program_def load_patterns_def cbind_def cmodify_def load_plugins_dir_def cret_def)
  have "\<forall>c\<in>set ''10.0.0.0/30''. \<not> is_space c" by (simp add: is_space_def)
  then have "\<exists>out. program_main sample_program (scan_answers 5 ''10.0.0.0/30'' 1 1024) empty_scan =
      cbind (full_mode sample_program dt [] ''10.0.0.0/30'' 1 1024) (\<lambda>e. cret (prepend_out out e)) s1"
    by (intro program_runs_full_scan[OF l]) (simp_all add: INT_MIN_def INT_MAX_def)
  then show ?thesis by (elim exE) (intro exI)
qed

end
