(* ===== verification/RangeThreads.thy ===== *)
theory RangeThreads
  imports TcpRange
begin

text \<open>
  \<open>scan/tcp_range.cpp\<close> with its threads: the task of a port as a sequence of phases, each one call
  into another component, one callback, one critical section or one atomic step, and the scan as the
  interleaving of the phases of all its tasks.  The tasks of \<open>TcpRange\<close>, which run one after the other,
  are shown to be some of its runs.
\<close>

section \<open>Phases\<close>

text \<open>Where a task is, with its locals: the socket of \<open>tcp\<close>, \<open>result\<close> and \<open>local\<close>.\<close>

datatype Phase =
    Waiting
  | Connected int Port
  | Identified int Port
  | Checked int Port "Finding list"
  | Scripted int Port "Finding list"
  | Collected int Port "Finding list"
  | Announced int Port "Finding list"
  | Counting int
  | Closing int
  | Complete

definition native_checks_now ::
  "'w Env \<Rightarrow> string \<Rightarrow> Port \<Rightarrow> KnowledgeBase \<Rightarrow> ('w rt, Finding list \<times> KnowledgeBase) comp" where
  "native_checks_now env ip result kb =
     in_checked (\<lambda>w. case run_native_checks (env_os env) (env_ssl env) (env_now env) result ip kb w of
       Done (fs, kb, w) \<Rightarrow> Done ((fs, kb), w) | OutOfBounds \<Rightarrow> OutOfBounds | NoReturn \<Rightarrow> NoReturn)"

fun task_step ::
  "'w Env \<Rightarrow> 're Detector \<Rightarrow> LoadedPlugin list \<Rightarrow> LiveSink \<Rightarrow> string \<Rightarrow> int \<Rightarrow> int \<Rightarrow> Phase \<Rightarrow> RangeState \<Rightarrow>
   ('w rt, Phase \<times> RangeState) comp" where
  "task_step env dt plugins sink ip timeout p Waiting rg =
     cbind (in_world (\<lambda>w. Some (tcp_new (env_os env) w))) (\<lambda>fd.
     cbind (in_world (\<lambda>w. Some (tcp_connect (env_os env) fd ip p timeout w))) (\<lambda>result.
       cret (Connected fd result, rg)))"
| "task_step env dt plugins sink ip timeout p (Connected fd result) rg =
     (if p_state result \<noteq> S_OPEN then cret (Counting fd, rg)
      else cbind (in_world (grab_banner (env_os env) fd ip)) (\<lambda>banner.
           cbind (identified dt result banner) (\<lambda>result. cret (Identified fd result, rg))))"
| "task_step env dt plugins sink ip timeout p (Identified fd result) rg =
     cbind (native_checks_now env ip result (rg_kb rg)) (\<lambda>(native, kb). cret (Checked fd result native, rg\<lparr>rg_kb := kb\<rparr>))"
| "task_step env dt plugins sink ip timeout p (Checked fd result local) rg =
     cbind (run_for_port env plugins ip (int (unat (p_number result))) (p_service result)) (\<lambda>(plugin_findings, detected).
       cret (Scripted fd (adopt_detected detected result) (local @ map to_finding plugin_findings), rg))"
| "task_step env dt plugins sink ip timeout p (Scripted fd result local) rg =
     cbind (check_port_now env result) (\<lambda>cves.
       cret (Collected fd result (deduplicate_findings (map (fill_in ip result) (add_cves local cves))), rg))"
| "task_step env dt plugins sink ip timeout p (Collected fd result local) rg =
     cret (Announced fd result local, announce sink result local rg)"
| "task_step env dt plugins sink ip timeout p (Announced fd result local) rg = cret (Counting fd, publish result local rg)"
| "task_step env dt plugins sink ip timeout p (Counting fd) rg = cret (Closing fd, count_progress sink rg)"
| "task_step env dt plugins sink ip timeout p (Closing fd) rg =
     cbind (in_world (\<lambda>w. Some ((), tcp_delete (env_os env) fd w))) (\<lambda>_. cret (Complete, rg))"
| "task_step env dt plugins sink ip timeout p Complete rg = cret (Complete, rg)"

text \<open>A task that runs alone.\<close>

fun run_alone :: "(Phase \<Rightarrow> RangeState \<Rightarrow> ('s, Phase \<times> RangeState) comp) \<Rightarrow> nat \<Rightarrow> Phase \<Rightarrow> RangeState \<Rightarrow>
    ('s, Phase \<times> RangeState) comp" where
  "run_alone step 0 ph rg = cret (ph, rg)"
| "run_alone step (Suc n) ph rg = cbind (step ph rg) (\<lambda>(ph, rg). run_alone step n ph rg)"

section \<open>The threads\<close>

record 'w ParallelScan =
  pl_tasks :: "(int \<times> Phase) list"
  pl_range :: RangeState
  pl_rt :: "'w rt"

definition parallel_start :: "int list \<Rightarrow> 'w rt \<Rightarrow> 'w ParallelScan" where
  "parallel_start ps s = \<lparr>pl_tasks = map (\<lambda>p. (p, Waiting)) ps, pl_range = range_start, pl_rt = s\<rparr>"

inductive par_step :: "(int \<Rightarrow> Phase \<Rightarrow> RangeState \<Rightarrow> ('w rt, Phase \<times> RangeState) comp) \<Rightarrow>
    'w ParallelScan \<Rightarrow> 'w ParallelScan \<Rightarrow> bool" for step where
  "i < length (pl_tasks t) \<Longrightarrow> pl_tasks t ! i = (p, ph) \<Longrightarrow> ph \<noteq> Complete \<Longrightarrow>
     step p ph (pl_range t) (pl_rt t) = (Ok (ph', rg), s) \<Longrightarrow>
     par_step step t \<lparr>pl_tasks = (pl_tasks t)[i := (p, ph')], pl_range = rg, pl_rt = s\<rparr>"

inductive_cases par_stepE: "par_step step t t'"

definition all_complete :: "'w ParallelScan \<Rightarrow> bool" where
  "all_complete t \<longleftrightarrow> list_all (\<lambda>(p, ph). ph = Complete) (pl_tasks t)"

section \<open>The task of \<open>TcpRange\<close> is these phases\<close>

lemma cbind_assoc: "cbind (cbind m f) g = cbind m (\<lambda>a. cbind (f a) g)"
  by (auto simp: cbind_def fun_eq_iff split: prod.split outcome.split)

lemma cbind_cret: "cbind (cret a) f = f a"
  by (simp add: cbind_def cret_def fun_eq_iff)

lemma cbind_cong: "(\<And>a. f a = g a) \<Longrightarrow> cbind m f = cbind m g"
  by presburger

lemma run_alone_complete: "run_alone (task_step env dt plugins sink ip timeout p) n Complete rg = cret (Complete, rg)"
  by (induction n) (simp_all add: cbind_cret)

lemma report_open_phases:
  "publish result local (announce sink result local (rg\<lparr>rg_kb := kb\<rparr>)) = report_open sink result local kb rg"
  by (simp add: report_open_def)

lemma run_alone_counting:
  "run_alone (task_step env dt plugins sink ip timeout p) (Suc (Suc n)) (Counting fd) rg =
   cbind (in_world (\<lambda>w. Some ((), tcp_delete (env_os env) fd w))) (\<lambda>_. cret (Complete, count_progress sink rg))"
  by (simp add: cbind_cret cbind_assoc run_alone_complete)

lemma run_alone_open:
  assumes "p_state result = S_OPEN"
  shows "run_alone (task_step env dt plugins sink ip timeout p) (Suc (Suc (Suc (Suc (Suc (Suc (Suc (Suc 0)))))))) (Connected fd result) rg =
   cbind (probe_port env dt plugins ip fd result (rg_kb rg)) (\<lambda>(result, local, kb).
     cbind (in_world (\<lambda>w. Some ((), tcp_delete (env_os env) fd w))) (\<lambda>_.
       cret (Complete, count_progress sink (report_open sink result local kb rg))))"
proof -
  let ?st = "task_step env dt plugins sink ip timeout p"
  have collected: "run_alone ?st (Suc (Suc (Suc (Suc 0)))) (Collected fd q local) (rg\<lparr>rg_kb := kb\<rparr>) =
      cbind (in_world (\<lambda>w. Some ((), tcp_delete (env_os env) fd w))) (\<lambda>_.
        cret (Complete, count_progress sink (report_open sink q local kb rg)))" for q local kb
    by (simp only: run_alone.simps(2)[of _ "Suc (Suc (Suc 0))"] run_alone.simps(2)[of _ "Suc (Suc 0)" "Announced fd q local"]
        task_step.simps cbind_cret prod.case run_alone_counting report_open_phases)
  show ?thesis
    unfolding probe_port_def native_checks_now_def[symmetric] Let_def
    by (simp only: run_alone.simps(2)[of _ "Suc (Suc (Suc (Suc (Suc (Suc (Suc 0))))))"]
        run_alone.simps(2)[of _ "Suc (Suc (Suc (Suc (Suc (Suc 0)))))"] run_alone.simps(2)[of _ "Suc (Suc (Suc (Suc (Suc 0))))"]
        run_alone.simps(2)[of _ "Suc (Suc (Suc (Suc 0)))"] task_step.simps assms simp_thms if_False cbind_cret cbind_assoc
        prod.case collected case_prod_unfold fst_conv snd_conv)
qed

lemma task_phases:
  "run_alone (task_step env dt plugins sink ip timeout p) 9 Waiting rg =
   cbind (scan_task env dt plugins sink ip timeout p rg) (\<lambda>rg. cret (Complete, rg))"
proof -
  let ?st = "task_step env dt plugins sink ip timeout p" and ?m = "Suc (Suc (Suc (Suc (Suc (Suc (Suc (Suc 0)))))))"
  have connected: "run_alone ?st ?m (Connected fd result) rg =
      cbind (if p_state result \<noteq> S_OPEN then cret rg
        else cbind (probe_port env dt plugins ip fd result (rg_kb rg)) (\<lambda>(result, local, kb).
               cret (report_open sink result local kb rg))) (\<lambda>rg.
        cbind (in_world (\<lambda>w. Some ((), tcp_delete (env_os env) fd w))) (\<lambda>_. cret (Complete, count_progress sink rg)))"
    for fd result
  proof (cases "p_state result = S_OPEN")
    case True
    then show ?thesis by (simp only: run_alone_open[OF True]) (simp add: cbind_assoc cbind_cret case_prod_unfold)
  next
    case False
    then show ?thesis
      by (simp only: run_alone.simps(2)[of _ "Suc (Suc (Suc (Suc (Suc (Suc (Suc 0))))))"] task_step.simps cbind_cret prod.case
          simp_thms if_True run_alone_counting)
  qed
  have "run_alone ?st (Suc ?m) Waiting rg =
      cbind (in_world (\<lambda>w. Some (tcp_new (env_os env) w))) (\<lambda>fd.
      cbind (in_world (\<lambda>w. Some (tcp_connect (env_os env) fd ip p timeout w))) (\<lambda>result.
        run_alone ?st ?m (Connected fd result) rg))"
    by (simp only: run_alone.simps(2)[of _ ?m] task_step.simps cbind_assoc cbind_cret prod.case)
  moreover have "9 = Suc ?m" by simp
  ultimately show ?thesis
    unfolding connected scan_task_def by (simp only: cbind_assoc cbind_cret)
qed

section \<open>What holds in every interleaving\<close>

text \<open>What a task has contributed: its port once it may be published, its tick, and the results that it has
  announced and not yet published.\<close>

definition ended :: "int \<times> Phase \<Rightarrow> 16 word multiset" where
  "ended t = (case snd t of Counting fd \<Rightarrow> {#port16 (fst t)#} | Closing fd \<Rightarrow> {#port16 (fst t)#} | Complete \<Rightarrow> {#port16 (fst t)#}
     | _ \<Rightarrow> {#})"

definition counted :: "int \<times> Phase \<Rightarrow> nat" where
  "counted t = (case snd t of Closing fd \<Rightarrow> 1 | Complete \<Rightarrow> 1 | _ \<Rightarrow> 0)"

definition due_ports :: "int \<times> Phase \<Rightarrow> Port multiset" where
  "due_ports t = (case snd t of Announced fd result local \<Rightarrow> {#result#} | _ \<Rightarrow> {#})"

definition due_findings :: "int \<times> Phase \<Rightarrow> Finding multiset" where
  "due_findings t = (case snd t of Announced fd result local \<Rightarrow> mset local | _ \<Rightarrow> {#})"

lemmas contributions = ended_def counted_def due_ports_def due_findings_def

text \<open>The locals of a task.\<close>

definition port_of :: "int \<Rightarrow> Port \<Rightarrow> bool" where
  "port_of p q \<longleftrightarrow> p_number q = port16 p \<and> p_protocol q = P_TCP"

fun phase_ok :: "string \<Rightarrow> int \<Rightarrow> Phase \<Rightarrow> bool" where
  "phase_ok ip p (Connected fd q) \<longleftrightarrow> port_of p q"
| "phase_ok ip p (Identified fd q) \<longleftrightarrow> port_of p q \<and> p_state q = S_OPEN"
| "phase_ok ip p (Checked fd q fs) \<longleftrightarrow> port_of p q \<and> p_state q = S_OPEN \<and> (\<forall>f\<in>set fs. raised ip (p_number q) f)"
| "phase_ok ip p (Scripted fd q fs) \<longleftrightarrow> port_of p q \<and> p_state q = S_OPEN \<and> (\<forall>f\<in>set fs. raised ip (p_number q) f)"
| "phase_ok ip p (Collected fd q fs) \<longleftrightarrow> port_of p q \<and> p_state q = S_OPEN \<and> found_on ip q fs"
| "phase_ok ip p (Announced fd q fs) \<longleftrightarrow> port_of p q \<and> p_state q = S_OPEN \<and> found_on ip q fs"
| "phase_ok ip p ph \<longleftrightarrow> True"

definition results_ok :: "string \<Rightarrow> RangeState \<Rightarrow> bool" where
  "results_ok ip rg \<longleftrightarrow>
     (\<forall>q\<in>set (rg_ports rg). p_state q = S_OPEN \<and> p_protocol q = P_TCP) \<and>
     (\<forall>f\<in>set (rg_findings rg). \<exists>q\<in>set (rg_ports rg). described ip q f) \<and>
     (\<forall>(q, fs)\<in>set (rg_events rg). found_on ip q fs)"

text \<open>What one phase does to its locals and to what is shared.\<close>

lemma task_step_phase_ok:
  assumes "task_step env dt plugins sink ip timeout p ph rg s = (Ok (ph', rg'), s')" "phase_ok ip p ph"
  shows "phase_ok ip p ph'"
proof (cases ph)
  case Waiting
  obtain fd s1 q where c: "in_world (\<lambda>w. Some (tcp_connect (env_os env) fd ip p timeout w)) s1 = (Ok q, s')" "ph' = Connected fd q"
    using assms(1) Waiting by (auto simp: cbind_Ok_iff cret_def)
  then show ?thesis
    using tcp_connect_port[of "env_os env" fd ip p timeout "sc_world (it_ext s1)"]
    by (auto simp: in_world_def port_of_def split: prod.splits)
next
  case (Connected fd q)
  then show ?thesis
    using assms(1,2) identify_keeps[of dt q] by (auto simp: cbind_Ok_iff identified_Ok cret_def port_of_def split: if_splits)
next
  case (Identified fd q)
  then obtain fs kb kb' w w' where "run_native_checks (env_os env) (env_ssl env) (env_now env) q ip kb w = Done (fs, kb', w')"
    "ph' = Checked fd q fs"
    using assms(1)
    by (auto simp: cbind_Ok_iff cret_def native_checks_now_def in_checked_def split: prod.splits checked.splits)
  then show ?thesis using assms(2) Identified native_raised by simp
next
  case (Checked fd q fs)
  then obtain gs d s1 where c: "run_for_port env plugins ip (int (unat (p_number q))) (p_service q) s1 = (Ok (gs, d), s')"
    "ph' = Scripted fd (adopt_detected d q) (fs @ map to_finding gs)"
    using assms(1) by (auto simp: cbind_Ok_iff cret_def)
  then show ?thesis using assms(2) Checked adopt_keeps[of d q] scripts_raised[OF c(1)] by (auto simp: port_of_def)
next
  case (Scripted fd q fs)
  then obtain cves s1 where c: "check_port_now env q s1 = (Ok cves, s')"
    "ph' = Collected fd q (deduplicate_findings (map (fill_in ip q) (add_cves fs cves)))"
    using assms(1) by (auto simp: cbind_Ok_iff cret_def)
  have q: "p_protocol q = P_TCP" "\<forall>f\<in>set fs. raised ip (p_number q) f" using assms(2) Scripted by (auto simp: port_of_def)
  have "found_on ip q (deduplicate_findings (map (fill_in ip q) (add_cves fs cves)))"
    using q cves_raised[OF c(1) q(1)] by (intro collect_found add_cves_raised) auto
  then show ?thesis using assms(2) Scripted c(2) by simp
qed (use assms(1,2) in \<open>auto simp: cbind_Ok_iff cret_def split: prod.splits\<close>)

lemma task_step_shared:
  assumes "task_step env dt plugins sink ip timeout p ph rg s = (Ok (ph', rg'), s')"
  shows "\<exists>kb. rg' = (case ph of Collected fd q fs \<Rightarrow> announce sink q fs rg | Announced fd q fs \<Rightarrow> publish q fs rg
      | Counting fd \<Rightarrow> count_progress sink rg | _ \<Rightarrow> rg\<lparr>rg_kb := kb\<rparr>)"
    "ended (p, ph') = ended (p, ph) + (case ph of Connected fd q \<Rightarrow> (if p_state q = S_OPEN then {#} else {#port16 p#})
      | Announced fd q fs \<Rightarrow> {#port16 p#} | _ \<Rightarrow> {#})"
    "counted (p, ph') = counted (p, ph) + (case ph of Counting fd \<Rightarrow> 1 | _ \<Rightarrow> 0)"
    "due_ports (p, ph') = (case ph of Collected fd q fs \<Rightarrow> {#q#} | _ \<Rightarrow> {#})"
    "due_findings (p, ph') = (case ph of Collected fd q fs \<Rightarrow> mset fs | _ \<Rightarrow> {#})"
proof -
  have kb: "\<exists>kb. rg = rg\<lparr>rg_kb := kb\<rparr>" by (rule exI[of _ "rg_kb rg"]) simp
  show "\<exists>kb. rg' = (case ph of Collected fd q fs \<Rightarrow> announce sink q fs rg | Announced fd q fs \<Rightarrow> publish q fs rg
      | Counting fd \<Rightarrow> count_progress sink rg | _ \<Rightarrow> rg\<lparr>rg_kb := kb\<rparr>)"
    using assms kb by (cases ph) (auto simp: cbind_Ok_iff cret_def split: prod.splits if_splits)
  show "ended (p, ph') = ended (p, ph) + (case ph of Connected fd q \<Rightarrow> (if p_state q = S_OPEN then {#} else {#port16 p#})
      | Announced fd q fs \<Rightarrow> {#port16 p#} | _ \<Rightarrow> {#})"
    "counted (p, ph') = counted (p, ph) + (case ph of Counting fd \<Rightarrow> 1 | _ \<Rightarrow> 0)"
    "due_ports (p, ph') = (case ph of Collected fd q fs \<Rightarrow> {#q#} | _ \<Rightarrow> {#})"
    "due_findings (p, ph') = (case ph of Collected fd q fs \<Rightarrow> mset fs | _ \<Rightarrow> {#})"
    using assms by (cases ph; auto simp: contributions cbind_Ok_iff cret_def split: prod.splits if_splits)+
qed

definition sum_tasks :: "(int \<times> Phase \<Rightarrow> 'b::comm_monoid_add) \<Rightarrow> 'w ParallelScan \<Rightarrow> 'b" where
  "sum_tasks f t = sum_list (map f (pl_tasks t))"

definition par_inv :: "string \<Rightarrow> LiveSink \<Rightarrow> int list \<Rightarrow> 'w ParallelScan \<Rightarrow> bool" where
  "par_inv ip sink ps t \<longleftrightarrow>
     map fst (pl_tasks t) = ps \<and> (\<forall>(p, ph)\<in>set (pl_tasks t). phase_ok ip p ph) \<and> results_ok ip (pl_range t) \<and>
     mset (map p_number (rg_ports (pl_range t))) \<subseteq># sum_tasks ended t \<and>
     rg_progress (pl_range t) = (if sink_progress sink then int (sum_tasks counted t) else 0) \<and>
     (sink_on_port_open sink \<longrightarrow>
        mset (map fst (rg_events (pl_range t))) = mset (rg_ports (pl_range t)) + sum_tasks due_ports t \<and>
        mset (concat (map snd (rg_events (pl_range t)))) = mset (rg_findings (pl_range t)) + sum_tasks due_findings t)"

lemma par_inv_start: "par_inv ip sink ps (parallel_start ps s)"
proof -
  have "sum_tasks f (parallel_start ps s) = 0" if "\<And>p. f (p, Waiting) = 0" for f :: "int \<times> Phase \<Rightarrow> 'x::comm_monoid_add"
    using that by (induction ps) (simp_all add: sum_tasks_def parallel_start_def)
  from this[of ended] this[of counted] this[of due_ports] this[of due_findings]
  show ?thesis
    by (auto simp: par_inv_def results_ok_def contributions) (auto simp: parallel_start_def range_start_def range_changes comp_def)
qed

lemma par_inv_step:
  assumes inv: "par_inv ip sink ps t" and "par_step (task_step env dt plugins sink ip timeout) t t'"
  shows "par_inv ip sink ps t'"
proof -
  obtain i p ph ph' rg s where i: "i < length (pl_tasks t)" "pl_tasks t ! i = (p, ph)"
    and step: "task_step env dt plugins sink ip timeout p ph (pl_range t) (pl_rt t) = (Ok (ph', rg), s)"
    and t': "t' = \<lparr>pl_tasks = (pl_tasks t)[i := (p, ph')], pl_range = rg, pl_rt = s\<rparr>"
    using assms(2) by (rule par_stepE) blast
  have mem: "(p, ph) \<in> set (pl_tasks t)" using i nth_mem by metis
  have ok: "phase_ok ip p ph" using inv mem by (auto simp: par_inv_def)
  have ok': "\<forall>(p, ph)\<in>set (pl_tasks t'). phase_ok ip p ph"
    using inv task_step_phase_ok[OF step ok] set_update_subset_insert[of "pl_tasks t" i "(p, ph')"]
    by (auto simp: t' par_inv_def)
  have fst: "map fst (pl_tasks t') = ps"
    using inv i by (simp add: t' par_inv_def map_update) (metis fst_conv length_map list_update_id nth_map)
  note sh = task_step_shared[OF step]
  note sum = sum_update[of i "pl_tasks t" _ "(p, ph')", OF i(1), unfolded i(2)]
  have e: "sum_tasks ended t' = sum_tasks ended t + (case ph of Connected fd q \<Rightarrow> (if p_state q = S_OPEN then {#} else {#port16 p#})
      | Announced fd q fs \<Rightarrow> {#port16 p#} | _ \<Rightarrow> {#})"
    using sum[of ended] sh(2) by (simp add: sum_tasks_def t')
  have c: "sum_tasks counted t' = sum_tasks counted t + (case ph of Counting fd \<Rightarrow> 1 | _ \<Rightarrow> 0)"
    using sum[of counted] sh(3) by (simp add: sum_tasks_def t')
  have dp: "sum_tasks due_ports t' + due_ports (p, ph) = sum_tasks due_ports t + (case ph of Collected fd q fs \<Rightarrow> {#q#} | _ \<Rightarrow> {#})"
    using sum[of due_ports] sh(4) by (simp add: sum_tasks_def t')
  have df: "sum_tasks due_findings t' + due_findings (p, ph) = sum_tasks due_findings t + (case ph of Collected fd q fs \<Rightarrow> mset fs | _ \<Rightarrow> {#})"
    using sum[of due_findings] sh(5) by (simp add: sum_tasks_def t')
  have rg: "pl_range t' = rg" by (simp add: t')
  obtain kb where shared: "rg = (case ph of Collected fd q fs \<Rightarrow> announce sink q fs (pl_range t)
      | Announced fd q fs \<Rightarrow> publish q fs (pl_range t) | Counting fd \<Rightarrow> count_progress sink (pl_range t)
      | _ \<Rightarrow> (pl_range t)\<lparr>rg_kb := kb\<rparr>)" using sh(1) by blast
  have res: "results_ok ip rg"
    using inv ok
    by (cases ph) (auto simp: par_inv_def results_ok_def shared range_changes port_of_def found_on_def)
  have old: "mset (map p_number (rg_ports (pl_range t))) \<subseteq># sum_tasks ended t" using inv by (simp add: par_inv_def)
  have ports: "mset (map p_number (rg_ports rg)) \<subseteq># sum_tasks ended t'"
    using old ok subset_mset.add_increasing2[OF _ old]
    by (cases ph) (auto simp: e shared range_changes port_of_def)
  have progress: "rg_progress rg = (if sink_progress sink then int (sum_tasks counted t') else 0)"
    using inv by (cases ph) (auto simp: c par_inv_def shared range_changes)
  have events: "mset (map fst (rg_events rg)) = mset (rg_ports rg) + sum_tasks due_ports t' \<and>
      mset (concat (map snd (rg_events rg))) = mset (rg_findings rg) + sum_tasks due_findings t'" if "sink_on_port_open sink"
    using inv that dp df
    by (cases ph)
      (auto simp: par_inv_def shared range_changes contributions ac_simps)
  show ?thesis using ok' fst res ports progress events by (simp add: par_inv_def rg)
qed

text \<open>When all tasks are complete, what they share is as after tasks that ran one after the other.\<close>

lemma complete_sums:
  "list_all (\<lambda>(p, ph). ph = Complete) ts \<Longrightarrow>
     sum_list (map ended ts) = mset (map port16 (map fst ts)) \<and> sum_list (map counted ts) = length ts \<and>
     sum_list (map due_ports ts) = {#} \<and> sum_list (map due_findings ts) = {#}"
  by (induction ts) (auto simp: contributions)

lemma par_inv_complete:
  assumes "par_inv ip sink ps t" "all_complete t"
  shows "range_inv ip sink ps (pl_range t)"
proof -
  have "length (pl_tasks t) = length ps" using assms(1) by (auto simp: par_inv_def)
  then show ?thesis
    using assms(1) complete_sums[OF assms(2)[unfolded all_complete_def]]
    by (auto simp: par_inv_def range_inv_def results_ok_def sum_tasks_def image_mset.compositionality comp_def)
qed

lemma parallel_invariant:
  assumes "(par_step (task_step env dt plugins sink ip timeout))\<^sup>*\<^sup>* (parallel_start ps s) t"
  shows "par_inv ip sink ps t"
  using assms
proof (induction rule: rtranclp_induct)
  case base
  show ?case by (rule par_inv_start)
next
  case (step t t')
  show ?case by (rule par_inv_step[OF step.IH step.hyps(2)])
qed

text \<open>C5: What a scan returns however its threads run: for every interleaving of the phases of its tasks, every server,
  every sort that sorts and every range within 0 to 65535, when all tasks have returned the ports are sorted by
  number, open, distinct and of the range; the findings have pairwise different identities, and each is of the host
  scanned, of the number of one of these ports and of TCP, and names a service, a product and a version whenever
  this port has one; the counter has advanced by one for every port of the range; every port returned was announced
  exactly once, with findings that are of this port in the same sense; and the findings returned are those announced,
  together, deduplicated.\<close>

theorem parallel_scan_result:
  assumes "(par_step (task_step env dt plugins sink ip timeout))\<^sup>*\<^sup>* (parallel_start (port_range start_port end_port) s) t"
    and "all_complete t" "r = finish_range srt (pl_range t)"
    and "sorts srt" "0 \<le> start_port" "end_port \<le> 65535"
  shows "sorted (map p_number (tr_ports r)) \<and> distinct (map p_number (tr_ports r)) \<and>
    (\<forall>port\<in>set (tr_ports r). p_state port = S_OPEN \<and> p_protocol port = P_TCP \<and>
       start_port \<le> uint (p_number port) \<and> uint (p_number port) \<le> end_port) \<and>
    distinct (map finding_identity (tr_findings r)) \<and>
    (\<forall>f\<in>set (tr_findings r). \<exists>port\<in>set (tr_ports r). described ip port f) \<and>
    rg_progress (pl_range t) = (if sink_progress sink then int (length (port_range start_port end_port)) else 0) \<and>
    (sink_on_port_open sink \<longrightarrow>
       mset (map fst (rg_events (pl_range t))) = mset (tr_ports r) \<and>
       (\<forall>(port, fs)\<in>set (rg_events (pl_range t)). found_on ip port fs) \<and>
       (\<exists>fs. mset fs = mset (concat (map snd (rg_events (pl_range t)))) \<and> tr_findings r = deduplicate_findings fs))"
  using finished_range[OF par_inv_complete[OF parallel_invariant[OF assms(1)] assms(2)] assms(3,4) refl assms(5,6)] .

section \<open>The scan ends\<close>

fun remaining :: "Phase \<Rightarrow> nat" where
  "remaining Waiting = 9"
| "remaining (Connected fd q) = 8"
| "remaining (Identified fd q) = 7"
| "remaining (Checked fd q fs) = 6"
| "remaining (Scripted fd q fs) = 5"
| "remaining (Collected fd q fs) = 4"
| "remaining (Announced fd q fs) = 3"
| "remaining (Counting fd) = 2"
| "remaining (Closing fd) = 1"
| "remaining Complete = 0"

lemma task_step_remaining:
  "task_step env dt plugins sink ip timeout p ph rg s = (Ok (ph', rg'), s') \<Longrightarrow> ph \<noteq> Complete \<Longrightarrow> remaining ph' < remaining ph"
  by (cases ph) (auto simp: cbind_Ok_iff cret_def split: prod.splits if_splits)

definition left_over :: "int \<times> Phase \<Rightarrow> nat" where
  "left_over t = remaining (snd t)"

lemma par_step_remaining:
  assumes "par_step (task_step env dt plugins sink ip timeout) t t'"
  shows "sum_tasks left_over t' < sum_tasks left_over t"
proof -
  obtain i p ph ph' rg s where i: "i < length (pl_tasks t)" "pl_tasks t ! i = (p, ph)" "ph \<noteq> Complete"
    and step: "task_step env dt plugins sink ip timeout p ph (pl_range t) (pl_rt t) = (Ok (ph', rg), s)"
    and t': "t' = \<lparr>pl_tasks = (pl_tasks t)[i := (p, ph')], pl_range = rg, pl_rt = s\<rparr>"
    using assms by (rule par_stepE) blast
  show ?thesis
    using sum_update[of i "pl_tasks t" left_over "(p, ph')", OF i(1)] task_step_remaining[OF step i(3)]
    by (simp add: sum_tasks_def t' i(2) left_over_def)
qed

lemma ends_task_step: "ends (search_throws dt) False (task_step env dt plugins sink ip timeout p ph rg)"
  by (cases ph)
    (auto simp: native_checks_now_def intro!: ends_cbind ends_prod ends_if ends_identified
      contained_in_world[THEN ends_contained] contained_in_checked[THEN ends_contained]
      contained_run_for_port[THEN ends_contained] contained_check_port_now[THEN ends_contained] contained_cret[THEN ends_contained])

text \<open>The threads of a scan come to an end: a run of the phases has at most nine steps for each port, and until
  all tasks have returned there is a next step, unless a task is in a call that does not return, in undefined
  behaviour of a check, or ends the program by the \<open>regex_error\<close> of a service pattern.\<close>

theorem parallel_scan_ends:
  assumes "(par_step (task_step env dt plugins sink ip timeout) ^^ k) (parallel_start ps s) t"
  shows "k \<le> 9 * length ps \<and>
    (all_complete t \<or> (\<exists>t'. par_step (task_step env dt plugins sink ip timeout) t t') \<or>
     (\<exists>p ph. (p, ph) \<in> set (pl_tasks t) \<and> ph \<noteq> Complete \<and>
        fst (task_step env dt plugins sink ip timeout p ph (pl_range t) (pl_rt t)) \<in> {Undef, Hang} \<union> (if search_throws dt then range Throw else {})))"
proof
  have "k + sum_tasks left_over t \<le> sum_tasks left_over (parallel_start ps s)"
    using assms
  proof (induction k arbitrary: t)
    case (Suc k)
    then obtain u where u: "(par_step (task_step env dt plugins sink ip timeout) ^^ k) (parallel_start ps s) u"
      "par_step (task_step env dt plugins sink ip timeout) u t" by auto
    show ?case using Suc.IH[OF u(1)] par_step_remaining[OF u(2)] by simp
  qed simp
  moreover have "sum_tasks left_over (parallel_start ps s) = 9 * length ps"
    by (simp add: sum_tasks_def parallel_start_def comp_def sum_list_triv left_over_def)
  ultimately show "k \<le> 9 * length ps" by simp
  show "all_complete t \<or> (\<exists>t'. par_step (task_step env dt plugins sink ip timeout) t t') \<or>
     (\<exists>p ph. (p, ph) \<in> set (pl_tasks t) \<and> ph \<noteq> Complete \<and>
        fst (task_step env dt plugins sink ip timeout p ph (pl_range t) (pl_rt t)) \<in> {Undef, Hang} \<union> (if search_throws dt then range Throw else {}))"
  proof (cases "all_complete t")
    case False
    then obtain i p ph where i: "i < length (pl_tasks t)" "pl_tasks t ! i = (p, ph)" "ph \<noteq> Complete"
      by (auto simp: all_complete_def list_all_iff in_set_conv_nth)
    obtain res s' where r: "task_step env dt plugins sink ip timeout p ph (pl_range t) (pl_rt t) = (res, s')"
      by (cases "task_step env dt plugins sink ip timeout p ph (pl_range t) (pl_rt t)")
    have "res \<in> {Undef, Hang} \<union> (if search_throws dt then range Throw else {}) \<or> (\<exists>a. res = Ok a)"
      using ends_task_step[of dt env plugins sink ip timeout p ph "pl_range t", unfolded ends_def, rule_format, of "pl_rt t"] r
      by (auto split: if_splits)
    then show ?thesis
    proof
      assume "\<exists>a. res = Ok a"
      then obtain ph' rg where "res = Ok (ph', rg)" by auto
      then show ?thesis using par_step.intros[of i t p ph "task_step env dt plugins sink ip timeout"] i r by blast
    next
      assume "res \<in> {Undef, Hang} \<union> (if search_throws dt then range Throw else {})"
      then show ?thesis using i r nth_mem[OF i(1)] by (intro disjI2 exI[of _ p] exI[of _ ph]) simp
    qed
  qed simp
qed

section \<open>Tasks one after the other\<close>

lemma alone_steps:
  "run_alone (task_step env dt plugins sink ip timeout p) n ph rg s = (Ok (ph', rg'), s') \<Longrightarrow>
   i < length ts \<Longrightarrow> ts ! i = (p, ph) \<Longrightarrow>
   (par_step (task_step env dt plugins sink ip timeout))\<^sup>*\<^sup>*
     \<lparr>pl_tasks = ts, pl_range = rg, pl_rt = s\<rparr> \<lparr>pl_tasks = ts[i := (p, ph')], pl_range = rg', pl_rt = s'\<rparr>"
proof (induction n arbitrary: ph rg s ts)
  case 0
  then have "ts[i := (p, ph')] = ts" by (metis cret_def list_update_id outcome.inject prod.inject run_alone.simps(1))
  then show ?case using 0 by (simp add: cret_def)
next
  case (Suc n)
  from Suc.prems(1) obtain ph1 rg1 s1 where 1: "task_step env dt plugins sink ip timeout p ph rg s = (Ok (ph1, rg1), s1)"
    "run_alone (task_step env dt plugins sink ip timeout p) n ph1 rg1 s1 = (Ok (ph', rg'), s')"
    by (auto simp: cbind_Ok_iff)
  from Suc.IH[OF 1(2), of "ts[i := (p, ph1)]"] Suc.prems(2)
  have rest: "(par_step (task_step env dt plugins sink ip timeout))\<^sup>*\<^sup>*
      \<lparr>pl_tasks = ts[i := (p, ph1)], pl_range = rg1, pl_rt = s1\<rparr> \<lparr>pl_tasks = ts[i := (p, ph')], pl_range = rg', pl_rt = s'\<rparr>"
    by simp
  show ?case
  proof (cases "ph = Complete")
    case True
    then have "ph1 = ph" "rg1 = rg" "s1 = s" using 1(1) by (simp_all add: cret_def)
    moreover from this have "ts[i := (p, ph1)] = ts" using Suc.prems(2,3) by (metis list_update_id)
    ultimately show ?thesis using rest by simp
  next
    case False
    have "par_step (task_step env dt plugins sink ip timeout) \<lparr>pl_tasks = ts, pl_range = rg, pl_rt = s\<rparr>
        \<lparr>pl_tasks = ts[i := (p, ph1)], pl_range = rg1, pl_rt = s1\<rparr>"
      using par_step.intros[of i "\<lparr>pl_tasks = ts, pl_range = rg, pl_rt = s\<rparr>" p ph "task_step env dt plugins sink ip timeout" ph1 rg1 s1]
        Suc.prems(2,3) False 1(1) by simp
    then show ?thesis using rest by (rule converse_rtranclp_into_rtranclp)
  qed
qed

text \<open>The tasks when those of the ports \<open>D\<close> have returned and the others have not begun.\<close>

definition progress_of :: "int list \<Rightarrow> int set \<Rightarrow> (int \<times> Phase) list" where
  "progress_of ps D = map (\<lambda>p. (p, if p \<in> D then Complete else Waiting)) ps"

lemma progress_update:
  "distinct ps \<Longrightarrow> i < length ps \<Longrightarrow> (progress_of ps D)[i := (ps ! i, Complete)] = progress_of ps (insert (ps ! i) D)"
  by (rule nth_equalityI) (auto simp: progress_of_def nth_list_update nth_eq_iff_index_eq)

lemma run_tasks_steps:
  assumes "distinct ps"
  shows "run_tasks (\<lambda>p rg. in_worker (scan_task env dt plugins sink ip timeout p rg)) sch rg s = (Ok rg', s') \<Longrightarrow> distinct sch \<Longrightarrow> set sch \<subseteq> set ps \<Longrightarrow>
    set sch \<inter> D = {} \<Longrightarrow> (par_step (task_step env dt plugins sink ip timeout))\<^sup>*\<^sup>*
      \<lparr>pl_tasks = progress_of ps D, pl_range = rg, pl_rt = s\<rparr>
      \<lparr>pl_tasks = progress_of ps (D \<union> set sch), pl_range = rg', pl_rt = s'\<rparr>"
proof (induction sch arbitrary: rg s D)
  case (Cons p sch)
  from Cons.prems(1) obtain rg1 s1 where 1: "scan_task env dt plugins sink ip timeout p rg s = (Ok rg1, s1)"
    "run_tasks (\<lambda>p rg. in_worker (scan_task env dt plugins sink ip timeout p rg)) sch rg1 s1 = (Ok rg', s')"
    by (auto simp: cbind_Ok_iff in_worker_Ok)
  obtain i where i: "i < length ps" "ps ! i = p" using Cons.prems(3) by (auto simp: in_set_conv_nth)
  have w: "progress_of ps D ! i = (p, Waiting)" "i < length (progress_of ps D)"
    using i Cons.prems(4) by (auto simp: progress_of_def)
  have "run_alone (task_step env dt plugins sink ip timeout p) 9 Waiting rg s = (Ok (Complete, rg1), s1)"
    unfolding task_phases using 1(1) by (simp add: cbind_Ok_iff cret_def)
  from alone_steps[OF this w(2,1)]
  have first: "(par_step (task_step env dt plugins sink ip timeout))\<^sup>*\<^sup>* \<lparr>pl_tasks = progress_of ps D, pl_range = rg, pl_rt = s\<rparr>
      \<lparr>pl_tasks = progress_of ps (insert p D), pl_range = rg1, pl_rt = s1\<rparr>"
    using progress_update[OF assms i(1), of D] by (simp add: i(2))
  have "insert p D \<union> set sch = D \<union> set (p # sch)" by auto
  with Cons.IH[OF 1(2), of "insert p D"] Cons.prems(2-4) rtranclp_trans[OF first] show ?case by auto
qed (simp add: cret_def)

lemma sequential_run:
  assumes "tcp_range_scan env dt srt schedule ip start_port end_port plugins sink timeout s = (Ok (r, rg), s')"
    and "mset (schedule (port_range start_port end_port)) = mset (port_range start_port end_port)"
  shows "\<exists>t. (par_step (task_step env dt plugins sink ip timeout))\<^sup>*\<^sup>* (parallel_start (port_range start_port end_port) s) t \<and>
    all_complete t \<and> pl_range t = rg \<and> pl_rt t = s' \<and> r = finish_range srt (pl_range t)"
proof -
  let ?ps = "port_range start_port end_port"
  have d: "distinct ?ps" by (simp add: port_range_def)
  have sch: "distinct (schedule ?ps)" "set (schedule ?ps) = set ?ps"
    using d mset_eq_imp_distinct_iff[OF assms(2)] mset_eq_setD[OF assms(2)] by simp_all
  have run: "run_tasks (\<lambda>p rg. in_worker (scan_task env dt plugins sink ip timeout p rg)) (schedule ?ps) range_start s = (Ok rg, s')"
    and r: "r = finish_range srt rg"
    using assms(1) unfolding tcp_range_scan_def by (auto simp: cbind_Ok_iff cret_def)
  have "parallel_start ?ps s = \<lparr>pl_tasks = progress_of ?ps {}, pl_range = range_start, pl_rt = s\<rparr>"
    by (simp add: parallel_start_def progress_of_def)
  moreover have "all_complete \<lparr>pl_tasks = progress_of ?ps ({} \<union> set (schedule ?ps)), pl_range = rg, pl_rt = s'\<rparr>"
    by (auto simp: all_complete_def progress_of_def list_all_iff sch(2))
  ultimately show ?thesis
    using run_tasks_steps[OF d run sch(1), of "{}"] sch(2) r
    by (intro exI[of _ "\<lparr>pl_tasks = progress_of ?ps ({} \<union> set (schedule ?ps)), pl_range = rg, pl_rt = s'\<rparr>"]) simp
qed

text \<open>The scan with its tasks one after the other, in any order, is a run of its threads: what it returns and the
  state it leaves are those of an interleaving in which all tasks return.\<close>

theorem sequential_scan_is_parallel:
  assumes "tcp_range_scan env dt srt schedule ip start_port end_port plugins sink timeout s = (Ok (r, rg), s')"
    and "mset (schedule (port_range start_port end_port)) = mset (port_range start_port end_port)"
  shows "\<exists>t. (par_step (task_step env dt plugins sink ip timeout))\<^sup>*\<^sup>* (parallel_start (port_range start_port end_port) s) t \<and>
    all_complete t \<and> pl_range t = rg \<and> pl_rt t = s' \<and> r = finish_range srt (pl_range t)"
  using assms by (rule sequential_run)

section \<open>The theorems at a scan\<close>

text \<open>The scan of \<open>TcpRange\<close>'s example, as a run of its threads.\<close>

definition sample_threads :: "int \<Rightarrow> Phase \<Rightarrow> RangeState \<Rightarrow> (unit rt, Phase \<times> RangeState) comp" where
  "sample_threads = task_step sample_env no_detector [] \<lparr>sink_progress = True, sink_on_port_open = True\<rparr> ''10.0.0.1'' 1000"

lemma sample_threads_run:
  "\<exists>t. (par_step sample_threads)\<^sup>*\<^sup>* (parallel_start (port_range 80 80) empty_scan) t \<and> all_complete t \<and>
     rg_ports (pl_range t) = [tcp_result 80 S_OPEN]"
proof -
  from sequential_run[OF sample_scan] obtain t where
    t: "(par_step sample_threads)\<^sup>*\<^sup>* (parallel_start (port_range 80 80) empty_scan) t" "all_complete t"
      "pl_range t = \<lparr>rg_kb = kb_new, rg_ports = [tcp_result 80 S_OPEN], rg_findings = [],
         rg_calls = [PortOpen (tcp_result 80 S_OPEN) [], Progress]\<rparr>"
    unfolding sample_threads_def by (auto simp: port_range_def)
  then show ?thesis by (intro exI[of _ t]) simp
qed

theorem parallel_scan_result_witness:
  "\<exists>t. all_complete t \<and> (par_step sample_threads)\<^sup>*\<^sup>* (parallel_start (port_range 80 80) empty_scan) t \<and>
     sorted (map p_number (tr_ports (finish_range key_sorter (pl_range t)))) \<and> rg_progress (pl_range t) = 1"
proof -
  obtain t where t: "(par_step sample_threads)\<^sup>*\<^sup>* (parallel_start (port_range 80 80) empty_scan) t" "all_complete t"
    using sample_threads_run by blast
  then show ?thesis
    using parallel_scan_result[OF t[unfolded sample_threads_def] refl key_sorter_sorts]
    by (intro exI[of _ t]) (simp add: port_range_def)
qed

theorem parallel_scan_ends_witness:
  "\<exists>k t. (par_step sample_threads ^^ k) (parallel_start [80] empty_scan) t \<and> all_complete t \<and> k \<le> 9"
proof -
  obtain t where t: "(par_step sample_threads)\<^sup>*\<^sup>* (parallel_start [80] empty_scan) t" "all_complete t"
    using sample_threads_run by (auto simp: port_range_def)
  obtain k where k: "(par_step sample_threads ^^ k) (parallel_start [80] empty_scan) t"
    using rtranclp_imp_relpowp[OF t(1)] by blast
  then show ?thesis
    using parallel_scan_ends[OF k[unfolded sample_threads_def]] t(2) by (intro exI[of _ k] exI[of _ t]) simp
qed

theorem sequential_scan_is_parallel_witness:
  "\<exists>t. (par_step sample_threads)\<^sup>*\<^sup>* (parallel_start (port_range 80 80) empty_scan) t \<and> all_complete t \<and>
     tr_ports (finish_range key_sorter (pl_range t)) = [tcp_result 80 S_OPEN]"
proof -
  have "mset (rev (port_range 80 80)) = mset (port_range 80 80)" by simp
  from sequential_scan_is_parallel[OF sample_scan this] obtain t where
    t: "(par_step sample_threads)\<^sup>*\<^sup>* (parallel_start (port_range 80 80) empty_scan) t" "all_complete t"
      "\<lparr>tr_ports = [tcp_result 80 S_OPEN], tr_findings = []\<rparr> = finish_range key_sorter (pl_range t)"
    unfolding sample_threads_def by blast
  then show ?thesis by (intro exI[of _ t]) (simp flip: t(3))
qed

end
