(* ===== verification/ThreadPool.thy ===== *)
theory ThreadPool
  imports Main "HOL-Library.Multiset"
begin

text \<open>
  \<open>processor/thread_pool.cpp\<close>: the pool as a transition system.  A step is one critical section
  under the queue mutex, one notification, the end of a task, or the return of \<open>join\<close>.  The client
  enqueues its tasks one after the other and then destroys the pool, as both users of the pool do.
  Tasks are assumed to return.
\<close>

section \<open>States and steps\<close>

text \<open>
  \<open>Ready\<close>: about to lock the mutex and evaluate the predicate of \<open>condition.wait\<close>;
  \<open>Asleep\<close>: blocked in the wait; \<open>Running\<close>: outside the lock, in \<open>task()\<close>.
\<close>

datatype 't worker = Ready | Asleep | Running 't | Exited

text \<open>Where the client is: in \<open>enqueue\<close> before its lock or before \<open>notify_one\<close>, in the destructor
  before setting \<open>stop\<close>, before \<open>notify_all\<close>, in the joins, or past them.\<close>

datatype client = Pushing | Notifying | Stopping | Broadcasting | Joining | Destroyed

record 't ThreadPool =
  workers :: "'t worker list"
  tasks :: "'t list"
  stop :: bool
  client :: client
  todo :: "'t list"
  started :: "'t list"
  finished :: "'t list"

definition pool_init :: "nat \<Rightarrow> 't list \<Rightarrow> 't ThreadPool" where
  "pool_init num_threads ts =
     \<lparr>workers = replicate num_threads Ready, tasks = [], stop = False,
      client = (if ts = [] then Stopping else Pushing), todo = ts, started = [], finished = []\<rparr>"

text \<open>One round of \<open>worker_loop\<close> with the mutex held.\<close>

definition worker_check :: "nat \<Rightarrow> 't ThreadPool \<Rightarrow> 't ThreadPool" where
  "worker_check i s =
     (if \<not> (stop s \<or> tasks s \<noteq> []) then s\<lparr>workers := (workers s)[i := Asleep]\<rparr>
      else if stop s \<and> tasks s = [] then s\<lparr>workers := (workers s)[i := Exited]\<rparr>
      else s\<lparr>workers := (workers s)[i := Running (hd (tasks s))], tasks := tl (tasks s),
             started := started s @ [hd (tasks s)]\<rparr>)"

definition worker_finish :: "nat \<Rightarrow> 't \<Rightarrow> 't ThreadPool \<Rightarrow> 't ThreadPool" where
  "worker_finish i t s = s\<lparr>workers := (workers s)[i := Ready], finished := finished s @ [t]\<rparr>"

definition enqueue_push :: "'t ThreadPool \<Rightarrow> 't ThreadPool" where
  "enqueue_push s = s\<lparr>tasks := tasks s @ [hd (todo s)], todo := tl (todo s), client := Notifying\<rparr>"

text \<open>After \<open>notify_one\<close> the client goes on to the next task or to the destructor.\<close>

definition client_next :: "'t ThreadPool \<Rightarrow> 't ThreadPool" where
  "client_next s = s\<lparr>client := (if todo s = [] then Stopping else Pushing)\<rparr>"

definition wake :: "nat \<Rightarrow> 't ThreadPool \<Rightarrow> 't ThreadPool" where
  "wake i s = s\<lparr>workers := (workers s)[i := Ready]\<rparr>"

definition wake_all :: "'t ThreadPool \<Rightarrow> 't ThreadPool" where
  "wake_all s = s\<lparr>workers := map (\<lambda>w. if w = Asleep then Ready else w) (workers s)\<rparr>"

inductive pool_step :: "'t ThreadPool \<Rightarrow> 't ThreadPool \<Rightarrow> bool" where
  check: "i < length (workers s) \<Longrightarrow> workers s ! i = Ready \<Longrightarrow> pool_step s (worker_check i s)"
| finish: "i < length (workers s) \<Longrightarrow> workers s ! i = Running t \<Longrightarrow> pool_step s (worker_finish i t s)"
| push: "client s = Pushing \<Longrightarrow> pool_step s (enqueue_push s)"
| notify_one: "client s = Notifying \<Longrightarrow> i < length (workers s) \<Longrightarrow> workers s ! i = Asleep \<Longrightarrow>
    pool_step s (client_next (wake i s))"
| notify_none: "client s = Notifying \<Longrightarrow> Asleep \<notin> set (workers s) \<Longrightarrow> pool_step s (client_next s)"
| set_stop: "client s = Stopping \<Longrightarrow> pool_step s (s\<lparr>stop := True, client := Broadcasting\<rparr>)"
| notify_all: "client s = Broadcasting \<Longrightarrow> pool_step s ((wake_all s)\<lparr>client := Joining\<rparr>)"
| joined: "client s = Joining \<Longrightarrow> \<forall>w\<in>set (workers s). w = Exited \<Longrightarrow> pool_step s (s\<lparr>client := Destroyed\<rparr>)"

inductive_cases pool_stepE: "pool_step s s'"

text \<open>A wait may also end by itself.\<close>

inductive spurious_wake :: "'t ThreadPool \<Rightarrow> 't ThreadPool \<Rightarrow> bool" where
  "i < length (workers s) \<Longrightarrow> workers s ! i = Asleep \<Longrightarrow> spurious_wake s (wake i s)"

inductive reachable :: "nat \<Rightarrow> 't list \<Rightarrow> 't ThreadPool \<Rightarrow> bool" for n ts where
  init: "reachable n ts (pool_init n ts)"
| step: "reachable n ts s \<Longrightarrow> pool_step s s' \<Longrightarrow> reachable n ts s'"
| spurious: "reachable n ts s \<Longrightarrow> spurious_wake s s' \<Longrightarrow> reachable n ts s'"

section \<open>The invariant\<close>

text \<open>The tasks that workers are running.\<close>

fun running_task :: "'t worker \<Rightarrow> 't multiset" where
  "running_task (Running t) = {#t#}"
| "running_task w = {#}"

definition running :: "'t worker list \<Rightarrow> 't multiset" where
  "running ws = sum_list (map running_task ws)"

definition pool_inv :: "nat \<Rightarrow> 't list \<Rightarrow> 't ThreadPool \<Rightarrow> bool" where
  "pool_inv n ts s \<longleftrightarrow>
     length (workers s) = n \<and>
     started s @ tasks s @ todo s = ts \<and>
     mset (started s) = running (workers s) + mset (finished s) \<and>
     (stop s \<longleftrightarrow> client s \<in> {Broadcasting, Joining, Destroyed}) \<and>
     (client s = Pushing \<longleftrightarrow> todo s \<noteq> [] \<and> client s \<noteq> Notifying) \<and>
     (Exited \<in> set (workers s) \<longrightarrow> stop s \<and> tasks s = []) \<and>
     (client s \<in> {Joining, Destroyed} \<longrightarrow> Asleep \<notin> set (workers s)) \<and>
     (client s = Destroyed \<longrightarrow> (\<forall>w\<in>set (workers s). w = Exited))"

lemma running_update:
  "i < length ws \<Longrightarrow> running (ws[i := w]) + running_task (ws ! i) = running ws + running_task w"
proof (induction ws arbitrary: i)
  case (Cons x ws)
  then show ?case by (cases i) (auto simp: running_def ac_simps)
qed simp

lemma running_replicate [simp]: "running (replicate n Ready) = {#}"
  by (induction n) (auto simp: running_def)

lemma running_wake_all [simp]: "running (map (\<lambda>w. if w = Asleep then Ready else w) ws) = running ws"
  by (induction ws) (auto simp: running_def)

lemma running_exited: "\<forall>w\<in>set ws. w = Exited \<Longrightarrow> running ws = {#}"
  by (induction ws) (auto simp: running_def)

lemma in_set_update: "x \<in> set (ws[i := w]) \<Longrightarrow> x = w \<or> x \<in> set ws"
  by (meson insert_iff set_update_subset_insert subsetD)

lemma inv_init: "pool_inv n ts (pool_init n ts)"
  by (auto simp: pool_inv_def pool_init_def)

lemma running_set:
  assumes "i < length ws" "ws ! i = Ready \<or> ws ! i = Asleep"
  shows "running (ws[i := w]) = running ws + running_task w"
proof -
  have "running_task (ws ! i) = {#}" using assms(2) by auto
  then show ?thesis using running_update[OF assms(1), of w] by (simp only: add_0_right)
qed

lemma not_in_update: "w \<noteq> v \<Longrightarrow> v \<notin> set ws \<Longrightarrow> v \<notin> set (ws[i := w])"
  using in_set_update[of v ws i w] by blast

lemma inv_wake:
  assumes inv: "pool_inv n ts s" and i: "i < length (workers s)" "workers s ! i = Asleep"
  shows "pool_inv n ts (wake i s)"
proof -
  have "Asleep \<in> set (workers s)" using nth_mem[OF i(1)] i(2) by simp
  then have "client s \<notin> {Joining, Destroyed}" using inv unfolding pool_inv_def by blast
  moreover have "Exited \<notin> set (workers s) \<Longrightarrow> Exited \<notin> set ((workers s)[i := Ready])"
    by (rule not_in_update) simp
  ultimately show ?thesis
    using inv unfolding pool_inv_def by (auto simp: wake_def running_set i)
qed

lemma inv_check_sleep:
  assumes inv: "pool_inv n ts s" and i: "i < length (workers s)" "workers s ! i = Ready"
    and q: "tasks s = []" "\<not> stop s"
  shows "pool_inv n ts (worker_check i s)"
proof -
  have "client s \<notin> {Broadcasting, Joining, Destroyed}" "Exited \<notin> set (workers s)"
    using inv q(2) unfolding pool_inv_def by blast+
  moreover from this(2) have "Exited \<notin> set ((workers s)[i := Asleep])" by (rule not_in_update[rotated]) simp
  ultimately show ?thesis
    using inv q by (simp add: pool_inv_def worker_check_def running_set[OF i(1) disjI1[OF i(2)]])
qed

lemma inv_check_exit:
  assumes inv: "pool_inv n ts s" and i: "i < length (workers s)" "workers s ! i = Ready"
    and q: "tasks s = []" "stop s" and nd: "client s \<noteq> Destroyed"
  shows "pool_inv n ts (worker_check i s)"
proof -
  have "client s = Joining \<longrightarrow> Asleep \<notin> set ((workers s)[i := Exited])"
    using inv not_in_update[of Exited Asleep "workers s" i] unfolding pool_inv_def by blast
  then show ?thesis
    using inv q nd by (simp add: pool_inv_def worker_check_def running_set[OF i(1) disjI1[OF i(2)]])
qed

lemma inv_check_take:
  assumes inv: "pool_inv n ts s" and i: "i < length (workers s)" "workers s ! i = Ready"
    and q: "tasks s = t # q" and nd: "client s \<noteq> Destroyed"
  shows "pool_inv n ts (worker_check i s)"
proof -
  have "Exited \<notin> set (workers s)" using inv q unfolding pool_inv_def by auto
  then have "Exited \<notin> set ((workers s)[i := Running t])" by (rule not_in_update[rotated]) simp
  moreover have "client s = Joining \<longrightarrow> Asleep \<notin> set ((workers s)[i := Running t])"
    using inv not_in_update[of "Running t" Asleep "workers s" i] unfolding pool_inv_def by blast
  ultimately show ?thesis
    using inv q nd by (simp add: pool_inv_def worker_check_def running_set[OF i(1) disjI1[OF i(2)]])
qed

lemma inv_check:
  assumes inv: "pool_inv n ts s" and i: "i < length (workers s)" "workers s ! i = Ready"
  shows "pool_inv n ts (worker_check i s)"
proof -
  have "Ready \<in> set (workers s)" using nth_mem[OF i(1)] i(2) by simp
  then have nd: "client s \<noteq> Destroyed" using inv unfolding pool_inv_def by blast
  show ?thesis
    by (cases "tasks s"; cases "stop s")
      (use inv_check_sleep[OF inv i] inv_check_exit[OF inv i _ _ nd] inv_check_take[OF inv i _ nd] in blast)+
qed

lemma inv_step: "pool_step s s' \<Longrightarrow> pool_inv n ts s \<Longrightarrow> pool_inv n ts s'"
proof (induction rule: pool_step.induct)
  case (check i s)
  then show ?case by (simp add: inv_check)
next
  case (finish i s t)
  have "running ((workers s)[i := Ready]) + {#t#} = running (workers s)"
    using running_update[of i "workers s" Ready] finish.hyps by (simp only: running_task.simps add_0_right)
  moreover have "client s \<noteq> Destroyed" using finish nth_mem[OF finish.hyps(1)] by (auto simp: pool_inv_def)
  ultimately show ?case
    using finish.prems by (auto simp: pool_inv_def worker_finish_def dest!: in_set_update)
next
  case (push s)
  then show ?case by (cases "todo s") (auto simp: pool_inv_def enqueue_push_def)
next
  case (notify_one s i)
  then have "pool_inv n ts (wake i s)" by (simp add: inv_wake)
  then show ?case using notify_one.hyps(1) by (auto simp: pool_inv_def client_next_def wake_def)
next
  case (notify_none s)
  then show ?case by (auto simp: pool_inv_def client_next_def)
next
  case (set_stop s)
  then show ?case by (auto simp: pool_inv_def)
next
  case (notify_all s)
  then show ?case by (auto simp: pool_inv_def wake_all_def split: if_splits)
next
  case (joined s)
  then show ?case by (auto simp: pool_inv_def)
qed

lemma reachable_inv: "reachable n ts s \<Longrightarrow> pool_inv n ts s"
proof (induction rule: reachable.induct)
  case (spurious s s')
  then show ?case by (auto simp: inv_wake elim: spurious_wake.cases)
qed (auto simp: inv_init inv_step)

section \<open>Termination\<close>

text \<open>What is left to do: every step but a spurious wake-up takes some of it.\<close>

fun worker_work :: "'t worker \<Rightarrow> nat" where
  "worker_work Ready = 1"
| "worker_work (Running t) = 2"
| "worker_work Asleep = 0"
| "worker_work Exited = 0"

definition client_work :: "'t ThreadPool \<Rightarrow> nat" where
  "client_work s = 5 * length (todo s) +
     (case client s of
        Pushing \<Rightarrow> length (workers s) + 3
      | Notifying \<Rightarrow> length (workers s) + 5
      | Stopping \<Rightarrow> length (workers s) + 3
      | Broadcasting \<Rightarrow> length (workers s) + 2
      | Joining \<Rightarrow> 1
      | Destroyed \<Rightarrow> 0)"

definition workers_work :: "'t worker list \<Rightarrow> nat" where
  "workers_work ws = sum_list (map worker_work ws)"

definition pool_work :: "'t ThreadPool \<Rightarrow> nat" where
  "pool_work s = client_work s + 2 * length (tasks s) + workers_work (workers s)"

lemma workers_work_update:
  "i < length ws \<Longrightarrow> workers_work (ws[i := w]) + worker_work (ws ! i) = workers_work ws + worker_work w"
proof (induction ws arbitrary: i)
  case (Cons x ws)
  then show ?case by (cases i) (auto simp: workers_work_def)
qed simp

lemma workers_work_wake_all:
  "workers_work (map (\<lambda>w. if w = Asleep then Ready else w) ws) \<le> workers_work ws + length ws"
  by (induction ws) (auto simp: workers_work_def)

lemma step_takes_work: "pool_step s s' \<Longrightarrow> pool_inv n ts s \<Longrightarrow> pool_work s' < pool_work s"
proof (induction rule: pool_step.induct)
  case (check i s)
  note u = workers_work_update[OF check.hyps(1), unfolded check.hyps(2)]
  show ?case
    using u[of Asleep] u[of Exited] u[of "Running (hd (tasks s))"]
    by (cases "tasks s"; cases "client s") (auto simp: pool_work_def client_work_def worker_check_def)
next
  case (finish i s t)
  then show ?case
    using workers_work_update[of i "workers s" Ready]
    by (cases "client s") (auto simp: pool_work_def client_work_def worker_finish_def)
next
  case (push s)
  then have "todo s \<noteq> []" by (simp add: pool_inv_def)
  then show ?case using push.hyps by (cases "todo s") (auto simp: pool_work_def client_work_def enqueue_push_def)
next
  case (notify_one s i)
  then show ?case
    using workers_work_update[of i "workers s" Ready]
    by (auto simp: pool_work_def client_work_def client_next_def wake_def)
next
  case (notify_none s)
  then show ?case by (auto simp: pool_work_def client_work_def client_next_def)
next
  case (set_stop s)
  then show ?case by (auto simp: pool_work_def client_work_def)
next
  case (notify_all s)
  then show ?case
    using workers_work_wake_all[of "workers s"] by (auto simp: pool_work_def client_work_def wake_all_def)
next
  case (joined s)
  then show ?case by (auto simp: pool_work_def client_work_def)
qed

lemma never_stuck:
  assumes inv: "pool_inv n ts s" and "client s \<noteq> Destroyed"
  shows "\<exists>s'. pool_step s s'"
proof (cases "client s")
  case Notifying
  then show ?thesis by (metis in_set_conv_nth notify_none notify_one)
next
  case Joining
  show ?thesis
  proof (cases "\<forall>w\<in>set (workers s). w = Exited")
    case True
    then show ?thesis using Joining by (blast intro: joined)
  next
    case False
    then obtain i where i: "i < length (workers s)" "workers s ! i \<noteq> Exited" by (auto simp: in_set_conv_nth)
    moreover have "workers s ! i \<noteq> Asleep"
      using inv Joining nth_mem[OF i(1)] by (auto simp: pool_inv_def)
    ultimately show ?thesis by (cases "workers s ! i") (auto intro: check finish)
  qed
qed (use assms(2) in \<open>auto intro: push set_stop notify_all\<close>)

lemma steps_reachable: "(pool_step ^^ k) s s' \<Longrightarrow> reachable n ts s \<Longrightarrow> reachable n ts s'"
  by (induction k arbitrary: s') (auto intro: reachable.step)

lemma steps_bounded: "(pool_step ^^ k) s s' \<Longrightarrow> reachable n ts s \<Longrightarrow> k + pool_work s' \<le> pool_work s"
proof (induction k arbitrary: s')
  case (Suc k)
  then obtain s1 where s1: "(pool_step ^^ k) s s1" "pool_step s1 s'" by auto
  have "pool_work s' < pool_work s1"
    using step_takes_work[OF s1(2) reachable_inv[OF steps_reachable[OF s1(1) Suc.prems(2)]]] .
  with Suc.IH[OF s1(1) Suc.prems(2)] show ?case by simp
qed simp

section \<open>What the pool promises\<close>

lemma destroyed_all_done:
  assumes inv: "pool_inv n ts s" and d: "client s = Destroyed" "0 < n"
  shows "started s = ts \<and> mset (finished s) = mset ts"
proof -
  note inv = inv[unfolded pool_inv_def]
  have e: "\<forall>w\<in>set (workers s). w = Exited" "workers s \<noteq> []" using inv d by auto
  then have "Exited \<in> set (workers s)" by (metis last_in_set)
  then have q: "tasks s = []" using inv by blast
  have t: "todo s = []" using inv d(1) by auto
  have "running (workers s) = {#}" by (rule running_exited[OF e(1)])
  then show ?thesis using inv q t by auto
qed

text \<open>C11: Every task is run exactly once: in every state the pool can reach, with any number of
  workers and any interleaving, the tasks started are the first ones enqueued, in that order, and
  every task finished was started, once; when the destructor of a pool with workers has returned,
  all tasks have been started and have finished.\<close>

theorem pool_runs_each_task_once:
  assumes "reachable n ts s"
  shows "(\<exists>rest. ts = started s @ rest) \<and> mset (finished s) \<subseteq># mset (started s) \<and>
    (client s = Destroyed \<and> 0 < n \<longrightarrow> started s = ts \<and> mset (finished s) = mset ts)"
proof -
  note inv = reachable_inv[OF assms, unfolded pool_inv_def]
  have "started s = ts \<and> mset (finished s) = mset ts" if "client s = Destroyed" "0 < n"
    using destroyed_all_done[OF reachable_inv[OF assms] that] .
  then show ?thesis using inv by (auto simp: subset_mset.le_iff_add)
qed

text \<open>C10: The pool always finishes: from every state it can reach, a run without spurious wake-ups
  has a bounded number of steps, it can only stop when the destructor has returned, and so one that
  goes on as long as it can ends with every task finished; no wake-up is lost.\<close>

theorem pool_finishes:
  assumes "reachable n ts s"
  shows "((pool_step ^^ k) s s' \<longrightarrow> k \<le> pool_work s) \<and>
    ((pool_step ^^ k) s s' \<and> (\<forall>t. \<not> pool_step s' t) \<longrightarrow> client s' = Destroyed) \<and>
    ((pool_step ^^ k) s s' \<and> (\<forall>t. \<not> pool_step s' t) \<and> 0 < n \<longrightarrow> mset (finished s') = mset ts)"
proof -
  have r: "reachable n ts s'" if "(pool_step ^^ k) s s'" using steps_reachable[OF that assms] .
  then have d: "client s' = Destroyed" if "(pool_step ^^ k) s s'" "\<forall>t. \<not> pool_step s' t"
    using never_stuck[OF reachable_inv] that by blast
  moreover have "mset (finished s') = mset ts" if "(pool_step ^^ k) s s'" "\<forall>t. \<not> pool_step s' t" "0 < n"
    using destroyed_all_done[OF reachable_inv[OF r]] d that by blast
  moreover have "k \<le> pool_work s" if "(pool_step ^^ k) s s'"
    using steps_bounded[OF that assms] by simp
  ultimately show ?thesis by blast
qed

text \<open>A run of one worker and one task: the worker sleeps, is woken, runs the task and leaves.\<close>

lemma sample_run: "\<exists>s. pool_step\<^sup>*\<^sup>* (pool_init 1 [''t'']) s \<and> client s = Destroyed \<and> finished s = [''t'']"
proof -
  let ?run = "pool_step\<^sup>*\<^sup>* (pool_init 1 [''t''])"
  let ?s = "\<lambda>w q b c td st fi. \<lparr>workers = [w], tasks = q, stop = b, client = c, todo = td, started = st, finished = fi\<rparr>"
  have "?run (?s Ready [] False Pushing [''t''] [] [])"
    by (simp add: pool_init_def)
  then have "?run (?s Asleep [] False Pushing [''t''] [] [])"
    by (rule rtranclp.rtrancl_into_rtrancl) (use pool_step.check[of 0 "?s Ready [] False Pushing [''t''] [] []"] in \<open>simp add: worker_check_def\<close>)
  then have "?run (?s Asleep [''t''] False Notifying [] [] [])"
    by (rule rtranclp.rtrancl_into_rtrancl) (use pool_step.push[of "?s Asleep [] False Pushing [''t''] [] []"] in \<open>simp add: enqueue_push_def\<close>)
  then have "?run (?s Ready [''t''] False Stopping [] [] [])"
    by (rule rtranclp.rtrancl_into_rtrancl)
      (use pool_step.notify_one[of "?s Asleep [''t''] False Notifying [] [] []" 0] in \<open>simp add: wake_def client_next_def\<close>)
  then have "?run (?s (Running ''t'') [] False Stopping [] [''t''] [])"
    by (rule rtranclp.rtrancl_into_rtrancl) (use pool_step.check[of 0 "?s Ready [''t''] False Stopping [] [] []"] in \<open>simp add: worker_check_def\<close>)
  then have "?run (?s (Running ''t'') [] True Broadcasting [] [''t''] [])"
    by (rule rtranclp.rtrancl_into_rtrancl) (use pool_step.set_stop[of "?s (Running ''t'') [] False Stopping [] [''t''] []"] in simp)
  then have "?run (?s (Running ''t'') [] True Joining [] [''t''] [])"
    by (rule rtranclp.rtrancl_into_rtrancl)
      (use pool_step.notify_all[of "?s (Running ''t'') [] True Broadcasting [] [''t''] []"] in \<open>simp add: wake_all_def\<close>)
  then have "?run (?s Ready [] True Joining [] [''t''] [''t''])"
    by (rule rtranclp.rtrancl_into_rtrancl)
      (use pool_step.finish[of 0 "?s (Running ''t'') [] True Joining [] [''t''] []" "''t''"] in \<open>simp add: worker_finish_def\<close>)
  then have "?run (?s Exited [] True Joining [] [''t''] [''t''])"
    by (rule rtranclp.rtrancl_into_rtrancl)
      (use pool_step.check[of 0 "?s Ready [] True Joining [] [''t''] [''t'']"] in \<open>simp add: worker_check_def\<close>)
  then have "?run (?s Exited [] True Destroyed [] [''t''] [''t''])"
    by (rule rtranclp.rtrancl_into_rtrancl)
      (use pool_step.joined[of "?s Exited [] True Joining [] [''t''] [''t'']"] in simp)
  then show ?thesis by (intro exI[of _ "?s Exited [] True Destroyed [] [''t''] [''t'']"]) simp
qed

lemma sample_steps:
  "\<exists>k s. (pool_step ^^ k) (pool_init 1 [''t'']) s \<and> reachable 1 [''t''] s \<and> client s = Destroyed \<and> finished s = [''t'']"
proof -
  obtain s where s: "pool_step\<^sup>*\<^sup>* (pool_init 1 [''t'']) s" "client s = Destroyed" "finished s = [''t'']"
    using sample_run by blast
  from s(1) obtain k where "(pool_step ^^ k) (pool_init 1 [''t'']) s" by (auto dest: rtranclp_imp_relpowp)
  then show ?thesis using s steps_reachable[OF _ reachable.init] by blast
qed

theorem pool_runs_each_task_once_witness:
  "\<exists>s. reachable 1 [''t''] s \<and> client s = Destroyed \<and> mset (finished s) = mset [''t'']"
proof -
  obtain s where s: "reachable 1 [''t''] s" "client s = Destroyed" using sample_steps by blast
  then show ?thesis using pool_runs_each_task_once[OF s(1)] by auto
qed

theorem pool_finishes_witness:
  "\<exists>k s. (pool_step ^^ k) (pool_init 1 [''t'']) s \<and> client s = Destroyed \<and> k \<le> pool_work (pool_init 1 [''t''])"
  using sample_steps pool_finishes[OF reachable.init[of 1 "[''t'']"]] by blast

text \<open>Without workers nothing is run: the destructor of an empty pool returns and drops the tasks.\<close>

lemma empty_pool_drops_tasks:
  "reachable 0 ts s \<Longrightarrow> workers s = [] \<and> started s = [] \<and> finished s = []"
proof (induction rule: reachable.induct)
  case (step s s')
  from step.hyps(2) step.IH show ?case
    by (cases rule: pool_step.cases)
      (auto simp: enqueue_push_def client_next_def wake_all_def)
next
  case (spurious s s')
  from spurious.hyps(2) spurious.IH show ?case by (cases rule: spurious_wake.cases) auto
qed (simp add: pool_init_def)

end
