(* ===== verification/Db.thy ===== *)
theory Db
  imports Findings "HOL-Library.Monad_Syntax"
begin

text \<open>
  \<open>core/db.cpp\<close>: scans, ports and findings in one SQLite file.  SQLite is the parameter \<open>Sqlite\<close> on
  an arbitrary database \<open>'d\<close>; a statement is its SQL text with the values bound to it.  A bound
  \<open>const char*\<close> ends at its first NUL.  Making a \<open>std::string\<close> of a null column is undefined: \<open>None\<close>.
\<close>

section \<open>SQLite\<close>

datatype SqlValue = SqlNull | SqlText string | SqlInt int | SqlReal double

type_synonym SqlRow = "SqlValue list"

text \<open>\<open>sq_open\<close> gives the message of a failure, and so does \<open>sq_exec\<close>; \<open>sq_prepare\<close> says whether a
  statement compiles; \<open>sq_step\<close> runs one that writes, \<open>sq_rows\<close> gives the rows of a query.  A null
  \<open>char*\<close> is \<open>None\<close>.\<close>

record 'd Sqlite =
  sq_open :: "string \<Rightarrow> 'd \<Rightarrow> string option \<times> 'd"
  sq_exec :: "string \<Rightarrow> 'd \<Rightarrow> string option \<times> 'd"
  sq_prepare :: "string \<Rightarrow> 'd \<Rightarrow> bool"
  sq_step :: "string \<Rightarrow> SqlRow \<Rightarrow> 'd \<Rightarrow> 'd"
  sq_rows :: "string \<Rightarrow> SqlRow \<Rightarrow> 'd \<Rightarrow> SqlRow list"
  sq_column_text :: "SqlValue \<Rightarrow> string option"
  sq_column_int :: "SqlValue \<Rightarrow> int"
  sq_column_int64 :: "SqlValue \<Rightarrow> int"
  sq_column_double :: "SqlValue \<Rightarrow> double"

definition bind_text :: "string \<Rightarrow> SqlValue" where
  "bind_text s = SqlText (c_str s)"

text \<open>SQLite stores a NaN as NULL.\<close>

definition bind_double :: "double \<Rightarrow> SqlValue" where
  "bind_double x = (if x = DNan then SqlNull else SqlReal x)"

section \<open>The statements\<close>

definition SQL_BEGIN :: string where "SQL_BEGIN = ''BEGIN''"
definition SQL_COMMIT :: string where "SQL_COMMIT = ''COMMIT''"
definition SQL_ROLLBACK :: string where "SQL_ROLLBACK = ''ROLLBACK''"

definition upsert_scan_sql :: string where
  "upsert_scan_sql =
     ''INSERT INTO scans(id,user_sub,target,port_start,port_end,status,started_at,completed_at,scanned_ports,error) '' @
     ''VALUES(?,?,?,?,?,?,?,?,?,?) '' @
     ''ON CONFLICT(id) DO UPDATE SET '' @
     ''status=excluded.status,completed_at=excluded.completed_at,'' @
     ''scanned_ports=excluded.scanned_ports,error=excluded.error''"

definition update_scan_status_sql :: string where
  "update_scan_status_sql =
     ''UPDATE scans SET status=?, completed_at=?, scanned_ports=?, error=? WHERE id=?''"

definition get_scan_sql :: string where
  "get_scan_sql =
     ''SELECT id,user_sub,target,port_start,port_end,status,started_at,completed_at,scanned_ports,error '' @
     ''FROM scans WHERE id=?''"

definition list_scans_sql :: string where
  "list_scans_sql =
     ''SELECT id,user_sub,target,port_start,port_end,status,started_at,completed_at,scanned_ports,error '' @
     ''FROM scans ORDER BY started_at DESC LIMIT ?''"

definition save_port_sql :: string where
  "save_port_sql =
     ''INSERT OR REPLACE INTO scan_ports(scan_id,number,protocol,service,product,version,distro,tls) '' @
     ''VALUES(?,?,?,?,?,?,?,?)''"

definition load_ports_sql :: string where
  "load_ports_sql =
     ''SELECT number,protocol,service,product,version,distro,tls FROM scan_ports '' @
     ''WHERE scan_id=? ORDER BY number ASC''"

definition save_finding_sql :: string where
  "save_finding_sql =
     ''INSERT OR REPLACE INTO scan_findings'' @
     ''(scan_id,idx,plugin_name,title,description,severity,confidence,confidence_score,verification,host,port_number,protocol,scope,service,product,version,evidence,evidence_type,evidence_source,evidence_details,reference_list,remediation,cvss,cvss_vector,timestamp,cve_id) '' @
     ''VALUES(?,?,?,?,?,?,?,?,?,?,?,?,?,?,?,?,?,?,?,?,?,?,?,?,?,?)''"

definition load_findings_sql :: string where
  "load_findings_sql =
     ''SELECT plugin_name,title,description,severity,confidence,confidence_score,verification,host,port_number,protocol,scope,service,product,version,evidence,evidence_type,evidence_source,evidence_details,reference_list,remediation,cvss,cvss_vector,timestamp,cve_id '' @
     ''FROM scan_findings WHERE scan_id=? ORDER BY idx ASC''"

text \<open>The schema: the columns of a table with their declarations, and its key.  White space between
  them is one blank here.\<close>

definition sql_empty :: string where
  "sql_empty = [CHR 0x27, CHR 0x27]"

definition sql_quote :: "string \<Rightarrow> string" where
  "sql_quote s = CHR 0x27 # s @ [CHR 0x27]"

definition create_table_sql :: "string \<Rightarrow> (string \<times> string) list \<Rightarrow> string \<Rightarrow> string" where
  "create_table_sql table cols key =
     ''CREATE TABLE IF NOT EXISTS '' @ table @ '' ( '' @
     join_with '', '' (map (\<lambda>(name, decl). name @ '' '' @ decl) cols @ (if key = [] then [] else [''PRIMARY KEY('' @ key @ '')''])) @
     '' );''"

definition scans_schema :: "(string \<times> string) list" where
  "scans_schema =
     [(''id'', ''TEXT PRIMARY KEY''), (''user_sub'', ''TEXT NOT NULL DEFAULT '' @ sql_empty),
      (''target'', ''TEXT NOT NULL''), (''port_start'', ''INTEGER NOT NULL''), (''port_end'', ''INTEGER NOT NULL''),
      (''status'', ''TEXT NOT NULL''), (''started_at'', ''INTEGER NOT NULL''),
      (''completed_at'', ''INTEGER NOT NULL DEFAULT 0''), (''scanned_ports'', ''INTEGER NOT NULL DEFAULT 0''),
      (''error'', ''TEXT NOT NULL DEFAULT '' @ sql_empty)]"

definition ports_schema :: "(string \<times> string) list" where
  "ports_schema =
     [(''scan_id'', ''TEXT NOT NULL''), (''number'', ''INTEGER NOT NULL''), (''protocol'', ''TEXT NOT NULL''),
      (''service'', ''TEXT NOT NULL DEFAULT '' @ sql_empty), (''product'', ''TEXT NOT NULL DEFAULT '' @ sql_empty),
      (''version'', ''TEXT NOT NULL DEFAULT '' @ sql_empty), (''distro'', ''TEXT NOT NULL DEFAULT '' @ sql_empty),
      (''tls'', ''INTEGER NOT NULL DEFAULT 0'')]"

definition text_default :: "string \<Rightarrow> string" where
  "text_default s = ''TEXT NOT NULL DEFAULT '' @ sql_quote s"

definition findings_schema :: "(string \<times> string) list" where
  "findings_schema =
     [(''scan_id'', ''TEXT NOT NULL''), (''idx'', ''INTEGER NOT NULL''),
      (''plugin_name'', text_default []), (''title'', text_default []), (''description'', text_default []),
      (''severity'', text_default ''INFO''), (''confidence'', text_default ''UNKNOWN''),
      (''confidence_score'', ''REAL NOT NULL DEFAULT 0''), (''verification'', text_default ''UNKNOWN''),
      (''host'', text_default []), (''port_number'', ''INTEGER NOT NULL DEFAULT 0''),
      (''protocol'', text_default ''UNKNOWN''), (''scope'', text_default ''PORT''), (''service'', text_default []),
      (''product'', text_default []), (''version'', text_default []), (''evidence'', text_default []),
      (''evidence_type'', text_default []), (''evidence_source'', text_default []),
      (''evidence_details'', text_default []), (''reference_list'', text_default []),
      (''remediation'', text_default []), (''cvss'', ''REAL NOT NULL DEFAULT -1''), (''cvss_vector'', text_default []),
      (''timestamp'', ''INTEGER NOT NULL DEFAULT 0''), (''cve_id'', text_default [])]"

text \<open>The columns that \<open>open\<close> adds to a file of an earlier version.\<close>

definition ensured_columns :: "(string \<times> string) list" where
  "ensured_columns =
     [(''confidence_score'', ''REAL NOT NULL DEFAULT 0''), (''verification'', text_default ''UNKNOWN''),
      (''host'', text_default []), (''protocol'', text_default ''UNKNOWN''), (''scope'', text_default ''PORT''),
      (''product'', text_default []), (''version'', text_default []), (''evidence'', text_default []),
      (''evidence_type'', text_default []), (''evidence_source'', text_default []),
      (''evidence_details'', text_default []), (''reference_list'', text_default []),
      (''remediation'', text_default []), (''cvss'', ''REAL NOT NULL DEFAULT -1''), (''cvss_vector'', text_default []),
      (''timestamp'', ''INTEGER NOT NULL DEFAULT 0'')]"

definition table_info_sql :: string where
  "table_info_sql = ''PRAGMA table_info(scan_findings)''"

definition add_column_sql :: "string \<Rightarrow> string \<Rightarrow> string" where
  "add_column_sql column definition_text =
     ''ALTER TABLE scan_findings ADD COLUMN '' @ column @ '' '' @ definition_text"

definition create_findings_sql :: string where
  "create_findings_sql = create_table_sql ''scan_findings'' findings_schema ''scan_id, idx''"

definition schema_before :: "string list" where
  "schema_before =
     [''PRAGMA journal_mode=WAL'', ''PRAGMA synchronous=NORMAL'', create_table_sql ''scans'' scans_schema [],
      ''CREATE INDEX IF NOT EXISTS idx_scans_started ON scans(started_at DESC)'',
      create_table_sql ''scan_ports'' ports_schema ''scan_id, number, protocol'']"

definition schema_statements :: "string list" where
  "schema_statements = schema_before @ [create_findings_sql]"

section \<open>Opening\<close>

text \<open>\<open>exec_\<close> throws on a failure (the left side).\<close>

definition exec_sql :: "'d Sqlite \<Rightarrow> string \<Rightarrow> 'd \<Rightarrow> (string + unit) \<times> 'd" where
  "exec_sql sq sql d =
     (case sq_exec sq (c_str sql) d of
        (None, d) \<Rightarrow> (Inr (), d)
      | (Some err, d) \<Rightarrow> (Inl (''db exec failed: '' @ err), d))"

fun exec_all :: "'d Sqlite \<Rightarrow> string list \<Rightarrow> 'd \<Rightarrow> (string + unit) \<times> 'd" where
  "exec_all sq [] d = (Inr (), d)"
| "exec_all sq (sql # sqls) d =
     (case exec_sql sq sql d of (Inl e, d) \<Rightarrow> (Inl e, d) | (Inr _, d) \<Rightarrow> exec_all sq sqls d)"

definition column_exists :: "'d Sqlite \<Rightarrow> string \<Rightarrow> 'd \<Rightarrow> bool" where
  "column_exists sq column d =
     (sq_prepare sq table_info_sql d \<and>
      list_ex (\<lambda>row. sq_column_text sq (row ! 1) = Some column) (sq_rows sq table_info_sql [] d))"

definition ensure_finding_column :: "'d Sqlite \<Rightarrow> string \<times> string \<Rightarrow> 'd \<Rightarrow> (string + unit) \<times> 'd" where
  "ensure_finding_column sq c d =
     (if column_exists sq (fst c) d then (Inr (), d) else exec_sql sq (add_column_sql (fst c) (snd c)) d)"

fun ensure_all :: "'d Sqlite \<Rightarrow> (string \<times> string) list \<Rightarrow> 'd \<Rightarrow> (string + unit) \<times> 'd" where
  "ensure_all sq [] d = (Inr (), d)"
| "ensure_all sq (c # cs) d =
     (case ensure_finding_column sq c d of (Inl e, d) \<Rightarrow> (Inl e, d) | (Inr _, d) \<Rightarrow> ensure_all sq cs d)"

text \<open>The result, the line logged on a failure, and the database.\<close>

definition db_open :: "'d Sqlite \<Rightarrow> string \<Rightarrow> 'd \<Rightarrow> bool \<times> string option \<times> 'd" where
  "db_open sq path d =
     (case sq_open sq (c_str path) d of
        (Some msg, d) \<Rightarrow> (False, Some (''cannot open db: '' @ msg), d)
      | (None, d) \<Rightarrow>
          (case exec_all sq schema_statements d of
             (Inl e, d) \<Rightarrow> (False, Some (''db schema init failed: '' @ e), d)
           | (Inr _, d) \<Rightarrow>
               (case ensure_all sq ensured_columns d of
                  (Inl e, d) \<Rightarrow> (False, Some (''db schema init failed: '' @ e), d)
                | (Inr _, d) \<Rightarrow> (True, None, d))))"

section \<open>Scans\<close>

record ScanRow =
  sr_id :: string
  sr_user_sub :: string
  sr_target :: string
  sr_port_start :: int
  sr_port_end :: int
  sr_status :: string
  sr_started_at :: int
  sr_completed_at :: int
  sr_scanned_ports :: int
  sr_error :: string

definition scan_values :: "ScanRow \<Rightarrow> SqlRow" where
  "scan_values r =
     [bind_text (sr_id r), bind_text (sr_user_sub r), bind_text (sr_target r), SqlInt (sr_port_start r),
      SqlInt (sr_port_end r), bind_text (sr_status r), SqlInt (sr_started_at r), SqlInt (sr_completed_at r),
      SqlInt (sr_scanned_ports r), bind_text (sr_error r)]"

definition upsert_scan :: "'d Sqlite \<Rightarrow> ScanRow \<Rightarrow> 'd \<Rightarrow> 'd" where
  "upsert_scan sq r d =
     (if \<not> sq_prepare sq upsert_scan_sql d then d else sq_step sq upsert_scan_sql (scan_values r) d)"

definition update_scan_status :: "'d Sqlite \<Rightarrow> string \<Rightarrow> string \<Rightarrow> int \<Rightarrow> int \<Rightarrow> string \<Rightarrow> 'd \<Rightarrow> 'd" where
  "update_scan_status sq scan_id status completed_at scanned_ports error d =
     (if \<not> sq_prepare sq update_scan_status_sql d then d
      else sq_step sq update_scan_status_sql
             [bind_text status, SqlInt completed_at, SqlInt scanned_ports, bind_text error, bind_text scan_id] d)"

definition row_from_stmt :: "'d Sqlite \<Rightarrow> SqlRow \<Rightarrow> ScanRow option" where
  "row_from_stmt sq row =
     do {
       i \<leftarrow> sq_column_text sq (row ! 0);
       user_sub \<leftarrow> sq_column_text sq (row ! 1);
       target \<leftarrow> sq_column_text sq (row ! 2);
       status \<leftarrow> sq_column_text sq (row ! 5);
       Some \<lparr>sr_id = i, sr_user_sub = user_sub, sr_target = target,
             sr_port_start = sq_column_int sq (row ! 3), sr_port_end = sq_column_int sq (row ! 4),
             sr_status = status, sr_started_at = sq_column_int64 sq (row ! 6),
             sr_completed_at = sq_column_int64 sq (row ! 7), sr_scanned_ports = sq_column_int sq (row ! 8),
             sr_error = (case sq_column_text sq (row ! 9) of None \<Rightarrow> [] | Some err \<Rightarrow> err)\<rparr>
     }"

text \<open>Every row of a query, in order.\<close>

fun read_rows :: "('a \<Rightarrow> 'b option) \<Rightarrow> 'a list \<Rightarrow> 'b list option" where
  "read_rows f [] = Some []"
| "read_rows f (r # rs) = do { x \<leftarrow> f r; xs \<leftarrow> read_rows f rs; Some (x # xs) }"

definition get_scan :: "'d Sqlite \<Rightarrow> string \<Rightarrow> 'd \<Rightarrow> ScanRow option option" where
  "get_scan sq scan_id d =
     (if \<not> sq_prepare sq get_scan_sql d then Some None
      else case sq_rows sq get_scan_sql [bind_text scan_id] d of
             [] \<Rightarrow> Some None
           | row # rows \<Rightarrow> map_option Some (row_from_stmt sq row))"

definition list_scans :: "'d Sqlite \<Rightarrow> int \<Rightarrow> 'd \<Rightarrow> ScanRow list option" where
  "list_scans sq limit d =
     (if \<not> sq_prepare sq list_scans_sql d then Some []
      else read_rows (row_from_stmt sq) (sq_rows sq list_scans_sql [SqlInt limit] d))"

section \<open>Ports\<close>

definition port_values :: "string \<Rightarrow> Port \<Rightarrow> SqlRow" where
  "port_values scan_id p =
     [bind_text scan_id, SqlInt (uint (p_number p)), bind_text (protocol_to_string (p_protocol p)),
      bind_text (p_service p), bind_text (p_product p), bind_text (p_version p), bind_text (p_distro p),
      SqlInt (if p_tls p then 1 else 0)]"

text \<open>Between \<open>BEGIN\<close> and \<open>COMMIT\<close>: one step for each row.\<close>

definition save_rows :: "'d Sqlite \<Rightarrow> string \<Rightarrow> SqlRow list \<Rightarrow> 'd \<Rightarrow> (string + unit) \<times> 'd" where
  "save_rows sq sql rows d =
     (case exec_sql sq SQL_BEGIN d of
        (Inl e, d) \<Rightarrow> (Inl e, d)
      | (Inr _, d) \<Rightarrow>
          if \<not> sq_prepare sq sql d then exec_sql sq SQL_ROLLBACK d
          else exec_sql sq SQL_COMMIT (fold (sq_step sq sql) rows d))"

definition save_ports :: "'d Sqlite \<Rightarrow> string \<Rightarrow> Port list \<Rightarrow> 'd \<Rightarrow> (string + unit) \<times> 'd" where
  "save_ports sq scan_id ports = save_rows sq save_port_sql (map (port_values scan_id) ports)"

definition parse_protocol :: "string \<Rightarrow> Protocol" where
  "parse_protocol s =
     (if s = ''TCP'' then P_TCP else if s = ''UDP'' then P_UDP else if s = ''ICMP'' then P_ICMP else P_UNKNOWN)"

definition port_from_stmt :: "'d Sqlite \<Rightarrow> SqlRow \<Rightarrow> Port option" where
  "port_from_stmt sq row =
     do {
       proto \<leftarrow> sq_column_text sq (row ! 1);
       service \<leftarrow> sq_column_text sq (row ! 2);
       product \<leftarrow> sq_column_text sq (row ! 3);
       version \<leftarrow> sq_column_text sq (row ! 4);
       distro \<leftarrow> sq_column_text sq (row ! 5);
       Some \<lparr>p_number = word_of_int (sq_column_int sq (row ! 0)), p_protocol = parse_protocol proto, p_state = S_OPEN,
             p_service = service, p_product = product, p_version = version, p_distro = distro,
             p_tls = (sq_column_int sq (row ! 6) \<noteq> 0)\<rparr>
     }"

definition load_ports :: "'d Sqlite \<Rightarrow> string \<Rightarrow> 'd \<Rightarrow> Port list option" where
  "load_ports sq scan_id d =
     (if \<not> sq_prepare sq load_ports_sql d then Some []
      else read_rows (port_from_stmt sq) (sq_rows sq load_ports_sql [bind_text scan_id] d))"

section \<open>Findings\<close>

definition join_references :: "string list \<Rightarrow> string" where
  "join_references references =
     foldl (\<lambda>out reference. (if out \<noteq> [] then out @ ''|'' else out) @ reference) [] references"

definition split_references :: "string option \<Rightarrow> string list" where
  "split_references value =
     (case value of
        None \<Rightarrow> []
      | Some v \<Rightarrow> filter (\<lambda>reference. reference \<noteq> []) (getlines (CHR ''|'') v))"

definition finding_values :: "string \<Rightarrow> nat \<Rightarrow> Finding \<Rightarrow> SqlRow" where
  "finding_values scan_id i f =
     [bind_text scan_id, SqlInt (sint (word_of_nat i :: 32 word)), bind_text (f_plugin_name f), bind_text (f_title f),
      bind_text (f_description f), bind_text (severity_to_string (f_severity f)),
      bind_text (confidence_to_string (f_confidence f)), bind_double (f_confidence_score f),
      bind_text (f_verification f), bind_text (f_host f), SqlInt (uint (f_port_number f)),
      bind_text (protocol_to_string (f_protocol f)), bind_text (f_scope f), bind_text (f_service f),
      bind_text (f_product f), bind_text (f_version f), bind_text (f_evidence f),
      bind_text (e_type (f_evidence_data f)), bind_text (e_source (f_evidence_data f)),
      bind_text (e_details (f_evidence_data f)), bind_text (join_references (f_references f)),
      bind_text (f_remediation f), bind_double (f_cvss f), bind_text (f_cvss_vector f),
      SqlInt (sint (f_timestamp f)), bind_text (f_cve_id f)]"

definition save_findings :: "'d Sqlite \<Rightarrow> string \<Rightarrow> Finding list \<Rightarrow> 'd \<Rightarrow> (string + unit) \<times> 'd" where
  "save_findings sq scan_id findings =
     save_rows sq save_finding_sql (map (\<lambda>i. finding_values scan_id i (findings ! i)) [0..<length findings])"

definition parse_severity :: "string option \<Rightarrow> Severity" where
  "parse_severity s =
     (let v = (case s of None \<Rightarrow> ''INFO'' | Some s \<Rightarrow> s)
      in if v = ''CRITICAL'' then CRITICAL else if v = ''HIGH'' then HIGH
         else if v = ''MEDIUM'' then MEDIUM else if v = ''LOW'' then LOW else INFO)"

definition parse_conf :: "string option \<Rightarrow> Confidence" where
  "parse_conf s =
     (let v = (case s of None \<Rightarrow> ''UNKNOWN'' | Some s \<Rightarrow> s)
      in if v = ''VERIFIED'' then C_VERIFIED else if v = ''VERSION_MATCH'' then C_VERSION_MATCH else C_UNKNOWN)"

definition finding_from_stmt :: "'d Sqlite \<Rightarrow> SqlRow \<Rightarrow> Finding option" where
  "finding_from_stmt sq row =
     do {
       plugin_name \<leftarrow> sq_column_text sq (row ! 0);
       title \<leftarrow> sq_column_text sq (row ! 1);
       description \<leftarrow> sq_column_text sq (row ! 2);
       verification \<leftarrow> sq_column_text sq (row ! 6);
       host \<leftarrow> sq_column_text sq (row ! 7);
       protocol \<leftarrow> sq_column_text sq (row ! 9);
       scope \<leftarrow> sq_column_text sq (row ! 10);
       service \<leftarrow> sq_column_text sq (row ! 11);
       product \<leftarrow> sq_column_text sq (row ! 12);
       version \<leftarrow> sq_column_text sq (row ! 13);
       evidence \<leftarrow> sq_column_text sq (row ! 14);
       evidence_type \<leftarrow> sq_column_text sq (row ! 15);
       evidence_source \<leftarrow> sq_column_text sq (row ! 16);
       evidence_details \<leftarrow> sq_column_text sq (row ! 17);
       remediation \<leftarrow> sq_column_text sq (row ! 19);
       cvss_vector \<leftarrow> sq_column_text sq (row ! 21);
       cve_id \<leftarrow> sq_column_text sq (row ! 23);
       Some \<lparr>f_plugin_name = plugin_name, f_title = title,
             f_severity = parse_severity (sq_column_text sq (row ! 3)),
             f_confidence = parse_conf (sq_column_text sq (row ! 4)), f_verification = verification,
             f_confidence_score = sq_column_double sq (row ! 5), f_host = host,
             f_port_number = word_of_int (sq_column_int sq (row ! 8)), f_protocol = parse_protocol protocol,
             f_scope = scope, f_service = service, f_product = product, f_version = version,
             f_description = description, f_evidence = evidence,
             f_evidence_data = \<lparr>e_type = evidence_type, e_source = evidence_source, e_value = evidence,
                                e_details = evidence_details\<rparr>,
             f_references = split_references (sq_column_text sq (row ! 18)), f_remediation = remediation,
             f_cvss_vector = cvss_vector, f_cvss = sq_column_double sq (row ! 20), f_cve_id = cve_id,
             f_timestamp = word_of_int (sq_column_int64 sq (row ! 22))\<rparr>
     }"

definition load_findings :: "'d Sqlite \<Rightarrow> string \<Rightarrow> 'd \<Rightarrow> Finding list option" where
  "load_findings sq scan_id d =
     (if \<not> sq_prepare sq load_findings_sql d then Some []
      else read_rows (finding_from_stmt sq) (sq_rows sq load_findings_sql [bind_text scan_id] d))"

end
