(* ===== verification/DbStore.thy ===== *)
theory DbStore
  imports Db "HOL-Library.Multiset"
begin

text \<open>
  What the database of \<open>core/db.cpp\<close> keeps: the documented behaviour of SQLite on the statements of
  the program, as contracts over a view of the database as tables of rows, and what follows for
  the operations: findings, ports and scans are read back as they were stored, and opening a file
  brings its schema up to date.  The contracts are met by a database in memory.
\<close>

section \<open>What SQLite promises\<close>

text \<open>The tables as lists of rows, each with the values of its columns in the order of the insert.\<close>

record Tables =
  tb_scans :: "SqlRow list"
  tb_ports :: "SqlRow list"
  tb_findings :: "SqlRow list"

fun storable :: "SqlValue \<Rightarrow> bool" where
  "storable SqlNull = False"
| "storable (SqlText s) = (NUL \<notin> set s)"
| "storable (SqlInt i) = (- (2 ^ 63) \<le> i \<and> i < 2 ^ 63)"
| "storable (SqlReal x) = (x \<noteq> DNan \<and> (\<forall>e. x \<noteq> DFin True 0 e))"

definition int_of :: "SqlValue \<Rightarrow> int" where
  "int_of v = (case v of SqlInt i \<Rightarrow> i | _ \<Rightarrow> 0)"

text \<open>\<open>INSERT OR REPLACE\<close> with a key of the first \<open>n\<close> columns; the upsert of a scan.\<close>

definition replace_row :: "nat \<Rightarrow> SqlRow \<Rightarrow> SqlRow list \<Rightarrow> SqlRow list" where
  "replace_row n row rows = filter (\<lambda>r. take n r \<noteq> take n row) rows @ [row]"

definition set_status :: "SqlRow \<Rightarrow> SqlRow \<Rightarrow> SqlRow" where
  "set_status vs old = old[5 := vs ! 0, 7 := vs ! 1, 8 := vs ! 2, 9 := vs ! 3]"

definition upsert_row :: "SqlRow \<Rightarrow> SqlRow list \<Rightarrow> SqlRow list" where
  "upsert_row row rows =
     (if row ! 0 \<in> set (map (\<lambda>r. r ! 0) rows)
      then map (\<lambda>r. if r ! 0 = row ! 0 then set_status [row ! 5, row ! 7, row ! 8, row ! 9] r else r) rows
      else rows @ [row])"

definition update_rows :: "SqlRow \<Rightarrow> SqlRow list \<Rightarrow> SqlRow list" where
  "update_rows vs rows = map (\<lambda>r. if r ! 0 = vs ! 4 then set_status vs r else r) rows"

definition columns_contract :: "'d Sqlite \<Rightarrow> bool" where
  "columns_contract sq \<longleftrightarrow>
     (\<forall>s. NUL \<notin> set s \<longrightarrow> sq_column_text sq (SqlText s) = Some s) \<and>
     (\<forall>i. INT_MIN \<le> i \<and> i \<le> INT_MAX \<longrightarrow> sq_column_int sq (SqlInt i) = i) \<and>
     (\<forall>i. - (2 ^ 63) \<le> i \<and> i < 2 ^ 63 \<longrightarrow> sq_column_int64 sq (SqlInt i) = i) \<and>
     (\<forall>x. sq_column_double sq (SqlReal x) = x)"

text \<open>A database that is open, with its tables and space to write: \<open>view d\<close> is \<open>Some\<close>.\<close>

definition transactions :: "'d Sqlite \<Rightarrow> ('d \<Rightarrow> Tables option) \<Rightarrow> bool" where
  "transactions sq view \<longleftrightarrow>
     (\<forall>d sql. view d \<noteq> None \<and> sql \<in> {SQL_BEGIN, SQL_COMMIT} \<longrightarrow>
        fst (sq_exec sq sql d) = None \<and> view (snd (sq_exec sq sql d)) = view d)"

definition findings_contract :: "'d Sqlite \<Rightarrow> ('d \<Rightarrow> Tables option) \<Rightarrow> bool" where
  "findings_contract sq view \<longleftrightarrow>
     (\<forall>d t. view d = Some t \<longrightarrow>
        sq_prepare sq save_finding_sql d \<and> sq_prepare sq load_findings_sql d \<and>
        (\<forall>row. length row = 26 \<and> list_all storable row \<longrightarrow>
           view (sq_step sq save_finding_sql row d) = Some (t\<lparr>tb_findings := replace_row 2 row (tb_findings t)\<rparr>)) \<and>
        (\<forall>v. sq_rows sq load_findings_sql [v] d =
           map (drop 2) (sort_key (\<lambda>r. int_of (r ! 1)) (filter (\<lambda>r. r ! 0 = v) (tb_findings t)))))"

definition ports_contract :: "'d Sqlite \<Rightarrow> ('d \<Rightarrow> Tables option) \<Rightarrow> bool" where
  "ports_contract sq view \<longleftrightarrow>
     (\<forall>d t. view d = Some t \<longrightarrow>
        sq_prepare sq save_port_sql d \<and> sq_prepare sq load_ports_sql d \<and>
        (\<forall>row. length row = 8 \<and> list_all storable row \<longrightarrow>
           view (sq_step sq save_port_sql row d) = Some (t\<lparr>tb_ports := replace_row 3 row (tb_ports t)\<rparr>)) \<and>
        (\<forall>v. \<exists>rows. sq_rows sq load_ports_sql [v] d = map (drop 1) rows \<and>
           mset rows = mset (filter (\<lambda>r. r ! 0 = v) (tb_ports t)) \<and> sorted (map (\<lambda>r. int_of (r ! 1)) rows)))"

fun is_text :: "SqlValue \<Rightarrow> bool" where
  "is_text (SqlText s) = (NUL \<notin> set s)"
| "is_text v = False"

fun is_int :: "SqlValue \<Rightarrow> bool" where
  "is_int (SqlInt i) = (- (2 ^ 63) \<le> i \<and> i < 2 ^ 63)"
| "is_int v = False"

text \<open>The values that the declared columns of a scan hold.\<close>

definition scan_row_ok :: "SqlRow \<Rightarrow> bool" where
  "scan_row_ok row \<longleftrightarrow> length row = 10 \<and> list_all (\<lambda>k. is_text (row ! k)) [0, 1, 2, 5, 9] \<and>
     list_all (\<lambda>k. is_int (row ! k)) [3, 4, 6, 7, 8]"

definition status_ok :: "SqlRow \<Rightarrow> bool" where
  "status_ok vs \<longleftrightarrow> length vs = 5 \<and> list_all (\<lambda>k. is_text (vs ! k)) [0, 3, 4] \<and>
     list_all (\<lambda>k. is_int (vs ! k)) [1, 2]"

definition scans_contract :: "'d Sqlite \<Rightarrow> ('d \<Rightarrow> Tables option) \<Rightarrow> bool" where
  "scans_contract sq view \<longleftrightarrow>
     (\<forall>d t. view d = Some t \<longrightarrow>
        sq_prepare sq upsert_scan_sql d \<and> sq_prepare sq update_scan_status_sql d \<and> sq_prepare sq get_scan_sql d \<and>
        list_all scan_row_ok (tb_scans t) \<and>
        (\<forall>row. scan_row_ok row \<longrightarrow>
           view (sq_step sq upsert_scan_sql row d) = Some (t\<lparr>tb_scans := upsert_row row (tb_scans t)\<rparr>)) \<and>
        (\<forall>vs. status_ok vs \<longrightarrow>
           view (sq_step sq update_scan_status_sql vs d) = Some (t\<lparr>tb_scans := update_rows vs (tb_scans t)\<rparr>)) \<and>
        (\<forall>v. sq_rows sq get_scan_sql [v] d = filter (\<lambda>r. r ! 0 = v) (tb_scans t)))"

section \<open>Rows\<close>

lemma fold_replace_row:
  "distinct (map (take n) rows) \<Longrightarrow> set (map (take n) rows) \<inter> set (map (take n) tbl) = {} \<Longrightarrow>
     fold (replace_row n) rows tbl = tbl @ rows"
proof (induction rows arbitrary: tbl)
  case (Cons row rows)
  have "filter (\<lambda>r. take n r \<noteq> take n row) tbl = tbl"
    using Cons.prems(2) by (intro filter_id_conv[THEN iffD2]) (auto dest: sym)
  then have "replace_row n row tbl = tbl @ [row]" by (simp add: replace_row_def)
  moreover have "fold (replace_row n) rows (tbl @ [row]) = (tbl @ [row]) @ rows"
    using Cons.prems by (intro Cons.IH) auto
  ultimately show ?case by simp
qed simp

text \<open>\<open>save_rows\<close> folds a table update over its rows.\<close>

lemma save_rows_view:
  assumes tr: "transactions sq view" and d: "view d = Some t"
    and prep: "\<And>d t. view d = Some t \<Longrightarrow> sq_prepare sq sql d"
    and step: "\<And>d t row. view d = Some t \<Longrightarrow> row \<in> set rows \<Longrightarrow> view (sq_step sq sql row d) = Some (upd row t)"
  shows "\<exists>d'. save_rows sq sql rows d = (Inr (), d') \<and> view d' = Some (fold upd rows t)"
proof -
  have no_nul: "c_str SQL_BEGIN = SQL_BEGIN" "c_str SQL_COMMIT = SQL_COMMIT"
    by (simp_all add: c_str_def SQL_BEGIN_def SQL_COMMIT_def)
  have ex: "\<exists>d'. exec_sql sq sql' d = (Inr (), d') \<and> view d' = view d"
    if "view d \<noteq> None" "sql' \<in> {SQL_BEGIN, SQL_COMMIT}" for d sql'
  proof -
    obtain r d' where e: "sq_exec sq sql' d = (r, d')" by (cases "sq_exec sq sql' d")
    have "r = None \<and> view d' = view d" using tr that e unfolding transactions_def by fastforce
    then show ?thesis using e that(2) no_nul by (auto simp: exec_sql_def)
  qed
  obtain d1 where d1: "exec_sql sq SQL_BEGIN d = (Inr (), d1)" "view d1 = Some t"
    using ex[of d SQL_BEGIN] d by auto
  have "view (fold (sq_step sq sql) rows d1) = Some (fold upd rows t)"
    using d1(2) step
  proof (induction rows arbitrary: d1 t)
    case (Cons row rows)
    have "view (sq_step sq sql row d1) = Some (upd row t)" using Cons.prems by simp
    from Cons.IH[OF this] Cons.prems(2) show ?case by simp
  qed simp
  then show ?thesis
    using ex[of "fold (sq_step sq sql) rows d1" SQL_COMMIT] d1 prep[OF d1(2)] by (auto simp: save_rows_def)
qed

lemma read_rows_map: "(\<And>x. x \<in> set xs \<Longrightarrow> f (g x) = Some (h x)) \<Longrightarrow> read_rows f (map g xs) = Some (map h xs)"
  by (induction xs) auto

section \<open>References\<close>

text \<open>The parts of a text that are not empty.\<close>

definition parts :: "char \<Rightarrow> string \<Rightarrow> string list" where
  "parts d s = filter (\<lambda>x. x \<noteq> []) (getlines d s)"

lemma parts_append: "parts d (s @ d # r) = parts d s @ parts d r"
proof (induction d s rule: getlines.induct)
  case (1 d)
  show ?case by (simp add: parts_def getlines_unfold[of d "d # r"])
next
  case (2 d c s)
  show ?case
  proof (cases "d \<in> set (c # s)")
    case True
    then obtain u v where cs: "c # s = u @ d # v" "d \<notin> set u" using split_list_first[of d "c # s"] by auto
    have v: "drop 1 (dropWhile (\<lambda>x. x \<noteq> d) (c # s)) = v" using cs by (simp add: dropWhile_delim)
    have "parts d ((c # s) @ d # r) = filter (\<lambda>x. x \<noteq> []) [u] @ parts d (v @ d # r)"
      using cs by (simp add: parts_def getlines_field)
    also have "\<dots> = filter (\<lambda>x. x \<noteq> []) [u] @ parts d v @ parts d r" using "2.IH" v by simp
    also have "\<dots> = parts d (c # s) @ parts d r" using cs by (simp add: parts_def getlines_field)
    finally show ?thesis .
  next
    case False
    then show ?thesis
      unfolding parts_def getlines_field[OF False] getlines_last[OF False list.distinct(2)] by simp
  qed
qed

lemma split_references_parts: "split_references (Some s) = parts (CHR ''|'') s"
  by (simp add: split_references_def parts_def)

lemma parts_single: "d \<notin> set s \<Longrightarrow> parts d s = (if s = [] then [] else [s])"
  by (simp add: parts_def getlines_last)

lemma split_join_references:
  assumes "\<forall>r\<in>set rs. CHR ''|'' \<notin> set r"
  shows "split_references (Some (join_references rs)) = filter (\<lambda>r. r \<noteq> []) rs"
  using assms
proof (induction rs rule: rev_induct)
  case (snoc r rs)
  have "join_references (rs @ [r]) = (if join_references rs = [] then r else join_references rs @ CHR ''|'' # r)"
    by (simp add: join_references_def)
  moreover have "join_references rs = [] \<Longrightarrow> filter (\<lambda>r. r \<noteq> []) rs = []"
    using snoc by (simp add: split_references_def)
  ultimately show ?case using snoc parts_append parts_single
    by (auto simp: split_references_parts)
qed (simp add: join_references_def split_references_def)


section \<open>Reading back what was saved\<close>

definition plain :: "string \<Rightarrow> bool" where
  "plain s \<longleftrightarrow> NUL \<notin> set s"

definition storable_port :: "Port \<Rightarrow> bool" where
  "storable_port p \<longleftrightarrow> list_all plain [p_service p, p_product p, p_version p, p_distro p]"

definition storable_finding :: "Finding \<Rightarrow> bool" where
  "storable_finding f \<longleftrightarrow>
     list_all plain
       ([f_plugin_name f, f_title f, f_description f, f_verification f, f_host f, f_scope f, f_service f, f_product f,
         f_version f, f_evidence f, e_type (f_evidence_data f), e_source (f_evidence_data f),
         e_details (f_evidence_data f), f_remediation f, f_cvss_vector f, f_cve_id f] @ f_references f) \<and>
     list_all (\<lambda>r. r \<noteq> [] \<and> CHR ''|'' \<notin> set r) (f_references f) \<and>
     storable (SqlReal (f_cvss f)) \<and> storable (SqlReal (f_confidence_score f))"

lemma bind_plain: "plain s \<Longrightarrow> bind_text s = SqlText s"
  by (simp add: bind_text_def c_str_def plain_def takeWhile_notin)

lemma plain_append: "plain (s @ r) \<longleftrightarrow> plain s \<and> plain r"
  by (auto simp: plain_def)

lemma plain_join: "\<forall>r\<in>set rs. plain r \<Longrightarrow> plain (join_references rs)"
proof (induction rs rule: rev_induct)
  case (snoc r rs)
  then show ?case by (auto simp: join_references_def plain_def)
qed (simp add: join_references_def plain_def)

lemma plain_enums:
  "plain (severity_to_string sev)" "plain (confidence_to_string con)" "plain (protocol_to_string pro)"
  by ((cases sev; simp add: plain_def), (cases con; simp add: plain_def), (cases pro; simp add: plain_def))

lemma parse_enums:
  "parse_severity (Some (severity_to_string sev)) = sev" "parse_conf (Some (confidence_to_string con)) = con"
  "parse_protocol (protocol_to_string pro) = pro"
  by ((cases sev; simp add: parse_severity_def), (cases con; simp add: parse_conf_def), (cases pro; simp add: parse_protocol_def))

lemma column_simps:
  assumes "columns_contract sq"
  shows "plain s \<Longrightarrow> sq_column_text sq (SqlText s) = Some s"
    "INT_MIN \<le> i \<and> i \<le> INT_MAX \<Longrightarrow> sq_column_int sq (SqlInt i) = i"
    "- (2 ^ 63) \<le> i \<and> i < 2 ^ 63 \<Longrightarrow> sq_column_int64 sq (SqlInt i) = i"
    "sq_column_double sq (SqlReal x) = x"
  using assms by (auto simp: columns_contract_def plain_def)

lemma uint16_int: "INT_MIN \<le> uint (w :: 16 word) \<and> uint w \<le> INT_MAX"
  using uint_lt2p[of w] order_trans[OF _ uint_ge_0[of w], of INT_MIN] by (simp add: INT_MIN_def INT_MAX_def)

lemma sint64_range: "- (2 ^ 63) \<le> sint (w :: 64 word) \<and> sint w < 2 ^ 63"
  using sint_range_size[of w] by (simp add: word_size)

lemma port_row_back:
  assumes "columns_contract sq" "storable_port p"
  shows "port_from_stmt sq (drop 1 (port_values i p)) = Some (p\<lparr>p_state := S_OPEN\<rparr>)"
  using assms(2) column_simps[OF assms(1)] uint16_int
  by (simp add: port_from_stmt_def port_values_def storable_port_def bind_plain plain_enums parse_enums INT_MIN_def INT_MAX_def)

text \<open>The one field that is not stored: the value of the evidence is read back as its text.\<close>

definition with_evidence_value :: "Finding \<Rightarrow> Finding" where
  "with_evidence_value f = f\<lparr>f_evidence_data := (f_evidence_data f)\<lparr>e_value := f_evidence f\<rparr>\<rparr>"

lemma finding_row_back:
  assumes "columns_contract sq" "storable_finding f"
  shows "finding_from_stmt sq (drop 2 (finding_values i n f)) = Some (with_evidence_value f)"
proof -
  have p: "\<forall>r\<in>set (f_references f). plain r" "\<forall>r\<in>set (f_references f). CHR ''|'' \<notin> set r"
    and ne: "filter (\<lambda>r. r \<noteq> []) (f_references f) = f_references f"
    using assms(2) by (auto simp: storable_finding_def list_all_iff filter_id_conv)
  have refs: "split_references (Some (join_references (f_references f))) = f_references f"
    using split_join_references[OF p(2)] ne by simp
  have d: "bind_double (f_cvss f) = SqlReal (f_cvss f)" "bind_double (f_confidence_score f) = SqlReal (f_confidence_score f)"
    using assms(2) by (auto simp: storable_finding_def bind_double_def)
  show ?thesis
    using assms(2) column_simps[OF assms(1)] uint16_int sint64_range plain_join[OF p(1)]
    by (simp add: finding_from_stmt_def finding_values_def storable_finding_def bind_plain plain_enums parse_enums refs d
        with_evidence_value_def)
qed

definition finding_rows :: "string \<Rightarrow> Finding list \<Rightarrow> SqlRow list" where
  "finding_rows i fs = map (\<lambda>n. finding_values i n (fs ! n)) [0..<length fs]"

lemma word32_index: "n < 2 ^ 31 \<Longrightarrow> sint (word_of_nat n :: 32 word) = int n"
  by (simp add: sint_uint signed_take_bit_int_eq_self unsigned_of_nat take_bit_nat_eq_self)

lemma finding_row_keys:
  "take 2 (finding_values i n f) = [bind_text i, SqlInt (sint (word_of_nat n :: 32 word))]"
  "finding_values i n f ! 0 = bind_text i" "finding_values i n f ! Suc 0 = SqlInt (sint (word_of_nat n :: 32 word))"
  "length (finding_values i n f) = 26"
  by (simp_all add: finding_values_def)

lemma storable_bind: "storable (bind_text s)"
  by (auto simp: bind_text_def c_str_def dest: set_takeWhileD)

lemma finding_row_storable:
  "storable_finding f \<Longrightarrow> list_all storable (finding_values i n f)"
  using sint_range_size[of "word_of_nat n :: 32 word"] sint64_range[of "f_timestamp f"] uint16_int[of "f_port_number f"]
  by (simp add: finding_values_def storable_bind storable_finding_def bind_double_def word_size INT_MIN_def INT_MAX_def)

lemma sorted_upt_map: "sorted (map int [0..<n])"
  by (simp add: sorted_map)

lemma finding_rows_simps:
  assumes "length fs < 2 ^ 31"
  shows "distinct (map (take 2) (finding_rows i fs))" "sorted (map (\<lambda>r. int_of (r ! 1)) (finding_rows i fs))"
proof -
  have n: "n < 2 ^ 31" if "n \<in> set [0..<length fs]" for n using that assms by simp
  have k: "map (take 2) (finding_rows i fs) = map (\<lambda>n. [bind_text i, SqlInt (int n)]) [0..<length fs]"
    using word32_index[OF n] by (simp add: finding_rows_def finding_row_keys)
  show "distinct (map (take 2) (finding_rows i fs))" unfolding k by (simp add: distinct_map inj_on_def)
  have k: "map (\<lambda>r. int_of (r ! 1)) (finding_rows i fs) = map int [0..<length fs]"
    using word32_index[OF n] by (simp add: finding_rows_def finding_row_keys int_of_def)
  show "sorted (map (\<lambda>r. int_of (r ! 1)) (finding_rows i fs))" unfolding k by (rule sorted_upt_map)
qed

lemma findings_contract_simps:
  assumes "findings_contract sq view" "view d = Some t"
  shows "sq_prepare sq save_finding_sql d" "sq_prepare sq load_findings_sql d"
    "length row = 26 \<Longrightarrow> list_all storable row \<Longrightarrow>
       view (sq_step sq save_finding_sql row d) = Some (t\<lparr>tb_findings := replace_row 2 row (tb_findings t)\<rparr>)"
    "sq_rows sq load_findings_sql [v] d =
       map (drop 2) (sort_key (\<lambda>r. int_of (r ! 1)) (filter (\<lambda>r. r ! 0 = v) (tb_findings t)))"
  using assms unfolding findings_contract_def by blast+

lemma finding_rows_ok:
  assumes "list_all storable_finding fs" "row \<in> set (finding_rows scan_id fs)"
  shows "row ! 0 = bind_text scan_id" "length row = 26" "list_all storable row"
proof -
  obtain n where n: "n < length fs" "row = finding_values scan_id n (fs ! n)" using assms(2) by (auto simp: finding_rows_def)
  then have "storable_finding (fs ! n)" using assms(1) by (simp add: list_all_length)
  then show "list_all storable row" using finding_row_storable n(2) by blast
  show "row ! 0 = bind_text scan_id" "length row = 26" using n(2) finding_row_keys by simp_all
qed

text \<open>Rows whose keys are new are appended.\<close>

lemma keys_apart:
  assumes "\<forall>row\<in>set new. row ! 0 = v" "\<forall>row\<in>set old. row ! 0 \<noteq> v" "0 < n"
  shows "set (map (take n) new) \<inter> set (map (take n) old) = {}"
proof (rule ccontr)
  assume "set (map (take n) new) \<inter> set (map (take n) old) \<noteq> {}"
  then obtain r r' where r: "r \<in> set new" "r' \<in> set old" "take n r = take n r'" by auto
  have "take n r ! 0 = r ! 0" "take n r' ! 0 = r' ! 0" using assms(3) by simp_all
  then show False using r assms(1,2) by auto
qed

lemma save_findings_view:
  assumes tr: "transactions sq view" and fc: "findings_contract sq view" and d: "view d = Some t"
    and new: "\<forall>row\<in>set (tb_findings t). row ! 0 \<noteq> bind_text scan_id"
    and fs: "list_all storable_finding fs" "length fs < 2 ^ 31"
  shows "\<exists>d'. save_findings sq scan_id fs d = (Inr (), d') \<and>
    view d' = Some (t\<lparr>tb_findings := tb_findings t @ finding_rows scan_id fs\<rparr>)"
proof -
  let ?rows = "finding_rows scan_id fs"
  let ?upd = "\<lambda>row (t :: Tables). t\<lparr>tb_findings := replace_row 2 row (tb_findings t)\<rparr>"
  have fold_upd: "fold ?upd rows t = t\<lparr>tb_findings := fold (replace_row 2) rows (tb_findings t)\<rparr>" for rows t
    by (induction rows arbitrary: t) simp_all
  note rows = finding_rows_ok[OF fs(1)]
  obtain d' where d': "save_findings sq scan_id fs d = (Inr (), d')" "view d' = Some (fold ?upd ?rows t)"
    using save_rows_view[OF tr d, of save_finding_sql ?rows ?upd] findings_contract_simps(1,3)[OF fc] rows(2,3)
    unfolding save_findings_def finding_rows_def by blast
  have "fold (replace_row 2) ?rows (tb_findings t) = tb_findings t @ ?rows"
    using rows(1) new by (intro fold_replace_row[OF finding_rows_simps(1)[OF fs(2)]] keys_apart) simp_all
  then show ?thesis using d' fold_upd by simp
qed

lemma load_findings_rows:
  assumes cc: "columns_contract sq" and fc: "findings_contract sq view" and d: "view d = Some t"
    and mine: "filter (\<lambda>r. r ! 0 = bind_text scan_id) (tb_findings t) = finding_rows scan_id fs"
    and fs: "list_all storable_finding fs" "length fs < 2 ^ 31"
  shows "load_findings sq scan_id d = Some (map with_evidence_value fs)"
proof -
  have "sq_rows sq load_findings_sql [bind_text scan_id] d = map (drop 2) (finding_rows scan_id fs)"
    using findings_contract_simps(4)[OF fc d] mine sort_key_id_if_sorted[OF finding_rows_simps(2)[OF fs(2)]] by simp
  then have "load_findings sq scan_id d = read_rows (finding_from_stmt sq)
      (map (\<lambda>n. drop 2 (finding_values scan_id n (fs ! n))) [0..<length fs])"
    using findings_contract_simps(2)[OF fc d] by (simp add: load_findings_def finding_rows_def comp_def)
  also have "\<dots> = Some (map (\<lambda>n. with_evidence_value (fs ! n)) [0..<length fs])"
    by (intro read_rows_map finding_row_back[OF cc]) (use fs(1) in \<open>simp add: list_all_length\<close>)
  also have "map (\<lambda>n. with_evidence_value (fs ! n)) [0..<length fs] = map with_evidence_value fs"
    by (rule nth_equalityI) simp_all
  finally show ?thesis .
qed

lemma load_findings_same:
  assumes "findings_contract sq view" "view d = Some t" "view d' = Some t'"
    "filter (\<lambda>r. r ! 0 = bind_text i) (tb_findings t') = filter (\<lambda>r. r ! 0 = bind_text i) (tb_findings t)"
  shows "load_findings sq i d' = load_findings sq i d"
  using findings_contract_simps(2,4)[OF assms(1,2)] findings_contract_simps(2,4)[OF assms(1,3)] assms(4)
  by (simp add: load_findings_def)

lemma rows_of_scan:
  assumes "\<forall>row\<in>set old. row ! 0 \<noteq> bind_text i" "\<forall>row\<in>set new. row ! 0 = bind_text i"
  shows "filter (\<lambda>r. r ! 0 = bind_text i) (old @ new) = new"
    "c_str j \<noteq> c_str i \<Longrightarrow> filter (\<lambda>r. r ! 0 = bind_text j) (old @ new) = filter (\<lambda>r. r ! 0 = bind_text j) old"
  using assms by (auto simp: filter_empty_conv filter_id_conv bind_text_def)

text \<open>C19: What is saved is read back: by the contracts of SQLite for its statements, the findings saved for a scan
  that has none yet, fewer than \<open>2 ^ 31\<close> and each storable (its texts and references hold no NUL, which would
  end them; no reference is empty or holds the separator \<open>|\<close>; no score is a NaN or a negative zero), are those
  loaded for it, in their order, with every field as it was but one: the value of the evidence has no column and is
  replaced by the text of the evidence.  What is loaded for any other scan stays as it was.\<close>

theorem save_findings_roundtrip:
  assumes "transactions sq view" and "columns_contract sq" and fc: "findings_contract sq view"
    and d: "view d = Some t" and new: "\<forall>row\<in>set (tb_findings t). row ! 0 \<noteq> bind_text scan_id"
    and fs: "list_all storable_finding fs" "length fs < 2 ^ 31"
  shows "\<exists>d'. save_findings sq scan_id fs d = (Inr (), d') \<and>
    load_findings sq scan_id d' = Some (map with_evidence_value fs) \<and>
    (c_str other \<noteq> c_str scan_id \<longrightarrow> load_findings sq other d' = load_findings sq other d)"
proof -
  obtain d' where d': "save_findings sq scan_id fs d = (Inr (), d')"
    "view d' = Some (t\<lparr>tb_findings := tb_findings t @ finding_rows scan_id fs\<rparr>)"
    using save_findings_view[OF assms(1) fc d new fs] by blast
  have mine: "\<forall>row\<in>set (finding_rows scan_id fs). row ! 0 = bind_text scan_id" using finding_rows_ok(1)[OF fs(1)] by blast
  show ?thesis
    using d' load_findings_rows[OF assms(2) fc d'(2) _ fs] load_findings_same[OF fc d d'(2)] rows_of_scan[OF new mine] by simp
qed

section \<open>Ports\<close>

lemma mset_map_obtain:
  assumes "mset ys = mset (map f xs)"
  obtains xs' where "mset xs' = mset xs" "ys = map f xs'"
proof -
  have "\<exists>xs'. mset xs' = mset xs \<and> ys = map f xs'" using assms
  proof (induction ys arbitrary: xs)
    case (Cons y ys)
    from Cons.prems have "y \<in># mset (map f xs)" by (metis list.set_intros(1) set_mset_mset)
    then obtain x where x: "x \<in> set xs" "y = f x" by auto
    then have "mset xs = add_mset x (mset (remove1 x xs))" by simp
    then obtain xs1 where xs: "mset xs = add_mset x (mset xs1)" by blast
    then have "mset ys = mset (map f xs1)" using Cons.prems x(2) by simp
    from Cons.IH[OF this] obtain zs where "mset zs = mset xs1" "ys = map f zs" by blast
    then show ?case using x(2) xs by (intro exI[of _ "x # zs"]) simp
  qed simp
  then show thesis using that by blast
qed

lemma ports_contract_simps:
  assumes "ports_contract sq view" "view d = Some t"
  shows "sq_prepare sq save_port_sql d" "sq_prepare sq load_ports_sql d"
    "length row = 8 \<Longrightarrow> list_all storable row \<Longrightarrow>
       view (sq_step sq save_port_sql row d) = Some (t\<lparr>tb_ports := replace_row 3 row (tb_ports t)\<rparr>)"
    "\<exists>rows. sq_rows sq load_ports_sql [v] d = map (drop 1) rows \<and>
       mset rows = mset (filter (\<lambda>r. r ! 0 = v) (tb_ports t)) \<and> sorted (map (\<lambda>r. int_of (r ! 1)) rows)"
  using assms unfolding ports_contract_def by blast+

lemma port_values_key: "port_values i p ! 0 = bind_text i"
  by (simp add: port_values_def)

lemma save_ports_view:
  assumes tr: "transactions sq view" and pc: "ports_contract sq view"
    and d: "view d = Some t" and new: "\<forall>row\<in>set (tb_ports t). row ! 0 \<noteq> bind_text scan_id"
    and ps: "distinct (map (\<lambda>p. (p_number p, p_protocol p)) ps)"
  shows "\<exists>d'. save_ports sq scan_id ps d = (Inr (), d') \<and>
    view d' = Some (t\<lparr>tb_ports := tb_ports t @ map (port_values scan_id) ps\<rparr>)"
proof -
  let ?rows = "map (port_values scan_id) ps"
  let ?upd = "\<lambda>row (t :: Tables). t\<lparr>tb_ports := replace_row 3 row (tb_ports t)\<rparr>"
  have fold_upd: "fold ?upd rows t = t\<lparr>tb_ports := fold (replace_row 3) rows (tb_ports t)\<rparr>" for rows t
    by (induction rows arbitrary: t) simp_all
  have ok: "length (port_values scan_id p) = 8 \<and> list_all storable (port_values scan_id p)" for p
    using uint16_int[of "p_number p"] by (simp add: port_values_def storable_bind INT_MIN_def INT_MAX_def)
  have "\<exists>d'. save_rows sq save_port_sql ?rows d = (Inr (), d') \<and> view d' = Some (fold ?upd ?rows t)"
  proof (rule save_rows_view[OF tr d ports_contract_simps(1)[OF pc]])
    fix d t row assume "view d = Some t" "row \<in> set ?rows"
    then show "view (sq_step sq save_port_sql row d) = Some (?upd row t)" using ports_contract_simps(3)[OF pc] ok by auto
  qed
  then obtain d' where d': "save_ports sq scan_id ps d = (Inr (), d')" "view d' = Some (fold ?upd ?rows t)"
    unfolding save_ports_def by blast
  have inj: "(p_number p, p_protocol p) = (p_number q, p_protocol q)"
    if "take 3 (port_values scan_id p) = take 3 (port_values scan_id q)" for p q
  proof -
    have e: "uint (p_number p) = uint (p_number q)" "protocol_to_string (p_protocol p) = protocol_to_string (p_protocol q)"
      using that by (simp_all add: port_values_def bind_plain plain_enums)
    show ?thesis
      using arg_cong[OF e(2), of parse_protocol] e(1) by (simp add: parse_enums word_uint_eq_iff)
  qed
  have "distinct (map (take 3) ?rows)"
    using ps inj unfolding map_map comp_def distinct_map inj_on_def by blast
  then have "fold (replace_row 3) ?rows (tb_ports t) = tb_ports t @ ?rows"
    using new port_values_key by (intro fold_replace_row keys_apart) simp_all
  then show ?thesis using d' fold_upd by simp
qed

lemma load_ports_rows:
  assumes cc: "columns_contract sq" and pc: "ports_contract sq view" and d: "view d = Some t"
    and mine: "filter (\<lambda>r. r ! 0 = bind_text scan_id) (tb_ports t) = map (port_values scan_id) ps"
    and ps: "list_all storable_port ps"
  shows "\<exists>ps'. load_ports sq scan_id d = Some ps' \<and> sorted (map p_number ps') \<and>
    mset ps' = mset (map (\<lambda>p. p\<lparr>p_state := S_OPEN\<rparr>) ps)"
proof -
  obtain rows where rows: "sq_rows sq load_ports_sql [bind_text scan_id] d = map (drop 1) rows"
    "mset rows = mset (map (port_values scan_id) ps)" "sorted (map (\<lambda>r. int_of (r ! 1)) rows)"
    using ports_contract_simps(4)[OF pc d, of "bind_text scan_id"] mine by auto
  from rows(2) obtain ps' where ps': "mset ps' = mset ps" "rows = map (port_values scan_id) ps'"
    by (rule mset_map_obtain)
  have "list_all storable_port ps'" using ps mset_eq_setD[OF ps'(1)] by (simp add: list_all_iff)
  then have bk: "load_ports sq scan_id d = Some (map (\<lambda>p. p\<lparr>p_state := S_OPEN\<rparr>) ps')"
    using port_row_back[OF cc] ports_contract_simps(2)[OF pc d]
    by (simp add: load_ports_def rows(1) ps'(2) comp_def)
      (rule read_rows_map, simp add: list_all_iff)
  have "sorted (map (\<lambda>p. uint (p_number p)) ps')"
    using rows(3) by (simp add: ps'(2) comp_def port_values_def int_of_def)
  then have "sorted (map p_number (map (\<lambda>p. p\<lparr>p_state := S_OPEN\<rparr>) ps'))"
    by (simp add: comp_def sorted_map word_le_def)
  moreover have "mset (map (\<lambda>p. p\<lparr>p_state := S_OPEN\<rparr>) ps') = mset (map (\<lambda>p. p\<lparr>p_state := S_OPEN\<rparr>) ps)"
    by (simp add: ps'(1))
  ultimately show ?thesis using bk by blast
qed

text \<open>The ports saved for a new scan are read back sorted by number, each once and with every field,
  as open ports.\<close>

theorem save_ports_roundtrip:
  assumes "transactions sq view" and "columns_contract sq" and pc: "ports_contract sq view"
    and d: "view d = Some t" and new: "\<forall>row\<in>set (tb_ports t). row ! 0 \<noteq> bind_text scan_id"
    and ps: "list_all storable_port ps" "distinct (map (\<lambda>p. (p_number p, p_protocol p)) ps)"
  shows "\<exists>d' ps'. save_ports sq scan_id ps d = (Inr (), d') \<and> load_ports sq scan_id d' = Some ps' \<and>
    sorted (map p_number ps') \<and> mset ps' = mset (map (\<lambda>p. p\<lparr>p_state := S_OPEN\<rparr>) ps)"
proof -
  obtain d' where d': "save_ports sq scan_id ps d = (Inr (), d')"
    "view d' = Some (t\<lparr>tb_ports := tb_ports t @ map (port_values scan_id) ps\<rparr>)"
    using save_ports_view[OF assms(1) pc d new ps(2)] by blast
  have "\<forall>row\<in>set (map (port_values scan_id) ps). row ! 0 = bind_text scan_id" using port_values_key by simp
  from rows_of_scan(1)[OF new this]
  show ?thesis using d'(1) load_ports_rows[OF assms(2) pc d'(2) _ ps(1)] by simp
qed

section \<open>Scans\<close>

definition with_status :: "string \<Rightarrow> int \<Rightarrow> int \<Rightarrow> string \<Rightarrow> ScanRow \<Rightarrow> ScanRow" where
  "with_status status completed_at scanned_ports error r =
     r\<lparr>sr_status := status, sr_completed_at := completed_at, sr_scanned_ports := scanned_ports, sr_error := error\<rparr>"

definition int32 :: "int \<Rightarrow> bool" where
  "int32 i \<longleftrightarrow> INT_MIN \<le> i \<and> i \<le> INT_MAX"

definition int64 :: "int \<Rightarrow> bool" where
  "int64 i \<longleftrightarrow> - (2 ^ 63) \<le> i \<and> i < 2 ^ 63"

definition storable_scan :: "ScanRow \<Rightarrow> bool" where
  "storable_scan r \<longleftrightarrow>
     list_all plain [sr_id r, sr_user_sub r, sr_target r, sr_status r, sr_error r] \<and>
     list_all int32 [sr_port_start r, sr_port_end r, sr_scanned_ports r] \<and>
     list_all int64 [sr_started_at r, sr_completed_at r]"

lemma int32_int64: "int32 i \<Longrightarrow> int64 i"
  by (simp add: int32_def int64_def INT_MIN_def INT_MAX_def)

lemma set_status_key [simp]: "set_status vs r ! 0 = r ! 0"
  by (simp add: set_status_def)

lemma filter_set_status:
  "filter (\<lambda>r. r ! 0 = v) (map (\<lambda>r. if r ! 0 = k then set_status vs r else r) rows) =
     (if v = k then map (set_status vs) (filter (\<lambda>r. r ! 0 = v) rows) else filter (\<lambda>r. r ! 0 = v) rows)"
  by (induction rows) auto

lemma row_from_set_status:
  assumes "columns_contract sq" "scan_row_ok r" "plain st" "plain e" "int32 n" "int64 c"
  shows "row_from_stmt sq (set_status (SqlText st # SqlInt c # SqlInt n # SqlText e # vs) r) =
    map_option (with_status st c n e) (row_from_stmt sq r)"
proof -
  have r: "length r = 10" "is_text (r ! 5)" "is_text (r ! 9)" using assms(2) by (simp_all add: scan_row_ok_def)
  obtain a b where t: "r ! 5 = SqlText a" "r ! 9 = SqlText b" "plain a" "plain b"
    using r(2,3) by (cases "r ! 5"; cases "r ! 9") (auto simp: plain_def)
  show ?thesis
    using column_simps[OF assms(1)] assms(3-6) t r(1)
    by (simp add: row_from_stmt_def set_status_def with_status_def int32_def int64_def split: option.split bind_split)
qed

lemma row_from_scan_values:
  "columns_contract sq \<Longrightarrow> storable_scan r \<Longrightarrow> row_from_stmt sq (scan_values r) = Some r"
  using column_simps[of sq]
  by (simp add: row_from_stmt_def scan_values_def storable_scan_def bind_plain int32_def int64_def)

lemma scan_values_ok: "storable_scan r \<Longrightarrow> scan_row_ok (scan_values r)"
  using int32_int64 by (simp add: scan_row_ok_def scan_values_def storable_scan_def bind_plain plain_def int64_def)

lemma scans_contract_simps:
  assumes "scans_contract sq view" "view d = Some t"
  shows "sq_prepare sq upsert_scan_sql d" "sq_prepare sq update_scan_status_sql d" "sq_prepare sq get_scan_sql d"
    "list_all scan_row_ok (tb_scans t)"
    "scan_row_ok row \<Longrightarrow> view (sq_step sq upsert_scan_sql row d) = Some (t\<lparr>tb_scans := upsert_row row (tb_scans t)\<rparr>)"
    "status_ok vs \<Longrightarrow> view (sq_step sq update_scan_status_sql vs d) = Some (t\<lparr>tb_scans := update_rows vs (tb_scans t)\<rparr>)"
    "sq_rows sq get_scan_sql [v] d = filter (\<lambda>r. r ! 0 = v) (tb_scans t)"
  using assms unfolding scans_contract_def by blast+

text \<open>What \<open>get_scan\<close> reads from the rows of a scan.\<close>

definition first_scan :: "'d Sqlite \<Rightarrow> SqlRow list \<Rightarrow> ScanRow option option" where
  "first_scan sq rows = (case rows of [] \<Rightarrow> Some None | row # rows \<Rightarrow> map_option Some (row_from_stmt sq row))"

lemma get_scan_rows:
  assumes "scans_contract sq view" "view d = Some t"
  shows "get_scan sq i d = first_scan sq (filter (\<lambda>r. r ! 0 = bind_text i) (tb_scans t))"
  using scans_contract_simps(3,7)[OF assms] by (simp add: get_scan_def first_scan_def)

lemma row_from_ok:
  assumes "columns_contract sq" "scan_row_ok r"
  shows "\<exists>old. row_from_stmt sq r = Some old"
proof -
  have "\<exists>s. sq_column_text sq (r ! k) = Some s" if "k \<in> {0, 1, 2, 5}" for k
  proof -
    have "is_text (r ! k)" using that assms(2) by (auto simp: scan_row_ok_def)
    then obtain s where "r ! k = SqlText s" "plain s" by (cases "r ! k") (auto simp: plain_def)
    then show ?thesis using column_simps(1)[OF assms(1)] by simp
  qed
  from this[of 0] this[of 1] this[of 2] this[of 5] show ?thesis by (auto simp: row_from_stmt_def)
qed

text \<open>C32: Storing a scan: \<open>get_scan\<close> gives back a scan that is new exactly as it was stored; storing one
  again changes its status, its counters and its error only, so that target, range and user
  stay those of the first time; no other scan changes.\<close>

theorem upsert_scan_get:
  assumes cc: "columns_contract sq" and sc: "scans_contract sq view" and d: "view d = Some t" and r: "storable_scan r"
  shows "get_scan sq i (upsert_scan sq r d) =
    (if c_str i = sr_id r
     then (case get_scan sq i d of
             Some (Some old) \<Rightarrow> Some (Some (with_status (sr_status r) (sr_completed_at r) (sr_scanned_ports r) (sr_error r) old))
           | _ \<Rightarrow> Some (Some r))
     else get_scan sq i d)"
proof -
  have ok: "scan_row_ok (scan_values r)" using scan_values_ok[OF r] .
  let ?vs = "[SqlText (sr_status r), SqlInt (sr_completed_at r), SqlInt (sr_scanned_ports r), SqlText (sr_error r)]"
  have p: "plain (sr_id r)" "plain (sr_status r)" "plain (sr_error r)" "int32 (sr_scanned_ports r)" "int64 (sr_completed_at r)"
    using r by (simp_all add: storable_scan_def)
  have vals: "scan_values r ! 0 = SqlText (sr_id r)"
    "[scan_values r ! 5, scan_values r ! 7, scan_values r ! 8, scan_values r ! 9] = ?vs"
    using p by (simp_all add: scan_values_def bind_plain)
  have v: "view (upsert_scan sq r d) = Some (t\<lparr>tb_scans := upsert_row (scan_values r) (tb_scans t)\<rparr>)"
    using scans_contract_simps(1,5)[OF sc d] ok by (simp add: upsert_scan_def)
  let ?old = "filter (\<lambda>r. r ! 0 = bind_text i) (tb_scans t)"
  have key: "bind_text i = SqlText (sr_id r) \<longleftrightarrow> c_str i = sr_id r" by (auto simp: bind_text_def)
  have after: "get_scan sq i (upsert_scan sq r d) = first_scan sq
      (if c_str i = sr_id r then if ?old = [] then [scan_values r] else map (set_status ?vs) ?old else ?old)"
  proof -
    have "?old = [] \<longleftrightarrow> scan_values r ! 0 \<notin> set (map (\<lambda>r. r ! 0) (tb_scans t))" if "c_str i = sr_id r"
      using that by (simp add: filter_empty_conv vals(1) bind_text_def image_iff) metis
    moreover have "filter (\<lambda>r. r ! 0 = bind_text i) (upsert_row (scan_values r) (tb_scans t)) =
        (if scan_values r ! 0 \<in> set (map (\<lambda>r. r ! 0) (tb_scans t))
         then if c_str i = sr_id r then map (set_status ?vs) ?old else ?old
         else ?old @ (if c_str i = sr_id r then [scan_values r] else []))"
      unfolding upsert_row_def vals filter_set_status using key by (auto simp: filter_set_status vals(1))
    ultimately show ?thesis using get_scan_rows[OF sc v, of i] by (auto split: if_splits)
  qed
  show ?thesis
  proof (cases "c_str i = sr_id r")
    case True
    show ?thesis
    proof (cases ?old)
      case Nil
      then show ?thesis using True after row_from_scan_values[OF cc r] get_scan_rows[OF sc d, of i] by (simp add: first_scan_def)
    next
      case (Cons o1 os)
      then have "o1 \<in> set ?old" by simp
      then have o1: "scan_row_ok o1" using scans_contract_simps(4)[OF sc d] by (simp add: list_all_iff)
      obtain old where "row_from_stmt sq o1 = Some old" using row_from_ok[OF cc o1] by blast
      then show ?thesis
        using True Cons after row_from_set_status[OF cc o1 p(2-5), of "[]"] get_scan_rows[OF sc d, of i]
        by (simp add: first_scan_def)
    qed
  next
    case False
    then show ?thesis using after get_scan_rows[OF sc d, of i] by simp
  qed
qed

lemma update_scan_status_view:
  assumes sc: "scans_contract sq view" and d: "view d = Some t" and p: "plain sid" "plain st" "plain e" "int32 n" "int64 c"
  shows "view (update_scan_status sq sid st c n e d) =
    Some (t\<lparr>tb_scans := update_rows [SqlText st, SqlInt c, SqlInt n, SqlText e, SqlText sid] (tb_scans t)\<rparr>)"
proof -
  have "status_ok [SqlText st, SqlInt c, SqlInt n, SqlText e, SqlText sid]"
    using p int32_int64[of n] by (simp add: status_ok_def plain_def int64_def)
  then show ?thesis using scans_contract_simps(2,6)[OF sc d] p by (simp add: update_scan_status_def bind_plain)
qed

lemma update_scan_status_get:
  assumes cc: "columns_contract sq" and sc: "scans_contract sq view" and d: "view d = Some t"
    and p: "plain sid" "plain st" "plain e" "int32 n" "int64 c"
  shows "get_scan sq i (update_scan_status sq sid st c n e d) =
    (if c_str i = sid then map_option (map_option (with_status st c n e)) (get_scan sq i d) else get_scan sq i d)"
proof -
  let ?vs = "[SqlText st, SqlInt c, SqlInt n, SqlText e, SqlText sid]"
  note v = update_scan_status_view[OF sc d p]
  have key: "bind_text i = SqlText sid \<longleftrightarrow> c_str i = sid" by (auto simp: bind_text_def)
  have after: "get_scan sq i (update_scan_status sq sid st c n e d) = first_scan sq
      (if c_str i = sid then map (set_status ?vs) (filter (\<lambda>r. r ! 0 = bind_text i) (tb_scans t))
       else filter (\<lambda>r. r ! 0 = bind_text i) (tb_scans t))"
    using get_scan_rows[OF sc v, of i] by (simp add: update_rows_def filter_set_status key)
  show ?thesis
  proof (cases "filter (\<lambda>r. r ! 0 = bind_text i) (tb_scans t)")
    case Nil
    then show ?thesis using after get_scan_rows[OF sc d, of i] by (simp add: first_scan_def)
  next
    case (Cons o1 os)
    then have "o1 \<in> set (filter (\<lambda>r. r ! 0 = bind_text i) (tb_scans t))" by simp
    then have o1: "scan_row_ok o1" using scans_contract_simps(4)[OF sc d] by (simp add: list_all_iff)
    then show ?thesis using after get_scan_rows[OF sc d, of i] Cons row_from_set_status[OF cc o1 p(2-5), of "[SqlText sid]"]
      by (simp add: first_scan_def option.map_comp comp_def)
  qed
qed

section \<open>The schema\<close>

text \<open>\<open>cols d\<close>: the columns of the table of findings, when it exists.\<close>

definition schema_contract :: "'d Sqlite \<Rightarrow> ('d \<Rightarrow> string list option) \<Rightarrow> bool" where
  "schema_contract sq cols \<longleftrightarrow>
     (\<forall>d. fst (sq_exec sq create_findings_sql d) = None \<longrightarrow>
        cols (snd (sq_exec sq create_findings_sql d)) =
          Some (case cols d of None \<Rightarrow> map fst findings_schema | Some cs \<Rightarrow> cs)) \<and>
     (\<forall>d sql. sql \<in> set schema_statements \<and> sql \<noteq> create_findings_sql \<longrightarrow> cols (snd (sq_exec sq sql d)) = cols d) \<and>
     (\<forall>d cs. cols d = Some cs \<longrightarrow>
        sq_prepare sq table_info_sql d \<and>
        map (\<lambda>row. sq_column_text sq (row ! 1)) (sq_rows sq table_info_sql [] d) = map Some cs \<and>
        (\<forall>c\<in>set ensured_columns. fst (sq_exec sq (add_column_sql (fst c) (snd c)) d) = None \<longrightarrow>
           cols (snd (sq_exec sq (add_column_sql (fst c) (snd c)) d)) = Some (cs @ [fst c])))"

lemma schema_contract_simps:
  assumes "schema_contract sq cols"
  shows "sq_exec sq create_findings_sql d = (None, d1) \<Longrightarrow>
      cols d1 = Some (case cols d of None \<Rightarrow> map fst findings_schema | Some cs \<Rightarrow> cs)"
    "sql \<in> set schema_statements \<Longrightarrow> sql \<noteq> create_findings_sql \<Longrightarrow> sq_exec sq sql d = (r, d1) \<Longrightarrow> cols d1 = cols d"
    "cols d = Some cs \<Longrightarrow> c \<in> set ensured_columns \<Longrightarrow> sq_exec sq (add_column_sql (fst c) (snd c)) d = (None, d1) \<Longrightarrow>
      cols d1 = Some (cs @ [fst c])"
proof -
  note c = assms[unfolded schema_contract_def]
  show "cols d1 = Some (case cols d of None \<Rightarrow> map fst findings_schema | Some cs \<Rightarrow> cs)"
    if "sq_exec sq create_findings_sql d = (None, d1)"
    using c[THEN conjunct1, THEN spec, of d] that by simp
  show "cols d1 = cols d" if "sql \<in> set schema_statements" "sql \<noteq> create_findings_sql" "sq_exec sq sql d = (r, d1)"
    using c[THEN conjunct2, THEN conjunct1, rule_format, of sql d] that by simp
  show "cols d1 = Some (cs @ [fst c])"
    if "cols d = Some cs" "c \<in> set ensured_columns" "sq_exec sq (add_column_sql (fst c) (snd c)) d = (None, d1)"
    using c[THEN conjunct2, THEN conjunct2, rule_format, OF that(1), THEN conjunct2, THEN conjunct2, rule_format, OF that(2)]
      that(3) by simp
qed

lemma exec_sql_Inr: "NUL \<notin> set sql \<Longrightarrow> exec_sql sq sql d = (Inr u, d') \<Longrightarrow> sq_exec sq sql d = (None, d')"
  by (auto simp: exec_sql_def c_str_id split: prod.splits option.splits)

lemma schema_plain: "sql \<in> set schema_statements \<Longrightarrow> NUL \<notin> set sql"
  by (simp add: schema_statements_def schema_before_def create_table_sql_def create_findings_sql_def scans_schema_def ports_schema_def
      findings_schema_def text_default_def sql_quote_def sql_empty_def join_with_Cons) auto

lemma ensured_plain: "c \<in> set ensured_columns \<Longrightarrow> NUL \<notin> set (add_column_sql (fst c) (snd c))"
  by (simp add: ensured_columns_def add_column_sql_def text_default_def sql_quote_def) auto

lemma column_exists_iff:
  assumes "schema_contract sq cols" "cols d = Some cs"
  shows "column_exists sq c d \<longleftrightarrow> c \<in> set cs"
proof -
  have p: "sq_prepare sq table_info_sql d"
    and m: "map (\<lambda>row. sq_column_text sq (row ! 1)) (sq_rows sq table_info_sql [] d) = map Some cs"
    using assms unfolding schema_contract_def by blast+
  have "column_exists sq c d \<longleftrightarrow> Some c \<in> set (map (\<lambda>row. sq_column_text sq (row ! 1)) (sq_rows sq table_info_sql [] d))"
    using p by (simp add: column_exists_def list_ex_iff image_iff eq_commute[of "Some c"])
  then show ?thesis by (simp only: m) auto
qed

lemma ensure_all_columns:
  assumes "schema_contract sq cols" "cols d = Some cs" "set ensured \<subseteq> set ensured_columns" "distinct (map fst ensured)"
    "ensure_all sq ensured d = (Inr u, d')"
  shows "cols d' = Some (cs @ filter (\<lambda>c. c \<notin> set cs) (map fst ensured))"
  using assms(2-5)
proof (induction ensured arbitrary: d cs)
  case (Cons c ensured)
  show ?case
  proof (cases "fst c \<in> set cs")
    case True
    then have "ensure_finding_column sq c d = (Inr (), d)"
      using column_exists_iff[OF assms(1) Cons.prems(1)] by (simp add: ensure_finding_column_def)
    then show ?thesis using Cons True by simp
  next
    case False
    let ?sql = "add_column_sql (fst c) (snd c)"
    have e: "ensure_finding_column sq c d = exec_sql sq ?sql d"
      using column_exists_iff[OF assms(1) Cons.prems(1)] False by (simp add: ensure_finding_column_def)
    obtain d1 where d1: "exec_sql sq ?sql d = (Inr (), d1)" "ensure_all sq ensured d1 = (Inr u, d')"
      using Cons.prems(4) e by (auto split: prod.splits sum.splits)
    have "sq_exec sq ?sql d = (None, d1)" using exec_sql_Inr[OF ensured_plain d1(1)] Cons.prems(2) by simp
    then have "cols d1 = Some (cs @ [fst c])"
      using schema_contract_simps(3)[OF assms(1) Cons.prems(1)] Cons.prems(2) by simp
    from Cons.IH[OF this _ _ d1(2)] Cons.prems(2,3)
    have "cols d' = Some ((cs @ [fst c]) @ filter (\<lambda>x. x \<notin> set (cs @ [fst c])) (map fst ensured))" by simp
    moreover have "filter (\<lambda>x. x \<notin> set (cs @ [fst c])) (map fst ensured) = filter (\<lambda>x. x \<notin> set cs) (map fst ensured)"
    proof (rule filter_cong[OF refl])
      fix x assume "x \<in> set (map fst ensured)"
      then show "x \<notin> set (cs @ [fst c]) \<longleftrightarrow> x \<notin> set cs" using Cons.prems(3) by (cases "x = fst c") simp_all
    qed
    ultimately show ?thesis using False by simp
  qed
qed simp

lemma exec_all_columns:
  assumes "schema_contract sq cols" "set sqls \<subseteq> set schema_statements" "create_findings_sql \<notin> set sqls"
    "exec_all sq sqls d = (Inr u, d')"
  shows "cols d' = cols d"
  using assms(2-4)
proof (induction sqls arbitrary: d)
  case (Cons sql sqls)
  obtain d1 where d1: "exec_sql sq sql d = (Inr (), d1)" "exec_all sq sqls d1 = (Inr u, d')"
    using Cons.prems(3) by (auto split: prod.splits sum.splits)
  have "sq_exec sq sql d = (None, d1)" using exec_sql_Inr[OF schema_plain d1(1)] Cons.prems(1) by simp
  then have "cols d1 = cols d"
    by (rule schema_contract_simps(2)[OF assms(1), rotated 2]) (use Cons.prems(1,2) in auto)
  then show ?case using Cons.IH[OF _ _ d1(2)] Cons.prems(1,2) by simp
qed simp

lemma exec_all_append:
  "exec_all sq (xs @ ys) d = (case exec_all sq xs d of (Inl e, d) \<Rightarrow> (Inl e, d) | (Inr _, d) \<Rightarrow> exec_all sq ys d)"
  by (induction xs arbitrary: d) (auto split: prod.split sum.split)

lemma create_findings_apart: "create_findings_sql \<notin> set schema_before"
  by (simp add: schema_before_def create_findings_sql_def create_table_sql_def)

text \<open>Opening a file of any earlier version brings its table of findings up to date: when \<open>open\<close>
  succeeds, the columns the table had are still there, in their places, and exactly the missing
  ones of those added since are appended, each once; a new file gets all columns of the schema.\<close>

theorem db_open_columns:
  assumes sc: "schema_contract sq cols" and opened: "sq_open sq (c_str path) d = (None, d0)"
    and r: "db_open sq path d = (True, logged, d')"
  shows "logged = None \<and> cols d' = Some (case cols d0 of
      None \<Rightarrow> map fst findings_schema
    | Some cs \<Rightarrow> cs @ filter (\<lambda>c. c \<notin> set cs) (map fst ensured_columns))"
proof -
  obtain u d1 where e: "exec_all sq schema_statements d0 = (Inr u, d1)"
    "ensure_all sq ensured_columns d1 = (Inr u, d')" "logged = None"
    using r opened by (auto simp: db_open_def split: prod.splits sum.splits)
  obtain d2 where d2: "exec_all sq schema_before d0 = (Inr (), d2)" "exec_sql sq create_findings_sql d2 = (Inr (), d1)"
    using e(1) by (auto simp: schema_statements_def exec_all_append split: prod.splits sum.splits)
  have m: "create_findings_sql \<in> set schema_statements" by (simp add: schema_statements_def)
  have "cols d2 = cols d0"
    using exec_all_columns[OF sc _ create_findings_apart d2(1)] by (auto simp: schema_statements_def)
  moreover have "sq_exec sq create_findings_sql d2 = (None, d1)" using exec_sql_Inr[OF schema_plain[OF m] d2(2)] .
  ultimately have c1: "cols d1 = Some (case cols d0 of None \<Rightarrow> map fst findings_schema | Some cs \<Rightarrow> cs)"
    using schema_contract_simps(1)[OF sc] by simp
  have dist: "distinct (map fst ensured_columns)" by (simp add: ensured_columns_def)
  have all: "filter (\<lambda>c. c \<notin> set (map fst findings_schema)) (map fst ensured_columns) = []"
    by (simp add: ensured_columns_def findings_schema_def)
  show ?thesis
    using ensure_all_columns[OF sc c1 order_refl dist e(2)] all e(3) by (cases "cols d0") simp_all
qed

section \<open>An instance\<close>

text \<open>A database in memory that answers the statements of the program as SQLite does: the tables,
  and the columns of the table of findings.\<close>

type_synonym MemDb = "Tables \<times> string list option"

definition mem_step :: "string \<Rightarrow> SqlRow \<Rightarrow> MemDb \<Rightarrow> MemDb" where
  "mem_step sql vs d =
     (let t = fst d in
      (if sql = save_finding_sql then t\<lparr>tb_findings := replace_row 2 vs (tb_findings t)\<rparr>
       else if sql = save_port_sql then t\<lparr>tb_ports := replace_row 3 vs (tb_ports t)\<rparr>
       else if sql = upsert_scan_sql then t\<lparr>tb_scans := upsert_row vs (tb_scans t)\<rparr>
       else if sql = update_scan_status_sql then t\<lparr>tb_scans := update_rows vs (tb_scans t)\<rparr>
       else t, snd d))"

definition mem_rows :: "string \<Rightarrow> SqlRow \<Rightarrow> MemDb \<Rightarrow> SqlRow list" where
  "mem_rows sql vs d =
     (let t = fst d; mine = filter (\<lambda>r. r ! 0 = vs ! 0) in
      if sql = load_findings_sql then map (drop 2) (sort_key (\<lambda>r. int_of (r ! 1)) (mine (tb_findings t)))
      else if sql = load_ports_sql then map (drop 1) (sort_key (\<lambda>r. int_of (r ! 1)) (mine (tb_ports t)))
      else if sql = get_scan_sql then mine (tb_scans t)
      else if sql = table_info_sql then map (\<lambda>c. [SqlInt 0, SqlText c]) (case snd d of None \<Rightarrow> [] | Some cs \<Rightarrow> cs)
      else [])"

definition add_column_prefix :: string where
  "add_column_prefix = ''ALTER TABLE scan_findings ADD COLUMN ''"

definition mem_exec :: "string \<Rightarrow> MemDb \<Rightarrow> string option \<times> MemDb" where
  "mem_exec sql d =
     (None,
      if sql = create_findings_sql then
        (fst d, Some (case snd d of None \<Rightarrow> map fst findings_schema | Some cs \<Rightarrow> cs))
      else if has_prefix add_column_prefix sql then
        (fst d, map_option (\<lambda>cs. cs @ [takeWhile (\<lambda>c. c \<noteq> CHR '' '') (drop (length add_column_prefix) sql)]) (snd d))
      else d)"

definition mem_sqlite :: "MemDb Sqlite" where
  "mem_sqlite =
     \<lparr>sq_open = \<lambda>path d. (None, d), sq_exec = mem_exec, sq_prepare = \<lambda>sql d. True, sq_step = mem_step,
      sq_rows = mem_rows, sq_column_text = \<lambda>v. (case v of SqlText s \<Rightarrow> Some s | _ \<Rightarrow> None), sq_column_int = int_of,
      sq_column_int64 = int_of, sq_column_double = \<lambda>v. (case v of SqlReal x \<Rightarrow> x | _ \<Rightarrow> DFin False 0 0)\<rparr>"

definition mem_view :: "MemDb \<Rightarrow> Tables option" where
  "mem_view d = (if list_all scan_row_ok (tb_scans (fst d)) then Some (fst d) else None)"

definition mem_empty :: MemDb where
  "mem_empty = (\<lparr>tb_scans = [], tb_ports = [], tb_findings = []\<rparr>, None)"

lemma mem_sqlite_simps [simp]:
  "sq_open mem_sqlite path d = (None, d)" "sq_exec mem_sqlite = mem_exec" "sq_prepare mem_sqlite sql d"
  "sq_step mem_sqlite = mem_step" "sq_rows mem_sqlite = mem_rows" "sq_column_int mem_sqlite = int_of"
  "sq_column_int64 mem_sqlite = int_of"
  by (simp_all add: mem_sqlite_def)

lemmas statement_defs = save_finding_sql_def save_port_sql_def upsert_scan_sql_def update_scan_status_sql_def
  load_findings_sql_def load_ports_sql_def get_scan_sql_def table_info_sql_def

lemma statements_apart:
  "save_port_sql \<noteq> save_finding_sql" "upsert_scan_sql \<noteq> save_finding_sql" "upsert_scan_sql \<noteq> save_port_sql"
  "update_scan_status_sql \<noteq> save_finding_sql" "update_scan_status_sql \<noteq> save_port_sql"
  "update_scan_status_sql \<noteq> upsert_scan_sql" "load_ports_sql \<noteq> load_findings_sql" "get_scan_sql \<noteq> load_findings_sql"
  "get_scan_sql \<noteq> load_ports_sql" "table_info_sql \<noteq> load_findings_sql" "table_info_sql \<noteq> load_ports_sql"
  "table_info_sql \<noteq> get_scan_sql"
  by (simp_all add: statement_defs)

lemma mem_columns: "columns_contract mem_sqlite"
  by (simp add: columns_contract_def mem_sqlite_def int_of_def)

lemma mem_transactions: "transactions mem_sqlite mem_view"
proof -
  have "SQL_BEGIN \<noteq> create_findings_sql" "SQL_COMMIT \<noteq> create_findings_sql"
    "\<not> has_prefix add_column_prefix SQL_BEGIN" "\<not> has_prefix add_column_prefix SQL_COMMIT"
    by (simp_all add: SQL_BEGIN_def SQL_COMMIT_def create_findings_sql_def create_table_sql_def has_prefix_def add_column_prefix_def)
  then show ?thesis by (auto simp: transactions_def mem_exec_def)
qed

lemma mem_findings: "findings_contract mem_sqlite mem_view"
  by (auto simp: findings_contract_def mem_view_def mem_step_def mem_rows_def split: if_splits)

lemma mem_ports: "ports_contract mem_sqlite mem_view"
proof -
  have "\<exists>rows. mem_rows load_ports_sql [v] d = map (drop 1) rows \<and>
      mset rows = mset (filter (\<lambda>r. r ! 0 = v) (tb_ports (fst d))) \<and> sorted (map (\<lambda>r. int_of (r ! 1)) rows)" for d v
    by (rule exI[of _ "sort_key (\<lambda>r. int_of (r ! 1)) (filter (\<lambda>r. r ! 0 = v) (tb_ports (fst d)))"])
      (simp add: mem_rows_def statements_apart)
  then show ?thesis
    by (auto simp: ports_contract_def mem_view_def mem_step_def statements_apart split: if_splits)
qed

lemma set_status_ok:
  "scan_row_ok r \<Longrightarrow> is_text (vs ! 0) \<Longrightarrow> is_int (vs ! 1) \<Longrightarrow> is_int (vs ! 2) \<Longrightarrow> is_text (vs ! 3) \<Longrightarrow>
     scan_row_ok (set_status vs r)"
  by (simp add: scan_row_ok_def set_status_def)

lemma upsert_row_ok: "list_all scan_row_ok rows \<Longrightarrow> scan_row_ok row \<Longrightarrow> list_all scan_row_ok (upsert_row row rows)"
  using set_status_ok[of _ "[row ! 5, row ! 7, row ! 8, row ! 9]"]
  by (auto simp: upsert_row_def list_all_iff scan_row_ok_def[of row])

lemma update_rows_ok: "list_all scan_row_ok rows \<Longrightarrow> status_ok vs \<Longrightarrow> list_all scan_row_ok (update_rows vs rows)"
  using set_status_ok[of _ vs] by (auto simp: update_rows_def list_all_iff status_ok_def)

lemma mem_scans: "scans_contract mem_sqlite mem_view"
  using upsert_row_ok update_rows_ok
  by (auto simp: scans_contract_def mem_view_def mem_step_def mem_rows_def statements_apart split: if_splits)

lemma ensured_names: "c \<in> set ensured_columns \<Longrightarrow> CHR '' '' \<notin> set (fst c)"
  by (auto simp: ensured_columns_def)

lemma mem_schema: "schema_contract mem_sqlite snd"
proof -
  have "\<not> has_prefix add_column_prefix sql" if "sql \<in> set schema_statements" for sql
    using that by (auto simp: schema_statements_def schema_before_def create_findings_sql_def create_table_sql_def
        has_prefix_def add_column_prefix_def)
  moreover have "create_findings_sql \<in> set schema_statements" by (simp add: schema_statements_def)
  moreover have "add_column_sql (fst c) (snd c) \<noteq> create_findings_sql" for c
    by (simp add: add_column_sql_def create_findings_sql_def create_table_sql_def)
  moreover have "has_prefix add_column_prefix (add_column_sql a b)"
    "drop (length add_column_prefix) (add_column_sql a b) = a @ CHR '' '' # b" for a b
    by (simp_all add: add_column_sql_def add_column_prefix_def has_prefix_def)
  ultimately show ?thesis
    using ensured_names
    by (auto simp: schema_contract_def mem_exec_def mem_rows_def statements_apart mem_sqlite_def comp_def takeWhile_delim)
qed

lemma mem_empty_view: "mem_view mem_empty = Some \<lparr>tb_scans = [], tb_ports = [], tb_findings = []\<rparr>"
  by (simp add: mem_view_def mem_empty_def)

definition stored_sample :: Finding where
  "stored_sample = (sample_finding ''ACTIVE_CHECK'' ''banner'')\<lparr>f_references := [''https://a'', ''https://b'']\<rparr>"

theorem save_findings_roundtrip_witness:
  "\<exists>d'. save_findings mem_sqlite ''s1'' [stored_sample] mem_empty = (Inr (), d') \<and>
    load_findings mem_sqlite ''s1'' d' = Some [with_evidence_value stored_sample]"
proof -
  have "list_all storable_finding [stored_sample]"
    by (simp add: stored_sample_def sample_finding_def storable_finding_def finding_default_def evidence_default_def plain_def
        d_minus_one_def)
  from save_findings_roundtrip[OF mem_transactions mem_columns mem_findings mem_empty_view _ this, of "''s1''"]
  show ?thesis by simp blast
qed

definition sample_port :: "16 word \<Rightarrow> Port" where
  "sample_port n = port_default\<lparr>p_number := n, p_protocol := P_TCP, p_state := S_OPEN, p_service := ''ssh''\<rparr>"

theorem save_ports_roundtrip_witness:
  "\<exists>d' ps'. save_ports mem_sqlite ''s1'' [sample_port 80, sample_port 22] mem_empty = (Inr (), d') \<and>
    load_ports mem_sqlite ''s1'' d' = Some ps' \<and> sorted (map p_number ps') \<and>
    mset ps' = mset [sample_port 80, sample_port 22]"
proof -
  have ok: "list_all storable_port [sample_port 80, sample_port 22]"
    "distinct (map (\<lambda>p. (p_number p, p_protocol p)) [sample_port 80, sample_port 22])"
    by (simp_all add: sample_port_def storable_port_def port_default_def plain_def)
  have "\<forall>row\<in>set (tb_ports \<lparr>tb_scans = [], tb_ports = [], tb_findings = []\<rparr>). row ! 0 \<noteq> bind_text ''s1''" by simp
  moreover have "map (\<lambda>p. p\<lparr>p_state := S_OPEN\<rparr>) [sample_port 80, sample_port 22] = [sample_port 80, sample_port 22]"
    by (simp add: sample_port_def port_default_def)
  ultimately show ?thesis
    using save_ports_roundtrip[OF mem_transactions mem_columns mem_ports mem_empty_view _ ok, of "''s1''"] by simp
qed

definition sample_scan_row :: ScanRow where
  "sample_scan_row =
     \<lparr>sr_id = ''s1'', sr_user_sub = ''u'', sr_target = ''10.0.0.1'', sr_port_start = 1, sr_port_end = 1024,
      sr_status = ''queued'', sr_started_at = 1700000000, sr_completed_at = 0, sr_scanned_ports = 0, sr_error = []\<rparr>"

theorem upsert_scan_get_witness:
  "get_scan mem_sqlite ''s1'' (upsert_scan mem_sqlite sample_scan_row mem_empty) = Some (Some sample_scan_row)"
proof -
  have "storable_scan sample_scan_row"
    by (simp add: sample_scan_row_def storable_scan_def plain_def int32_def int64_def INT_MIN_def INT_MAX_def)
  moreover have "get_scan mem_sqlite ''s1'' mem_empty = Some None"
    by (simp add: get_scan_def mem_rows_def statements_apart mem_empty_def)
  moreover have "sr_id sample_scan_row = ''s1''" by (simp add: sample_scan_row_def)
  ultimately show ?thesis
    using upsert_scan_get[OF mem_columns mem_scans mem_empty_view, of sample_scan_row "''s1''"] by (simp add: c_str_def)
qed

theorem db_open_columns_witness:
  "\<exists>logged d'. db_open mem_sqlite ''zt.db'' mem_empty = (True, logged, d') \<and> snd d' = Some (map fst findings_schema)"
proof -
  have all: "\<exists>d'. exec_all mem_sqlite sqls d = (Inr (), d')" for sqls d
    by (induction sqls arbitrary: d) (simp_all add: exec_sql_def mem_exec_def)
  have "\<exists>d'. ensure_all mem_sqlite cs d = (Inr (), d')" for cs d
    by (induction cs arbitrary: d) (simp_all add: ensure_finding_column_def exec_sql_def mem_exec_def)
  then obtain d2 where d2: "ensure_all mem_sqlite ensured_columns (snd (exec_all mem_sqlite schema_statements mem_empty)) = (Inr (), d2)"
    by blast
  have "db_open mem_sqlite ''zt.db'' mem_empty = (True, None, d2)"
    using all[of schema_statements mem_empty] d2 by (auto simp: db_open_def)
  with db_open_columns[OF mem_schema _ this, of mem_empty] show ?thesis by (auto simp: mem_empty_def)
qed

end
