(* ===== verification/WebText.thy ===== *)
theory WebText
  imports Findings
begin

text \<open>
  The text formats of \<open>webui/webui.cpp\<close>: base64url, percent encoding, the small JSON reader and
  writer, cookies, and the claims of an id token.  OpenSSL's base64 is the record \<open>Base64\<close>.  An
  overflow of \<open>long\<close> is undefined: \<open>None\<close>.
\<close>

section \<open>base64url\<close>

text \<open>The base64 filter of a BIO without line breaks: writing, and reading (what is delivered before
  an error).\<close>

record Base64 =
  b64_write :: "string \<Rightarrow> string"
  b64_read :: "string \<Rightarrow> string"

definition to_url_char :: "char \<Rightarrow> char" where
  "to_url_char c = (if c = CHR ''+'' then CHR ''-'' else if c = CHR ''/'' then CHR ''_'' else c)"

definition from_url_char :: "char \<Rightarrow> char" where
  "from_url_char c = (if c = CHR ''-'' then CHR ''+'' else if c = CHR ''_'' then CHR ''/'' else c)"

definition strip_pad :: "string \<Rightarrow> string" where
  "strip_pad s = rev (dropWhile (\<lambda>c. c = CHR ''='') (rev s))"

definition b64url_encode :: "Base64 \<Rightarrow> string \<Rightarrow> string" where
  "b64url_encode b data = strip_pad (map to_url_char (b64_write b data))"

definition pad4 :: "string \<Rightarrow> string" where
  "pad4 t = t @ replicate ((4 - length t mod 4) mod 4) (CHR ''='')"

definition b64url_decode :: "Base64 \<Rightarrow> string \<Rightarrow> string" where
  "b64url_decode b s = b64_read b (pad4 (map from_url_char s))"

section \<open>Percent encoding\<close>

definition hex_char :: "nat \<Rightarrow> char" where
  "hex_char n = (if n < 10 then char_of (48 + n) else char_of (87 + n))"

definition unreserved :: "char \<Rightarrow> bool" where
  "unreserved c \<longleftrightarrow> is_upper c \<or> is_lower c \<or> is_digit c \<or> c \<in> {CHR ''-'', CHR ''_'', CHR ''.'', CHR ''~''}"

definition urlencode_char :: "char \<Rightarrow> string" where
  "urlencode_char c =
     (if unreserved c then [c] else [CHR ''%'', hex_char (code c div 16), hex_char (code c mod 16)])"

definition urlencode :: "string \<Rightarrow> string" where
  "urlencode s = concat (map urlencode_char s)"

section \<open>Reading JSON fields\<close>

definition json_key :: "string \<Rightarrow> string" where
  "json_key key = DQUOTE # key @ [DQUOTE]"

text \<open>The text after the colon of a key, from its first character that is not white space.\<close>

definition json_after_key :: "string \<Rightarrow> string \<Rightarrow> string option" where
  "json_after_key src key =
     (case str_find src (json_key key) 0 of
        None \<Rightarrow> None
      | Some p \<Rightarrow>
          (case str_find src '':'' (p + length (json_key key)) of
             None \<Rightarrow> None
           | Some q \<Rightarrow> Some (dropWhile is_space (drop (q + 1) src))))"

definition unescape_char :: "char \<Rightarrow> char" where
  "unescape_char e = (if e = CHR ''n'' then LF else if e = CHR ''t'' then TAB else e)"

fun json_string_body :: "string \<Rightarrow> string" where
  "json_string_body [] = []"
| "json_string_body [c] = (if c = DQUOTE then [] else [c])"
| "json_string_body (c # e # s) =
     (if c = DQUOTE then []
      else if c = BSLASH then unescape_char e # json_string_body s
      else c # json_string_body (e # s))"

definition json_string_field :: "string \<Rightarrow> string \<Rightarrow> string" where
  "json_string_field src key =
     (case json_after_key src key of
        Some (c # s) \<Rightarrow> if c = DQUOTE then json_string_body s else []
      | _ \<Rightarrow> [])"

definition LONG_MAX :: int where
  "LONG_MAX = 2 ^ 63 - 1"

fun json_digits :: "string \<Rightarrow> int \<Rightarrow> int option" where
  "json_digits [] v = Some v"
| "json_digits (c # s) v =
     (if is_digit c then
        (if v * 10 + int (digit_val c) \<le> LONG_MAX then json_digits s (v * 10 + int (digit_val c)) else None)
      else Some v)"

definition json_number_field :: "string \<Rightarrow> string \<Rightarrow> int option" where
  "json_number_field src key =
     (case json_after_key src key of
        None \<Rightarrow> Some 0
      | Some s \<Rightarrow>
          (case s of
             c # s' \<Rightarrow> if c = CHR ''-'' then map_option uminus (json_digits s' 0) else json_digits s 0
           | [] \<Rightarrow> Some 0))"

section \<open>Writing JSON\<close>

definition json_escape_char :: "char \<Rightarrow> string" where
  "json_escape_char c =
     (if c = DQUOTE then [BSLASH, DQUOTE]
      else if c = BSLASH then [BSLASH, BSLASH]
      else if c = LF then [BSLASH, CHR ''n'']
      else if c = CR then [BSLASH, CHR ''r'']
      else if c = TAB then [BSLASH, CHR ''t'']
      else if code c < 0x20 then [BSLASH, CHR ''u'', CHR ''0'', CHR ''0'', hex_char (code c div 16), hex_char (code c mod 16)]
      else [c])"

definition json_escape :: "string \<Rightarrow> string" where
  "json_escape s = concat (map json_escape_char s)"

text \<open>A string between quotes, as all writers of the file put it.\<close>

definition json_quoted :: "string \<Rightarrow> string" where
  "json_quoted s = DQUOTE # json_escape s @ [DQUOTE]"

definition json_string_array :: "string list \<Rightarrow> string" where
  "json_string_array values = CHR ''['' # join_with '','' (map json_quoted values) @ '']''"

section \<open>Cookies\<close>

text \<open>The value of a cookie in the text of a \<open>Cookie\<close> header; the position of the code is the
  remaining suffix.\<close>

function cookie_scan :: "string \<Rightarrow> string \<Rightarrow> string" where
  "cookie_scan pfx s =
     (if s = [] then []
      else
        let s1 = dropWhile (\<lambda>c. c = CHR '' '' \<or> c = CHR '';'') s;
            kv = takeWhile (\<lambda>c. c \<noteq> CHR '';'') s1;
            rest = dropWhile (\<lambda>c. c \<noteq> CHR '';'') s1
        in if has_prefix pfx kv then drop (length pfx) kv
           else if rest = [] then []
           else cookie_scan pfx (drop 1 rest))"
  by pat_completeness auto
termination
proof (relation "measure (\<lambda>(p, s). length s)")
  fix pfx s s1 kv rest :: string
  assume *: "s \<noteq> []" "s1 = dropWhile (\<lambda>c. c = CHR '' '' \<or> c = CHR '';'') s"
    "rest = dropWhile (\<lambda>c. c \<noteq> CHR '';'') s1" "rest \<noteq> []"
  have "length rest \<le> length s" unfolding *(2,3) using length_dropWhile_le order_trans by blast
  then show "((pfx, drop 1 rest), (pfx, s)) \<in> measure (\<lambda>(p, s). length s)" using *(4) by (cases rest) auto
qed simp

declare cookie_scan.simps [simp del]

definition cookie_value :: "string option \<Rightarrow> string \<Rightarrow> string" where
  "cookie_value header name = (case header of None \<Rightarrow> [] | Some cookies \<Rightarrow> cookie_scan (name @ ''='') cookies)"

section \<open>The id token\<close>

record IdTokenClaims =
  cl_iss :: string
  cl_sub :: string
  cl_aud :: string
  cl_email :: string
  cl_nonce :: string
  cl_exp :: int

text \<open>The outer \<open>None\<close> is undefined behaviour, the inner one \<open>nullopt\<close>.\<close>

definition decode_id_token :: "Base64 \<Rightarrow> string \<Rightarrow> IdTokenClaims option option" where
  "decode_id_token b jwt =
     (case str_find jwt ''.'' 0 of
        None \<Rightarrow> Some None
      | Some p1 \<Rightarrow>
          (case str_find jwt ''.'' (p1 + 1) of
             None \<Rightarrow> Some None
           | Some p2 \<Rightarrow>
               let payload = b64url_decode b (take (p2 - p1 - 1) (drop (p1 + 1) jwt)) in
               if payload = [] then Some None
               else map_option (\<lambda>e. Some
                 \<lparr>cl_iss = json_string_field payload ''iss'', cl_sub = json_string_field payload ''sub'',
                  cl_aud = json_string_field payload ''aud'', cl_email = json_string_field payload ''email'',
                  cl_nonce = json_string_field payload ''nonce'', cl_exp = e\<rparr>)
                 (json_number_field payload ''exp'')))"

section \<open>Percent encoding is read back\<close>

text \<open>The decoding of RFC 3986.\<close>

definition hex_val :: "char \<Rightarrow> nat" where
  "hex_val c = (if is_digit c then code c - 48 else if is_upper c then code c - 55 else code c - 87)"

fun percent_decode :: "string \<Rightarrow> string" where
  "percent_decode (c # x # y # s) =
     (if c = CHR ''%'' then char_of (16 * hex_val x + hex_val y) # percent_decode s else c # percent_decode (x # y # s))"
| "percent_decode (c # s) = c # percent_decode s"
| "percent_decode [] = []"

lemma unreserved_not_percent: "unreserved c \<Longrightarrow> c \<noteq> CHR ''%''"
  by (auto simp: unreserved_def ctype_simps)

lemma hex_val_hex: "n < 16 \<Longrightarrow> hex_val (hex_char n) = n"
  by (auto simp: hex_val_def hex_char_def ctype_simps of_char_of)

lemma percent_decode_Cons: "c \<noteq> CHR ''%'' \<Longrightarrow> percent_decode (c # s) = c # percent_decode s"
  by (cases s; cases "tl s") auto

lemma code_lt: "code c < 256"
  by (metis of_char_mod_256 mod_less_divisor zero_less_numeral)

lemma nibble_lt: "code c div 16 < 16"
  by (rule less_mult_imp_div_less) (use code_lt[of c] in simp)

lemma percent_decode_char: "percent_decode (urlencode_char c @ s) = c # percent_decode s"
proof (cases "unreserved c")
  case True
  then show ?thesis using percent_decode_Cons[OF unreserved_not_percent[OF True]] by (simp add: urlencode_char_def)
next
  case False
  have h: "code c div 16 < 16" "code c mod 16 < 16" using nibble_lt[of c] by auto
  have "char_of (16 * (code c div 16) + code c mod 16) = c" by simp
  then show ?thesis using False hex_val_hex[OF h(1)] hex_val_hex[OF h(2)] by (simp add: urlencode_char_def)
qed

lemma hex_char_unreserved: "n < 16 \<Longrightarrow> unreserved (hex_char n)"
  by (auto simp: unreserved_def hex_char_def ctype_simps of_char_of)

text \<open>A parameter survives its way into a query: decoding what \<open>urlencode\<close> writes gives back every byte
  string, and what it writes holds unreserved characters and percent signs only, so a value
  can neither end its parameter nor start another one.\<close>

theorem urlencode_roundtrip:
  "percent_decode (urlencode s) = s \<and> list_all (\<lambda>c. unreserved c \<or> c = CHR ''%'') (urlencode s)"
proof -
  have "percent_decode (urlencode s) = s"
    by (induction s) (simp_all add: urlencode_def percent_decode_char)
  moreover have "list_all (\<lambda>x. unreserved x \<or> x = CHR ''%'') (urlencode_char c)" for c
    using hex_char_unreserved[OF nibble_lt[of c]] hex_char_unreserved[of "code c mod 16"] by (simp add: urlencode_char_def)
  then have "list_all (\<lambda>c. unreserved c \<or> c = CHR ''%'') (urlencode s)"
    by (induction s) (simp_all add: urlencode_def)
  ultimately show ?thesis by blast
qed

section \<open>JSON strings are read back\<close>

text \<open>The bytes that the reader gives back: it knows the escapes of newline and tab, but neither \<open>\r\<close>
  nor \<open>\u\<close>.\<close>

definition json_plain :: "char \<Rightarrow> bool" where
  "json_plain c \<longleftrightarrow> 0x20 \<le> code c \<or> c = LF \<or> c = TAB"

lemma json_plain_cases:
  assumes "json_plain c"
  obtains "json_escape_char c = [c]" "c \<noteq> DQUOTE" "c \<noteq> BSLASH"
  | e where "json_escape_char c = [BSLASH, e]" "unescape_char e = c"
proof (cases "c \<in> {DQUOTE, BSLASH, LF, TAB}")
  case True
  then show ?thesis using that(2) by (auto simp: json_escape_char_def unescape_char_def)
next
  case False
  moreover have "c \<noteq> CR" "\<not> code c < 0x20" using assms False by (auto simp: json_plain_def)
  ultimately show ?thesis using that(1) by (simp add: json_escape_char_def)
qed

lemma json_string_body_escaped:
  "list_all json_plain v \<Longrightarrow> json_string_body (json_escape v @ DQUOTE # rest) = v"
proof (induction v)
  case Nil
  show ?case by (cases rest) (simp_all add: json_escape_def)
next
  case (Cons c v)
  have e: "json_escape (c # v) = json_escape_char c @ json_escape v" by (simp add: json_escape_def)
  have IH: "json_string_body (json_escape v @ DQUOTE # rest) = v" using Cons by simp
  from Cons.prems have "json_plain c" by simp
  then show ?case
  proof (cases rule: json_plain_cases)
    case 1
    then show ?thesis using IH by (cases "json_escape v @ DQUOTE # rest") (simp_all add: e)
  next
    case (2 x)
    then show ?thesis using IH by (simp add: e)
  qed
qed

lemma str_find_here:
  assumes "\<forall>j<length pre. \<not> has_prefix p (drop j (pre @ p @ rest))"
  shows "str_find (pre @ p @ rest) p 0 = Some (length pre)"
proof -
  have "find_sub p s k = Some (k + n)"
    if "\<forall>j<n. \<not> has_prefix p (drop j s)" "has_prefix p (drop n s)" "n \<le> length s" for s k n
    using that
  proof (induction s arbitrary: k n)
    case Nil
    then show ?case by (auto simp: has_prefix_def)
  next
    case (Cons c s)
    show ?case
    proof (cases n)
      case 0
      then show ?thesis using Cons.prems by simp
    next
      case (Suc m)
      have "\<not> has_prefix p (c # s)" using Cons.prems(1) Suc by auto
      moreover have "\<forall>j<m. \<not> has_prefix p (drop j s)" using Cons.prems(1) Suc by fastforce
      ultimately show ?thesis using Cons.IH[of m "Suc k"] Cons.prems(2,3) Suc by simp
    qed
  qed
  from this[of "length pre" "pre @ p @ rest" 0] assms show ?thesis by (simp add: str_find_def has_prefix_def)
qed

lemma find_colon: "str_find (pre @ CHR '':'' # rest) '':'' (length pre) = Some (length pre)"
  by (simp add: str_find_def has_prefix_def)

text \<open>The JSON reader of the login gives back what the writer wrote: a field of an object whose value
  was escaped by \<open>json_escape\<close> is read as exactly this value, whatever precedes the key (as long as the
  quoted key does not occur before), whatever follows, and whether or not there is white
  space after the colon; quotes and backslashes in the value are no exception.\<close>

theorem json_field_roundtrip:
  assumes "\<forall>j<length pre. \<not> has_prefix (json_key key) (drop j (pre @ json_key key @ '':'' @ ws @ json_quoted v @ rest))"
    and "list_all is_space ws" and "list_all json_plain v"
  shows "json_string_field (pre @ json_key key @ '':'' @ ws @ json_quoted v @ rest) key = v"
proof -
  let ?src = "pre @ json_key key @ '':'' @ ws @ json_quoted v @ rest"
  have f: "str_find ?src (json_key key) 0 = Some (length pre)" by (rule str_find_here[OF assms(1)])
  have c: "str_find ?src '':'' (length pre + length (json_key key)) = Some (length pre + length (json_key key))"
    using find_colon[of "pre @ json_key key" "ws @ json_quoted v @ rest"] by simp
  have "dropWhile is_space (ws @ json_quoted v @ rest) = json_quoted v @ rest"
    using assms(2) by (simp add: json_quoted_def dropWhile_append2 list_all_iff is_space_def)
  then have "json_after_key ?src key = Some (json_quoted v @ rest)"
    using f c by (simp add: json_after_key_def)
  then show ?thesis
    using json_string_body_escaped[OF assms(3)] by (simp add: json_string_field_def json_quoted_def)
qed

theorem json_field_roundtrip_witness:
  "json_string_field (''{'' @ json_key ''sub'' @ '':'' @ '' '' @ json_quoted [CHR ''a'', DQUOTE, LF, BSLASH] @ '',...}'') ''sub'' =
    [CHR ''a'', DQUOTE, LF, BSLASH]"
proof (rule json_field_roundtrip)
  show "\<forall>j<length ''{''. \<not> has_prefix (json_key ''sub'')
      (drop j (''{'' @ json_key ''sub'' @ '':'' @ '' '' @ json_quoted [CHR ''a'', DQUOTE, LF, BSLASH] @ '',...}''))"
    by (simp add: json_key_def has_prefix_def)
  show "list_all is_space '' ''" by (simp add: is_space_def)
  show "list_all json_plain [CHR ''a'', DQUOTE, LF, BSLASH]" by (simp add: json_plain_def)
qed

text \<open>The two escapes that are written but not read: a carriage return comes back as the letter r.\<close>

lemma carriage_return_not_read_back:
  "json_string_body (json_escape [CR] @ [DQUOTE]) = ''r''"
  by (simp add: json_escape_def json_escape_char_def unescape_char_def)

text \<open>No byte below the space leaves the writer: what it writes cannot break a line.\<close>

lemma hex_char_visible: "n < 16 \<Longrightarrow> 0x20 \<le> code (hex_char n)"
  by (auto simp: hex_char_def of_char_of)

lemma json_escape_visible: "list_all (\<lambda>c. 0x20 \<le> code c) (json_escape s)"
proof -
  have "list_all (\<lambda>x. 0x20 \<le> code x) (json_escape_char c)" for c
    using hex_char_visible[OF nibble_lt[of c]] hex_char_visible[of "code c mod 16"] by (simp add: json_escape_char_def)
  then show ?thesis by (induction s) (simp_all add: json_escape_def)
qed

section \<open>Cookies are read back\<close>

text \<open>A header as browsers write it.\<close>

definition cookie_header :: "(string \<times> string) list \<Rightarrow> string" where
  "cookie_header cs = join_with ''; '' (map (\<lambda>(n, v). n @ ''='' @ v) cs)"

definition cookie_name :: "string \<Rightarrow> bool" where
  "cookie_name n \<longleftrightarrow> n \<noteq> [] \<and> list_all (\<lambda>c. c \<notin> {CHR '' '', CHR '';'', CHR ''=''}) n"

lemma cookie_header_Cons:
  "cookie_header ((n, v) # cs) = n @ CHR ''='' # v @ (if cs = [] then [] else CHR '';'' # CHR '' '' # cookie_header cs)"
  by (cases cs) (auto simp: cookie_header_def)

lemma name_prefix:
  assumes "CHR ''='' \<notin> set m" "CHR ''='' \<notin> set n"
  shows "has_prefix (m @ ''='') (n @ CHR ''='' # v) \<longleftrightarrow> m = n"
proof
  assume "has_prefix (m @ ''='') (n @ CHR ''='' # v)"
  then have "n @ CHR ''='' # v = (m @ ''='') @ drop (length (m @ ''='')) (n @ CHR ''='' # v)"
    unfolding has_prefix_def using append_take_drop_id[of "length (m @ ''='')" "n @ CHR ''='' # v"] by argo
  then obtain r where r: "n @ CHR ''='' # v = m @ CHR ''='' # r" by auto
  show "m = n"
    using arg_cong[OF r, of "takeWhile (\<lambda>c. c \<noteq> CHR ''='')"] unfolding takeWhile_delim[OF assms(1)] takeWhile_delim[OF assms(2)] by simp
qed (simp add: has_prefix_def)

lemma cookie_scan_at:
  assumes "s \<noteq> []" "dropWhile (\<lambda>c. c = CHR '' '' \<or> c = CHR '';'') s = s1"
  shows "cookie_scan pfx s =
    (if has_prefix pfx (takeWhile (\<lambda>c. c \<noteq> CHR '';'') s1) then drop (length pfx) (takeWhile (\<lambda>c. c \<noteq> CHR '';'') s1)
     else if dropWhile (\<lambda>c. c \<noteq> CHR '';'') s1 = [] then []
     else cookie_scan pfx (drop 1 (dropWhile (\<lambda>c. c \<noteq> CHR '';'') s1)))"
  unfolding cookie_scan.simps[of pfx s] Let_def assms(2) by (simp only: assms(1) if_False)

lemma cookie_scan_none: "cookie_scan (name @ ''='') [] = []"
  by (subst cookie_scan.simps) simp

text \<open>A cookie is found in the header of the browser: for any list of cookies the value returned is that of
  the first one with this name, and the empty text when there is none; a cookie whose name or value
  only ends in the name searched is not taken for it.\<close>

theorem cookie_value_first:
  assumes "cookie_name name" "list_all (\<lambda>(n, v). cookie_name n \<and> CHR '';'' \<notin> set v) cs"
  shows "cookie_value (Some (cookie_header cs)) name = (case map_of cs name of None \<Rightarrow> [] | Some v \<Rightarrow> v)"
proof -
  have "cookie_scan (name @ ''='') (ws @ cookie_header cs) = (case map_of cs name of None \<Rightarrow> [] | Some v \<Rightarrow> v)"
    if "list_all (\<lambda>c. c = CHR '' '' \<or> c = CHR '';'') ws" for ws
    using assms(2) that
  proof (induction cs arbitrary: ws)
    case Nil
    have d: "dropWhile (\<lambda>c. c = CHR '' '' \<or> c = CHR '';'') ws = []" using Nil(2) by (simp add: list_all_iff)
    have "cookie_scan (name @ ''='') ws = []"
    proof (cases "ws = []")
      case False
      from cookie_scan_at[OF this d] show ?thesis by (simp add: has_prefix_def)
    qed (simp only: cookie_scan_none)
    then show ?case by (simp add: cookie_header_def)
  next
    case (Cons c cs)
    obtain n v where c: "c = (n, v)" by (cases c)
    let ?kv = "n @ CHR ''='' # v" and ?sep = "\<lambda>c. c = CHR '' '' \<or> c = CHR '';''"
    let ?tail = "if cs = [] then [] else CHR '';'' # CHR '' '' # cookie_header cs"
    have n: "cookie_name n" and v: "CHR '';'' \<notin> set v" using Cons.prems(1) c by simp_all
    have head: "cookie_header (c # cs) = ?kv @ ?tail" by (simp add: c cookie_header_Cons)
    have "CHR '';'' \<notin> set n" using n by (auto simp: cookie_name_def list_all_iff)
    then have no: "CHR '';'' \<notin> set ?kv" using v by simp
    obtain x xs where x: "n = x # xs" "\<not> ?sep x" using n by (cases n) (auto simp: cookie_name_def)
    have d: "dropWhile ?sep (ws @ ?kv @ ?tail) = ?kv @ ?tail"
      using Cons.prems(2) x by (simp add: list_all_iff dropWhile_append2)
    have t: "takeWhile (\<lambda>c. c \<noteq> CHR '';'') (?kv @ ?tail) = ?kv" "dropWhile (\<lambda>c. c \<noteq> CHR '';'') (?kv @ ?tail) = ?tail"
      unfolding if_distrib[of "(@) ?kv"] append_Nil2
      by (simp_all only: if_distrib[of "takeWhile _"] if_distrib[of "dropWhile _"] takeWhile_notin[OF no] dropWhile_notin[OF no]
          takeWhile_delim[OF no] dropWhile_delim[OF no] if_cancel)
    have eqs: "CHR ''='' \<notin> set name" "CHR ''='' \<notin> set n"
      using assms(1) n by (auto simp: cookie_name_def list_all_iff)
    have ne: "ws @ ?kv @ ?tail \<noteq> []" by simp
    have step: "cookie_scan (name @ ''='') (ws @ ?kv @ ?tail) =
        (if name = n then v else if cs = [] then [] else cookie_scan (name @ ''='') ('' '' @ cookie_header cs))"
      unfolding cookie_scan_at[OF ne d] t name_prefix[OF eqs] by simp
    show ?case
      unfolding head step using Cons.IH[of "'' ''"] Cons.prems(1) c by auto
  qed
  from this[of "[]"] show ?thesis by (simp add: cookie_value_def)
qed

theorem cookie_value_first_witness:
  "cookie_value (Some (cookie_header [(''lang'', ''zt_session=x''), (''zt_session'', ''abc'')])) ''zt_session'' = ''abc''"
proof -
  have "cookie_name ''zt_session''" "cookie_name ''lang''" by (simp_all add: cookie_name_def)
  then show ?thesis
    using cookie_value_first[of "''zt_session''" "[(''lang'', ''zt_session=x''), (''zt_session'', ''abc'')]"] by simp
qed

end
