(* ===== verification/WebAuth.thy ===== *)
theory WebAuth
  imports WebText "HOL-Library.Multiset"
begin

text \<open>
  The sign-in of \<open>webui/webui.cpp\<close>: the OpenID Connect flow with PKCE, sessions and cookies.
  Random bytes and times are arguments; HTTPS calls and cryptography are the record \<open>Outside\<close>.  A
  callback takes its flow under one lock and stores its session under another, with two
  HTTPS calls between, so requests interleave: the server is a transition system.
\<close>

section \<open>Requests and responses\<close>

record Request =
  rq_cookie :: "string option"
  rq_params :: "(string \<times> string) list"
  rq_body :: string
  rq_match :: string

text \<open>A handler starts with status 200 and an empty response; \<open>set_redirect\<close> is 302 with a
  \<open>Location\<close>.\<close>

record Response =
  rs_status :: int
  rs_content :: string
  rs_content_type :: string
  rs_headers :: "(string \<times> string) list"

definition response_new :: Response where
  "response_new = \<lparr>rs_status = 200, rs_content = [], rs_content_type = [], rs_headers = []\<rparr>"

definition set_content :: "string \<Rightarrow> string \<Rightarrow> Response \<Rightarrow> Response" where
  "set_content s content_type res = res\<lparr>rs_content := s, rs_content_type := content_type\<rparr>"

definition set_header :: "string \<Rightarrow> string \<Rightarrow> Response \<Rightarrow> Response" where
  "set_header k v res = res\<lparr>rs_headers := rs_headers res @ [(k, v)]\<rparr>"

definition set_redirect :: "string \<Rightarrow> Response \<Rightarrow> Response" where
  "set_redirect url res = (set_header ''Location'' url res)\<lparr>rs_status := 302\<rparr>"

definition fail_with :: "int \<Rightarrow> string \<Rightarrow> Response" where
  "fail_with status msg = set_content msg ''text/plain'' (response_new\<lparr>rs_status := status\<rparr>)"

definition fail_json :: "int \<Rightarrow> string \<Rightarrow> Response" where
  "fail_json status msg = set_content msg ''application/json'' (response_new\<lparr>rs_status := status\<rparr>)"

definition has_param :: "Request \<Rightarrow> string \<Rightarrow> bool" where
  "has_param req k \<longleftrightarrow> map_of (rq_params req) k \<noteq> None"

definition get_param_value :: "Request \<Rightarrow> string \<Rightarrow> string" where
  "get_param_value req k = (case map_of (rq_params req) k of None \<Rightarrow> [] | Some v \<Rightarrow> v)"

section \<open>Configuration and state\<close>

record Config =
  cf_listen_host :: string
  cf_listen_port :: int
  cf_public_host :: string
  cf_public_url :: string
  cf_client_id :: string
  cf_redirect_uri :: string
  cf_scopes :: string
  cf_issuer :: string
  cf_authorize_url :: string
  cf_token_host :: string
  cf_token_path :: string
  cf_userinfo_path :: string
  cf_session_ttl_s :: int

definition config_default :: Config where
  "config_default =
     \<lparr>cf_listen_host = ''127.0.0.1'', cf_listen_port = 8344, cf_public_host = ''localhost'',
      cf_public_url = ''http://localhost:8344'',
      cf_client_id = ''23712557077-nnpfbtqte5qypaercy2b79cz4g3bp1fg.apps.agglabs.com'',
      cf_redirect_uri = ''http://localhost:8344/callback'', cf_scopes = ''openid profile email'',
      cf_issuer = ''https://one.agglabs.com'', cf_authorize_url = ''https://one.agglabs.com/consent'',
      cf_token_host = ''https://gate.one.agglabs.com'', cf_token_path = ''/token'',
      cf_userinfo_path = ''/userinfo'', cf_session_ttl_s = 3600\<rparr>"

text \<open>Points of the steady clock are nanoseconds.\<close>

definition seconds :: "int \<Rightarrow> int" where
  "seconds n = n * 10 ^ 9"

record PendingFlow =
  pf_verifier :: string
  pf_nonce :: string
  pf_expires :: int

record Session =
  se_sub :: string
  se_email :: string
  se_username :: string
  se_picture :: string
  se_expires :: int

text \<open>The two maps of the server, each behind its own mutex.\<close>

record Auth =
  au_pending :: "string \<Rightarrow> PendingFlow option"
  au_sessions :: "string \<Rightarrow> Session option"

definition auth_new :: Auth where
  "auth_new = \<lparr>au_pending = Map.empty, au_sessions = Map.empty\<rparr>"

text \<open>\<open>http_post_form\<close> and \<open>http_get_bearer\<close> give the body of the answer, or nothing.\<close>

record Outside =
  ou_base64 :: Base64
  ou_sha256 :: "string \<Rightarrow> string"
  ou_post_form :: "string \<Rightarrow> string \<Rightarrow> string \<Rightarrow> string"
  ou_get_bearer :: "string \<Rightarrow> string \<Rightarrow> string \<Rightarrow> string"

definition random_urlsafe :: "Outside \<Rightarrow> string \<Rightarrow> string" where
  "random_urlsafe ou bytes = b64url_encode (ou_base64 ou) bytes"

definition sha256_urlsafe :: "Outside \<Rightarrow> string \<Rightarrow> string" where
  "sha256_urlsafe ou s = b64url_encode (ou_base64 ou) (ou_sha256 ou s)"

section \<open>Sessions\<close>

definition session_cookie :: "Request \<Rightarrow> string" where
  "session_cookie req = cookie_value (rq_cookie req) ''zt_session''"

definition get_session :: "int \<Rightarrow> Request \<Rightarrow> Auth \<Rightarrow> Session option \<times> Auth" where
  "get_session now req a =
     (let sid = session_cookie req in
      if sid = [] then (None, a)
      else case au_sessions a sid of
             None \<Rightarrow> (None, a)
           | Some s \<Rightarrow>
               if se_expires s < now then (None, a\<lparr>au_sessions := (au_sessions a)(sid := None)\<rparr>) else (Some s, a))"

text \<open>The response of a refusal, or \<open>None\<close> when the handler goes on.\<close>

definition require_session :: "int \<Rightarrow> Request \<Rightarrow> Auth \<Rightarrow> Response option \<times> Auth" where
  "require_session now req a =
     (case get_session now req a of
        (None, a) \<Rightarrow> (Some (fail_json 401 (''{'' @ json_quoted ''error'' @ '':'' @ json_quoted ''not_signed_in'' @ ''}'')), a)
      | (Some s, a) \<Rightarrow> (None, a))"

definition root_page :: "string \<Rightarrow> int \<Rightarrow> Request \<Rightarrow> Auth \<Rightarrow> Response \<times> Auth" where
  "root_page dashboard_html now req a =
     (case get_session now req a of
        (None, a) \<Rightarrow> (set_redirect ''/login'' response_new, a)
      | (Some s, a) \<Rightarrow> (set_content dashboard_html ''text/html; charset=utf-8'' response_new, a))"

definition logout :: "Request \<Rightarrow> Auth \<Rightarrow> Response \<times> Auth" where
  "logout req a =
     (let sid = session_cookie req in
      (set_redirect ''/login'' (set_header ''Set-Cookie'' ''zt_session=; HttpOnly; SameSite=Lax; Path=/; Max-Age=0'' response_new),
       if sid = [] then a else a\<lparr>au_sessions := (au_sessions a)(sid := None)\<rparr>))"

definition me_text :: "Session \<Rightarrow> string" where
  "me_text s =
     ''{'' @ json_quoted ''sub'' @ '':'' @ json_quoted (se_sub s) @ '','' @
     json_quoted ''email'' @ '':'' @ json_quoted (se_email s) @ '','' @
     json_quoted ''username'' @ '':'' @ json_quoted (se_username s) @ '','' @
     json_quoted ''picture'' @ '':'' @ json_quoted (se_picture s) @ ''}''"

text \<open>\<open>me\<close> looks the session up twice, at two times; when it expires between, the handler
  dereferences an empty optional: \<open>None\<close>.\<close>

definition me :: "int \<Rightarrow> int \<Rightarrow> Request \<Rightarrow> Auth \<Rightarrow> (Response \<times> Auth) option" where
  "me now1 now2 req a =
     (case require_session now1 req a of
        (Some res, a) \<Rightarrow> Some (res, a)
      | (None, a) \<Rightarrow>
          (case get_session now2 req a of
             (None, a) \<Rightarrow> None
           | (Some s, a) \<Rightarrow> Some (set_content (me_text s) ''application/json'' response_new, a)))"

section \<open>Signing in\<close>

definition authorize_target :: "Config \<Rightarrow> string \<Rightarrow> string \<Rightarrow> string \<Rightarrow> string" where
  "authorize_target cfg state nonce challenge =
     cf_authorize_url cfg @ ''?response_type=code'' @
     ''&client_id='' @ urlencode (cf_client_id cfg) @
     ''&redirect_uri='' @ urlencode (cf_redirect_uri cfg) @
     ''&scope='' @ urlencode (cf_scopes cfg) @
     ''&state='' @ urlencode state @
     ''&nonce='' @ urlencode nonce @
     ''&code_challenge='' @ urlencode challenge @
     ''&code_challenge_method=S256''"

text \<open>The flow that the random bytes \<open>(r1, r2, r3)\<close> give.\<close>

definition new_flow :: "Outside \<Rightarrow> int \<Rightarrow> string \<times> string \<times> string \<Rightarrow> string \<times> PendingFlow" where
  "new_flow ou now rb =
     (random_urlsafe ou (fst (snd rb)),
      \<lparr>pf_verifier = random_urlsafe ou (fst rb), pf_nonce = random_urlsafe ou (snd (snd rb)),
       pf_expires = now + seconds 600\<rparr>)"

definition auth_start :: "Config \<Rightarrow> Outside \<Rightarrow> int \<Rightarrow> string \<times> string \<times> string \<Rightarrow> Auth \<Rightarrow> Response \<times> Auth" where
  "auth_start cfg ou now rb a =
     (let (state, flow) = new_flow ou now rb;
          challenge = sha256_urlsafe ou (pf_verifier flow)
      in (set_redirect (authorize_target cfg state (pf_nonce flow) challenge) response_new,
          a\<lparr>au_pending := (au_pending a)(state \<mapsto> flow)\<rparr>))"

text \<open>The first part of \<open>callback\<close>: an answer, or the code with the flow taken out of the map.\<close>

definition callback_take :: "int \<Rightarrow> Request \<Rightarrow> Auth \<Rightarrow> (Response + string \<times> PendingFlow) \<times> Auth" where
  "callback_take now req a =
     (if has_param req ''error'' then (Inl (fail_with 400 (''SSO error: '' @ get_param_value req ''error'')), a)
      else if \<not> has_param req ''code'' \<or> \<not> has_param req ''state'' then (Inl (fail_with 400 ''missing code/state''), a)
      else
        let state = get_param_value req ''state'' in
        case au_pending a state of
          None \<Rightarrow> (Inl (fail_with 400 ''unknown state''), a)
        | Some flow \<Rightarrow>
            let a = a\<lparr>au_pending := (au_pending a)(state := None)\<rparr> in
            if pf_expires flow < now then (Inl (fail_with 400 ''state expired''), a)
            else (Inr (get_param_value req ''code'', flow), a))"

definition token_request :: "Config \<Rightarrow> string \<Rightarrow> PendingFlow \<Rightarrow> string" where
  "token_request cfg acode flow =
     ''grant_type=authorization_code'' @
     ''&code='' @ urlencode acode @
     ''&redirect_uri='' @ urlencode (cf_redirect_uri cfg) @
     ''&client_id='' @ urlencode (cf_client_id cfg) @
     ''&code_verifier='' @ urlencode (pf_verifier flow)"

definition check_claims :: "Config \<Rightarrow> int \<Rightarrow> PendingFlow \<Rightarrow> IdTokenClaims \<Rightarrow> Response option" where
  "check_claims cfg epoch flow claims =
     (if cl_iss claims \<noteq> cf_issuer cfg then Some (fail_with 401 (''bad iss: '' @ cl_iss claims))
      else if cl_aud claims \<noteq> cf_client_id cfg then Some (fail_with 401 (''bad aud: '' @ cl_aud claims))
      else if cl_nonce claims \<noteq> pf_nonce flow then Some (fail_with 401 ''nonce mismatch'')
      else if 0 < cl_exp claims \<and> cl_exp claims < epoch then Some (fail_with 401 ''id_token expired'')
      else None)"

text \<open>The token exchange: an answer, or the access token with the claims; \<open>None\<close> is undefined.\<close>

definition exchange_code ::
  "Config \<Rightarrow> Outside \<Rightarrow> int \<Rightarrow> string \<Rightarrow> PendingFlow \<Rightarrow> (Response + string \<times> IdTokenClaims) option" where
  "exchange_code cfg ou epoch acode flow =
     (let token_json = ou_post_form ou (cf_token_host cfg) (cf_token_path cfg) (token_request cfg acode flow) in
      if token_json = [] then Some (Inl (fail_with 502 ''token endpoint unreachable''))
      else
        let access_token = json_string_field token_json ''access_token'';
            id_token = json_string_field token_json ''id_token''
        in if access_token = [] \<or> id_token = [] then Some (Inl (fail_with 400 (''token exchange failed: '' @ token_json)))
           else case decode_id_token (ou_base64 ou) id_token of
                  None \<Rightarrow> None
                | Some None \<Rightarrow> Some (Inl (fail_with 400 ''bad id_token''))
                | Some (Some claims) \<Rightarrow>
                    (case check_claims cfg epoch flow claims of
                       Some res \<Rightarrow> Some (Inl res)
                     | None \<Rightarrow> Some (Inr (access_token, claims))))"

definition new_session :: "Config \<Rightarrow> int \<Rightarrow> IdTokenClaims \<Rightarrow> string \<Rightarrow> Session" where
  "new_session cfg now claims ui =
     \<lparr>se_sub = cl_sub claims,
      se_email = (if cl_email claims = [] then json_string_field ui ''email'' else cl_email claims),
      se_username =
        (let u = json_string_field ui ''preferred_username'' in if u = [] then json_string_field ui ''username'' else u),
      se_picture = json_string_field ui ''picture'',
      se_expires = now + seconds (cf_session_ttl_s cfg)\<rparr>"

text \<open>The last part: the session is stored under a random identifier.\<close>

definition callback_finish ::
  "Config \<Rightarrow> Outside \<Rightarrow> int \<Rightarrow> string \<Rightarrow> string \<Rightarrow> IdTokenClaims \<Rightarrow> Auth \<Rightarrow> Response \<times> Auth" where
  "callback_finish cfg ou now rb access_token claims a =
     (let ui = ou_get_bearer ou (cf_token_host cfg) (cf_userinfo_path cfg) access_token;
          sid = random_urlsafe ou rb
      in (set_redirect ''/''
            (set_header ''Set-Cookie''
              (''zt_session='' @ sid @ ''; HttpOnly; SameSite=Lax; Path=/; Max-Age='' @ show_int (cf_session_ttl_s cfg)) response_new),
          a\<lparr>au_sessions := (au_sessions a)(sid \<mapsto> new_session cfg now claims ui)\<rparr>))"

text \<open>The whole handler, run without interruption: times of the flow check, of the clock and of the
  session.\<close>

definition callback :: "Config \<Rightarrow> Outside \<Rightarrow> int \<Rightarrow> int \<Rightarrow> int \<Rightarrow> string \<Rightarrow> Request \<Rightarrow> Auth \<Rightarrow> (Response \<times> Auth) option" where
  "callback cfg ou now1 epoch now2 rb req a =
     (case callback_take now1 req a of
        (Inl res, a) \<Rightarrow> Some (res, a)
      | (Inr (acode, flow), a) \<Rightarrow>
          (case exchange_code cfg ou epoch acode flow of
             None \<Rightarrow> None
           | Some (Inl res) \<Rightarrow> Some (res, a)
           | Some (Inr (access_token, claims)) \<Rightarrow> Some (callback_finish cfg ou now2 rb access_token claims a)))"

section \<open>The server as a transition system\<close>

text \<open>What has happened, the latest first.  \<open>Taken\<close> and \<open>Created\<close> carry the time.\<close>

datatype WebEvent =
    Started string PendingFlow
  | Taken string PendingFlow int
  | Created string Session PendingFlow IdTokenClaims int
  | LoggedOut string

text \<open>\<open>wb_flight\<close>: the callbacks between their two locks.\<close>

record Web =
  wb_auth :: Auth
  wb_now :: int
  wb_flight :: "(string \<times> PendingFlow) list"
  wb_log :: "WebEvent list"

definition web_new :: Web where
  "web_new = \<lparr>wb_auth = auth_new, wb_now = 0, wb_flight = [], wb_log = []\<rparr>"

inductive web_step :: "Config \<Rightarrow> Outside \<Rightarrow> Web \<Rightarrow> Web \<Rightarrow> bool" for cfg ou where
  clock: "wb_now s \<le> t \<Longrightarrow> web_step cfg ou s (s\<lparr>wb_now := t\<rparr>)"
| start: "new_flow ou (wb_now s) rb = (state, flow) \<Longrightarrow>
    web_step cfg ou s (s\<lparr>wb_auth := snd (auth_start cfg ou (wb_now s) rb (wb_auth s)),
                         wb_log := Started state flow # wb_log s\<rparr>)"
| refuse: "callback_take (wb_now s) req (wb_auth s) = (Inl res, a) \<Longrightarrow> web_step cfg ou s (s\<lparr>wb_auth := a\<rparr>)"
| take_flow: "callback_take (wb_now s) req (wb_auth s) = (Inr (acode, flow), a) \<Longrightarrow>
    web_step cfg ou s (s\<lparr>wb_auth := a, wb_flight := (acode, flow) # wb_flight s,
                         wb_log := Taken (get_param_value req ''state'') flow (wb_now s) # wb_log s\<rparr>)"
| reject: "(acode, flow) \<in> set (wb_flight s) \<Longrightarrow> exchange_code cfg ou epoch acode flow = Some (Inl res) \<Longrightarrow>
    web_step cfg ou s (s\<lparr>wb_flight := remove1 (acode, flow) (wb_flight s)\<rparr>)"
| create: "(acode, flow) \<in> set (wb_flight s) \<Longrightarrow>
    exchange_code cfg ou epoch acode flow = Some (Inr (access_token, claims)) \<Longrightarrow>
    callback_finish cfg ou (wb_now s) rb access_token claims (wb_auth s) = (res, a) \<Longrightarrow>
    au_sessions a (random_urlsafe ou rb) = Some se \<Longrightarrow>
    web_step cfg ou s (s\<lparr>wb_auth := a, wb_flight := remove1 (acode, flow) (wb_flight s),
                         wb_log := Created (random_urlsafe ou rb) se flow claims (wb_now s) # wb_log s\<rparr>)"
| visit: "web_step cfg ou s (s\<lparr>wb_auth := snd (get_session (wb_now s) req (wb_auth s))\<rparr>)"
| leave: "session_cookie req = sid \<Longrightarrow>
    web_step cfg ou s (s\<lparr>wb_auth := snd (logout req (wb_auth s)), wb_log := LoggedOut sid # wb_log s\<rparr>)"

inductive web_reachable :: "Config \<Rightarrow> Outside \<Rightarrow> Web \<Rightarrow> bool" for cfg ou where
  init: "web_reachable cfg ou web_new"
| step: "web_reachable cfg ou s \<Longrightarrow> web_step cfg ou s s' \<Longrightarrow> web_reachable cfg ou s'"

end
