(* ===== verification/WebLogin.thy ===== *)
theory WebLogin
  imports WebAuth
begin

text \<open>
  What signing in guarantees, over every interleaving of requests (\<open>webui/webui.cpp\<close>): a session
  stands for a flow that this server started and that was answered once, in time, with a token for
  its nonce; a session that was left or has expired is not accepted any more.
\<close>

section \<open>The record of events\<close>

definition starts :: "WebEvent list \<Rightarrow> (string \<times> PendingFlow) multiset" where
  "starts log = mset [(st, f). Started st f \<leftarrow> log]"

definition takes :: "WebEvent list \<Rightarrow> (string \<times> PendingFlow) multiset" where
  "takes log = mset [(st, f). Taken st f t \<leftarrow> log]"

definition created_flows :: "WebEvent list \<Rightarrow> PendingFlow multiset" where
  "created_flows log = mset [f. Created sid se f c t \<leftarrow> log]"

lemma log_simps [simp]:
  "starts [] = {#}" "starts (Started st f # log) = add_mset (st, f) (starts log)" "starts (Taken st f t # log) = starts log"
  "starts (Created sid se f c t # log) = starts log" "starts (LoggedOut sid # log) = starts log"
  "takes [] = {#}" "takes (Started st f # log) = takes log" "takes (Taken st f t # log) = add_mset (st, f) (takes log)"
  "takes (Created sid se f c t # log) = takes log" "takes (LoggedOut sid # log) = takes log"
  "created_flows [] = {#}" "created_flows (Started st f # log) = created_flows log"
  "created_flows (Taken st f t # log) = created_flows log"
  "created_flows (Created sid se f c t # log) = add_mset f (created_flows log)"
  "created_flows (LoggedOut sid # log) = created_flows log"
  by (simp_all add: starts_def takes_def created_flows_def)

text \<open>The claims that \<open>callback\<close> accepts for a flow.\<close>

definition claims_for :: "Config \<Rightarrow> PendingFlow \<Rightarrow> IdTokenClaims \<Rightarrow> bool" where
  "claims_for cfg flow c \<longleftrightarrow>
     cl_iss c = cf_issuer cfg \<and> cl_aud c = cf_client_id cfg \<and> cl_nonce c = pf_nonce flow"

text \<open>Each event was allowed when it happened.\<close>

fun log_ok :: "Config \<Rightarrow> WebEvent list \<Rightarrow> bool" where
  "log_ok cfg [] \<longleftrightarrow> True"
| "log_ok cfg (Started st f # log) \<longleftrightarrow> log_ok cfg log"
| "log_ok cfg (Taken st f t # log) \<longleftrightarrow> t \<le> pf_expires f \<and> add_mset (st, f) (takes log) \<subseteq># starts log \<and> log_ok cfg log"
| "log_ok cfg (Created sid se f c t # log) \<longleftrightarrow>
     claims_for cfg f c \<and> se_sub se = cl_sub c \<and> se_expires se = t + seconds (cf_session_ttl_s cfg) \<and>
     add_mset f (created_flows log) \<subseteq># image_mset snd (takes log) \<and> log_ok cfg log"
| "log_ok cfg (LoggedOut sid # log) \<longleftrightarrow> log_ok cfg log"

definition pending_counted :: "Web \<Rightarrow> bool" where
  "pending_counted s \<longleftrightarrow>
     (\<forall>st f. count (takes (wb_log s)) (st, f) + (if au_pending (wb_auth s) st = Some f then 1 else 0)
        \<le> count (starts (wb_log s)) (st, f))"

definition flights_counted :: "Web \<Rightarrow> bool" where
  "flights_counted s \<longleftrightarrow>
     created_flows (wb_log s) + mset (map snd (wb_flight s)) \<subseteq># image_mset snd (takes (wb_log s))"

definition sessions_logged :: "Web \<Rightarrow> bool" where
  "sessions_logged s \<longleftrightarrow>
     (\<forall>sid se. sid \<noteq> [] \<and> au_sessions (wb_auth s) sid = Some se \<longrightarrow>
        (\<exists>after f c t before. wb_log s = after @ Created sid se f c t # before \<and> LoggedOut sid \<notin> set after))"

definition times_past :: "Web \<Rightarrow> bool" where
  "times_past s \<longleftrightarrow> (\<forall>sid se f c t. Created sid se f c t \<in> set (wb_log s) \<longrightarrow> t \<le> wb_now s)"

definition web_inv :: "Config \<Rightarrow> Web \<Rightarrow> bool" where
  "web_inv cfg s \<longleftrightarrow>
     log_ok cfg (wb_log s) \<and> pending_counted s \<and> flights_counted s \<and> sessions_logged s \<and> times_past s"

section \<open>The invariant\<close>

lemma web_inv_new: "web_inv cfg web_new"
  by (simp add: web_inv_def web_new_def auth_new_def pending_counted_def flights_counted_def sessions_logged_def times_past_def)

text \<open>A step that only forgets pending flows, sessions and callbacks keeps the invariant.\<close>

lemma web_inv_forget:
  assumes "web_inv cfg s" "wb_log s' = wb_log s" "wb_now s \<le> wb_now s'" "mset (wb_flight s') \<subseteq># mset (wb_flight s)"
    "au_pending (wb_auth s') \<subseteq>\<^sub>m au_pending (wb_auth s)" "au_sessions (wb_auth s') \<subseteq>\<^sub>m au_sessions (wb_auth s)"
  shows "web_inv cfg s'"
proof -
  have "pending_counted s'"
    unfolding pending_counted_def assms(2)
  proof (intro allI)
    fix st f
    have "au_pending (wb_auth s') st = Some f \<Longrightarrow> au_pending (wb_auth s) st = Some f"
      using assms(5) by (metis domI map_le_def)
    then show "count (takes (wb_log s)) (st, f) + (if au_pending (wb_auth s') st = Some f then 1 else 0)
        \<le> count (starts (wb_log s)) (st, f)"
      using assms(1)[unfolded web_inv_def pending_counted_def, THEN conjunct2, THEN conjunct1, rule_format, of st f] by auto
  qed
  moreover have "mset (map snd (wb_flight s')) \<subseteq># mset (map snd (wb_flight s))"
    using image_mset_subseteq_mono[OF assms(4), of snd] by simp
  then have "flights_counted s'"
    using assms(1) subset_mset.order_trans[OF subset_mset.add_left_mono]
    unfolding web_inv_def flights_counted_def assms(2) by blast
  moreover have "sessions_logged s'"
    unfolding sessions_logged_def assms(2)
  proof (intro allI impI)
    fix sid se assume "sid \<noteq> [] \<and> au_sessions (wb_auth s') sid = Some se"
    then have "sid \<noteq> [] \<and> au_sessions (wb_auth s) sid = Some se" using assms(6) by (metis domI map_le_def)
    then show "\<exists>after f c t before. wb_log s = after @ Created sid se f c t # before \<and> LoggedOut sid \<notin> set after"
      using assms(1) unfolding web_inv_def sessions_logged_def by blast
  qed
  moreover have "times_past s'" using assms(1-3) unfolding web_inv_def times_past_def by force
  ultimately show ?thesis using assms(1,2) by (simp add: web_inv_def)
qed

lemma sessions_forget: "(m :: 'a \<Rightarrow> 'b option)(k := None) \<subseteq>\<^sub>m m"
  by (simp add: map_le_def)

lemma get_session_forgets:
  "au_sessions (snd (get_session now req a)) \<subseteq>\<^sub>m au_sessions a" "au_pending (snd (get_session now req a)) = au_pending a"
  by (auto simp: get_session_def Let_def sessions_forget split: option.split)

lemma callback_refused:
  assumes "callback_take now req a = (Inl res, a')"
  shows "au_pending a' \<subseteq>\<^sub>m au_pending a" "au_sessions a' = au_sessions a"
  using assms by (auto simp: callback_take_def Let_def sessions_forget split: if_splits option.splits)

lemma callback_taken:
  assumes "callback_take now req a = (Inr (acode, flow), a')"
  shows "au_pending a (get_param_value req ''state'') = Some flow" "now \<le> pf_expires flow"
    "a' = a\<lparr>au_pending := (au_pending a)(get_param_value req ''state'' := None)\<rparr>"
  using assms by (auto simp: callback_take_def Let_def split: if_splits option.splits)

lemma exchange_claims: "exchange_code cfg ou epoch acode flow = Some (Inr (tok, c)) \<Longrightarrow> claims_for cfg flow c"
  by (auto simp: exchange_code_def check_claims_def claims_for_def Let_def split: if_splits option.splits)

lemma created_session:
  assumes "callback_finish cfg ou now rb tok c a = (res, a')" "au_sessions a' (random_urlsafe ou rb) = Some se"
  shows "se_sub se = cl_sub c" "se_expires se = now + seconds (cf_session_ttl_s cfg)"
    "a' = a\<lparr>au_sessions := (au_sessions a)(random_urlsafe ou rb \<mapsto> se)\<rparr>"
  using assms by (auto simp: callback_finish_def new_session_def Let_def)

lemma sessions_logged_cons:
  assumes "sessions_logged s" "wb_log s' = e # wb_log s"
    "\<And>sid se. sid \<noteq> [] \<Longrightarrow> au_sessions (wb_auth s') sid = Some se \<Longrightarrow>
       e \<noteq> LoggedOut sid \<and> au_sessions (wb_auth s) sid = Some se \<or> (\<exists>f c t. e = Created sid se f c t)"
  shows "sessions_logged s'"
  unfolding sessions_logged_def assms(2)
proof (intro allI impI)
  fix sid se assume *: "sid \<noteq> [] \<and> au_sessions (wb_auth s') sid = Some se"
  then consider "e \<noteq> LoggedOut sid" "au_sessions (wb_auth s) sid = Some se" | f c t where "e = Created sid se f c t"
    using assms(3) by blast
  then show "\<exists>after f c t before. e # wb_log s = after @ Created sid se f c t # before \<and> LoggedOut sid \<notin> set after"
  proof cases
    case 1
    then obtain after f c t before where "wb_log s = after @ Created sid se f c t # before" "LoggedOut sid \<notin> set after"
      using assms(1) * unfolding sessions_logged_def by blast
    then show ?thesis
      by (intro exI[of _ "e # after"] exI[of _ f] exI[of _ c] exI[of _ t] exI[of _ before]) (use 1 in auto)
  next
    case (2 f c t)
    then show ?thesis
      by (intro exI[of _ "[]"] exI[of _ f] exI[of _ c] exI[of _ t] exI[of _ "wb_log s"]) simp
  qed
qed

lemma web_inv_step:
  assumes "web_step cfg ou s s'" "web_inv cfg s"
  shows "web_inv cfg s'"
proof -
  note inv = assms(2)[unfolded web_inv_def]
  from assms(1) show ?thesis
  proof cases
    case (clock t)
    then show ?thesis by (intro web_inv_forget[OF assms(2)]) simp_all
  next
    case (start rb state flow)
    have auth: "wb_auth s' = (wb_auth s)\<lparr>au_pending := (au_pending (wb_auth s))(state \<mapsto> flow)\<rparr>"
      using start by (simp add: auth_start_def Let_def)
    have pc: "count (takes (wb_log s)) (st, f) + (if au_pending (wb_auth s) st = Some f then 1 else 0)
        \<le> count (starts (wb_log s)) (st, f)" for st f using inv by (simp add: pending_counted_def)
    have "pending_counted s'"
      unfolding pending_counted_def
    proof (intro allI)
      fix st f
      show "count (takes (wb_log s')) (st, f) + (if au_pending (wb_auth s') st = Some f then 1 else 0)
        \<le> count (starts (wb_log s')) (st, f)"
        using pc[of st f] auth start(1) by (auto split: if_splits)
    qed
    moreover have "sessions_logged s'"
      using inv by (intro sessions_logged_cons[of s s' "Started state flow"]) (simp_all add: start(1) auth_start_def Let_def start(2))
    ultimately show ?thesis
      using inv start(1) by (auto simp: web_inv_def flights_counted_def times_past_def)
  next
    case (refuse req res a)
    then show ?thesis using callback_refused[OF refuse(2)] by (intro web_inv_forget[OF assms(2)]) simp_all
  next
    case (take_flow req acode flow a)
    let ?st = "get_param_value req ''state''"
    note t = callback_taken[OF take_flow(2)]
    have pc: "count (takes (wb_log s)) (st, f) + (if au_pending (wb_auth s) st = Some f then 1 else 0)
        \<le> count (starts (wb_log s)) (st, f)" for st f using inv by (simp add: pending_counted_def)
    have "pending_counted s'"
      unfolding pending_counted_def
    proof (intro allI)
      fix st f
      show "count (takes (wb_log s')) (st, f) + (if au_pending (wb_auth s') st = Some f then 1 else 0)
        \<le> count (starts (wb_log s')) (st, f)"
        using pc[of st f] t(1,3) take_flow(1) by (auto split: if_splits)
    qed
    moreover have "add_mset (?st, flow) (takes (wb_log s)) \<subseteq># starts (wb_log s)"
    proof (rule mset_subset_eqI)
      fix x show "count (add_mset (?st, flow) (takes (wb_log s))) x \<le> count (starts (wb_log s)) x"
        using pc[of "fst x" "snd x"] t(1) by (cases x) (auto split: if_splits)
    qed
    moreover have "sessions_logged s'"
      using inv by (intro sessions_logged_cons[of s s' "Taken ?st flow (wb_now s)"]) (simp_all add: take_flow(1) t(3))
    ultimately show ?thesis
      using inv take_flow(1) t(2) by (auto simp: web_inv_def flights_counted_def times_past_def)
  next
    case (reject acode flow epoch res)
    then show ?thesis by (intro web_inv_forget[OF assms(2)]) simp_all
  next
    case (create acode flow epoch tok c rb res a se)
    note c = created_session[OF create(4,5)]
    have fl: "add_mset flow (created_flows (wb_log s)) + mset (map snd (remove1 (acode, flow) (wb_flight s)))
        \<subseteq># image_mset snd (takes (wb_log s))"
    proof -
      have "mset (wb_flight s) = add_mset (acode, flow) (mset (remove1 (acode, flow) (wb_flight s)))" using create(2) by simp
      then have "mset (map snd (wb_flight s)) = add_mset flow (mset (map snd (remove1 (acode, flow) (wb_flight s))))"
        unfolding mset_map by (metis image_mset_add_mset snd_conv)
      then show ?thesis using inv by (simp add: flights_counted_def)
    qed
    then have "add_mset flow (created_flows (wb_log s)) \<subseteq># image_mset snd (takes (wb_log s))"
      using subset_mset.order_trans[OF mset_subset_eq_add_left fl] by simp
    moreover have "sessions_logged s'"
      using inv by (intro sessions_logged_cons[of s s' "Created (random_urlsafe ou rb) se flow c (wb_now s)"])
        (auto simp: create(1) c(3) split: if_splits)
    moreover have "pending_counted s'" using inv c(3) create(1) by (simp add: pending_counted_def)
    moreover have "flights_counted s'" using fl create(1) by (simp add: flights_counted_def)
    ultimately show ?thesis
      using inv create(1) c(1,2) exchange_claims[OF create(3)] by (auto simp: web_inv_def times_past_def)
  next
    case (visit req)
    then show ?thesis using get_session_forgets by (intro web_inv_forget[OF assms(2)]) simp_all
  next
    case (leave req sid)
    have "sessions_logged s'"
      using inv leave by (intro sessions_logged_cons[of s s' "LoggedOut sid"]) (auto simp: logout_def Let_def split: if_splits)
    moreover have "pending_counted s'" using inv leave by (simp add: pending_counted_def logout_def Let_def)
    ultimately show ?thesis using inv leave(1) by (auto simp: web_inv_def flights_counted_def times_past_def)
  qed
qed

lemma web_reachable_inv: "web_reachable cfg ou s \<Longrightarrow> web_inv cfg s"
  by (induction rule: web_reachable.induct) (auto simp: web_inv_new intro: web_inv_step)

section \<open>What a session stands for\<close>

lemma log_ok_suffix: "log_ok cfg (xs @ ys) \<Longrightarrow> log_ok cfg ys"
proof (induction xs)
  case (Cons x xs)
  then show ?case by (cases x) simp_all
qed simp

lemma in_starts: "(st, f) \<in># starts log \<longleftrightarrow> Started st f \<in> set log"
  by (induction log) (auto simp: starts_def split: WebEvent.splits)

lemma in_takes: "(st, f) \<in># takes log \<longleftrightarrow> (\<exists>t. Taken st f t \<in> set log)"
  by (induction log) (auto simp: takes_def split: WebEvent.splits)

lemma taken_ok:
  assumes "log_ok cfg log" "Taken st f t \<in> set log"
  shows "t \<le> pf_expires f \<and> Started st f \<in> set log"
proof -
  obtain xs ys where l: "log = xs @ Taken st f t # ys" using assms(2) by (auto dest: split_list)
  then have "log_ok cfg (Taken st f t # ys)" using log_ok_suffix assms(1) by blast
  then have "t \<le> pf_expires f" "(st, f) \<in># starts ys"
    by (auto dest: mset_subset_eqD[of _ _ "(st, f)"])
  then show ?thesis using l by (simp add: in_starts)
qed

text \<open>C9: A request that is let in was signed in for: whenever \<open>get_session\<close> accepts a request, in any
  interleaving of requests, the cookie names a session that a callback made no longer ago than the session
  time, that was not left since, for the subject of an id token of the configured issuer and
  client with the nonce of a flow that this server started and that was answered in time.\<close>

theorem session_means_login:
  assumes "web_reachable cfg ou s" "get_session (wb_now s) req (wb_auth s) = (Some se, a)"
  shows "\<exists>after before flow claims t st t'.
    wb_log s = after @ Created (session_cookie req) se flow claims t # before \<and>
    LoggedOut (session_cookie req) \<notin> set after \<and>
    t \<le> wb_now s \<and> wb_now s \<le> t + seconds (cf_session_ttl_s cfg) \<and>
    se_sub se = cl_sub claims \<and> cl_iss claims = cf_issuer cfg \<and> cl_aud claims = cf_client_id cfg \<and>
    cl_nonce claims = pf_nonce flow \<and>
    Taken st flow t' \<in> set before \<and> t' \<le> pf_expires flow \<and> Started st flow \<in> set before"
proof -
  let ?sid = "session_cookie req"
  note inv = web_reachable_inv[OF assms(1), unfolded web_inv_def]
  have g: "?sid \<noteq> []" "au_sessions (wb_auth s) ?sid = Some se" "wb_now s \<le> se_expires se"
    using assms(2) by (auto simp: get_session_def Let_def split: if_splits option.splits)
  then obtain after f c t before where l: "wb_log s = after @ Created ?sid se f c t # before" "LoggedOut ?sid \<notin> set after"
    using inv unfolding sessions_logged_def by blast
  have "log_ok cfg (wb_log s)" using inv by blast
  then have ok: "log_ok cfg (Created ?sid se f c t # before)" using log_ok_suffix l(1) by metis
  then have "f \<in># image_mset snd (takes before)" by (auto dest: mset_subset_eqD[of _ _ f])
  then obtain st where "(st, f) \<in># takes before" by auto
  then obtain t' where t': "Taken st f t' \<in> set before" using in_takes by blast
  have "log_ok cfg before" using ok by simp
  from taken_ok[OF this t'] have "t' \<le> pf_expires f" "Started st f \<in> set before" by simp_all
  moreover have "t \<le> wb_now s" using inv l(1) unfolding times_past_def by fastforce
  ultimately show ?thesis using l t' ok g(3)
    by (intro exI[of _ after] exI[of _ before] exI[of _ f] exI[of _ c] exI[of _ t] exI[of _ st] exI[of _ t'])
      (simp add: claims_for_def)
qed

text \<open>C18: A flow signs in at most once: in every interleaving, the sessions made belong to different flows
  of those that the server has started, counting repetitions, so an authorization response that is replayed
  makes no second session.\<close>

theorem flow_used_once:
  assumes "web_reachable cfg ou s"
  shows "created_flows (wb_log s) \<subseteq># image_mset snd (takes (wb_log s)) \<and> takes (wb_log s) \<subseteq># starts (wb_log s)"
proof -
  note inv = web_reachable_inv[OF assms, unfolded web_inv_def]
  have "created_flows (wb_log s) + mset (map snd (wb_flight s)) \<subseteq># image_mset snd (takes (wb_log s))"
    using inv by (simp only: flights_counted_def)
  from subset_mset.order_trans[OF mset_subset_eq_add_left this]
  have "created_flows (wb_log s) \<subseteq># image_mset snd (takes (wb_log s))" .
  moreover have "takes (wb_log s) \<subseteq># starts (wb_log s)"
  proof (rule mset_subset_eqI)
    fix x
    have "count (takes (wb_log s)) (fst x, snd x) + (if au_pending (wb_auth s) (fst x) = Some (snd x) then 1 else 0)
        \<le> count (starts (wb_log s)) (fst x, snd x)" using inv by (simp only: pending_counted_def)
    then show "count (takes (wb_log s)) x \<le> count (starts (wb_log s)) x" by simp
  qed
  ultimately show ?thesis by blast
qed

section \<open>A sign-in\<close>

definition sample_payload :: string where
  "sample_payload =
     ''{'' @ json_key ''iss'' @ '':'' @ json_quoted ''i'' @ '','' @ json_key ''sub'' @ '':'' @ json_quoted ''u'' @ '','' @
     json_key ''aud'' @ '':'' @ json_quoted ''c'' @ '','' @ json_key ''nonce'' @ '':'' @ json_quoted ''n'' @ ''}''"

definition sample_tokens :: string where
  "sample_tokens =
     ''{'' @ json_key ''access_token'' @ '':'' @ json_quoted ''a'' @ '','' @ json_key ''id_token'' @ '':'' @ json_quoted ''h.p.s'' @ ''}''"

definition sample_outside :: Outside where
  "sample_outside =
     \<lparr>ou_base64 = \<lparr>b64_write = \<lambda>s. s, b64_read = \<lambda>s. sample_payload\<rparr>, ou_sha256 = \<lambda>s. s,
      ou_post_form = \<lambda>host path body. sample_tokens, ou_get_bearer = \<lambda>host path bearer. []\<rparr>"

definition sample_config :: Config where
  "sample_config = config_default\<lparr>cf_issuer := ''i'', cf_client_id := ''c''\<rparr>"

definition sample_flow :: PendingFlow where
  "sample_flow = \<lparr>pf_verifier = ''v'', pf_nonce = ''n'', pf_expires = seconds 600\<rparr>"

definition sample_claims :: IdTokenClaims where
  "sample_claims = \<lparr>cl_iss = ''i'', cl_sub = ''u'', cl_aud = ''c'', cl_email = [], cl_nonce = ''n'', cl_exp = 0\<rparr>"

lemma sample_exchange:
  "exchange_code sample_config sample_outside 0 ''k'' sample_flow = Some (Inr (''a'', sample_claims))"
  by code_simp

definition sample_callback :: Request where
  "sample_callback = \<lparr>rq_cookie = None, rq_params = [(''code'', ''k''), (''state'', ''st'')], rq_body = [], rq_match = []\<rparr>"

definition sample_visit :: Request where
  "sample_visit = \<lparr>rq_cookie = Some ''zt_session=sid'', rq_params = [], rq_body = [], rq_match = []\<rparr>"

definition sample_session :: Session where
  "sample_session = \<lparr>se_sub = ''u'', se_email = [], se_username = [], se_picture = [], se_expires = seconds 3600\<rparr>"

text \<open>The states of a sign-in: started, taken, signed in.\<close>

definition web1 :: Web where
  "web1 = web_new\<lparr>wb_auth := auth_new\<lparr>au_pending := [''st'' \<mapsto> sample_flow]\<rparr>, wb_log := [Started ''st'' sample_flow]\<rparr>"

definition web2 :: Web where
  "web2 = web1\<lparr>wb_auth := auth_new\<lparr>au_pending := (au_pending (wb_auth web1))(''st'' := None)\<rparr>, wb_flight := [(''k'', sample_flow)],
     wb_log := Taken ''st'' sample_flow 0 # wb_log web1\<rparr>"

definition web3 :: Web where
  "web3 = web2\<lparr>wb_auth := (wb_auth web2)\<lparr>au_sessions := [''sid'' \<mapsto> sample_session]\<rparr>, wb_flight := [],
     wb_log := Created ''sid'' sample_session sample_flow sample_claims 0 # wb_log web2\<rparr>"

lemma sample_random: "s \<in> {''st'', ''n'', ''v'', ''sid''} \<Longrightarrow> random_urlsafe sample_outside s = s"
  by (auto simp: random_urlsafe_def b64url_encode_def sample_outside_def to_url_char_def strip_pad_def)

lemma sign_in_steps:
  "web_step sample_config sample_outside web_new web1" "web_step sample_config sample_outside web1 web2"
  "web_step sample_config sample_outside web2 web3"
proof -
  have f: "new_flow sample_outside 0 (''v'', ''st'', ''n'') = (''st'', sample_flow)"
    by (simp add: new_flow_def sample_random sample_flow_def)
  have "web_step sample_config sample_outside web_new
      (web_new\<lparr>wb_auth := snd (auth_start sample_config sample_outside 0 (''v'', ''st'', ''n'') auth_new),
               wb_log := [Started ''st'' sample_flow]\<rparr>)"
    using web_step.start[of sample_outside web_new "(''v'', ''st'', ''n'')" "''st''" sample_flow sample_config] f
    by (simp add: web_new_def)
  then show "web_step sample_config sample_outside web_new web1" using f by (simp add: web1_def auth_start_def Let_def auth_new_def)
  have t: "callback_take 0 sample_callback (wb_auth web1) =
      (Inr (''k'', sample_flow), auth_new\<lparr>au_pending := (au_pending (wb_auth web1))(''st'' := None)\<rparr>)"
    by (simp add: callback_take_def sample_callback_def has_param_def get_param_value_def web1_def auth_new_def sample_flow_def
        seconds_def)
  have g: "get_param_value sample_callback ''state'' = ''st''" by (simp add: get_param_value_def sample_callback_def)
  have now: "wb_now web1 = 0" "wb_flight web1 = []" "wb_now web2 = 0" "wb_flight web2 = [(''k'', sample_flow)]"
    by (simp_all add: web1_def web2_def web_new_def)
  show "web_step sample_config sample_outside web1 web2"
    using web_step.take_flow[of web1 sample_callback "''k''" sample_flow _ sample_config sample_outside] t g now
    by (simp add: web2_def)
  have ui: "json_string_field [] k = []" for k
    by (simp add: json_string_field_def json_after_key_def str_find_def json_key_def)
  have fin: "\<exists>res. callback_finish sample_config sample_outside 0 ''sid'' ''a'' sample_claims (wb_auth web2) =
      (res, (wb_auth web2)\<lparr>au_sessions := [''sid'' \<mapsto> sample_session]\<rparr>)"
    by (simp add: callback_finish_def Let_def sample_random new_session_def sample_claims_def sample_session_def ui)
      (simp add: sample_outside_def ui sample_config_def config_default_def web2_def auth_new_def)
  then obtain res where fin: "callback_finish sample_config sample_outside 0 ''sid'' ''a'' sample_claims (wb_auth web2) =
      (res, (wb_auth web2)\<lparr>au_sessions := [''sid'' \<mapsto> sample_session]\<rparr>)" ..
  show "web_step sample_config sample_outside web2 web3"
    using web_step.create[of "''k''" sample_flow web2 sample_config sample_outside 0 "''a''" sample_claims "''sid''"]
      sample_exchange fin now sample_random[of "''sid''"]
    by (simp add: web3_def)
qed

lemma sample_reachable: "web_reachable sample_config sample_outside web3"
  using web_reachable.step[OF web_reachable.step[OF web_reachable.step[OF web_reachable.init sign_in_steps(1)] sign_in_steps(2)] sign_in_steps(3)] .

theorem session_means_login_witness:
  "\<exists>after before flow claims t. wb_log web3 = after @ Created ''sid'' sample_session flow claims t # before \<and>
     LoggedOut ''sid'' \<notin> set after \<and> cl_nonce claims = pf_nonce flow"
proof -
  have sid: "session_cookie sample_visit = ''sid''"
    unfolding session_cookie_def sample_visit_def by code_simp
  have "get_session (wb_now web3) sample_visit (wb_auth web3) = (Some sample_session, wb_auth web3)"
    by (simp add: get_session_def Let_def sid) (simp add: web3_def web2_def web1_def web_new_def sample_session_def seconds_def)
  from session_means_login[OF sample_reachable this] show ?thesis unfolding sid by blast
qed

theorem flow_used_once_witness:
  "created_flows (wb_log web3) = {#sample_flow#} \<and> created_flows (wb_log web3) \<subseteq># image_mset snd (takes (wb_log web3))"
  using flow_used_once[OF sample_reachable] by (simp add: web3_def web2_def web1_def web_new_def)

end
