(* ===== verification/WebScans.thy ===== *)
theory WebScans
  imports WebAuth Db TcpRange Dns
begin

text \<open>
  The scans of \<open>webui/webui.cpp\<close>: starting one, the thread that runs it, the list of scans, one
  scan, and the stream of server-sent events of a scan.  The database is the one of \<open>Db\<close> over an
  SQLite \<open>sq\<close>, or absent.  Undefined behaviour of a handler is \<open>OutOfBounds\<close> or \<open>None\<close>.
\<close>

section \<open>Jobs\<close>

record ScanJob =
  jb_id :: string
  jb_target :: string
  jb_scan_ip :: string
  jb_port_start :: int
  jb_port_end :: int
  jb_status :: int
  jb_scanned :: int
  jb_started_at :: int
  jb_completed_at :: int
  jb_ports :: "Port list"
  jb_findings :: "Finding list"
  jb_error :: string

definition status_str :: "int \<Rightarrow> string" where
  "status_str s =
     (if s = 0 then ''queued'' else if s = 1 then ''running'' else if s = 2 then ''done'' else if s = 3 then ''error''
      else ''unknown'')"

record 'd WebState =
  ws_auth :: Auth
  ws_jobs :: "string \<Rightarrow> ScanJob option"
  ws_jobs_order :: "string list"
  ws_db :: "'d option"

section \<open>Routes\<close>

datatype Route = R_root | R_login | R_auth_start | R_callback | R_logout | R_me | R_list_scans | R_start_scan
  | R_get_scan string | R_stream_scan string

definition scan_id_char :: "char \<Rightarrow> bool" where
  "scan_id_char c \<longleftrightarrow> is_alnum c \<or> c = CHR ''_'' \<or> c = CHR ''-''"

definition api_scan_prefix :: string where
  "api_scan_prefix = ''/api/scans/''"

text \<open>Handlers are tried in the order of their registration; a pattern matches the whole path.\<close>

definition route_get :: "string \<Rightarrow> Route option" where
  "route_get path =
     (if path = ''/'' then Some R_root
      else if path = ''/login'' then Some R_login
      else if path = ''/auth/start'' then Some R_auth_start
      else if path = ''/callback'' then Some R_callback
      else if path = ''/logout'' then Some R_logout
      else if path = ''/me'' then Some R_me
      else if path = ''/api/scans'' then Some R_list_scans
      else if \<not> has_prefix api_scan_prefix path then None
      else
        let rest = drop (length api_scan_prefix) path;
            i = takeWhile scan_id_char rest;
            after = dropWhile scan_id_char rest
        in if i = [] then None
           else if after = [] then Some (R_get_scan i)
           else if after = ''/stream'' then Some (R_stream_scan i)
           else None)"

definition route_post :: "string \<Rightarrow> Route option" where
  "route_post path = (if path = ''/api/scans'' then Some R_start_scan else None)"

section \<open>Starting a scan\<close>

text \<open>The three fields of the body; a number that overflows \<open>long\<close> is undefined.\<close>

definition scan_request :: "string \<Rightarrow> (string \<times> int \<times> int) option" where
  "scan_request body =
     (case (json_number_field body ''port_start'', json_number_field body ''port_end'') of
        (Some ps, Some pe) \<Rightarrow> Some (json_string_field body ''target'', ps, pe)
      | _ \<Rightarrow> None)"

definition invalid_scan :: "string \<times> int \<times> int \<Rightarrow> bool" where
  "invalid_scan r =
     (case r of (target, ps, pe) \<Rightarrow> target = [] \<or> ps \<le> 0 \<or> pe \<le> 0 \<or> pe < ps \<or> 65535 < pe)"

definition resolve_scan_target :: "'w os \<Rightarrow> 16 word \<Rightarrow> string \<Rightarrow> 'w \<Rightarrow> string option checked \<times> 'w" where
  "resolve_scan_target os query_id target w =
     (if inet_pton target \<noteq> None then (Done (Some target), w) else dns_resolve os target 2000 query_id w)"

definition new_job :: "string \<Rightarrow> string \<Rightarrow> string \<Rightarrow> int \<Rightarrow> int \<Rightarrow> int \<Rightarrow> ScanJob" where
  "new_job i target resolved ps pe started =
     \<lparr>jb_id = i, jb_target = (if resolved = target then target else target @ '' ('' @ resolved @ '')''),
      jb_scan_ip = resolved, jb_port_start = ps, jb_port_end = pe, jb_status = 0, jb_scanned = 0,
      jb_started_at = started, jb_completed_at = 0, jb_ports = [], jb_findings = [], jb_error = []\<rparr>"

definition job_row :: "Session option \<Rightarrow> ScanJob \<Rightarrow> ScanRow" where
  "job_row ses job =
     \<lparr>sr_id = jb_id job, sr_user_sub = (case ses of None \<Rightarrow> [] | Some s \<Rightarrow> se_sub s), sr_target = jb_target job,
      sr_port_start = jb_port_start job, sr_port_end = jb_port_end job, sr_status = ''queued'',
      sr_started_at = jb_started_at job, sr_completed_at = 0, sr_scanned_ports = 0, sr_error = []\<rparr>"

definition register_job :: "'d Sqlite \<Rightarrow> Session option \<Rightarrow> ScanJob \<Rightarrow> 'd WebState \<Rightarrow> 'd WebState" where
  "register_job sq ses job ws =
     ws\<lparr>ws_jobs := (ws_jobs ws)(jb_id job \<mapsto> job), ws_jobs_order := ws_jobs_order ws @ [jb_id job],
        ws_db := map_option (upsert_scan sq (job_row ses job)) (ws_db ws)\<rparr>"

definition started_text :: "string \<Rightarrow> string" where
  "started_text i =
     ''{'' @ json_key ''id'' @ '':'' @ json_key i @ '','' @ json_key ''status'' @ '':'' @ json_key ''queued'' @ ''}''"

definition dns_failed_text :: "string \<Rightarrow> string" where
  "dns_failed_text target =
     ''{'' @ json_key ''error'' @ '':'' @ json_key ''dns_failed'' @ '','' @ json_key ''message'' @ '':'' @
     DQUOTE # ''could not resolve '' @ json_escape target @ [DQUOTE] @ ''}''"

text \<open>The response, the job whose thread is started (if any) and the next state; \<open>now1\<close> and \<open>now2\<close>
  are the times of the two looks at the session.\<close>

definition start_scan ::
  "'d Sqlite \<Rightarrow> Outside \<Rightarrow> 'w os \<Rightarrow> 16 word \<Rightarrow> int \<Rightarrow> int \<Rightarrow> int \<Rightarrow> string \<Rightarrow> Request \<Rightarrow> 'd WebState \<Rightarrow> 'w \<Rightarrow>
   (Response \<times> ScanJob option \<times> 'd WebState) checked \<times> 'w" where
  "start_scan sq ou os query_id now1 now2 epoch rb req ws w =
     (case require_session now1 req (ws_auth ws) of
        (Some res, a) \<Rightarrow> (Done (res, None, ws\<lparr>ws_auth := a\<rparr>), w)
      | (None, a) \<Rightarrow>
          let (ses, a) = get_session now2 req a; ws = ws\<lparr>ws_auth := a\<rparr> in
          (case scan_request (rq_body req) of
             None \<Rightarrow> (OutOfBounds, w)
           | Some (target, ps, pe) \<Rightarrow>
               if invalid_scan (target, ps, pe) then
                 (Done (fail_json 400 (''{'' @ json_key ''error'' @ '':'' @ json_key ''invalid_input'' @ ''}''), None, ws), w)
               else
                 (case resolve_scan_target os query_id target w of
                    (OutOfBounds, w) \<Rightarrow> (OutOfBounds, w)
                  | (NoReturn, w) \<Rightarrow> (NoReturn, w)
                  | (Done None, w) \<Rightarrow> (Done (fail_json 400 (dns_failed_text target), None, ws), w)
                  | (Done (Some resolved), w) \<Rightarrow>
                      let job = new_job (random_urlsafe ou rb) target resolved ps pe epoch in
                      (Done (set_content (started_text (jb_id job)) ''application/json'' response_new, Some job,
                             register_job sq ses job ws), w))))"

section \<open>The thread of a scan\<close>

text \<open>
  The thread is the list of the states that its job passes through, one for each write to it: to the atomic
  status and counter, to the time, or to the results under their mutex.  During the scan it is the sink that
  writes.
\<close>

fun live_call :: "SinkCall \<Rightarrow> ScanJob \<Rightarrow> ScanJob" where
  "live_call (PortOpen p fs) job = job\<lparr>jb_ports := jb_ports job @ [p], jb_findings := jb_findings job @ fs\<rparr>"
| "live_call Progress job = job\<lparr>jb_scanned := jb_scanned job + 1\<rparr>"

fun live_states :: "SinkCall list \<Rightarrow> ScanJob \<Rightarrow> ScanJob list" where
  "live_states [] job = []"
| "live_states (c # cs) job = live_call c job # live_states cs (live_call c job)"

definition db_status :: "'d Sqlite \<Rightarrow> ScanJob \<Rightarrow> string \<Rightarrow> int \<Rightarrow> int \<Rightarrow> string \<Rightarrow> 'd option \<Rightarrow> 'd option" where
  "db_status sq job status completed scanned err = map_option (update_scan_status sq (jb_id job) status completed scanned err)"

definition job_failed :: "'d Sqlite \<Rightarrow> int \<Rightarrow> string \<Rightarrow> ScanJob \<Rightarrow> 'd option \<Rightarrow> ScanJob list \<times> 'd option" where
  "job_failed sq epoch what job db =
     (let explained = job\<lparr>jb_error := what\<rparr>; failed = explained\<lparr>jb_status := 3\<rparr>; ended = failed\<lparr>jb_completed_at := epoch\<rparr>
      in ([explained, failed, ended], db_status sq ended ''error'' epoch 0 what db))"

text \<open>Saving the sorted results; an exception of the database (the left side) ends it.\<close>

definition save_results :: "'d Sqlite \<Rightarrow> ScanJob \<Rightarrow> TcpRangeResult \<Rightarrow> 'd \<Rightarrow> (string + unit) \<times> 'd" where
  "save_results sq job r d =
     (case save_ports sq (jb_id job) (tr_ports r) d of
        (Inl e, d) \<Rightarrow> (Inl e, d)
      | (Inr _, d) \<Rightarrow> save_findings sq (jb_id job) (tr_findings r) d)"

definition job_done ::
  "'d Sqlite \<Rightarrow> int \<Rightarrow> int \<Rightarrow> TcpRangeResult \<Rightarrow> RangeState \<Rightarrow> ScanJob \<Rightarrow> 'd option \<Rightarrow> ScanJob list \<times> 'd option" where
  "job_done sq epoch epoch2 r rg job db =
     (let live = live_states (rg_calls rg) job; finished = (last (job # live))\<lparr>jb_status := 2\<rparr>;
          ended = finished\<lparr>jb_completed_at := epoch\<rparr>; js = live @ [finished, ended];
          db = db_status sq ended ''done'' epoch (jb_scanned ended) [] db
      in case db of
           None \<Rightarrow> (js, None)
         | Some d \<Rightarrow>
             (case save_results sq ended r d of
                (Inr _, d) \<Rightarrow> (js, Some d)
              | (Inl e, d) \<Rightarrow> (let (fs, db) = job_failed sq epoch2 e ended (Some d) in (js @ fs, db))))"

text \<open>The whole thread.  A \<open>ReturnException\<close> is no \<open>std::exception\<close> and would end the program.  That a scan
  throws nothing at all, but can end the program where an exception leaves one of its tasks, is shown in \<open>TcpRange\<close>.\<close>

definition run_job ::
  "'w Env \<Rightarrow> 're Detector \<Rightarrow> Sorter \<Rightarrow> (int list \<Rightarrow> int list) \<Rightarrow> LoadedPlugin list \<Rightarrow> 'd Sqlite \<Rightarrow> int \<Rightarrow> int \<Rightarrow>
   ScanJob \<Rightarrow> 'd option \<Rightarrow> ('w rt, ScanJob list \<times> 'd option) comp" where
  "run_job env dt srt schedule plugins sq epoch epoch2 job db s =
     (let job = job\<lparr>jb_status := 1\<rparr>; db = db_status sq job ''running'' 0 0 [] db in
      case tcp_range_scan env dt srt schedule (jb_scan_ip job) (jb_port_start job) (jb_port_end job) plugins
             \<lparr>sink_progress = True, sink_on_port_open = True\<rparr> 1000 s of
        (Ok (r, rg), s) \<Rightarrow> (let (js, db) = job_done sq epoch epoch2 r rg job db in (Ok (job # js, db), s))
      | (Throw e, s) \<Rightarrow>
          (case e of
             ReturnException v \<Rightarrow> (Terminate, s)
           | _ \<Rightarrow> (let (js, db) = job_failed sq epoch (exn_what e) job db in (Ok (job # js, db), s)))
      | (Undef, s) \<Rightarrow> (Undef, s)
      | (Hang, s) \<Rightarrow> (Hang, s)
      | (Terminate, s) \<Rightarrow> (Terminate, s)
      | (NoFuel, s) \<Rightarrow> (NoFuel, s))"

text \<open>What the sink has written after the scan.\<close>

lemma last_live:
  "last (job # live_states cs job) =
     job\<lparr>jb_ports := jb_ports job @ map fst (open_calls cs), jb_findings := jb_findings job @ concat (map snd (open_calls cs)),
         jb_scanned := jb_scanned job + progress_calls cs\<rparr>"
proof (induction cs job rule: live_states.induct)
  case (2 c cs job)
  then show ?case by (cases c) (simp_all add: ac_simps)
qed simp

section \<open>The texts of ports and findings\<close>

definition json_text_field :: "string \<Rightarrow> string \<Rightarrow> string" where
  "json_text_field key v = json_key key @ '':'' @ json_quoted v"

text \<open>A member whose value is written without escapes.\<close>

definition json_name_field :: "string \<Rightarrow> string \<Rightarrow> string" where
  "json_name_field key v = json_key key @ '':'' @ json_key v"

definition json_raw_field :: "string \<Rightarrow> string \<Rightarrow> string" where
  "json_raw_field key v = json_key key @ '':'' @ v"

definition json_object :: "string list \<Rightarrow> string" where
  "json_object members = ''{'' @ join_with '','' members @ ''}''"

definition json_array :: "string list \<Rightarrow> string" where
  "json_array vs = ''['' @ join_with '','' vs @ '']''"

definition port_json :: "Port \<Rightarrow> string" where
  "port_json p =
     json_object
       [json_raw_field ''number'' (show_nat (unat (p_number p))),
        json_name_field ''protocol'' (protocol_to_string (p_protocol p)),
        json_text_field ''service'' (p_service p), json_text_field ''product'' (p_product p),
        json_text_field ''version'' (p_version p), json_text_field ''distro'' (p_distro p)]"

definition finding_json :: "Finding \<Rightarrow> string" where
  "finding_json f =
     json_object
       [json_text_field ''plugin_name'' (f_plugin_name f), json_text_field ''title'' (f_title f),
        json_text_field ''description'' (f_description f),
        json_name_field ''severity'' (severity_to_string (f_severity f)),
        json_raw_field ''confidence'' (show_double (f_confidence_score f)),
        json_text_field ''verification'' (f_verification f),
        json_text_field ''verification_label'' (verification_label (f_verification f)),
        json_text_field ''cve'' (f_cve_id f), json_text_field ''host'' (f_host f),
        json_raw_field ''port_number'' (show_nat (unat (f_port_number f))),
        json_name_field ''protocol'' (protocol_to_string (f_protocol f)), json_text_field ''scope'' (f_scope f),
        json_text_field ''service'' (f_service f), json_text_field ''product'' (f_product f),
        json_text_field ''version'' (f_version f), json_text_field ''evidence'' (f_evidence f),
        json_raw_field ''evidence_data''
          (json_object
             [json_text_field ''type'' (e_type (f_evidence_data f)), json_text_field ''source'' (e_source (f_evidence_data f)),
              json_text_field ''value'' (e_value (f_evidence_data f)), json_text_field ''details'' (e_details (f_evidence_data f))]),
        json_raw_field ''references'' (json_string_array (f_references f)),
        json_text_field ''remediation'' (f_remediation f), json_raw_field ''cvss'' (show_double (f_cvss f)),
        json_text_field ''cvss_vector'' (f_cvss_vector f), json_raw_field ''timestamp'' (show_int (sint (f_timestamp f)))]"

section \<open>One scan and the list of scans\<close>

text \<open>What \<open>get_scan\<close> writes about a scan.\<close>

definition scan_json :: "string \<Rightarrow> ScanRow \<Rightarrow> Port list \<Rightarrow> Finding list \<Rightarrow> string" where
  "scan_json i r ports findings =
     json_object
       [json_name_field ''id'' i, json_text_field ''target'' (sr_target r),
        json_raw_field ''port_start'' (show_int (sr_port_start r)), json_raw_field ''port_end'' (show_int (sr_port_end r)),
        json_name_field ''status'' (sr_status r), json_raw_field ''started_at'' (show_int (sr_started_at r)),
        json_raw_field ''completed_at'' (show_int (sr_completed_at r)), json_text_field ''error'' (sr_error r),
        json_raw_field ''ports'' (json_array (map port_json ports)),
        json_raw_field ''findings'' (json_array (map finding_json findings))]"

text \<open>The row a live job stands for.\<close>

definition live_row :: "ScanJob \<Rightarrow> ScanRow" where
  "live_row j =
     \<lparr>sr_id = jb_id j, sr_user_sub = [], sr_target = jb_target j, sr_port_start = jb_port_start j,
      sr_port_end = jb_port_end j, sr_status = status_str (jb_status j), sr_started_at = jb_started_at j,
      sr_completed_at = jb_completed_at j, sr_scanned_ports = jb_scanned j, sr_error = jb_error j\<rparr>"

definition not_found :: Response where
  "not_found = fail_json 404 (''{'' @ json_key ''error'' @ '':'' @ json_key ''not_found'' @ ''}'')"

definition json_response :: "string \<Rightarrow> Response" where
  "json_response text = set_content text ''application/json'' response_new"

definition web_get_scan :: "'d Sqlite \<Rightarrow> int \<Rightarrow> Request \<Rightarrow> 'd WebState \<Rightarrow> (Response \<times> 'd WebState) option" where
  "web_get_scan sq now req ws =
     (case require_session now req (ws_auth ws) of
        (Some res, a) \<Rightarrow> Some (res, ws\<lparr>ws_auth := a\<rparr>)
      | (None, a) \<Rightarrow>
          let ws = ws\<lparr>ws_auth := a\<rparr>; i = rq_match req in
          (case ws_jobs ws i of
             Some live \<Rightarrow> Some (json_response (scan_json i (live_row live) (jb_ports live) (jb_findings live)), ws)
           | None \<Rightarrow>
               (case ws_db ws of
                  None \<Rightarrow> Some (not_found, ws)
                | Some d \<Rightarrow>
                    (case get_scan sq i d of
                       None \<Rightarrow> None
                     | Some None \<Rightarrow> Some (not_found, ws)
                     | Some (Some row) \<Rightarrow>
                         (case (load_ports sq i d, load_findings sq i d) of
                            (Some ports, Some findings) \<Rightarrow> Some (json_response (scan_json i row ports findings), ws)
                          | _ \<Rightarrow> None)))))"

text \<open>The line of a scan: the numbers of open ports and findings, from the job if there is one.\<close>

definition scan_line :: "ScanRow \<Rightarrow> string \<Rightarrow> nat \<Rightarrow> nat \<Rightarrow> int \<Rightarrow> string" where
  "scan_line r status opened findings scanned =
     json_object
       [json_name_field ''id'' (sr_id r), json_text_field ''target'' (sr_target r),
        json_raw_field ''port_start'' (show_int (sr_port_start r)), json_raw_field ''port_end'' (show_int (sr_port_end r)),
        json_name_field ''status'' status, json_raw_field ''open_ports'' (show_nat opened),
        json_raw_field ''findings'' (show_nat findings), json_raw_field ''scanned_ports'' (show_int scanned),
        json_raw_field ''started_at'' (show_int (sr_started_at r)),
        json_raw_field ''completed_at'' (show_int (sr_completed_at r))]"

definition list_line :: "'d Sqlite \<Rightarrow> 'd \<Rightarrow> (string \<Rightarrow> ScanJob option) \<Rightarrow> ScanRow \<Rightarrow> string option" where
  "list_line sq d jobs r =
     (case jobs (sr_id r) of
        Some live \<Rightarrow>
          Some (scan_line r (status_str (jb_status live)) (length (jb_ports live)) (length (jb_findings live)) (jb_scanned live))
      | None \<Rightarrow>
          (case (load_ports sq (sr_id r) d, load_findings sq (sr_id r) d) of
             (Some ps, Some fs) \<Rightarrow> Some (scan_line r (sr_status r) (length ps) (length fs) (sr_scanned_ports r))
           | _ \<Rightarrow> None))"

definition web_list_scans :: "'d Sqlite \<Rightarrow> int \<Rightarrow> Request \<Rightarrow> 'd WebState \<Rightarrow> (Response \<times> 'd WebState) option" where
  "web_list_scans sq now req ws =
     (case require_session now req (ws_auth ws) of
        (Some res, a) \<Rightarrow> Some (res, ws\<lparr>ws_auth := a\<rparr>)
      | (None, a) \<Rightarrow>
          let ws = ws\<lparr>ws_auth := a\<rparr> in
          map_option (\<lambda>ls. (json_response (json_object [json_raw_field ''scans'' (json_array ls)]), ws))
            (case ws_db ws of
               None \<Rightarrow> Some []
             | Some d \<Rightarrow> do { rows \<leftarrow> list_scans sq 200 d; read_rows (list_line sq d (ws_jobs ws)) rows }))"

section \<open>Start of the server\<close>

definition listening_text :: "Config \<Rightarrow> string" where
  "listening_text cfg =
     ''zerotrust webui listening on '' @ cf_public_url cfg @ ''/'' @ LF #
     ''  Register this redirect URI in AGG One: '' @ cf_redirect_uri cfg @ LF # ''  Ctrl-C to stop'' @ [LF]"

text \<open>The state the server listens with, and what was written to \<open>cout\<close> and \<open>cerr\<close> before.  Without a
  database the interface runs and keeps nothing.\<close>

definition web_start :: "'d Sqlite \<Rightarrow> Config \<Rightarrow> string \<Rightarrow> 'd \<Rightarrow> 'd WebState \<times> string \<times> string" where
  "web_start sq cfg path d =
     (case db_open sq path d of
        (opened, failure, d) \<Rightarrow>
          (\<lparr>ws_auth = auth_new, ws_jobs = Map.empty, ws_jobs_order = [], ws_db = (if opened then Some d else None)\<rparr>,
           (if opened then ''[INFO] scan history: '' @ path @ [LF] else []) @ listening_text cfg,
           (case failure of None \<Rightarrow> [] | Some e \<Rightarrow> ''[ERROR] '' @ e @ [LF]) @
           (if opened then [] else ''[WARN] scan history: db unavailable; scans will not persist'' @ [LF])))"

end
