(* ===== verification/Utf8.thy ===== *)
theory Utf8
  imports Prelude
begin

text \<open>
  UTF-8 as the readers of the web interface's answers understand it: which byte strings are UTF-8 (RFC 3629),
  and the code points that a browser makes of any byte string, with U+FFFD for every ill-formed part (the decoder
  of the WHATWG Encoding standard).  The program itself copies bytes; these definitions are specifications.
\<close>

section \<open>The decoder\<close>

text \<open>Between two code points, or inside one: the value so far, the bytes missing, and the range of the next one.\<close>

datatype Decoder = Ready | Pending nat nat nat nat

text \<open>The first byte of a code point; \<open>None\<close>: it is none.\<close>

definition lead_byte :: "nat \<Rightarrow> Decoder option" where
  "lead_byte b =
     (if 0xC2 \<le> b \<and> b \<le> 0xDF then Some (Pending (b - 0xC0) 1 0x80 0xBF)
      else if 0xE0 \<le> b \<and> b \<le> 0xEF then
        Some (Pending (b - 0xE0) 2 (if b = 0xE0 then 0xA0 else 0x80) (if b = 0xED then 0x9F else 0xBF))
      else if 0xF0 \<le> b \<and> b \<le> 0xF4 then
        Some (Pending (b - 0xF0) 3 (if b = 0xF0 then 0x90 else 0x80) (if b = 0xF4 then 0x8F else 0xBF))
      else None)"

definition ready_byte :: "nat \<Rightarrow> nat list \<times> Decoder" where
  "ready_byte b =
     (if b < 0x80 then ([b], Ready) else case lead_byte b of None \<Rightarrow> ([0xFFFD], Ready) | Some st \<Rightarrow> ([], st))"

text \<open>The code points that a byte completes; one that does not fit is read again as a first byte.\<close>

fun next_byte :: "Decoder \<Rightarrow> nat \<Rightarrow> nat list \<times> Decoder" where
  "next_byte Ready b = ready_byte b"
| "next_byte (Pending cp n lo hi) b =
     (if b < lo \<or> hi < b then (let (out, st) = ready_byte b in (0xFFFD # out, st))
      else let cp = 64 * cp + (b - 0x80) in if n = 1 then ([cp], Ready) else ([], Pending cp (n - 1) 0x80 0xBF))"

fun decode_from :: "Decoder \<Rightarrow> string \<Rightarrow> nat list" where
  "decode_from st [] = (if st = Ready then [] else [0xFFFD])"
| "decode_from st (c # s) = (let (out, st) = next_byte st (code c) in out @ decode_from st s)"

definition utf8_decode :: "string \<Rightarrow> nat list" where
  "utf8_decode s = decode_from Ready s"

section \<open>Well-formed text\<close>

fun utf8_from :: "Decoder \<Rightarrow> string \<Rightarrow> bool" where
  "utf8_from Ready [] = True"
| "utf8_from (Pending cp n lo hi) [] = False"
| "utf8_from Ready (c # s) =
     (if code c < 0x80 then utf8_from Ready s
      else case lead_byte (code c) of None \<Rightarrow> False | Some st \<Rightarrow> utf8_from st s)"
| "utf8_from (Pending cp n lo hi) (c # s) =
     (lo \<le> code c \<and> code c \<le> hi \<and>
      utf8_from (if n = 1 then Ready else Pending (64 * cp + (code c - 0x80)) (n - 1) 0x80 0xBF) s)"

definition utf8 :: "string \<Rightarrow> bool" where
  "utf8 s \<longleftrightarrow> utf8_from Ready s"

section \<open>ASCII bytes\<close>

text \<open>Inside a code point only bytes from 0x80 on fit, and a code point of several bytes is at least 0x80.\<close>

fun decoder_ok :: "Decoder \<Rightarrow> bool" where
  "decoder_ok Ready \<longleftrightarrow> True"
| "decoder_ok (Pending cp n lo hi) \<longleftrightarrow> 0x80 \<le> lo \<and> 2 \<le> 64 * cp + (lo - 0x80) \<and> (n = 1 \<longrightarrow> 2 \<le> cp)"

lemma lead_byte_ok: "lead_byte b = Some st \<Longrightarrow> decoder_ok st \<and> 0x80 \<le> b"
  by (auto simp: lead_byte_def split: if_splits)

lemma ready_byte_ok: "decoder_ok (snd (ready_byte b)) \<and> (\<forall>x\<in>set (fst (ready_byte b)). x < 0x80 \<longrightarrow> x = b)"
  using lead_byte_ok by (auto simp: ready_byte_def split: option.split)

lemma decoder_ok_next:
  "decoder_ok (Pending cp n lo hi) \<Longrightarrow> lo \<le> b \<Longrightarrow>
     decoder_ok (if n = 1 then Ready else Pending (64 * cp + (b - 0x80)) (n - 1) 0x80 0xBF)"
  by auto

lemma next_byte_ok:
  assumes "decoder_ok st"
  shows "decoder_ok (snd (next_byte st b)) \<and> (\<forall>x\<in>set (fst (next_byte st b)). x < 0x80 \<longrightarrow> x = b)"
proof (cases st)
  case (Pending cp n lo hi)
  show ?thesis
  proof (cases "b < lo \<or> hi < b")
    case True
    then show ?thesis using ready_byte_ok[of b] by (auto simp: Pending split: prod.split)
  next
    case False
    then have "lo - 0x80 \<le> b - 0x80" "0x80 \<le> b" using assms Pending by auto
    then have "2 \<le> 64 * cp + (b - 0x80)" using assms Pending by auto
    then show ?thesis using False assms Pending by (auto simp: Let_def)
  qed
qed (use ready_byte_ok in simp)

lemma next_byte_ascii: "decoder_ok st \<Longrightarrow> b < 0x80 \<Longrightarrow> next_byte st b = (if st = Ready then [b] else [0xFFFD, b], Ready)"
  by (cases st) (auto simp: ready_byte_def)

lemma decode_from_ascii:
  "decoder_ok st \<Longrightarrow> code c < 0x80 \<Longrightarrow> decode_from st (a @ c # b) = decode_from st a @ code c # utf8_decode b"
proof (induction a arbitrary: st)
  case Nil
  then show ?case by (simp add: next_byte_ascii utf8_decode_def)
next
  case (Cons x a)
  obtain out st' where n: "next_byte st (code x) = (out, st')" by fastforce
  then have "decoder_ok st'" using next_byte_ok[OF Cons.prems(1), of "code x"] by simp
  then show ?case using Cons.IH[of st'] Cons.prems(2) by (simp add: n)
qed

text \<open>A text is decoded piece by piece between its ASCII bytes.\<close>

lemma decode_ascii: "code c < 0x80 \<Longrightarrow> utf8_decode (a @ c # b) = utf8_decode a @ code c # utf8_decode b"
  using decode_from_ascii[of Ready c a b] by (simp add: utf8_decode_def)

lemma decode_simps [simp]: "utf8_decode [] = []" "code c < 0x80 \<Longrightarrow> utf8_decode (c # s) = code c # utf8_decode s"
  using decode_ascii[of c "[]" s] by (simp_all add: utf8_decode_def)

lemma decode_ascii_text: "list_all (\<lambda>c. code c < 0x80) a \<Longrightarrow> utf8_decode (a @ s) = map code a @ utf8_decode s"
  by (induction a) simp_all

text \<open>The decoder makes no ASCII of its own.\<close>

lemma decode_from_small: "decoder_ok st \<Longrightarrow> x \<in> set (decode_from st s) \<Longrightarrow> x < 0x80 \<Longrightarrow> \<exists>c\<in>set s. code c = x"
proof (induction s arbitrary: st)
  case (Cons c s)
  obtain out st' where n: "next_byte st (code c) = (out, st')" by fastforce
  then have ok: "decoder_ok st'" "x \<in> set out \<Longrightarrow> x = code c"
    using next_byte_ok[OF Cons.prems(1), of "code c"] Cons.prems(3) by auto
  have "x \<in> set out \<or> x \<in> set (decode_from st' s)" using Cons.prems(2) by (simp add: n)
  then show ?case using ok Cons.IH[OF ok(1) _ Cons.prems(3)] by auto
qed (auto split: if_splits)

lemma decode_small: "x \<in> set (utf8_decode s) \<Longrightarrow> x < 0x80 \<Longrightarrow> \<exists>c\<in>set s. code c = x"
  using decode_from_small[of Ready] by (simp add: utf8_decode_def)

lemma utf8_from_ascii:
  "decoder_ok st \<Longrightarrow> code c < 0x80 \<Longrightarrow> utf8_from st (a @ c # b) \<longleftrightarrow> utf8_from st a \<and> utf8 b"
proof (induction a arbitrary: st)
  case Nil
  then show ?case by (cases st) (auto simp: utf8_def)
next
  case (Cons x a)
  show ?case
  proof (cases st)
    case Ready
    then show ?thesis
      using Cons.IH[OF _ Cons.prems(2)] lead_byte_ok[of "code x"] by (auto split: option.splits)
  next
    case (Pending cp n lo hi)
    then show ?thesis
      using Cons.IH[OF decoder_ok_next[of cp n lo hi "code x"] Cons.prems(2)] Cons.prems(1) by auto
  qed
qed

lemma utf8_ascii: "code c < 0x80 \<Longrightarrow> utf8 (a @ c # b) \<longleftrightarrow> utf8 a \<and> utf8 b"
  using utf8_from_ascii[of Ready c a b] by (simp add: utf8_def)

lemma utf8_simps [simp]: "utf8 []" "code c < 0x80 \<Longrightarrow> utf8 (c # s) \<longleftrightarrow> utf8 s"
  using utf8_ascii[of c "[]" s] by (simp_all add: utf8_def)

lemma utf8_ascii_text: "list_all (\<lambda>c. code c < 0x80) a \<Longrightarrow> utf8 (a @ s) \<longleftrightarrow> utf8 s"
  by (induction a) simp_all

lemma utf8_ascii_only: "list_all (\<lambda>c. code c < 0x80) a \<Longrightarrow> utf8 a"
  using utf8_ascii_text[of a "[]"] by simp

lemma utf8_join:
  assumes "code c < 0x80"
  shows "utf8 (join_with [c] xs) \<longleftrightarrow> list_all utf8 xs"
proof (induction xs)
  case (Cons x xs)
  then show ?case using assms utf8_ascii[OF assms, of x] by (auto simp: join_with_Cons)
qed simp

end
