(* ===== verification/WebStream.thy ===== *)
theory WebStream
  imports WebScans DbStore Utf8
begin

text \<open>
  The live stream of a scan, \<open>stream_scan\<close> of \<open>webui/webui.cpp\<close>, against the thread that the scan
  runs on.  The stream reads status, counter and results at three moments of each round; a round is
  the record of what it read.  Writing to the client may fail at any frame.
\<close>

section \<open>The stream\<close>

type_synonym Frame = "string \<times> string"

definition frame_text :: "Frame \<Rightarrow> string" where
  "frame_text f = ''event: '' @ fst f @ LF # ''data: '' @ snd f @ [LF, LF]"

record Reading =
  rd_status :: int
  rd_scanned :: int
  rd_ports :: "Port list"
  rd_findings :: "Finding list"

record StreamState =
  sm_ports :: nat
  sm_findings :: nat
  sm_scanned :: int
  sm_status :: int

definition stream_start :: StreamState where
  "stream_start = \<lparr>sm_ports = 0, sm_findings = 0, sm_scanned = -1, sm_status = -1\<rparr>"

definition port_frame :: "Port \<Rightarrow> Frame" where
  "port_frame p = (''port'', port_json p)"

definition finding_frame :: "Finding \<Rightarrow> Frame" where
  "finding_frame f = (''finding'', finding_json f)"

definition progress_frame :: "int \<Rightarrow> Frame" where
  "progress_frame n = (''progress'', json_object [json_raw_field ''scanned'' (show_int n)])"

definition status_frame :: "int \<Rightarrow> Frame" where
  "status_frame s = (''status'', json_object [json_name_field ''status'' (status_str s)])"

definition empty_object :: string where
  "empty_object = json_object []"

text \<open>One round: the frames it pushes, and what it has sent.\<close>

definition stream_round :: "Reading \<Rightarrow> StreamState \<Rightarrow> Frame list \<times> StreamState" where
  "stream_round r st =
     ((if rd_scanned r \<noteq> sm_scanned st then [progress_frame (rd_scanned r)] else []) @
      map port_frame (drop (sm_ports st) (rd_ports r)) @
      map finding_frame (drop (sm_findings st) (rd_findings r)) @
      (if rd_status r \<noteq> sm_status st then [status_frame (rd_status r)] else []),
      \<lparr>sm_ports = max (sm_ports st) (length (rd_ports r)), sm_findings = max (sm_findings st) (length (rd_findings r)),
       sm_scanned = rd_scanned r, sm_status = rd_status r\<rparr>)"

datatype StreamEnd = Streaming | Ended | Broken

text \<open>The loop over the rounds, with the number of writes that the client still takes.  The result of
  the last push, \<open>end\<close>, is not looked at.\<close>

fun stream_loop :: "Reading list \<Rightarrow> nat \<Rightarrow> StreamState \<Rightarrow> Frame list \<times> StreamEnd" where
  "stream_loop [] n st = ([], Streaming)"
| "stream_loop (r # rs) n st =
     (let (fr, st') = stream_round r st in
      if n < length fr then (take n fr, Broken)
      else if rd_status r = 2 \<or> rd_status r = 3 then
        (fr @ (if n = length fr then [] else [(''end'', empty_object)]), Ended)
      else let (frs, e) = stream_loop rs (n - length fr) st' in (fr @ frs, e))"

definition stream_frames :: "Reading list \<Rightarrow> nat \<Rightarrow> Frame list \<times> StreamEnd" where
  "stream_frames rs n =
     (if n = 0 then ([], Broken)
      else let (frs, e) = stream_loop rs (n - 1) stream_start in ((''hello'', empty_object) # frs, e))"

definition stream_not_found :: string where
  "stream_not_found =
     ''event: end'' @ LF # ''data: '' @ json_object [json_name_field ''error'' ''not_found''] @ [LF, LF]"

text \<open>The handler: a response of its own, or the headers of the stream and the job it follows.\<close>

definition web_stream_scan :: "int \<Rightarrow> Request \<Rightarrow> 'd WebState \<Rightarrow> (Response \<times> ScanJob option) \<times> 'd WebState" where
  "web_stream_scan now req ws =
     (case require_session now req (ws_auth ws) of
        (Some res, a) \<Rightarrow> ((res, None), ws\<lparr>ws_auth := a\<rparr>)
      | (None, a) \<Rightarrow>
          let ws = ws\<lparr>ws_auth := a\<rparr> in
          (case ws_jobs ws (rq_match req) of
             None \<Rightarrow> ((set_content stream_not_found ''text/event-stream'' (response_new\<lparr>rs_status := 404\<rparr>), None), ws)
           | Some job \<Rightarrow>
               ((set_header ''X-Accel-Buffering'' ''no'' (set_header ''Cache-Control'' ''no-cache'' response_new), Some job), ws)))"

section \<open>The job as the stream sees it\<close>

text \<open>The writes of the thread to the shared job, one step each.\<close>

inductive job_step :: "ScanJob \<Rightarrow> ScanJob \<Rightarrow> bool" where
  started: "jb_status j = 0 \<Longrightarrow> job_step j (j\<lparr>jb_status := 1\<rparr>)"
| open_port: "jb_status j = 1 \<Longrightarrow> job_step j (j\<lparr>jb_ports := jb_ports j @ [p], jb_findings := jb_findings j @ fs\<rparr>)"
| probed: "jb_status j = 1 \<Longrightarrow> job_step j (j\<lparr>jb_scanned := jb_scanned j + 1\<rparr>)"
| finish: "jb_status j = 1 \<Longrightarrow> job_step j (j\<lparr>jb_status := 2\<rparr>)"
| complete: "jb_status j \<in> {2, 3} \<Longrightarrow> job_step j (j\<lparr>jb_completed_at := t\<rparr>)"
| explain: "jb_status j \<in> {1, 2} \<Longrightarrow> job_step j (j\<lparr>jb_error := e\<rparr>)"
| fail: "jb_status j \<in> {1, 2} \<Longrightarrow> job_step j (j\<lparr>jb_status := 3\<rparr>)"

inductive_cases job_stepE: "job_step j j'"

definition history :: "(nat \<Rightarrow> ScanJob) \<Rightarrow> bool" where
  "history h \<longleftrightarrow> (\<forall>t. h (Suc t) = h t \<or> job_step (h t) (h (Suc t)))"

text \<open>A round that reads status, counter and results at the times \<open>(t1, t2, t3)\<close>.\<close>

definition reading_at :: "(nat \<Rightarrow> ScanJob) \<Rightarrow> nat \<times> nat \<times> nat \<Rightarrow> Reading" where
  "reading_at h ts =
     \<lparr>rd_status = jb_status (h (fst ts)), rd_scanned = jb_scanned (h (fst (snd ts))),
      rd_ports = jb_ports (h (snd (snd ts))), rd_findings = jb_findings (h (snd (snd ts)))\<rparr>"

fun in_order :: "nat \<Rightarrow> (nat \<times> nat \<times> nat) list \<Rightarrow> bool" where
  "in_order t [] \<longleftrightarrow> True"
| "in_order t ((t1, t2, t3) # ts) \<longleftrightarrow> t \<le> t1 \<and> t1 \<le> t2 \<and> t2 \<le> t3 \<and> in_order t3 ts"

section \<open>Nothing is lost and nothing is sent twice\<close>

lemma job_step_grows:
  assumes "job_step j j'"
  shows "\<exists>ps fs. jb_ports j' = jb_ports j @ ps \<and> jb_findings j' = jb_findings j @ fs \<and>
    (jb_status j \<in> {2, 3} \<longrightarrow> ps = [] \<and> fs = [] \<and> jb_status j' \<in> {2, 3})"
  using assms by (cases rule: job_step.cases) auto

lemma history_grows:
  assumes "history h" "t \<le> T"
  shows "\<exists>ps fs. jb_ports (h T) = jb_ports (h t) @ ps \<and> jb_findings (h T) = jb_findings (h t) @ fs \<and>
    (jb_status (h t) \<in> {2, 3} \<longrightarrow> ps = [] \<and> fs = [] \<and> jb_status (h T) \<in> {2, 3})"
  using assms(2)
proof (induction rule: dec_induct)
  case (step n)
  have "\<exists>ps fs. jb_ports (h (Suc n)) = jb_ports (h n) @ ps \<and> jb_findings (h (Suc n)) = jb_findings (h n) @ fs \<and>
      (jb_status (h n) \<in> {2, 3} \<longrightarrow> ps = [] \<and> fs = [] \<and> jb_status (h (Suc n)) \<in> {2, 3})"
  proof (cases "h (Suc n) = h n")
    case False
    then show ?thesis using assms(1) job_step_grows unfolding history_def by blast
  qed simp
  then show ?case using step.IH by (elim exE conjE) (auto)
qed simp

definition sent_ports :: "Frame list \<Rightarrow> Frame list" where
  "sent_ports frs = filter (\<lambda>f. fst f = ''port'') frs"

definition sent_findings :: "Frame list \<Rightarrow> Frame list" where
  "sent_findings frs = filter (\<lambda>f. fst f = ''finding'') frs"

lemma sent_append [simp]:
  "sent_ports (xs @ ys) = sent_ports xs @ sent_ports ys" "sent_findings (xs @ ys) = sent_findings xs @ sent_findings ys"
  by (simp_all add: sent_ports_def sent_findings_def)

lemma sent_simps [simp]:
  "sent_ports (map port_frame ps) = map port_frame ps" "sent_ports (map finding_frame fs) = []"
  "sent_findings (map port_frame ps) = []" "sent_findings (map finding_frame fs) = map finding_frame fs"
  "sent_ports [progress_frame n] = []" "sent_findings [progress_frame n] = []"
  "sent_ports [status_frame s] = []" "sent_findings [status_frame s] = []"
  "sent_ports [(''end'', d)] = []" "sent_findings [(''end'', d)] = []" "sent_ports [] = []" "sent_findings [] = []"
  by (auto simp: sent_ports_def sent_findings_def port_frame_def finding_frame_def progress_frame_def status_frame_def
      filter_empty_conv filter_id_conv)

lemma sent_round:
  "sent_ports (fst (stream_round r st)) = map port_frame (drop (sm_ports st) (rd_ports r))"
  "sent_findings (fst (stream_round r st)) = map finding_frame (drop (sm_findings st) (rd_findings r))"
  by (simp_all add: stream_round_def)

lemma prefix_filter_take: "prefix (filter P (take n xs)) (filter P xs)"
  by (metis append_take_drop_id filter_append prefixI)

lemma prefix_sent_take:
  "prefix (sent_ports (take n xs)) (sent_ports xs)" "prefix (sent_findings (take n xs)) (sent_findings xs)"
  unfolding sent_ports_def sent_findings_def by (rule prefix_filter_take)+

lemma stream_loop_sent:
  assumes "history h" "in_order t ts" "\<forall>(t1, t2, t3)\<in>set ts. t3 \<le> T" "t \<le> T"
    and "sm_ports st = length (jb_ports (h t))" "sm_findings st = length (jb_findings (h t))"
    and "stream_loop (map (reading_at h) ts) n st = (frs, e)"
  shows "prefix (sent_ports frs) (map port_frame (drop (sm_ports st) (jb_ports (h T)))) \<and>
    prefix (sent_findings frs) (map finding_frame (drop (sm_findings st) (jb_findings (h T)))) \<and>
    (e = Ended \<longrightarrow> sent_ports frs = map port_frame (drop (sm_ports st) (jb_ports (h T))) \<and>
       sent_findings frs = map finding_frame (drop (sm_findings st) (jb_findings (h T))))"
  using assms(2-7)
proof (induction ts arbitrary: t n st frs)
  case (Cons a ts)
  obtain t1 t2 t3 where a: "a = (t1, t2, t3)" by (cases a) auto
  have o: "t \<le> t1" "t1 \<le> t2" "t2 \<le> t3" "in_order t3 ts" "t3 \<le> T" using Cons.prems(1,2) a by auto
  let ?r = "reading_at h a"
  obtain fr st' where round: "stream_round ?r st = (fr, st')" by (cases "stream_round ?r st")
  have r: "rd_ports ?r = jb_ports (h t3)" "rd_findings ?r = jb_findings (h t3)" "rd_status ?r = jb_status (h t1)"
    by (simp_all add: reading_at_def a)
  have "t \<le> t3" using o by simp
  from history_grows[OF assms(1) this] obtain ps fs where grow: "jb_ports (h t3) = jb_ports (h t) @ ps"
    "jb_findings (h t3) = jb_findings (h t) @ fs" by blast
  from history_grows[OF assms(1) o(5)] obtain ps' fs' where later: "jb_ports (h T) = jb_ports (h t3) @ ps'"
    "jb_findings (h T) = jb_findings (h t3) @ fs'" by blast
  have sent: "sent_ports fr = map port_frame ps" "sent_findings fr = map finding_frame fs"
    using sent_round[of ?r st] round r grow Cons.prems(4,5) by simp_all
  have st': "sm_ports st' = length (jb_ports (h t3))" "sm_findings st' = length (jb_findings (h t3))"
    using round grow Cons.prems(4,5) r by (auto simp: stream_round_def)
  have goal: "drop (sm_ports st) (jb_ports (h T)) = ps @ ps'" "drop (sm_findings st) (jb_findings (h T)) = fs @ fs'"
    using later grow Cons.prems(4,5) by simp_all
  consider (broken) "n < length fr" "frs = take n fr" "e = Broken"
    | (ended) "jb_status (h t1) \<in> {2, 3}" "sent_ports frs = sent_ports fr" "sent_findings frs = sent_findings fr" "e = Ended"
    | (more) frs' where "stream_loop (map (reading_at h) ts) (n - length fr) st' = (frs', e)" "frs = fr @ frs'"
    using Cons.prems(6) round r(3) by (auto simp: Let_def split: if_splits prod.splits)
  then show ?case
  proof cases
    case broken
    have "prefix (sent_ports frs) (map port_frame ps)" "prefix (sent_findings frs) (map finding_frame fs)"
      using prefix_sent_take[of n fr] broken(2) sent by simp_all
    then show ?thesis using broken(3) goal by (auto simp: prefix_def)
  next
    case ended
    have "t1 \<le> T" using o by simp
    from history_grows[OF assms(1) this] ended(1) have "jb_ports (h T) = jb_ports (h t1)" "jb_findings (h T) = jb_findings (h t1)"
      by auto
    moreover have "t1 \<le> t3" using o by simp
    from history_grows[OF assms(1) this] ended(1) have "jb_ports (h t3) = jb_ports (h t1)" "jb_findings (h t3) = jb_findings (h t1)"
      by auto
    ultimately have "ps' = []" "fs' = []" using later by simp_all
    then show ?thesis using goal sent ended(2,3) by simp
  next
    case (more frs')
    have ih: "prefix (sent_ports frs') (map port_frame (drop (sm_ports st') (jb_ports (h T)))) \<and>
      prefix (sent_findings frs') (map finding_frame (drop (sm_findings st') (jb_findings (h T)))) \<and>
      (e = Ended \<longrightarrow> sent_ports frs' = map port_frame (drop (sm_ports st') (jb_ports (h T))) \<and>
         sent_findings frs' = map finding_frame (drop (sm_findings st') (jb_findings (h T))))"
      using Cons.prems(2) by (intro Cons.IH[OF o(4) _ o(5) st' more(1)]) auto
    then show ?thesis using goal sent more(2) st' later by simp
  qed
qed simp

text \<open>C15: The live view shows everything once: whatever the times at which the stream looks at the job, while
  the scan is running the ports and findings it has sent are the first ones of the job, in the order of the
  job and each once, and when it ends because the scan has, they are all of them; this holds however many
  frames the client takes.\<close>

theorem stream_sends_everything:
  assumes "history h" "in_order 0 ts" "\<forall>(t1, t2, t3)\<in>set ts. t3 \<le> T" "jb_ports (h 0) = []" "jb_findings (h 0) = []"
    and "stream_frames (map (reading_at h) ts) n = (frames, e)"
  shows "prefix (sent_ports frames) (map port_frame (jb_ports (h T))) \<and>
    prefix (sent_findings frames) (map finding_frame (jb_findings (h T))) \<and>
    (e = Ended \<longrightarrow> sent_ports frames = map port_frame (jb_ports (h T)) \<and>
       sent_findings frames = map finding_frame (jb_findings (h T)))"
proof (cases "n = 0")
  case True
  then show ?thesis using assms(6) by (auto simp: stream_frames_def)
next
  case False
  then obtain frs where l: "stream_loop (map (reading_at h) ts) (n - 1) stream_start = (frs, e)"
    "frames = (''hello'', empty_object) # frs"
    using assms(6) by (auto simp: stream_frames_def split: prod.splits)
  have "sent_ports frames = sent_ports frs" "sent_findings frames = sent_findings frs"
    by (simp_all add: l(2) sent_ports_def sent_findings_def)
  then show ?thesis
    using stream_loop_sent[OF assms(1-3) le0 _ _ l(1)] assms(4,5) by (simp add: stream_start_def)
qed

text \<open>A scan of one port, looked at three times: before it starts, while it runs, and at the end.\<close>

definition sample_job :: ScanJob where
  "sample_job = new_job ''id'' ''10.0.0.1'' ''10.0.0.1'' 80 80 0"

definition sample_history :: "nat \<Rightarrow> ScanJob" where
  "sample_history t =
     (if t = 0 then sample_job
      else if t = 1 then sample_job\<lparr>jb_status := 1\<rparr>
      else if t = 2 then sample_job\<lparr>jb_status := 1, jb_ports := [tcp_result 80 S_OPEN]\<rparr>
      else sample_job\<lparr>jb_status := 2, jb_ports := [tcp_result 80 S_OPEN]\<rparr>)"

lemma sample_history_ok: "history sample_history"
  unfolding history_def
proof
  fix t :: nat
  consider "t = 0" | "t = 1" | "t = 2" | "2 < t" by linarith
  then show "sample_history (Suc t) = sample_history t \<or> job_step (sample_history t) (sample_history (Suc t))"
  proof cases
    case 1
    then show ?thesis using job_step.started[of sample_job] by (simp add: sample_history_def sample_job_def new_job_def)
  next
    case 2
    then show ?thesis
      using job_step.open_port[of "sample_job\<lparr>jb_status := 1\<rparr>" "[]" "tcp_result 80 S_OPEN"]
      by (simp add: sample_history_def sample_job_def new_job_def)
  next
    case 3
    then show ?thesis
      using job_step.finish[of "sample_job\<lparr>jb_status := 1, jb_ports := [tcp_result 80 S_OPEN]\<rparr>"]
      by (simp add: sample_history_def sample_job_def new_job_def)
  next
    case 4
    then show ?thesis by (simp add: sample_history_def)
  qed
qed

theorem stream_sends_everything_witness:
  "\<exists>frames. stream_frames (map (reading_at sample_history) [(0, 0, 1), (1, 1, 2), (3, 3, 3)]) 100 = (frames, Ended) \<and>
     sent_ports frames = [port_frame (tcp_result 80 S_OPEN)]"
proof -
  obtain frames e where f: "stream_frames (map (reading_at sample_history) [(0, 0, 1), (1, 1, 2), (3, 3, 3)]) 100 = (frames, e)"
    by (cases "stream_frames (map (reading_at sample_history) [(0, 0, 1), (1, 1, 2), (3, 3, 3)]) 100")
  then have "e = Ended"
    by (auto simp: stream_frames_def stream_round_def reading_at_def sample_history_def sample_job_def new_job_def
        stream_start_def Let_def)
  moreover have "jb_ports (sample_history 3) = [tcp_result 80 S_OPEN]" "jb_ports (sample_history 0) = []"
    "jb_findings (sample_history 0) = []" by (simp_all add: sample_history_def sample_job_def new_job_def)
  ultimately show ?thesis using stream_sends_everything[OF sample_history_ok _ _ _ _ f, of 3] f by simp
qed

section \<open>The stream ends\<close>

lemma history_lengths:
  assumes "history h" "t \<le> T"
  shows "length (jb_ports (h t)) \<le> length (jb_ports (h T))" "length (jb_findings (h t)) \<le> length (jb_findings (h T))"
  using history_grows[OF assms] by auto

lemma round_length:
  assumes "sm_ports st \<le> length (rd_ports r)" "sm_findings st \<le> length (rd_findings r)"
  shows "length (fst (stream_round r st)) + sm_ports st + sm_findings st \<le> 2 + length (rd_ports r) + length (rd_findings r)"
  using assms by (simp add: stream_round_def)

text \<open>Two frames a round and one for each port and finding are enough to come to the end.\<close>

lemma stream_loop_ends:
  assumes "history h" "in_order t ts" "\<forall>(t1, t2, t3)\<in>set ts. t3 \<le> T" "(\<exists>(t1, t2, t3)\<in>set ts. jb_status (h t1) \<in> {2, 3})"
    and "sm_ports st = length (jb_ports (h t))" "sm_findings st = length (jb_findings (h t))"
    and "2 * length ts + length (jb_ports (h T)) + length (jb_findings (h T)) < n + sm_ports st + sm_findings st"
  shows "\<exists>frs. stream_loop (map (reading_at h) ts) n st = (frs @ [(''end'', empty_object)], Ended)"
  using assms(2-7)
proof (induction ts arbitrary: t n st)
  case (Cons a ts)
  obtain t1 t2 t3 where a: "a = (t1, t2, t3)" by (cases a) auto
  have o: "t \<le> t3" "in_order t3 ts" "t3 \<le> T" using Cons.prems(1,2) a by auto
  let ?r = "reading_at h a"
  obtain fr st' where round: "stream_round ?r st = (fr, st')" by (cases "stream_round ?r st")
  have r: "rd_ports ?r = jb_ports (h t3)" "rd_findings ?r = jb_findings (h t3)" "rd_status ?r = jb_status (h t1)"
    by (simp_all add: reading_at_def a)
  note grow = history_lengths[OF assms(1) o(1)] history_lengths[OF assms(1) o(3)]
  have st': "sm_ports st' = length (jb_ports (h t3))" "sm_findings st' = length (jb_findings (h t3))"
    using round grow Cons.prems(4,5) r by (auto simp: stream_round_def)
  have len: "length fr + sm_ports st + sm_findings st \<le> 2 + length (jb_ports (h t3)) + length (jb_findings (h t3))"
    using round_length[of st ?r] round r Cons.prems(4,5) grow by simp
  then have fits: "length fr < n" using Cons.prems(6) grow by simp
  show ?case
  proof (cases "jb_status (h t1) \<in> {2, 3}")
    case True
    then show ?thesis using fits r by (auto simp: round Let_def)
  next
    case False
    have "2 * length ts + length (jb_ports (h T)) + length (jb_findings (h T)) < n - length fr + sm_ports st' + sm_findings st'"
      using Cons.prems(6) len fits by (simp add: st')
    moreover have "\<exists>(t1, t2, t3)\<in>set ts. jb_status (h t1) \<in> {2, 3}" using Cons.prems(3) False a by auto
    ultimately obtain frs where "stream_loop (map (reading_at h) ts) (n - length fr) st' = (frs @ [(''end'', empty_object)], Ended)"
      using Cons.IH[OF o(2) _ _ st', of "n - length fr"] Cons.prems(2) by auto
    then show ?thesis using fits r False by (auto simp: round Let_def)
  qed
qed simp

text \<open>C33: The stream ends after the scan: a round that finds the scan done or failed is the last one, and a client
  that takes two frames a round and one for each result gets a greeting first, and then everything up to the
  final event.\<close>

theorem stream_ends:
  assumes "history h" "in_order 0 ts" "\<forall>(t1, t2, t3)\<in>set ts. t3 \<le> T" "(t1, t2, t3) \<in> set ts" "jb_status (h t1) \<in> {2, 3}"
    and "jb_ports (h 0) = []" "jb_findings (h 0) = []"
    and "2 * length ts + length (jb_ports (h T)) + length (jb_findings (h T)) + 1 < n"
  shows "\<exists>frs. stream_frames (map (reading_at h) ts) n = ((''hello'', empty_object) # frs @ [(''end'', empty_object)], Ended)"
proof -
  have "\<exists>frs. stream_loop (map (reading_at h) ts) (n - 1) stream_start = (frs @ [(''end'', empty_object)], Ended)"
  proof (rule stream_loop_ends[OF assms(1-3)])
    show "\<exists>(t1, t2, t3)\<in>set ts. jb_status (h t1) \<in> {2, 3}" using assms(4,5) by blast
  qed (use assms(6-8) in \<open>simp_all add: stream_start_def\<close>)
  then show ?thesis using assms(8) by (auto simp: stream_frames_def)
qed

theorem stream_ends_witness:
  "\<exists>frs. stream_frames (map (reading_at sample_history) [(0, 0, 1), (1, 1, 2), (3, 3, 3)]) 9 =
     ((''hello'', empty_object) # frs @ [(''end'', empty_object)], Ended)"
  by (rule stream_ends[OF sample_history_ok, of _ 3 3 3 3]) (simp_all add: sample_history_def sample_job_def new_job_def)

section \<open>What the client reads\<close>

text \<open>
  A reader of the event stream format, as the HTML standard has it, over the code points of the decoded text: lines
  end by a carriage return, a line feed or both, and the last one counts only if it does; a line names a field and
  its value, or is a comment; several data lines are joined by line feeds; a blank line dispatches the event, unless
  there was no data, and an event without a name is a message.
\<close>

definition strip_bom :: "nat list \<Rightarrow> nat list" where
  "strip_bom t = (if t \<noteq> [] \<and> hd t = 0xFEFF then tl t else t)"

function text_lines :: "nat list \<Rightarrow> nat list \<Rightarrow> nat list list" where
  "text_lines cur [] = []"
| "text_lines cur (c # s) =
     (if c = 13 then cur # text_lines [] (if s \<noteq> [] \<and> hd s = 10 then tl s else s)
      else if c = 10 then cur # text_lines [] s
      else text_lines (cur @ [c]) s)"
  by pat_completeness auto
termination by (relation "measure (\<lambda>(cur, s). length s)") auto

definition field_value :: "nat list \<Rightarrow> nat list" where
  "field_value v = (if v \<noteq> [] \<and> hd v = 32 then tl v else v)"

fun sse_events :: "nat list list \<Rightarrow> nat list \<Rightarrow> nat list \<Rightarrow> (nat list \<times> nat list) list" where
  "sse_events [] ev d = []"
| "sse_events (l # ls) ev d =
     (if l = [] then
        (if d = [] then [] else [(if ev = [] then map code ''message'' else ev, if last d = 10 then butlast d else d)]) @
        sse_events ls [] []
      else if hd l = 58 then sse_events ls ev d
      else
        let name = takeWhile (\<lambda>c. c \<noteq> 58) l; v = field_value (drop (length name + 1) l) in
        if name = map code ''event'' then sse_events ls v d
        else if name = map code ''data'' then sse_events ls ev (d @ v @ [10])
        else sse_events ls ev d)"

definition sse_read :: "string \<Rightarrow> (nat list \<times> nat list) list" where
  "sse_read bytes = sse_events (text_lines [] (strip_bom (utf8_decode bytes))) [] []"

definition one_line :: "string \<Rightarrow> bool" where
  "one_line s \<longleftrightarrow> LF \<notin> set s \<and> CR \<notin> set s"

definition as_read :: "Frame \<Rightarrow> nat list \<times> nat list" where
  "as_read f = (utf8_decode (fst f), utf8_decode (snd f))"

lemma decoded_line: "one_line s \<Longrightarrow> 10 \<notin> set (utf8_decode s) \<and> 13 \<notin> set (utf8_decode s)"
proof -
  have "c = LF" if "code c = 10" for c using that char_eq_code_iff[of c LF] by simp
  moreover have "c = CR" if "code c = 13" for c using that char_eq_code_iff[of c CR] by simp
  ultimately show "one_line s \<Longrightarrow> 10 \<notin> set (utf8_decode s) \<and> 13 \<notin> set (utf8_decode s)"
    using decode_small[of 10 s] decode_small[of 13 s] by (auto simp: one_line_def)
qed

lemma text_lines_line:
  "10 \<notin> set l \<Longrightarrow> 13 \<notin> set l \<Longrightarrow> text_lines cur (l @ 10 # s) = (cur @ l) # text_lines [] s"
  by (induction l arbitrary: cur) auto

lemma sse_events_frame:
  "ev \<noteq> [] \<Longrightarrow> sse_events ((map code ''event: '' @ ev) # (map code ''data: '' @ d) # [] # ls) [] [] = (ev, d) # sse_events ls [] []"
  by (simp add: field_value_def)

lemma frame_decoded:
  "utf8_decode (frame_text f @ s) =
     map code ''event: '' @ utf8_decode (fst f) @ 10 # map code ''data: '' @ utf8_decode (snd f) @ 10 # 10 # utf8_decode s"
proof -
  have "utf8_decode (fst f @ LF # ''data: '' @ snd f @ [LF, LF] @ s) =
      utf8_decode (fst f) @ 10 # utf8_decode (''data: '' @ snd f @ LF # LF # s)"
    using decode_ascii[of LF "fst f" "''data: '' @ snd f @ LF # LF # s"] by simp
  moreover have "utf8_decode (''data: '' @ snd f @ LF # LF # s) = map code ''data: '' @ utf8_decode (snd f) @ 10 # 10 # utf8_decode s"
    using decode_ascii[of LF "snd f" "LF # s"] decode_ascii_text[of "''data: ''" "snd f @ LF # LF # s"] by simp
  ultimately show ?thesis
    using decode_ascii_text[of "''event: ''" "fst f @ LF # ''data: '' @ snd f @ [LF, LF] @ s"] by (simp add: frame_text_def)
qed

lemma decode_nonempty: "s \<noteq> [] \<Longrightarrow> code (hd s) < 0x80 \<Longrightarrow> utf8_decode s \<noteq> []"
  by (cases s) simp_all

text \<open>Frames that a text can carry: a name that begins with an ASCII character, and no line ends.\<close>

definition carried :: "Frame \<Rightarrow> bool" where
  "carried f \<longleftrightarrow> fst f \<noteq> [] \<and> code (hd (fst f)) < 0x80 \<and> one_line (fst f) \<and> one_line (snd f)"

lemma sse_read_frames:
  assumes "list_all carried frs"
  shows "sse_read (concat (map frame_text frs)) = map as_read frs"
proof -
  have "sse_events (text_lines [] (utf8_decode (concat (map frame_text frs)))) [] [] = map as_read frs"
    using assms
  proof (induction frs)
    case (Cons f frs)
    let ?rest = "utf8_decode (concat (map frame_text frs))"
    have l: "10 \<notin> set (map code ''event: '' @ utf8_decode (fst f)) \<and> 13 \<notin> set (map code ''event: '' @ utf8_decode (fst f))"
      "10 \<notin> set (map code ''data: '' @ utf8_decode (snd f)) \<and> 13 \<notin> set (map code ''data: '' @ utf8_decode (snd f))"
      using Cons.prems decoded_line by (auto simp: carried_def)
    have "text_lines [] (utf8_decode (concat (map frame_text (f # frs)))) =
        (map code ''event: '' @ utf8_decode (fst f)) # (map code ''data: '' @ utf8_decode (snd f)) # [] # text_lines [] ?rest"
      using text_lines_line[of "map code ''event: '' @ utf8_decode (fst f)" "[]"
          "map code ''data: '' @ utf8_decode (snd f) @ 10 # 10 # ?rest"]
        text_lines_line[of "map code ''data: '' @ utf8_decode (snd f)" "[]" "10 # ?rest"] l
      by (simp only: list.map concat.simps frame_decoded append_assoc append_Nil) simp
    moreover have "utf8_decode (fst f) \<noteq> []" using Cons.prems decode_nonempty[of "fst f"] by (simp add: carried_def)
    ultimately show ?case using Cons sse_events_frame by (simp add: as_read_def del: sse_events.simps)
  qed simp
  moreover have "strip_bom (utf8_decode (concat (map frame_text frs))) = utf8_decode (concat (map frame_text frs))"
    by (cases frs) (simp_all add: strip_bom_def frame_decoded)
  ultimately show ?thesis by (simp add: sse_read_def)
qed

lemma one_line_simps [simp]:
  "one_line []" "one_line (c # s) \<longleftrightarrow> c \<noteq> LF \<and> c \<noteq> CR \<and> one_line s" "one_line (s @ r) \<longleftrightarrow> one_line s \<and> one_line r"
  by (auto simp: one_line_def)

lemma one_line_escape [simp]: "one_line (json_escape s)"
  using json_escape_visible[of s] by (auto simp: one_line_def list_all_iff)

lemma one_line_quoted [simp]: "one_line (json_quoted s)"
  by (simp add: json_quoted_def)

lemma one_line_join: "one_line sep \<Longrightarrow> list_all one_line xs \<Longrightarrow> one_line (join_with sep xs)"
  by (induction sep xs rule: join_with.induct) auto

lemma one_line_object [simp]: "list_all one_line ms \<Longrightarrow> one_line (json_object ms)"
  by (simp add: json_object_def one_line_join)

lemma one_line_string_array [simp]: "one_line (json_string_array vs)"
  by (simp add: json_string_array_def one_line_join list_all_iff)

lemma one_line_fields [simp]:
  "one_line k \<Longrightarrow> one_line (json_text_field k v)" "one_line k \<Longrightarrow> one_line v \<Longrightarrow> one_line (json_name_field k v)"
  "one_line k \<Longrightarrow> one_line v \<Longrightarrow> one_line (json_raw_field k v)"
  by (simp_all add: json_text_field_def json_name_field_def json_raw_field_def json_key_def)

lemma one_line_digits: "list_all is_digit s \<Longrightarrow> one_line s"
  by (auto simp: one_line_def list_all_iff is_digit_def)

lemma one_line_nat [simp]: "one_line (show_nat n)"
  using show_nat_digits[of LF n] show_nat_digits[of CR n] by (auto simp: one_line_def is_digit_def)

lemma one_line_int [simp]: "one_line (show_int i)"
  by (simp add: show_int_def)

lemma one_line_sub: "one_line s \<Longrightarrow> set r \<subseteq> set s \<Longrightarrow> one_line r"
  by (auto simp: one_line_def)

lemma one_line_take_drop [simp]: "one_line s \<Longrightarrow> one_line (take n s)" "one_line s \<Longrightarrow> one_line (drop n s)"
  by (auto simp: one_line_def dest: in_set_takeD in_set_dropD)

lemma one_line_fraction [simp]: "one_line a \<Longrightarrow> one_line s \<Longrightarrow> one_line (with_fraction a s)"
proof -
  assume a: "one_line a" "one_line s"
  have "set (strip_zeros s) \<subseteq> set s" by (auto simp: strip_zeros_def dest: set_dropWhileD)
  then show "one_line (with_fraction a s)" using one_line_sub[OF a(2)] a(1) by (simp add: with_fraction_def)
qed

lemma one_line_replicate [simp]: "one_line (replicate n (CHR ''0''))"
  by (auto simp: one_line_def)

lemma one_line_double [simp]: "one_line (show_double x)"
proof -
  have "one_line (layout_g ds y)" if "one_line ds" for ds y
    using that by (simp add: layout_g_def show_exp_def Let_def)
  then show ?thesis by (cases x) (auto simp: show_pos_def Let_def split: prod.split)
qed

lemma one_line_names [simp]:
  "one_line (protocol_to_string p)" "one_line (severity_to_string v)" "one_line (status_str n)"
  by ((cases p; simp), (cases v; simp), simp add: status_str_def)

lemma frames_carried:
  "carried (port_frame p)" "carried (finding_frame f)" "carried (progress_frame n)" "carried (status_frame n)"
  "carried (''end'', empty_object)" "carried (''hello'', empty_object)"
  by (simp_all add: carried_def port_frame_def port_json_def finding_frame_def finding_json_def progress_frame_def status_frame_def
      empty_object_def)

lemma carried_round: "list_all carried (fst (stream_round r st))"
  using frames_carried by (auto simp: stream_round_def list_all_iff)

lemma carried_loop: "list_all carried (fst (stream_loop rs n st))"
proof (induction rs n st rule: stream_loop.induct)
  case (2 r rs n st)
  obtain fr st' where round: "stream_round r st = (fr, st')" by (cases "stream_round r st")
  have fr: "list_all carried fr" using carried_round[of r st] round by simp
  then have "list_all carried (take n fr)" by (auto simp: list_all_iff dest: in_set_takeD)
  then show ?case
    using fr frames_carried(5) "2.IH"[OF round[symmetric] refl] by (auto simp: round Let_def split: prod.splits)
qed simp

text \<open>C34: The events arrive as they were sent: whatever the ports and findings contain (line feeds, carriage returns and
  quotes of a banner included), reading the bytes that the stream writes by the rules of the event stream format
  gives exactly the events of the stream, in order, each with its name and its data as the reader's UTF-8
  decoder has them.\<close>

theorem stream_text_read_back:
  "sse_read (concat (map frame_text (fst (stream_frames rs n)))) = map as_read (fst (stream_frames rs n))"
proof -
  have "list_all carried (fst (stream_frames rs n))"
    using carried_loop[of rs "n - 1" stream_start] frames_carried(6)
    by (auto simp: stream_frames_def split: prod.splits)
  then show ?thesis by (rule sse_read_frames)
qed

section \<open>The thread takes these steps\<close>

text \<open>The states of a thread, as what the stream looks at: after the last one the job stays as it is.\<close>

definition job_times :: "ScanJob \<Rightarrow> ScanJob list \<Rightarrow> nat \<Rightarrow> ScanJob" where
  "job_times job js t = (job # js) ! min t (length js)"

lemma successive_history:
  assumes "successively job_step (job # js)"
  shows "history (job_times job js)"
  unfolding history_def
proof
  fix t
  have "job_step ((job # js) ! t) ((job # js) ! Suc t)" if "Suc t < length (job # js)" for t
    using assms that by (simp add: successively_conv_nth)
  then show "job_times job js (Suc t) = job_times job js t \<or> job_step (job_times job js t) (job_times job js (Suc t))"
    by (cases "Suc t < length (job # js)") (auto simp: job_times_def min_def)
qed

text \<open>What every step of the thread keeps.\<close>

lemma live_call_keeps: "jb_status (live_call c job) = jb_status job \<and> jb_id (live_call c job) = jb_id job"
  by (cases c) simp_all

lemma live_steps:
  "jb_status job = 1 \<Longrightarrow> successively job_step (job # live_states cs job) \<and>
     list_all (\<lambda>j. jb_status j = 1 \<and> jb_id j = jb_id job) (job # live_states cs job)"
proof (induction cs job rule: live_states.induct)
  case (2 c cs job)
  have "job_step job (live_call c job)"
    using "2.prems" job_step.open_port[of job] job_step.probed[of job] by (cases c) simp_all
  then show ?case using 2 live_call_keeps[of c job] by simp
qed simp

lemma successively_more:
  "successively P (xs @ [x]) \<Longrightarrow> successively P (x # ys) \<Longrightarrow> successively P (xs @ x # ys)"
  by (cases ys) (auto simp: successively_append_iff)

lemma failed_steps:
  assumes "jb_status j \<in> {1, 2}" "job_failed sq t e j db = (js, db')"
  shows "successively job_step (j # js) \<and> list_all (\<lambda>x. jb_id x = jb_id j \<and> jb_ports x = jb_ports j \<and>
      jb_findings x = jb_findings j \<and> jb_scanned x = jb_scanned j) js \<and> js \<noteq> [] \<and> jb_status (last js) = 3"
proof -
  have 1: "job_step j (j\<lparr>jb_error := e\<rparr>)" using assms(1) by (rule job_step.explain)
  have 2: "job_step (j\<lparr>jb_error := e\<rparr>) (j\<lparr>jb_error := e, jb_status := 3\<rparr>)"
    using assms(1) job_step.fail[of "j\<lparr>jb_error := e\<rparr>"] by simp
  have 3: "job_step (j\<lparr>jb_error := e, jb_status := 3\<rparr>) (j\<lparr>jb_error := e, jb_status := 3, jb_completed_at := t\<rparr>)"
    using job_step.complete[of "j\<lparr>jb_error := e, jb_status := 3\<rparr>"] by simp
  have "js = [j\<lparr>jb_error := e\<rparr>, j\<lparr>jb_error := e, jb_status := 3\<rparr>, j\<lparr>jb_error := e, jb_status := 3, jb_completed_at := t\<rparr>]"
    using assms(2) by (auto simp: job_failed_def Let_def)
  then show ?thesis using 1 2 3 by simp
qed

lemma done_steps:
  assumes "jb_status j = 1" "job_done sq t t2 r rg j db = (js, db')"
  shows "successively job_step (j # js) \<and> list_all (\<lambda>x. jb_id x = jb_id j) js \<and> js \<noteq> [] \<and> jb_status (last js) \<in> {2, 3} \<and>
    jb_ports (last js) = jb_ports j @ map fst (rg_events rg) \<and>
    jb_findings (last js) = jb_findings j @ concat (map snd (rg_events rg)) \<and>
    jb_scanned (last js) = jb_scanned j + rg_progress rg"
proof -
  define live where "live = live_states (rg_calls rg) j"
  define l where "l = last (j # live)"
  let ?f = "l\<lparr>jb_status := 2\<rparr>" and ?e = "l\<lparr>jb_status := 2, jb_completed_at := t\<rparr>"
  have l': "(if live = [] then j else last live) = l" by (simp add: l_def)
  obtain fs where js: "js = live @ [?f, ?e] @ fs" and fs: "fs = [] \<or> (\<exists>e db db'. job_failed sq t2 e ?e db = (fs, db'))"
    using assms(2)
    by (auto simp: job_done_def Let_def live_def[symmetric] l' split: option.splits sum.splits prod.splits)
  have live: "successively job_step (j # live)" "list_all (\<lambda>x. jb_status x = 1 \<and> jb_id x = jb_id j) (j # live)"
    using live_steps[OF assms(1), of "rg_calls rg"] by (simp_all add: live_def)
  have l: "jb_status l = 1" "jb_id l = jb_id j"
    using live(2) last_in_set[of "j # live"] by (auto simp: l_def list_all_iff)
  have first: "butlast (j # live) @ [l] = j # live" by (simp add: l_def append_butlast_last_id del: butlast.simps last.simps)
  have 1: "job_step l ?f" using l(1) by (rule job_step.finish)
  have 2: "job_step ?f ?e" using job_step.complete[of ?f t] by simp
  have rest: "successively job_step (?e # fs) \<and> list_all (\<lambda>x. jb_id x = jb_id ?e \<and> jb_ports x = jb_ports ?e \<and>
      jb_findings x = jb_findings ?e \<and> jb_scanned x = jb_scanned ?e) fs \<and> jb_status (last (?e # fs)) \<in> {2, 3}"
    using fs failed_steps[of ?e sq t2 _ _ fs] by auto
  have "successively job_step (butlast (j # live) @ l # [?f, ?e] @ fs)"
    by (rule successively_more) (use live(1) first 1 2 rest in simp_all)
  then have steps: "successively job_step (j # js)" using first by (simp add: js) (metis append_Cons append_assoc append_Nil)
  have last: "last js = last (?e # fs)" by (simp add: js)
  have same: "jb_ports (last js) = jb_ports l \<and> jb_findings (last js) = jb_findings l \<and> jb_scanned (last js) = jb_scanned l"
    using rest last_in_set[of fs] unfolding last by (auto simp: list_all_iff)
  have ids: "list_all (\<lambda>x. jb_id x = jb_id j) js" using live(2) rest l(2) by (auto simp: js list_all_iff)
  have lf: "jb_ports l = jb_ports j @ map fst (rg_events rg)" "jb_findings l = jb_findings j @ concat (map snd (rg_events rg))"
    "jb_scanned l = jb_scanned j + rg_progress rg"
    unfolding l_def live_def last_live rg_events_def rg_progress_def by simp_all
  have st: "jb_status (last js) \<in> {2, 3}" using rest unfolding last by blast
  have "js \<noteq> []" by (simp add: js)
  then show ?thesis using steps ids st same lf by simp
qed

text \<open>After the status says done or error, the results are final.\<close>

lemma final_results:
  assumes "successively job_step (job # js)" "j \<in> set (job # js)" "jb_status j \<in> {2, 3}"
  shows "jb_ports j = jb_ports (last (job # js)) \<and> jb_findings j = jb_findings (last (job # js))"
proof -
  obtain t where t: "t < length (job # js)" "(job # js) ! t = j" using assms(2) by (metis in_set_conv_nth)
  then have "job_times job js t = j" "job_times job js (length js) = last (job # js)"
    by (simp_all add: job_times_def last_conv_nth)
  then show ?thesis
    using history_grows[OF successive_history[OF assms(1)], of t "length js"] t(1) assms(3) by auto
qed

text \<open>C25: What the thread of a scan does to its job, so that what is said of the stream holds of the scans the program
  runs: from the queue on, every write is one of the steps that the stream reckons with, in the order of the
  thread: results are appended and ports counted only while the status says running, and once it says done or error,
  in whichever state the job is seen, its ports and findings are the final ones; the thread that ends leaves it done or
  failed; and after a scan that has returned the job holds all that was announced, in this order, and every port counted.\<close>

theorem run_job_steps:
  assumes "run_job env dt srt schedule plugins sq t t2 job db s = (Ok (js, db'), s')" "jb_status job = 0"
  shows "history (job_times job js) \<and> job_times job js 0 = job \<and> job_times job js (length js) = last js \<and>
    jb_status (last js) \<in> {2, 3} \<and>
    (\<forall>j\<in>set js. jb_id j = jb_id job \<and>
       (jb_status j \<in> {2, 3} \<longrightarrow> jb_ports j = jb_ports (last js) \<and> jb_findings j = jb_findings (last js))) \<and>
    (\<forall>r rg s1. tcp_range_scan env dt srt schedule (jb_scan_ip job) (jb_port_start job) (jb_port_end job) plugins
        \<lparr>sink_progress = True, sink_on_port_open = True\<rparr> 1000 s = (Ok (r, rg), s1) \<longrightarrow>
       jb_ports (last js) = jb_ports job @ map fst (rg_events rg) \<and>
       jb_findings (last js) = jb_findings job @ concat (map snd (rg_events rg)) \<and>
       jb_scanned (last js) = jb_scanned job + rg_progress rg)"
proof -
  let ?job = "job\<lparr>jb_status := 1\<rparr>" and ?db = "db_status sq (job\<lparr>jb_status := 1\<rparr>) ''running'' 0 0 [] db"
  let ?sink = "\<lparr>sink_progress = True, sink_on_port_open = True\<rparr>"
  have first: "job_step job ?job" using assms(2) by (rule job_step.started)
  obtain res s1 where scan: "tcp_range_scan env dt srt schedule (jb_scan_ip job) (jb_port_start job) (jb_port_end job) plugins
      ?sink 1000 s = (res, s1)"
    by (cases "tcp_range_scan env dt srt schedule (jb_scan_ip job) (jb_port_start job) (jb_port_end job) plugins ?sink 1000 s")
  have scan': "tcp_range_scan env dt srt schedule (jb_scan_ip ?job) (jb_port_start ?job) (jb_port_end ?job) plugins ?sink 1000 s = (res, s1)"
    using scan by simp
  note run = assms(1)[unfolded run_job_def Let_def scan']
  have "\<exists>ks. js = ?job # ks \<and> successively job_step (?job # ks) \<and> list_all (\<lambda>x. jb_id x = jb_id job) ks \<and>
      jb_status (last js) \<in> {2, 3} \<and>
      (\<forall>r rg. res = Ok (r, rg) \<longrightarrow> jb_ports (last js) = jb_ports job @ map fst (rg_events rg) \<and>
         jb_findings (last js) = jb_findings job @ concat (map snd (rg_events rg)) \<and>
         jb_scanned (last js) = jb_scanned job + rg_progress rg)"
  proof (cases res)
    case (Ok v)
    obtain r rg where v: "v = (r, rg)" by (cases v)
    obtain ks db1 where d: "job_done sq t t2 r rg ?job ?db = (ks, db1)" by fastforce
    then have "js = ?job # ks" using run by (simp add: Ok v)
    then show ?thesis using done_steps[OF _ d] by (simp add: Ok v)
  next
    case (Throw e)
    obtain ks db1 where d: "job_failed sq t (exn_what e) ?job ?db = (ks, db1)" by fastforce
    then have "js = ?job # ks" using run by (auto simp: Throw split: exn.splits)
    then show ?thesis using failed_steps[OF _ d] by (auto simp: Throw list_all_iff)
  qed (use run in auto)
  then obtain ks where ks: "js = ?job # ks" "successively job_step (?job # ks)" "list_all (\<lambda>x. jb_id x = jb_id job) ks"
    "jb_status (last js) \<in> {2, 3}"
    "\<forall>r rg. res = Ok (r, rg) \<longrightarrow> jb_ports (last js) = jb_ports job @ map fst (rg_events rg) \<and>
         jb_findings (last js) = jb_findings job @ concat (map snd (rg_events rg)) \<and>
         jb_scanned (last js) = jb_scanned job + rg_progress rg" by blast
  have steps: "successively job_step (job # js)" using first ks(1,2) by simp
  have l: "last (job # js) = last js" by (simp add: ks(1))
  have ids: "jb_id j = jb_id job" if "j \<in> set js" for j using that ks(1,3) by (auto simp: list_all_iff)
  have ends: "job_times job js 0 = job" "job_times job js (length js) = last js"
    using last_conv_nth[of js] by (simp_all add: job_times_def ks(1))
  show ?thesis
    using successive_history[OF steps] final_results[OF steps, unfolded l] ids ks(4,5) ends by (simp add: scan)
qed

lemma sample_job_fields:
  "jb_scan_ip sample_job = ''10.0.0.1''" "jb_port_start sample_job = 80" "jb_port_end sample_job = 80"
  "jb_status sample_job = 0" "jb_scanned sample_job = 0" "jb_ports sample_job = []" "jb_id sample_job = ''id''"
  by (simp_all add: sample_job_def new_job_def)

theorem run_job_steps_witness:
  "\<exists>js s'. run_job sample_env no_detector key_sorter rev [] mem_sqlite 5 6 sample_job None empty_scan = (Ok (js, None), s') \<and>
     history (job_times sample_job js) \<and> jb_ports (last js) = [tcp_result 80 S_OPEN] \<and> jb_scanned (last js) = 1"
proof -
  obtain js s' where r: "run_job sample_env no_detector key_sorter rev [] mem_sqlite 5 6 sample_job None empty_scan = (Ok (js, None), s')"
    using sample_scan by (simp add: run_job_def sample_job_fields job_done_def db_status_def Let_def)
  from run_job_steps[OF r sample_job_fields(4)] show ?thesis
    using sample_scan r by (simp add: sample_job_fields rg_events_def rg_progress_def)
qed

end
