(* ===== verification/WebResults.thy ===== *)
theory WebResults
  imports DbStore WebLogin WebStream
begin

text \<open>
  What the web interface does with a scan from its request to the database (\<open>webui/webui.cpp\<close> over
  \<open>core/db.cpp\<close> and \<open>scan/tcp_range.cpp\<close>).
\<close>

section \<open>The results are kept\<close>

lemma sorted_same_ports:
  assumes "sorted (map p_number ps)" "sorted (map p_number qs)" "mset ps = mset qs" "distinct (map p_number ps)"
  shows "ps = qs"
proof -
  have "inj_on p_number (set ps)" using assms(4) by (simp add: distinct_map)
  then have "inj_on p_number (set ps \<union> set qs)" using mset_eq_setD[OF assms(3)] by simp
  moreover have "map p_number ps = map p_number qs"
    using properties_for_sort[OF _ assms(1), of "map p_number qs"] sort_key_id_if_sorted[of "\<lambda>x. x" "map p_number qs"]
      assms(2,3) by simp
  ultimately show ?thesis by (simp add: inj_on_map_eq_map)
qed

lemma status_twice: "with_status a b c e (with_status a' b' c' e' r) = with_status a b c e r"
  by (simp add: with_status_def)

text \<open>The four contracts of SQLite that a scan relies on.\<close>

definition sqlite_contract :: "'d Sqlite \<Rightarrow> ('d \<Rightarrow> Tables option) \<Rightarrow> bool" where
  "sqlite_contract sq view \<longleftrightarrow>
     transactions sq view \<and> columns_contract sq \<and> scans_contract sq view \<and> ports_contract sq view \<and>
     findings_contract sq view"

lemma saved_results:
  assumes c: "sqlite_contract sq view" and d: "view d = Some t"
    and new: "\<forall>row\<in>set (tb_ports t) \<union> set (tb_findings t). row ! 0 \<noteq> bind_text (jb_id job)"
    and ps: "list_all storable_port (tr_ports r)" "distinct (map (\<lambda>p. (p_number p, p_protocol p)) (tr_ports r))"
    and fs: "list_all storable_finding (tr_findings r)" "length (tr_findings r) < 2 ^ 31"
  shows "\<exists>d'. save_results sq job r d = (Inr (), d') \<and>
    view d' = Some (t\<lparr>tb_ports := tb_ports t @ map (port_values (jb_id job)) (tr_ports r),
                      tb_findings := tb_findings t @ finding_rows (jb_id job) (tr_findings r)\<rparr>)"
proof -
  have c': "transactions sq view" "ports_contract sq view" "findings_contract sq view"
    using c by (simp_all add: sqlite_contract_def)
  have np: "\<forall>row\<in>set (tb_ports t). row ! 0 \<noteq> bind_text (jb_id job)" using new by blast
  obtain d1 where d1: "save_ports sq (jb_id job) (tr_ports r) d = (Inr (), d1)"
    "view d1 = Some (t\<lparr>tb_ports := tb_ports t @ map (port_values (jb_id job)) (tr_ports r)\<rparr>)"
    using save_ports_view[OF c'(1,2) d np ps(2)] by blast
  have nf: "\<forall>row\<in>set (tb_findings (t\<lparr>tb_ports := tb_ports t @ map (port_values (jb_id job)) (tr_ports r)\<rparr>)).
      row ! 0 \<noteq> bind_text (jb_id job)" using new by simp
  show ?thesis using save_findings_view[OF c'(1,3) d1(2) nf fs] d1(1) by (auto simp: save_results_def)
qed

lemma stored_results:
  assumes c: "sqlite_contract sq view" and d: "view d = Some t"
    and ports: "tb_ports t = old_ports @ map (port_values i) (tr_ports r)"
    and findings: "tb_findings t = old_findings @ finding_rows i (tr_findings r)"
    and new: "\<forall>row\<in>set old_ports \<union> set old_findings. row ! 0 \<noteq> bind_text i"
    and ps: "list_all storable_port (tr_ports r)" "sorted (map p_number (tr_ports r))" "distinct (map p_number (tr_ports r))"
      "\<forall>p\<in>set (tr_ports r). p_state p = S_OPEN"
    and fs: "list_all storable_finding (tr_findings r)" "length (tr_findings r) < 2 ^ 31"
  shows "load_ports sq i d = Some (tr_ports r)" "load_findings sq i d = Some (map with_evidence_value (tr_findings r))"
proof -
  have c': "columns_contract sq" "ports_contract sq view" "findings_contract sq view"
    using c by (simp_all add: sqlite_contract_def)
  have "filter (\<lambda>r. r ! 0 = bind_text i) (tb_ports t) = map (port_values i) (tr_ports r)"
    unfolding ports by (rule rows_of_scan(1)) (use new port_values_key in auto)
  from load_ports_rows[OF c'(1,2) d this ps(1)] obtain ps' where ps': "load_ports sq i d = Some ps'"
    "sorted (map p_number ps')" "mset ps' = mset (map (\<lambda>p. p\<lparr>p_state := S_OPEN\<rparr>) (tr_ports r))" by blast
  have opened: "map (\<lambda>p. p\<lparr>p_state := S_OPEN\<rparr>) (tr_ports r) = tr_ports r"
    using ps(4) by (intro map_idI) (metis Port.surjective Port.update_convs(3))
  have "tr_ports r = ps'" by (rule sorted_same_ports[OF ps(2) ps'(2) _ ps(3)]) (simp add: ps'(3) opened)
  then show "load_ports sq i d = Some (tr_ports r)" using ps'(1) by simp
  have "filter (\<lambda>r. r ! 0 = bind_text i) (tb_findings t) = finding_rows i (tr_findings r)"
    unfolding findings by (rule rows_of_scan(1)) (use new finding_rows_ok(1)[OF fs(1)] in auto)
  from load_findings_rows[OF c'(1,3) d this fs]
  show "load_findings sq i d = Some (map with_evidence_value (tr_findings r))" .
qed

lemma scan_results_kept:
  assumes contract: "sqlite_contract sq view" "view d = Some t"
    and new: "\<forall>row\<in>set (tb_ports t) \<union> set (tb_findings t). row ! 0 \<noteq> bind_text (jb_id job)"
    and registered: "get_scan sq (jb_id job) d = Some (Some row)"
    and scan: "tcp_range_scan env dt srt schedule (jb_scan_ip job) (jb_port_start job) (jb_port_end job) plugins
      \<lparr>sink_progress = True, sink_on_port_open = True\<rparr> 1000 s = (Ok (r, rg), s')"
    and job: "plain (jb_id job)" "0 < jb_port_start job" "jb_port_end job \<le> 65535" "int64 now"
    and waits: "jb_scanned job = 0"
    and order: "sorts srt" "mset (schedule (port_range (jb_port_start job) (jb_port_end job))) =
      mset (port_range (jb_port_start job) (jb_port_end job))"
    and results: "list_all storable_port (tr_ports r)" "list_all storable_finding (tr_findings r)" "length (tr_findings r) < 2 ^ 31"
  shows "\<exists>js d'. run_job env dt srt schedule plugins sq now later job (Some d) s = (Ok (js, Some d'), s') \<and>
    get_scan sq (jb_id job) d' =
      Some (Some (with_status ''done'' now (int (length (port_range (jb_port_start job) (jb_port_end job)))) [] row)) \<and>
    load_ports sq (jb_id job) d' = Some (tr_ports r) \<and>
    load_findings sq (jb_id job) d' = Some (map with_evidence_value (tr_findings r))"
proof -
  let ?i = "jb_id job" and ?n = "int (length (port_range (jb_port_start job) (jb_port_end job)))"
  have c: "columns_contract sq" "scans_contract sq view" using contract(1) by (simp_all add: sqlite_contract_def)
  from tcp_range_invariant[OF scan]
  have inv: "range_inv (jb_scan_ip job) \<lparr>sink_progress = True, sink_on_port_open = True\<rparr>
      (schedule (port_range (jb_port_start job) (jb_port_end job))) rg" and r: "r = finish_range srt rg" by auto
  have res: "sorted (map p_number (tr_ports r))" "distinct (map p_number (tr_ports r))"
    using range_result(1,2)[OF inv order _ job(3)] job(2) by (simp_all add: r finish_range_def)
  have len: "length (schedule (port_range (jb_port_start job) (jb_port_end job))) = length (port_range (jb_port_start job) (jb_port_end job))"
    using order(2) by (rule mset_eq_length)
  have progress: "rg_progress rg = ?n" using inv len by (simp add: range_inv_def)
  have "mset (tr_ports r) = mset (rg_ports rg)" using order(1) by (simp add: r finish_range_def sorts_def)
  then have opened: "\<forall>p\<in>set (tr_ports r). p_state p = S_OPEN"
    using inv mset_eq_setD by (fastforce simp: range_inv_def)
  have "?n \<le> 65536" using job(2,3) by (simp add: port_range_def)
  then have n: "int32 ?n" by (simp add: int32_def INT_MIN_def INT_MAX_def)
  have dist: "distinct (map (\<lambda>p. (p_number p, p_protocol p)) (tr_ports r))"
    using res(2) by (auto simp: distinct_map inj_on_def)
  have texts: "plain ''running''" "plain ''done''" "plain []" "int32 0" "int64 0"
    by (simp_all add: plain_def int32_def int64_def INT_MIN_def INT_MAX_def)
  let ?d1 = "update_scan_status sq ?i ''running'' 0 0 [] d"
  let ?d2 = "update_scan_status sq ?i ''done'' now ?n [] ?d1"
  note v1 = update_scan_status_view[where sq = sq and view = view and d = d, OF c(2) contract(2) job(1) texts(1,3,4,5)]
  note g1 = update_scan_status_get[where sq = sq and view = view and d = d, OF c contract(2) job(1) texts(1,3,4,5), of ?i]
  note v2 = update_scan_status_view[where sq = sq and view = view and d = ?d1, OF c(2) v1 job(1) texts(2,3) n job(4)]
  note g2 = update_scan_status_get[where sq = sq and view = view and d = ?d1, OF c v1 job(1) texts(2,3) n job(4), of ?i]
  have ci: "c_str ?i = ?i" using job(1) by (simp add: plain_def c_str_id)
  have g: "get_scan sq ?i ?d2 = Some (Some (with_status ''done'' now ?n [] row))"
    using g1 g2 registered by (simp add: ci status_twice)
  define live where "live = live_states (rg_calls rg) (job\<lparr>jb_status := 1\<rparr>)"
  define l where "l = last (job\<lparr>jb_status := 1\<rparr> # live)"
  let ?job = "l\<lparr>jb_status := 2, jb_completed_at := now\<rparr>"
  have l: "jb_id l = ?i" "jb_scanned l = jb_scanned job + ?n"
    using progress unfolding l_def live_def last_live rg_progress_def by simp_all
  have id: "jb_id ?job = ?i" by (simp add: l(1))
  obtain t2 where t2: "view ?d2 = Some t2" "tb_ports t2 = tb_ports t" "tb_findings t2 = tb_findings t" using v2 by simp
  have new2: "\<forall>row\<in>set (tb_ports t2) \<union> set (tb_findings t2). row ! 0 \<noteq> bind_text (jb_id ?job)" using new t2 id by simp
  from saved_results[where sq = sq and view = view and d = ?d2 and t = t2 and job = ?job and r = r,
      OF contract(1) t2(1) new2 results(1) dist results(2,3)]
  obtain d' where d': "save_results sq ?job r ?d2 = (Inr (), d')"
    "view d' = Some (t2\<lparr>tb_ports := tb_ports t2 @ map (port_values ?i) (tr_ports r),
                        tb_findings := tb_findings t2 @ finding_rows ?i (tr_findings r)\<rparr>)"
    unfolding id by blast
  have "run_job env dt srt schedule plugins sq now later job (Some d) s =
      (Ok (job\<lparr>jb_status := 1\<rparr> # live @ [l\<lparr>jb_status := 2\<rparr>, ?job], Some d'), s')"
    using scan d'(1)
    by (simp add: run_job_def job_done_def db_status_def Let_def live_def[symmetric] l_def[symmetric] l(1) l(2)[unfolded waits] del: last.simps)
  moreover have "get_scan sq ?i d' = get_scan sq ?i ?d2"
    using get_scan_rows[where sq = sq and view = view and d = d', OF c(2) d'(2), of ?i]
      get_scan_rows[where sq = sq and view = view and d = ?d2, OF c(2) t2(1), of ?i] by simp
  moreover have "load_ports sq ?i d' = Some (tr_ports r)" "load_findings sq ?i d' = Some (map with_evidence_value (tr_findings r))"
    using stored_results[where sq = sq and view = view and d = d' and i = ?i and r = r and old_ports = "tb_ports t2"
        and old_findings = "tb_findings t2", OF contract(1) d'(2) _ _ _ results(1) res opened results(2,3)] new2
    unfolding id by simp_all
  ultimately show ?thesis using g by auto
qed

text \<open>C6: A finished scan is kept: when the thread of a new scan that the database has a row for comes to its end, whatever
  the order of its tasks, the database holds for it the status done with the time and the number of ports probed,
  the open ports as the scan returned them, sorted, and the findings in their order as the scan returned them, but for
  the value of their evidence, which has no column and is replaced by the text of the evidence.  This is for scans
  within 1 to 65535 whose results are fewer than \<open>2 ^ 31\<close> and storable (no NUL in any text, no \<open>|\<close> in and no
  empty reference, no NaN or negative zero as a score), by the contracts of SQLite for its statements.\<close>

theorem finished_scan_is_kept:
  assumes contract: "sqlite_contract sq view" "view d = Some t"
    and new: "\<forall>row\<in>set (tb_ports t) \<union> set (tb_findings t). row ! 0 \<noteq> bind_text (jb_id job)"
    and registered: "get_scan sq (jb_id job) d = Some (Some row)"
    and scan: "tcp_range_scan env dt srt schedule (jb_scan_ip job) (jb_port_start job) (jb_port_end job) plugins
      \<lparr>sink_progress = True, sink_on_port_open = True\<rparr> 1000 s = (Ok (r, rg), s')"
    and job: "plain (jb_id job)" "0 < jb_port_start job" "jb_port_end job \<le> 65535" "int64 now"
    and waits: "jb_scanned job = 0"
    and order: "sorts srt" "mset (schedule (port_range (jb_port_start job) (jb_port_end job))) =
      mset (port_range (jb_port_start job) (jb_port_end job))"
    and results: "list_all storable_port (tr_ports r)" "list_all storable_finding (tr_findings r)" "length (tr_findings r) < 2 ^ 31"
  shows "\<exists>js d'. run_job env dt srt schedule plugins sq now later job (Some d) s = (Ok (js, Some d'), s') \<and>
    get_scan sq (jb_id job) d' =
      Some (Some (with_status ''done'' now (int (length (port_range (jb_port_start job) (jb_port_end job)))) [] row)) \<and>
    load_ports sq (jb_id job) d' = Some (tr_ports r) \<and>
    load_findings sq (jb_id job) d' = Some (map with_evidence_value (tr_findings r))"
  by (rule scan_results_kept[OF assms])

text \<open>The scan of one open port with a database in memory.\<close>

definition sample_db :: MemDb where
  "sample_db = upsert_scan mem_sqlite (job_row None sample_job) mem_empty"

lemma sample_contract: "sqlite_contract mem_sqlite mem_view"
  by (simp add: sqlite_contract_def mem_transactions mem_columns mem_scans mem_ports mem_findings)

lemma sample_row: "storable_scan (job_row None sample_job)" "jb_id sample_job = ''id''"
  by (simp_all add: job_row_def sample_job_def new_job_def storable_scan_def plain_def int32_def int64_def INT_MIN_def INT_MAX_def)

lemma sample_db_tables:
  "sample_db = (\<lparr>tb_scans = [scan_values (job_row None sample_job)], tb_ports = [], tb_findings = []\<rparr>, None)"
  by (simp add: sample_db_def upsert_scan_def mem_step_def statements_apart mem_empty_def upsert_row_def)

lemma sample_db_view: "mem_view sample_db = Some (fst sample_db)"
  using scan_values_ok[OF sample_row(1)] by (simp add: mem_view_def sample_db_tables)

lemma sample_registered: "get_scan mem_sqlite ''id'' sample_db = Some (Some (job_row None sample_job))"
proof -
  have "scan_values (job_row None sample_job) ! 0 = bind_text ''id''"
    by (simp add: scan_values_def job_row_def sample_row(2))
  then show ?thesis
    using row_from_scan_values[OF mem_columns sample_row(1)]
    by (simp add: get_scan_def mem_rows_def statements_apart sample_db_tables)
qed

theorem finished_scan_is_kept_witness:
  "\<exists>js d' s'. run_job sample_env no_detector key_sorter rev [] mem_sqlite 5 6 sample_job (Some sample_db) empty_scan =
      (Ok (js, Some d'), s') \<and> load_ports mem_sqlite ''id'' d' = Some [tcp_result 80 S_OPEN]"
proof -
  have job: "jb_scan_ip sample_job = ''10.0.0.1''" "jb_port_start sample_job = 80" "jb_port_end sample_job = 80"
    "plain (jb_id sample_job)" "int64 5" "jb_scanned sample_job = 0"
    by (simp_all add: sample_job_def new_job_def plain_def int64_def)
  have p: "storable_port (tcp_result 80 S_OPEN)" by (simp add: storable_port_def tcp_result_def port_default_def plain_def)
  have new: "\<forall>row\<in>set (tb_ports (fst sample_db)) \<union> set (tb_findings (fst sample_db)). row ! 0 \<noteq> bind_text (jb_id sample_job)"
    by (simp add: sample_db_tables)
  have reg: "get_scan mem_sqlite (jb_id sample_job) sample_db = Some (Some (job_row None sample_job))"
    using sample_registered by (simp add: sample_row(2))
  obtain rg s' where scan: "tcp_range_scan sample_env no_detector key_sorter rev (jb_scan_ip sample_job) (jb_port_start sample_job)
      (jb_port_end sample_job) [] \<lparr>sink_progress = True, sink_on_port_open = True\<rparr> 1000 empty_scan =
    (Ok (\<lparr>tr_ports = [tcp_result 80 S_OPEN], tr_findings = []\<rparr>, rg), s')"
    unfolding job using sample_scan by blast
  have "\<exists>js d'. run_job sample_env no_detector key_sorter rev [] mem_sqlite 5 6 sample_job (Some sample_db) empty_scan =
      (Ok (js, Some d'), s') \<and> load_ports mem_sqlite (jb_id sample_job) d' = Some [tcp_result 80 S_OPEN]"
    using finished_scan_is_kept[OF sample_contract sample_db_view new reg scan job(4) _ _ job(5,6) key_sorter_sorts, of 6] p
    by (auto simp: job)
  then show ?thesis unfolding sample_row(2) by blast
qed

section \<open>Nothing without a session\<close>

lemma require_session_refuses:
  assumes "get_session now req a = (None, a')"
  shows "\<exists>res. require_session now req a = (Some res, a') \<and> rs_status res = 401"
  using assms by (simp add: require_session_def fail_json_def set_content_def)

text \<open>C27: Without a session nothing is done for a user: a request whose cookie names no live session gets 401 from the
  five handlers that act for one (start a scan, show one, list them, follow one, and \<open>/me\<close>), no scan is started, nothing
  is sent to the network, and jobs and database are as before; the start page sends it to the login; and these and
  logging out at most forget sessions, and leave the pending logins alone.  (The login itself, \<open>/login\<close>, \<open>/auth/start\<close> and
  \<open>/callback\<close>, is for those who have no session yet.)\<close>

theorem no_session_no_effect:
  assumes "get_session now req (ws_auth ws) = (None, a)"
  shows "(\<exists>res. start_scan sq ou os query_id now now2 epoch rb req ws w = (Done (res, None, ws\<lparr>ws_auth := a\<rparr>), w) \<and> rs_status res = 401) \<and>
    (\<exists>res. web_get_scan sq now req ws = Some (res, ws\<lparr>ws_auth := a\<rparr>) \<and> rs_status res = 401) \<and>
    (\<exists>res. web_list_scans sq now req ws = Some (res, ws\<lparr>ws_auth := a\<rparr>) \<and> rs_status res = 401) \<and>
    (\<exists>res. web_stream_scan now req ws = ((res, None), ws\<lparr>ws_auth := a\<rparr>) \<and> rs_status res = 401) \<and>
    (\<exists>res. me now now2 req (ws_auth ws) = Some (res, a) \<and> rs_status res = 401) \<and>
    root_page html now req (ws_auth ws) = (set_redirect ''/login'' response_new, a) \<and>
    au_sessions (snd (logout req (ws_auth ws))) \<subseteq>\<^sub>m au_sessions (ws_auth ws) \<and>
    au_pending (snd (logout req (ws_auth ws))) = au_pending (ws_auth ws) \<and>
    au_sessions a \<subseteq>\<^sub>m au_sessions (ws_auth ws) \<and> au_pending a = au_pending (ws_auth ws)"
proof -
  obtain res where "require_session now req (ws_auth ws) = (Some res, a)" "rs_status res = 401"
    using require_session_refuses[OF assms] by blast
  moreover have "au_sessions a \<subseteq>\<^sub>m au_sessions (ws_auth ws)" "au_pending a = au_pending (ws_auth ws)"
    using get_session_forgets[of now req "ws_auth ws"] assms by simp_all
  moreover have "au_sessions (snd (logout req (ws_auth ws))) \<subseteq>\<^sub>m au_sessions (ws_auth ws) \<and>
      au_pending (snd (logout req (ws_auth ws))) = au_pending (ws_auth ws)"
    by (simp add: logout_def Let_def map_le_def)
  moreover have "root_page html now req (ws_auth ws) = (set_redirect ''/login'' response_new, a)"
    using assms by (simp add: root_page_def)
  ultimately show ?thesis
    by (simp add: start_scan_def web_get_scan_def web_list_scans_def web_stream_scan_def me_def)
qed

definition idle_web :: "MemDb WebState" where
  "idle_web = \<lparr>ws_auth = auth_new, ws_jobs = Map.empty, ws_jobs_order = [], ws_db = Some mem_empty\<rparr>"

theorem no_session_no_effect_witness:
  "\<exists>res. web_list_scans mem_sqlite 0 sample_visit idle_web = Some (res, idle_web) \<and> rs_status res = 401"
proof -
  have "get_session 0 sample_visit (ws_auth idle_web) = (None, auth_new)"
    by (simp add: get_session_def idle_web_def auth_new_def Let_def)
  moreover have "idle_web\<lparr>ws_auth := auth_new\<rparr> = idle_web" by (simp add: idle_web_def)
  ultimately show ?thesis using no_session_no_effect[of 0 sample_visit idle_web auth_new mem_sqlite] by metis
qed

section \<open>What is started\<close>

lemma start_scan_registers:
  assumes "start_scan sq ou os query_id now1 now2 epoch rb req ws w = (Done (res, Some job, ws'), w')"
  shows "\<exists>se a ses a2 target. get_session now1 req (ws_auth ws) = (Some se, a) \<and> get_session now2 req a = (ses, a2) \<and>
    target = json_string_field (rq_body req) ''target'' \<and> target \<noteq> [] \<and>
    json_number_field (rq_body req) ''port_start'' = Some (jb_port_start job) \<and>
    json_number_field (rq_body req) ''port_end'' = Some (jb_port_end job) \<and>
    jb_target job = (if jb_scan_ip job = target then target else target @ '' ('' @ jb_scan_ip job @ '')'') \<and>
    0 < jb_port_start job \<and> jb_port_start job \<le> jb_port_end job \<and> jb_port_end job \<le> 65535 \<and>
    (if inet_pton target \<noteq> None then jb_scan_ip job = target \<and> w' = w
     else dns_resolve os target 2000 query_id w = (Done (Some (jb_scan_ip job)), w')) \<and>
    jb_id job = random_urlsafe ou rb \<and> jb_status job = 0 \<and> jb_scanned job = 0 \<and> jb_ports job = [] \<and> jb_findings job = [] \<and>
    rs_content res = started_text (jb_id job) \<and>
    ws_jobs ws' = (ws_jobs ws)(jb_id job \<mapsto> job) \<and> ws_jobs_order ws' = ws_jobs_order ws @ [jb_id job] \<and>
    ws_db ws' = map_option (upsert_scan sq (job_row ses job)) (ws_db ws)"
proof -
  obtain se a where g: "get_session now1 req (ws_auth ws) = (Some se, a)" and req: "require_session now1 req (ws_auth ws) = (None, a)"
    using assms by (auto simp: start_scan_def require_session_def split: prod.splits option.splits)
  obtain ses a2 where g2: "get_session now2 req a = (ses, a2)" by (cases "get_session now2 req a")
  obtain target ps pe where r: "scan_request (rq_body req) = Some (target, ps, pe)" and v: "\<not> invalid_scan (target, ps, pe)"
    using assms by (cases "scan_request (rq_body req)") (auto simp: start_scan_def req g2 Let_def split: if_splits)
  obtain resolved where t: "resolve_scan_target os query_id target w = (Done (Some resolved), w')"
    and job: "job = new_job (random_urlsafe ou rb) target resolved ps pe epoch"
    and ws': "ws' = register_job sq ses job (ws\<lparr>ws_auth := a2\<rparr>)"
    and res: "rs_content res = started_text (jb_id job)"
    using assms v by (auto simp: start_scan_def req g2 r Let_def set_content_def split: prod.splits checked.splits option.splits)
  have target: "target = json_string_field (rq_body req) ''target''"
    "json_number_field (rq_body req) ''port_start'' = Some ps" "json_number_field (rq_body req) ''port_end'' = Some pe"
    using r by (auto simp: scan_request_def split: option.splits)
  show ?thesis
    using v t res
    by (intro exI[of _ se] exI[of _ a] exI[of _ ses] exI[of _ a2] exI[of _ target])
      (auto simp: g g2 target(1)[symmetric] target(2,3) invalid_scan_def job ws' register_job_def new_job_def resolve_scan_target_def split: if_splits)
qed

text \<open>C26: A scan that is started is the one that was asked for and can be run: its target and its range are those of the
  request, the range lies within 1 to 65535 and is not empty, its address is the dotted address given or the one
  its name resolved to; it waits in the queue without results under the identifier drawn for it, which the answer
  names (16 random bytes; nothing checks that no other job has it); jobs of other identifiers keep their entries, and the
  database is given its row, with the subject of the session.\<close>

theorem started_scan_is_registered:
  assumes "start_scan sq ou os query_id now1 now2 epoch rb req ws w = (Done (res, Some job, ws'), w')"
  shows "\<exists>se a ses a2 target. get_session now1 req (ws_auth ws) = (Some se, a) \<and> get_session now2 req a = (ses, a2) \<and>
    target = json_string_field (rq_body req) ''target'' \<and> target \<noteq> [] \<and>
    json_number_field (rq_body req) ''port_start'' = Some (jb_port_start job) \<and>
    json_number_field (rq_body req) ''port_end'' = Some (jb_port_end job) \<and>
    jb_target job = (if jb_scan_ip job = target then target else target @ '' ('' @ jb_scan_ip job @ '')'') \<and>
    0 < jb_port_start job \<and> jb_port_start job \<le> jb_port_end job \<and> jb_port_end job \<le> 65535 \<and>
    (if inet_pton target \<noteq> None then jb_scan_ip job = target \<and> w' = w
     else dns_resolve os target 2000 query_id w = (Done (Some (jb_scan_ip job)), w')) \<and>
    jb_id job = random_urlsafe ou rb \<and> jb_status job = 0 \<and> jb_scanned job = 0 \<and> jb_ports job = [] \<and> jb_findings job = [] \<and>
    rs_content res = started_text (jb_id job) \<and>
    ws_jobs ws' = (ws_jobs ws)(jb_id job \<mapsto> job) \<and> ws_jobs_order ws' = ws_jobs_order ws @ [jb_id job] \<and>
    ws_db ws' = map_option (upsert_scan sq (job_row ses job)) (ws_db ws)"
  using assms by (rule start_scan_registers)

text \<open>A visitor who is signed in asks for the ports 1 to 1024 of a machine.\<close>

definition sample_order :: Request where
  "sample_order = sample_visit\<lparr>rq_body := ''{'' @ json_text_field ''target'' ''10.0.0.1'' @ '','' @
     json_raw_field ''port_start'' ''1'' @ '','' @ json_raw_field ''port_end'' ''1024'' @ ''}''\<rparr>"

definition signed_in_web :: "MemDb WebState" where
  "signed_in_web = \<lparr>ws_auth = wb_auth web3, ws_jobs = Map.empty, ws_jobs_order = [], ws_db = Some mem_empty\<rparr>"

lemma sample_order_session: "get_session 0 sample_order (wb_auth web3) = (Some sample_session, wb_auth web3)"
proof -
  have "rq_cookie sample_order = rq_cookie sample_visit" by (simp add: sample_order_def)
  moreover have "session_cookie sample_visit = ''sid''" unfolding session_cookie_def sample_visit_def by code_simp
  ultimately have "session_cookie sample_order = ''sid''" by (simp add: session_cookie_def)
  then show ?thesis
    by (simp add: get_session_def Let_def) (simp add: web3_def web2_def web1_def web_new_def sample_session_def seconds_def)
qed

lemma sample_order_request: "scan_request (rq_body sample_order) = Some (''10.0.0.1'', 1, 1024)"
  unfolding sample_order_def sample_visit_def by code_simp

lemma sample_order_starts:
  "\<exists>res job ws'. start_scan mem_sqlite ou sample_os 0 0 0 7 rb sample_order signed_in_web () =
     (Done (res, Some job, ws'), ()) \<and> ws_auth ws' = wb_auth web3"
proof -
  have "inet_pton ''10.0.0.1'' \<noteq> None" by (simp add: inet_pton_def c_str_def is_digit_def digit_val_def)
  then have t: "resolve_scan_target sample_os 0 ''10.0.0.1'' () = (Done (Some ''10.0.0.1''), ())"
    by (simp add: resolve_scan_target_def)
  have g: "get_session 0 sample_order (ws_auth signed_in_web) = (Some sample_session, wb_auth web3)"
    using sample_order_session by (simp add: signed_in_web_def)
  then have r: "require_session 0 sample_order (ws_auth signed_in_web) = (None, wb_auth web3)"
    by (simp add: require_session_def)
  show ?thesis
    by (simp add: start_scan_def r sample_order_session sample_order_request invalid_scan_def t Let_def register_job_def)
qed

theorem started_scan_is_registered_witness:
  "\<exists>res job ws'. start_scan mem_sqlite sample_outside sample_os 0 0 0 7 ''sid'' sample_order signed_in_web () =
     (Done (res, Some job, ws'), ()) \<and> ws_jobs ws' = [jb_id job \<mapsto> job] \<and>
     json_number_field (rq_body sample_order) ''port_end'' = Some (jb_port_end job)"
proof -
  obtain res job ws' where s: "start_scan mem_sqlite sample_outside sample_os 0 0 0 7 ''sid'' sample_order signed_in_web () =
     (Done (res, Some job, ws'), ())"
    using sample_order_starts by blast
  have "ws_jobs ws' = [jb_id job \<mapsto> job] \<and> json_number_field (rq_body sample_order) ''port_end'' = Some (jb_port_end job)"
    using started_scan_is_registered[OF s] by (auto simp: signed_in_web_def)
  then show ?thesis using s by blast
qed

end
