(* ===== verification/WebJson.thy ===== *)
theory WebJson
  imports WebScans Utf8
begin

text \<open>
  What a reader of JSON makes of the answers of the web interface (\<open>webui/webui.cpp\<close>): the grammar of
  RFC 8259, over the bytes of UTF-8, as a relation between a text and the value it denotes, and the values that
  the answers denote.
\<close>

section \<open>The grammar\<close>

definition is_hex :: "char \<Rightarrow> bool" where
  "is_hex c \<longleftrightarrow> is_digit c \<or> 65 \<le> code c \<and> code c \<le> 70 \<or> 97 \<le> code c \<and> code c \<le> 102"

definition hex_number :: "string \<Rightarrow> nat" where
  "hex_number s = foldl (\<lambda>n c. 16 * n + hex_val c) 0 s"

text \<open>The byte after a backslash; \<open>n\<close> to \<open>f\<close> are control characters.\<close>

definition escape_value :: "char \<Rightarrow> char option" where
  "escape_value e =
     (if e = DQUOTE \<or> e = BSLASH \<or> e = CHR ''/'' then Some e
      else if e = CHR ''n'' then Some LF else if e = CHR ''r'' then Some CR else if e = CHR ''t'' then Some TAB
      else if e = CHR ''b'' then Some (CHR 0x08) else if e = CHR ''f'' then Some (CHR 0x0C) else None)"

text \<open>The string that the text between two quotes denotes; of the numeric escapes those below 0x80, which
  are one byte of UTF-8.\<close>

function json_unescape :: "string \<Rightarrow> string option" where
  "json_unescape [] = Some []"
| "json_unescape (c # s) =
     (if c = BSLASH then
        (case s of
           [] \<Rightarrow> None
         | e # r \<Rightarrow>
             if e = CHR ''u'' then
               (if 4 \<le> length r \<and> list_all is_hex (take 4 r) \<and> hex_number (take 4 r) < 0x80
                then map_option (Cons (char_of (hex_number (take 4 r)))) (json_unescape (drop 4 r)) else None)
             else
               (case escape_value e of None \<Rightarrow> None | Some d \<Rightarrow> map_option (Cons d) (json_unescape r)))
      else if c = DQUOTE \<or> code c < 0x20 then None
      else map_option (Cons c) (json_unescape s))"
  by pat_completeness auto
termination by (relation "measure length") auto

text \<open>A JSON text is UTF-8; its bytes outside of strings are ASCII.\<close>

definition json_string :: "string \<Rightarrow> string option" where
  "json_string b = (if utf8 b then json_unescape b else None)"

lemma json_stringD: "json_string b = Some s \<Longrightarrow> json_unescape b = Some s \<and> utf8 b"
  by (simp add: json_string_def split: if_splits)

text \<open>The tokens of numbers.\<close>

definition natural_token :: "string \<Rightarrow> bool" where
  "natural_token s \<longleftrightarrow> s \<noteq> [] \<and> list_all is_digit s \<and> (hd s = CHR ''0'' \<longrightarrow> s = ''0'')"

definition digits_token :: "string \<Rightarrow> bool" where
  "digits_token s \<longleftrightarrow> s \<noteq> [] \<and> list_all is_digit s"

inductive number_token :: "string \<Rightarrow> bool" where
  whole: "natural_token s \<Longrightarrow> number_token s"
| fraction: "natural_token s \<Longrightarrow> digits_token f \<Longrightarrow> number_token (s @ ''.'' @ f)"
| whole_exp: "natural_token s \<Longrightarrow> digits_token x \<Longrightarrow> sign \<in> {''e+'', ''e-''} \<Longrightarrow> number_token (s @ sign @ x)"
| fraction_exp: "natural_token s \<Longrightarrow> digits_token f \<Longrightarrow> digits_token x \<Longrightarrow> sign \<in> {''e+'', ''e-''} \<Longrightarrow>
    number_token (s @ ''.'' @ f @ sign @ x)"

definition signed_token :: "string \<Rightarrow> bool" where
  "signed_token s \<longleftrightarrow> number_token s \<or> (\<exists>r. s = CHR ''-'' # r \<and> number_token r)"

datatype Json = JStr string | JNum string | JArr "Json list" | JObj "(string \<times> Json) list"

text \<open>The texts without white space between tokens.\<close>

inductive json_denotes :: "string \<Rightarrow> Json \<Rightarrow> bool"
  and json_members :: "string list \<Rightarrow> (string \<times> Json) list \<Rightarrow> bool"
  and json_elements :: "string list \<Rightarrow> Json list \<Rightarrow> bool" where
  quoted: "json_string b = Some s \<Longrightarrow> json_denotes (DQUOTE # b @ [DQUOTE]) (JStr s)"
| number: "signed_token t \<Longrightarrow> json_denotes t (JNum t)"
| object: "json_members ms kvs \<Longrightarrow> json_denotes (''{'' @ join_with '','' ms @ ''}'') (JObj kvs)"
| array: "json_elements vs xs \<Longrightarrow> json_denotes (''['' @ join_with '','' vs @ '']'') (JArr xs)"
| no_member: "json_members [] []"
| member: "json_string b = Some k \<Longrightarrow> json_denotes t v \<Longrightarrow> json_members ms kvs \<Longrightarrow>
    json_members ((DQUOTE # b @ [DQUOTE] @ '':'' @ t) # ms) ((k, v) # kvs)"
| no_element: "json_elements [] []"
| element: "json_denotes t v \<Longrightarrow> json_elements vs xs \<Longrightarrow> json_elements (t # vs) (v # xs)"

section \<open>Strings\<close>

lemma unescape_control:
  assumes "code c < 0x20"
  shows "json_unescape ([BSLASH, CHR ''u'', CHR ''0'', CHR ''0'', hex_char (code c div 16), hex_char (code c mod 16)] @ s) =
    map_option (Cons c) (json_unescape s)"
proof -
  have h: "code c div 16 < 16" "code c mod 16 < 16" using assms by auto
  have x: "is_hex (hex_char n)" if "n < 16" for n
    using that by (auto simp: is_hex_def hex_char_def ctype_simps of_char_of)
  have z: "is_hex (CHR ''0'')" "hex_val (CHR ''0'') = 0" by (simp_all add: is_hex_def hex_val_def ctype_simps)
  have "16 * (code c div 16) + code c mod 16 = code c" by simp
  then have n: "hex_number [CHR ''0'', CHR ''0'', hex_char (code c div 16), hex_char (code c mod 16)] = code c"
    using hex_val_hex[OF h(1)] hex_val_hex[OF h(2)] z by (simp add: hex_number_def)
  show ?thesis using assms x[OF h(1)] x[OF h(2)] z n by simp
qed

lemma escape_values [simp]:
  "escape_value DQUOTE = Some DQUOTE" "escape_value BSLASH = Some BSLASH" "escape_value (CHR ''n'') = Some LF"
  "escape_value (CHR ''r'') = Some CR" "escape_value (CHR ''t'') = Some TAB"
  by (simp_all add: escape_value_def)

lemma unescape_escape_char: "json_unescape (json_escape_char c @ s) = map_option (Cons c) (json_unescape s)"
proof -
  consider "c \<in> {DQUOTE, BSLASH, LF, CR, TAB}" | "c \<notin> {DQUOTE, BSLASH, LF, CR, TAB}" "code c < 0x20"
    | "c \<notin> {DQUOTE, BSLASH, LF, CR, TAB}" "\<not> code c < 0x20" by blast
  then show ?thesis
  proof cases
    case 1
    then show ?thesis by (auto simp: json_escape_char_def)
  next
    case 2
    then show ?thesis using unescape_control[OF 2(2), of s] by (simp add: json_escape_char_def)
  next
    case 3
    then show ?thesis by (simp add: json_escape_char_def)
  qed
qed

lemma unescape_escape: "json_unescape (json_escape s) = Some s"
  by (induction s) (simp_all add: json_escape_def unescape_escape_char)

lemma escape_char_ascii: "code c < 0x80 \<Longrightarrow> list_all (\<lambda>x. code x < 0x80) (json_escape_char c) \<and> json_escape_char c \<noteq> []"
proof -
  have "code (hex_char n) < 0x80" if "n < 16" for n using that by (auto simp: hex_char_def of_char_of)
  then show "code c < 0x80 \<Longrightarrow> list_all (\<lambda>x. code x < 0x80) (json_escape_char c) \<and> json_escape_char c \<noteq> []"
    by (auto simp: json_escape_char_def)
qed

lemma utf8_from_ascii_text:
  assumes "decoder_ok st" "list_all (\<lambda>x. code x < 0x80) a" "a \<noteq> []"
  shows "utf8_from st (a @ s) \<longleftrightarrow> utf8_from st [] \<and> utf8 s"
proof -
  obtain x b where a: "a = x # b" using assms(3) by (cases a) auto
  then show ?thesis using utf8_from_ascii[OF assms(1), of x "[]" "b @ s"] assms(2) utf8_ascii_text[of b s] by simp
qed

text \<open>Escaping leaves the bytes from 0x80 on as they are, and so neither makes nor mends UTF-8.\<close>

lemma utf8_from_escape: "decoder_ok st \<Longrightarrow> utf8_from st (json_escape s) \<longleftrightarrow> utf8_from st s"
proof (induction s arbitrary: st)
  case (Cons c s)
  have e: "json_escape (c # s) = json_escape_char c @ json_escape s" by (simp add: json_escape_def)
  show ?case
  proof (cases "code c < 0x80")
    case True
    have "utf8 (json_escape s) \<longleftrightarrow> utf8 s" using Cons.IH[of Ready] by (simp add: utf8_def)
    then show ?thesis
      using utf8_from_ascii_text[OF Cons.prems, of "json_escape_char c" "json_escape s"] escape_char_ascii[OF True]
        utf8_from_ascii_text[OF Cons.prems, of "[c]" s] True by (simp add: e)
  next
    case False
    then have "json_escape_char c = [c]" by (auto simp: json_escape_char_def)
    then have c: "json_escape (c # s) = c # json_escape s" by (simp add: e)
    show ?thesis
    proof (cases st)
      case Ready
      then show ?thesis using Cons.IH lead_byte_ok[of "code c"] False by (auto simp: c split: option.splits)
    next
      case (Pending cp n lo hi)
      then show ?thesis using Cons.IH[OF decoder_ok_next[of cp n lo hi "code c"]] Cons.prems by (auto simp: c)
    qed
  qed
qed (simp add: json_escape_def)

lemma utf8_escape [simp]: "utf8 (json_escape s) \<longleftrightarrow> utf8 s"
  using utf8_from_escape[of Ready s] by (simp add: utf8_def)

lemma string_escape: "utf8 s \<Longrightarrow> json_string (json_escape s) = Some s"
  by (simp add: json_string_def unescape_escape)

text \<open>ASCII text that needs no escape.\<close>

definition unescaped :: "string \<Rightarrow> bool" where
  "unescaped s \<longleftrightarrow> list_all (\<lambda>c. c \<noteq> DQUOTE \<and> c \<noteq> BSLASH \<and> 0x20 \<le> code c \<and> code c < 0x80) s"

lemma string_unescaped: "unescaped s \<Longrightarrow> json_string s = Some s"
proof -
  assume s: "unescaped s"
  then have "json_unescape s = Some s" by (induction s) (auto simp: unescaped_def)
  moreover have "utf8 s" by (rule utf8_ascii_only) (use s in \<open>auto simp: unescaped_def list_all_iff\<close>)
  ultimately show ?thesis by (simp add: json_string_def)
qed

lemma unescaped_simps [simp]:
  "unescaped []"
  "unescaped (c # s) \<longleftrightarrow> c \<noteq> DQUOTE \<and> c \<noteq> BSLASH \<and> 0x20 \<le> code c \<and> code c < 0x80 \<and> unescaped s"
  by (simp_all add: unescaped_def)

lemma denotes_text:
  "utf8 s \<Longrightarrow> json_denotes (json_quoted s) (JStr s)" "unescaped s \<Longrightarrow> json_denotes (json_key s) (JStr s)"
  using json_denotes_json_members_json_elements.quoted string_escape string_unescaped
  by (simp_all add: json_quoted_def json_key_def)

section \<open>Numbers\<close>

lemma natural_show: "natural_token (show_nat n)"
proof -
  have "hd (show_nat n) = CHR ''0'' \<longrightarrow> n = 0"
  proof (induction n rule: show_nat.induct)
    case (1 n)
    show ?case
    proof (cases "n < 10")
      case True
      then have hd: "hd (show_nat n) = char_of (48 + n)" by (simp add: show_nat.simps[of n] digit_char_def)
      show ?thesis
      proof
        assume "hd (show_nat n) = CHR ''0''"
        then have "code (char_of (48 + n)) = code (CHR ''0'')" by (simp only: hd)
        then show "n = 0" using True by (simp add: of_char_of)
      qed
    next
      case False
      then have "n div 10 \<noteq> 0" by (simp add: div_eq_0_iff)
      then show ?thesis using 1[OF False] False by (simp add: show_nat.simps[of n])
    qed
  qed
  moreover have "list_all is_digit (show_nat n)" using show_nat_digits by (auto simp: list_all_iff)
  moreover have "show_nat 0 = ''0''" by code_simp
  ultimately show ?thesis by (auto simp: natural_token_def)
qed

lemma natural_take:
  assumes "natural_token ds" "0 < k"
  shows "natural_token (take k ds)"
proof -
  have "list_all is_digit (take k ds)" using assms(1) by (auto simp: natural_token_def list_all_iff dest: in_set_takeD)
  moreover have "take k ds = ds" if "length ds = 1" using that assms(2) by simp
  ultimately show ?thesis using assms by (cases ds) (auto simp: natural_token_def take_Cons')
qed

lemma natural_digits: "natural_token s \<Longrightarrow> list_all is_digit s"
  by (simp add: natural_token_def)

lemma show_exp_tokens: "\<exists>sign x. show_exp n = sign @ x \<and> sign \<in> {''e+'', ''e-''} \<and> digits_token x"
proof -
  have "digits_token (if length (show_nat k) < 2 then ''0'' @ show_nat k else show_nat k)" for k
    using natural_digits[OF natural_show[of k]] by (simp add: digits_token_def is_digit_def)
  from this[of "nat \<bar>n\<bar>"] show ?thesis
    by (intro exI[of _ "if n < 0 then ''e-'' else ''e+''"]
        exI[of _ "if length (show_nat (nat \<bar>n\<bar>)) < 2 then ''0'' @ show_nat (nat \<bar>n\<bar>) else show_nat (nat \<bar>n\<bar>)"])
      (simp add: show_exp_def Let_def)
qed

lemma fraction_token:
  assumes "natural_token a" "list_all is_digit f"
  shows "number_token (with_fraction a f)" "number_token (with_fraction a f @ show_exp x)"
proof -
  obtain sign y where e: "show_exp x = sign @ y" "sign \<in> {''e+'', ''e-''}" "digits_token y"
    using show_exp_tokens by blast
  have "set (strip_zeros f) \<subseteq> set f" by (auto simp: strip_zeros_def dest: set_dropWhileD)
  then have d: "strip_zeros f = [] \<or> digits_token (strip_zeros f)"
    using assms(2) by (auto simp: digits_token_def list_all_iff)
  show "number_token (with_fraction a f)"
    using d assms(1) number_token.whole number_token.fraction by (auto simp: with_fraction_def digits_token_def)
  show "number_token (with_fraction a f @ show_exp x)"
    using d assms(1) e number_token.whole_exp[of a y sign] number_token.fraction_exp[of a "strip_zeros f" y sign]
    by (auto simp: with_fraction_def digits_token_def)
qed

lemma layout_token:
  assumes "natural_token ds"
  shows "number_token (layout_g ds x)"
proof -
  have d: "list_all is_digit (drop k ds)" "list_all is_digit (replicate k (CHR ''0'') @ ds)" for k
    using natural_digits[OF assms] by (auto simp: list_all_iff is_digit_def dest: in_set_dropD)
  have z: "natural_token ''0''" by (simp add: natural_token_def is_digit_def)
  show ?thesis
    using fraction_token[OF natural_take[OF assms] d(1)] fraction_token(1)[OF z d(2)] by (simp add: layout_g_def)
qed

fun finite_double :: "double \<Rightarrow> bool" where
  "finite_double (DFin s m e) \<longleftrightarrow> True"
| "finite_double x \<longleftrightarrow> False"

lemma signed_tokens:
  "signed_token (show_nat n)" "signed_token (show_int i)" "finite_double x \<Longrightarrow> signed_token (show_double x)"
proof -
  note nat = number_token.whole[OF natural_show]
  have z: "number_token ''0''" by (rule number_token.whole) (simp add: natural_token_def is_digit_def)
  show "signed_token (show_nat n)" "signed_token (show_int i)" using nat by (simp_all add: signed_token_def show_int_def)
  have "number_token (show_pos n d)" for n d
    unfolding show_pos_def Let_def by (simp add: layout_token natural_show split: prod.split)
  then show "finite_double x \<Longrightarrow> signed_token (show_double x)"
    using z by (cases x) (auto simp: signed_token_def)
qed

lemma denotes_number:
  "json_denotes (show_nat n) (JNum (show_nat n))" "json_denotes (show_int i) (JNum (show_int i))"
  "finite_double x \<Longrightarrow> json_denotes (show_double x) (JNum (show_double x))"
  using signed_tokens by (simp_all add: json_denotes_json_members_json_elements.number)

section \<open>A text denotes one value\<close>

lemmas denotes_rules = json_denotes_json_members_json_elements.intros

inductive_cases denotes_E: "json_denotes t v"
inductive_cases members_E: "json_members ms kvs"
inductive_cases elements_E: "json_elements vs xs"

text \<open>The quote that ends a string is the first one that no backslash precedes.\<close>

lemma unescape_ends:
  "json_unescape b = Some s \<Longrightarrow> json_unescape b' = Some s' \<Longrightarrow> b @ DQUOTE # r = b' @ DQUOTE # r' \<Longrightarrow> b = b'"
proof (induction b arbitrary: b' s s' rule: json_unescape.induct)
  case 1
  then show ?case by (cases b') auto
next
  case (2 c b)
  then obtain b2 where b': "b' = c # b2" and eq: "b @ DQUOTE # r = b2 @ DQUOTE # r'" by (cases b') auto
  show ?case
  proof (cases "c = BSLASH")
    case False
    have n: "c \<noteq> DQUOTE" "\<not> code c < 0x20" using "2.prems"(1) False by (auto split: if_splits)
    obtain t t' where "json_unescape b = Some t" "json_unescape b2 = Some t'"
      using "2.prems"(1,2) False n by (auto simp: b')
    from "2.IH"(3)[OF False _ this eq] n show ?thesis by (simp add: b')
  next
    case True
    obtain e q where b: "b = e # q" using "2.prems"(1) True by (cases b) auto
    obtain e' q' where b2: "b2 = e' # q'" using "2.prems"(2) True by (cases b2) (auto simp: b')
    have e: "e' = e" and qs: "q @ DQUOTE # r = q' @ DQUOTE # r'" using eq by (auto simp: b b2)
    show ?thesis
    proof (cases "e = CHR ''u''")
      case u: True
      have h: "4 \<le> length q \<and> list_all is_hex (take 4 q) \<and> hex_number (take 4 q) < 0x80" "4 \<le> length q'"
        using "2.prems"(1,2) True u by (auto simp: b b' b2 e split: if_splits)
      obtain t t' where t: "json_unescape (drop 4 q) = Some t" "json_unescape (drop 4 q') = Some t'"
        using "2.prems"(1,2) True u h by (auto simp: b b' b2 e split: if_splits)
      have "take 4 q @ drop 4 q @ DQUOTE # r = take 4 q' @ drop 4 q' @ DQUOTE # r'"
        using qs by (metis append.assoc append_take_drop_id)
      moreover have "length (take 4 q) = length (take 4 q')" using h by simp
      ultimately have "take 4 q = take 4 q'" "drop 4 q @ DQUOTE # r = drop 4 q' @ DQUOTE # r'" by (metis append_eq_append_conv)+
      with "2.IH"(1)[OF True b u h(1) t] have "take 4 q @ drop 4 q = take 4 q' @ drop 4 q'" by simp
      then show ?thesis by (simp add: b b' b2 e)
    next
      case u: False
      obtain d t t' where t: "escape_value e = Some d" "json_unescape q = Some t" "json_unescape q' = Some t'"
        using "2.prems"(1,2) True u by (auto simp: b b' b2 e split: option.splits)
      from "2.IH"(2)[OF True b u t(1) t(2,3) qs] show ?thesis by (simp add: b b' b2 e)
    qed
  qed
qed

text \<open>The bytes of number tokens.\<close>

definition number_char :: "char \<Rightarrow> bool" where
  "number_char c \<longleftrightarrow> is_digit c \<or> c \<in> {CHR ''.'', CHR ''e'', CHR ''+'', CHR ''-''}"

lemma digits_number: "list_all is_digit s \<Longrightarrow> list_all number_char s"
  by (auto simp: list_all_iff number_char_def)

lemma number_signs [simp]: "number_char (CHR ''.'')" "number_char (CHR ''e'')" "number_char (CHR ''+'')" "number_char (CHR ''-'')"
  by (simp_all add: number_char_def)

lemma token_chars: "number_token s \<Longrightarrow> list_all number_char s \<and> s \<noteq> []"
  by (induction rule: number_token.induct) (auto simp: natural_token_def digits_token_def digits_number)

lemma signed_chars: "signed_token s \<Longrightarrow> list_all number_char s \<and> s \<noteq> []"
  using token_chars by (auto simp: signed_token_def)

text \<open>What may follow a value.\<close>

definition after_value :: "string \<Rightarrow> bool" where
  "after_value r \<longleftrightarrow> r = [] \<or> hd r \<in> {CHR '','', CHR ''}'', CHR '']''}"

lemma after_number: "after_value r \<Longrightarrow> list_all number_char s \<Longrightarrow> takeWhile number_char (s @ r) = s"
proof -
  assume r: "after_value r" and s: "list_all number_char s"
  have "takeWhile number_char r = []"
    using r by (cases r) (auto simp: after_value_def number_char_def is_digit_def)
  then show "takeWhile number_char (s @ r) = s" using s by (simp add: list_all_iff)
qed

lemma number_heads [simp]: "\<not> number_char DQUOTE" "\<not> number_char (CHR ''['')" "\<not> number_char (CHR ''{'')" "\<not> number_char (CHR '']'')"
  by (simp_all add: number_char_def is_digit_def)

text \<open>The first byte of a value tells its kind.\<close>

lemma number_head: "signed_token t \<Longrightarrow> number_char (hd t)"
  using signed_chars by (auto simp: list_all_iff)

lemma number_head_other: "signed_token t \<Longrightarrow> hd t \<notin> {DQUOTE, CHR ''['', CHR ''{'', CHR '']''} \<and> t \<noteq> []"
  using number_head[of t] signed_chars[of t] number_heads by auto

lemma denotes_cases:
  assumes "json_denotes t v"
  obtains (s) b s where "t = DQUOTE # b @ [DQUOTE]" "v = JStr s" "json_string b = Some s"
    | (n) "signed_token t" "v = JNum t" "t \<noteq> []" "hd t \<notin> {DQUOTE, CHR ''['', CHR ''{'', CHR '']''}"
    | (o) ms kvs where "t = CHR ''{'' # join_with '','' ms @ ''}''" "v = JObj kvs" "json_members ms kvs"
    | (a) vs xs where "t = CHR ''['' # join_with '','' vs @ '']''" "v = JArr xs" "json_elements vs xs"
proof (rule denotes_E[OF assms], goal_cases)
  case 2
  then show ?case using n number_head_other[of t] by blast
qed (use s o a in simp_all)

lemma denotes_by_head:
  assumes "json_denotes t v"
  shows "t \<noteq> [] \<and> hd t \<noteq> CHR '']''"
    "hd t = DQUOTE \<Longrightarrow> \<exists>b s. t = DQUOTE # b @ [DQUOTE] \<and> v = JStr s \<and> json_string b = Some s"
    "hd t = CHR ''{'' \<Longrightarrow> \<exists>ms kvs. t = CHR ''{'' # join_with '','' ms @ ''}'' \<and> v = JObj kvs \<and> json_members ms kvs"
    "hd t = CHR ''['' \<Longrightarrow> \<exists>vs xs. t = CHR ''['' # join_with '','' vs @ '']'' \<and> v = JArr xs \<and> json_elements vs xs"
    "number_char (hd t) \<Longrightarrow> signed_token t \<and> v = JNum t"
proof -
  show "t \<noteq> [] \<and> hd t \<noteq> CHR '']''" using assms by (cases rule: denotes_cases) simp_all
  show "hd t = DQUOTE \<Longrightarrow> \<exists>b s. t = DQUOTE # b @ [DQUOTE] \<and> v = JStr s \<and> json_string b = Some s"
    using assms by (cases rule: denotes_cases) simp_all
  show "hd t = CHR ''{'' \<Longrightarrow> \<exists>ms kvs. t = CHR ''{'' # join_with '','' ms @ ''}'' \<and> v = JObj kvs \<and> json_members ms kvs"
    using assms by (cases rule: denotes_cases) auto
  show "hd t = CHR ''['' \<Longrightarrow> \<exists>vs xs. t = CHR ''['' # join_with '','' vs @ '']'' \<and> v = JArr xs \<and> json_elements vs xs"
    using assms by (cases rule: denotes_cases) auto
  show "number_char (hd t) \<Longrightarrow> signed_token t \<and> v = JNum t"
    using assms by (cases rule: denotes_cases) simp_all
qed

lemma same_head: "t @ r = t' @ r' \<Longrightarrow> t \<noteq> [] \<Longrightarrow> t' \<noteq> [] \<Longrightarrow> hd t' = hd t"
  by (metis hd_append2)

lemma after_simps [simp]:
  "after_value []" "after_value (CHR '','' # r)" "after_value (CHR ''}'' # r)" "after_value (CHR '']'' # r)"
  by (simp_all add: after_value_def)

lemma members_head: "json_members ms kvs \<Longrightarrow> ms \<noteq> [] \<Longrightarrow> \<exists>s. join_with '','' ms = DQUOTE # s"
  by (erule members_E) (auto simp: join_with_Cons)

lemma elements_head:
  "json_elements vs xs \<Longrightarrow> vs \<noteq> [] \<Longrightarrow> \<exists>c s. join_with '','' vs = c # s \<and> c \<noteq> CHR '']''"
proof (erule elements_E)
  fix t v us ys assume "vs = t # us" "json_denotes t v"
  then show "\<exists>c s. join_with '','' vs = c # s \<and> c \<noteq> CHR '']''"
    using denotes_by_head(1)[of t v] by (cases t) (simp_all add: join_with_Cons)
qed simp

definition tail_text :: "string list \<Rightarrow> char \<Rightarrow> string \<Rightarrow> string" where
  "tail_text ms close r = (if ms = [] then [] else CHR '','' # join_with '','' ms) @ close # r"

lemma join_tail: "join_with '','' (m # ms) @ close # r = m @ tail_text ms close r"
  by (simp add: join_with_Cons tail_text_def)

lemma tail_after: "close \<in> {CHR ''}'', CHR '']''} \<Longrightarrow> after_value (tail_text ms close r)"
  by (auto simp: tail_text_def)

lemma tail_same:
  assumes "tail_text ms close r = tail_text ms' close r'" "close \<in> {CHR ''}'', CHR '']''}"
  shows "join_with '','' ms @ close # r = join_with '','' ms' @ close # r'"
  using assms by (auto simp: tail_text_def split: if_splits)

lemma value_unique:
  "json_denotes t v \<Longrightarrow> \<forall>t' v' r r'. json_denotes t' v' \<longrightarrow> t @ r = t' @ r' \<longrightarrow> after_value r \<longrightarrow> after_value r' \<longrightarrow>
     t = t' \<and> v = v'"
  "json_members ms kvs \<Longrightarrow> \<forall>ms' kvs' r r'. json_members ms' kvs' \<longrightarrow>
     join_with '','' ms @ CHR ''}'' # r = join_with '','' ms' @ CHR ''}'' # r' \<longrightarrow> ms = ms' \<and> kvs = kvs'"
  "json_elements vs xs \<Longrightarrow> \<forall>vs' xs' r r'. json_elements vs' xs' \<longrightarrow>
     join_with '','' vs @ CHR '']'' # r = join_with '','' vs' @ CHR '']'' # r' \<longrightarrow> vs = vs' \<and> xs = xs'"
proof (induction rule: json_denotes_json_members_json_elements.inducts)
  case (quoted b s)
  show ?case
  proof (intro allI impI)
    fix t' v' r r' assume p: "json_denotes t' v'" "(DQUOTE # b @ [DQUOTE]) @ r = t' @ r'"
    have "hd t' = DQUOTE" using same_head[OF p(2)] denotes_by_head(1)[OF p(1)] by simp
    then obtain b' s' where t': "t' = DQUOTE # b' @ [DQUOTE]" "v' = JStr s'" "json_string b' = Some s'"
      using denotes_by_head(2)[OF p(1)] by blast
    have "b @ DQUOTE # r = b' @ DQUOTE # r'" using p(2) t'(1) by simp
    then have "b = b'" using unescape_ends json_stringD[OF quoted] json_stringD[OF t'(3)] by blast
    then show "DQUOTE # b @ [DQUOTE] = t' \<and> JStr s = v'" using quoted t' by simp
  qed
next
  case (number t)
  show ?case
  proof (intro allI impI)
    fix t' v' r r' assume p: "json_denotes t' v'" "t @ r = t' @ r'" "after_value r" "after_value r'"
    have "hd t' = hd t" using same_head[OF p(2)] denotes_by_head(1)[OF p(1)] signed_chars[OF number] by simp
    then have t': "signed_token t'" "v' = JNum t'" using denotes_by_head(5)[OF p(1)] number_head[OF number] by simp_all
    have "t = takeWhile number_char (t @ r)" using after_number[OF p(3)] signed_chars[OF number] by simp
    also have "\<dots> = t'" unfolding p(2) using after_number[OF p(4)] signed_chars[OF t'(1)] by simp
    finally show "t = t' \<and> JNum t = v'" using t'(2) by simp
  qed
next
  case (object ms kvs)
  show ?case
  proof (intro allI impI)
    fix t' v' r r' assume p: "json_denotes t' v'" "(''{'' @ join_with '','' ms @ ''}'') @ r = t' @ r'"
    have "hd t' = CHR ''{''" using same_head[OF p(2)] denotes_by_head(1)[OF p(1)] by simp
    then obtain ms' kvs' where t': "t' = CHR ''{'' # join_with '','' ms' @ ''}''" "v' = JObj kvs'" "json_members ms' kvs'"
      using denotes_by_head(3)[OF p(1)] by blast
    have "join_with '','' ms @ CHR ''}'' # r = join_with '','' ms' @ CHR ''}'' # r'" using p(2) t'(1) by simp
    from object.IH[rule_format, OF t'(3) this] show "''{'' @ join_with '','' ms @ ''}'' = t' \<and> JObj kvs = v'" using t'(1,2) by simp
  qed
next
  case (array vs xs)
  show ?case
  proof (intro allI impI)
    fix t' v' r r' assume p: "json_denotes t' v'" "(''['' @ join_with '','' vs @ '']'') @ r = t' @ r'"
    have "hd t' = CHR ''[''" using same_head[OF p(2)] denotes_by_head(1)[OF p(1)] by simp
    then obtain vs' xs' where t': "t' = CHR ''['' # join_with '','' vs' @ '']''" "v' = JArr xs'" "json_elements vs' xs'"
      using denotes_by_head(4)[OF p(1)] by blast
    have "join_with '','' vs @ CHR '']'' # r = join_with '','' vs' @ CHR '']'' # r'" using p(2) t'(1) by simp
    from array.IH[rule_format, OF t'(3) this] show "''['' @ join_with '','' vs @ '']'' = t' \<and> JArr xs = v'" using t'(1,2) by simp
  qed
next
  case no_member
  show ?case
  proof (intro allI impI)
    fix ms' kvs' r r' assume p: "json_members ms' kvs'" "join_with '','' [] @ CHR ''}'' # r = join_with '','' ms' @ CHR ''}'' # r'"
    have "ms' = []" using members_head[OF p(1)] p(2) by (cases "ms' = []") auto
    then show "[] = ms' \<and> [] = kvs'" using p(1) by (auto elim: members_E)
  qed
next
  case (member b k t v ms kvs)
  show ?case
  proof (intro allI impI)
    fix ms' kvs' r r' assume p: "json_members ms' kvs'"
      "join_with '','' ((DQUOTE # b @ [DQUOTE] @ '':'' @ t) # ms) @ CHR ''}'' # r = join_with '','' ms' @ CHR ''}'' # r'"
    have "ms' \<noteq> []" using p(2) unfolding join_tail by (cases ms') auto
    then obtain b' k' t' v' ns kvs2 where m: "ms' = (DQUOTE # b' @ [DQUOTE] @ '':'' @ t') # ns" "kvs' = (k', v') # kvs2"
      "json_string b' = Some k'" "json_denotes t' v'" "json_members ns kvs2"
      using p(1) by (auto elim: members_E)
    have eq: "b @ DQUOTE # CHR '':'' # t @ tail_text ms (CHR ''}'') r = b' @ DQUOTE # CHR '':'' # t' @ tail_text ns (CHR ''}'') r'"
      using p(2) unfolding m(1) join_tail by simp
    have b: "b = b'" using unescape_ends eq json_stringD[OF member.hyps(1)] json_stringD[OF m(3)] by blast
    then have eq': "t @ tail_text ms (CHR ''}'') r = t' @ tail_text ns (CHR ''}'') r'" using eq by simp
    have tv: "t = t' \<and> v = v'" by (rule member.IH(1)[rule_format, OF m(4) eq']) (simp_all add: tail_after)
    then have "tail_text ms (CHR ''}'') r = tail_text ns (CHR ''}'') r'" using eq' by simp
    from tail_same[OF this] have "join_with '','' ms @ CHR ''}'' # r = join_with '','' ns @ CHR ''}'' # r'" by simp
    from member.IH(2)[rule_format, OF m(5) this] show "(DQUOTE # b @ [DQUOTE] @ '':'' @ t) # ms = ms' \<and> (k, v) # kvs = kvs'"
      using m member.hyps(1) b tv by simp
  qed
next
  case no_element
  show ?case
  proof (intro allI impI)
    fix vs' xs' r r' assume p: "json_elements vs' xs'" "join_with '','' [] @ CHR '']'' # r = join_with '','' vs' @ CHR '']'' # r'"
    have "vs' = []" using elements_head[OF p(1)] p(2) by (cases "vs' = []") auto
    then show "[] = vs' \<and> [] = xs'" using p(1) by (auto elim: elements_E)
  qed
next
  case (element t v vs xs)
  show ?case
  proof (intro allI impI)
    fix vs' xs' r r' assume p: "json_elements vs' xs'" "join_with '','' (t # vs) @ CHR '']'' # r = join_with '','' vs' @ CHR '']'' # r'"
    have "hd (t @ tail_text vs (CHR '']'') r) \<noteq> CHR '']''" using denotes_by_head(1)[OF element.hyps(1)] by simp
    then have "vs' \<noteq> []" using p(2) unfolding join_tail by (cases vs') auto
    then obtain t' v' ns ys where e: "vs' = t' # ns" "xs' = v' # ys" "json_denotes t' v'" "json_elements ns ys"
      using p(1) by (auto elim: elements_E)
    have eq: "t @ tail_text vs (CHR '']'') r = t' @ tail_text ns (CHR '']'') r'" using p(2) unfolding e(1) join_tail .
    have tv: "t = t' \<and> v = v'" by (intro element.IH(1)[rule_format, OF e(3) eq]) (simp_all add: tail_after)
    then have "tail_text vs (CHR '']'') r = tail_text ns (CHR '']'') r'" using eq by simp
    from tail_same[OF this] have "join_with '','' vs @ CHR '']'' # r = join_with '','' ns @ CHR '']'' # r'" by simp
    from element.IH(2)[rule_format, OF e(4) this] show "t # vs = vs' \<and> v # xs = xs'" using e tv by simp
  qed
qed

lemma json_denotes_unique:
  assumes "json_denotes t v" "json_denotes t v'"
  shows "v = v'"
  using value_unique(1)[OF assms(1)] assms(2) after_simps(1) by blast

section \<open>Objects and arrays\<close>

lemma members_add:
  assumes "json_members ms kvs" "unescaped k"
  shows "utf8 s \<Longrightarrow> json_members (json_text_field k s # ms) ((k, JStr s) # kvs)"
    "unescaped s \<Longrightarrow> json_members (json_name_field k s # ms) ((k, JStr s) # kvs)"
    "json_denotes t v \<Longrightarrow> json_members (json_raw_field k t # ms) ((k, v) # kvs)"
  using json_denotes_json_members_json_elements.member[OF string_unescaped[OF assms(2)] _ assms(1)] denotes_text
  by (simp_all add: json_text_field_def json_name_field_def json_raw_field_def json_key_def)

lemma denotes_object: "json_members ms kvs \<Longrightarrow> json_denotes (json_object ms) (JObj kvs)"
  unfolding json_object_def by (rule json_denotes_json_members_json_elements.object)

lemma elements_map: "(\<And>x. x \<in> set xs \<Longrightarrow> json_denotes (f x) (g x)) \<Longrightarrow> json_elements (map f xs) (map g xs)"
  by (induction xs) (simp_all add: json_denotes_json_members_json_elements.no_element json_denotes_json_members_json_elements.element)

lemma denotes_array:
  "(\<And>x. x \<in> set xs \<Longrightarrow> json_denotes (f x) (g x)) \<Longrightarrow> json_denotes (json_array (map f xs)) (JArr (map g xs))"
  unfolding json_array_def by (rule json_denotes_json_members_json_elements.array[OF elements_map])

lemma denotes_string_array: "list_all utf8 vs \<Longrightarrow> json_denotes (json_string_array vs) (JArr (map JStr vs))"
  using denotes_array[of vs json_quoted JStr] denotes_text(1) by (simp add: json_array_def json_string_array_def list_all_iff)

lemmas json_members_intros = members_add json_denotes_json_members_json_elements.no_member

section \<open>What the answers denote\<close>

definition port_value :: "Port \<Rightarrow> Json" where
  "port_value p =
     JObj
       [(''number'', JNum (show_nat (unat (p_number p)))), (''protocol'', JStr (protocol_to_string (p_protocol p))),
        (''service'', JStr (p_service p)), (''product'', JStr (p_product p)), (''version'', JStr (p_version p)),
        (''distro'', JStr (p_distro p))]"

definition finding_value :: "Finding \<Rightarrow> Json" where
  "finding_value f =
     JObj
       [(''plugin_name'', JStr (f_plugin_name f)), (''title'', JStr (f_title f)), (''description'', JStr (f_description f)),
        (''severity'', JStr (severity_to_string (f_severity f))), (''confidence'', JNum (show_double (f_confidence_score f))),
        (''verification'', JStr (f_verification f)), (''verification_label'', JStr (verification_label (f_verification f))),
        (''cve'', JStr (f_cve_id f)), (''host'', JStr (f_host f)), (''port_number'', JNum (show_nat (unat (f_port_number f)))),
        (''protocol'', JStr (protocol_to_string (f_protocol f))), (''scope'', JStr (f_scope f)),
        (''service'', JStr (f_service f)), (''product'', JStr (f_product f)), (''version'', JStr (f_version f)),
        (''evidence'', JStr (f_evidence f)),
        (''evidence_data'',
          JObj [(''type'', JStr (e_type (f_evidence_data f))), (''source'', JStr (e_source (f_evidence_data f))),
                (''value'', JStr (e_value (f_evidence_data f))), (''details'', JStr (e_details (f_evidence_data f)))]),
        (''references'', JArr (map JStr (f_references f))), (''remediation'', JStr (f_remediation f)),
        (''cvss'', JNum (show_double (f_cvss f))), (''cvss_vector'', JStr (f_cvss_vector f)),
        (''timestamp'', JNum (show_int (sint (f_timestamp f))))]"

definition scan_value :: "string \<Rightarrow> ScanRow \<Rightarrow> Port list \<Rightarrow> Finding list \<Rightarrow> Json" where
  "scan_value i r ports findings =
     JObj
       [(''id'', JStr i), (''target'', JStr (sr_target r)), (''port_start'', JNum (show_int (sr_port_start r))),
        (''port_end'', JNum (show_int (sr_port_end r))), (''status'', JStr (sr_status r)),
        (''started_at'', JNum (show_int (sr_started_at r))), (''completed_at'', JNum (show_int (sr_completed_at r))),
        (''error'', JStr (sr_error r)), (''ports'', JArr (map port_value ports)),
        (''findings'', JArr (map finding_value findings))]"

definition finite_scores :: "Finding \<Rightarrow> bool" where
  "finite_scores f \<longleftrightarrow> finite_double (f_confidence_score f) \<and> finite_double (f_cvss f)"

lemma unescaped_names [simp]: "unescaped (protocol_to_string p)" "unescaped (severity_to_string v)" "unescaped (status_str n)"
  by ((cases p; simp), (cases v; simp), simp add: status_str_def)

text \<open>The texts of ports and findings that are UTF-8.\<close>

definition utf8_port :: "Port \<Rightarrow> bool" where
  "utf8_port p \<longleftrightarrow> list_all utf8 [p_service p, p_product p, p_version p, p_distro p]"

definition utf8_finding :: "Finding \<Rightarrow> bool" where
  "utf8_finding f \<longleftrightarrow>
     list_all utf8
       ([f_plugin_name f, f_title f, f_description f, f_verification f, f_cve_id f, f_host f, f_scope f, f_service f,
         f_product f, f_version f, f_evidence f, e_type (f_evidence_data f), e_source (f_evidence_data f),
         e_value (f_evidence_data f), e_details (f_evidence_data f), f_remediation f, f_cvss_vector f] @ f_references f)"

lemma utf8_label: "utf8 (verification_label v)"
  by (simp add: verification_label_def)

lemma denotes_port: "utf8_port p \<Longrightarrow> json_denotes (port_json p) (port_value p)"
  unfolding port_json_def port_value_def
  by (intro denotes_object json_members_intros denotes_number) (simp_all add: utf8_port_def)

lemma denotes_finding: "finite_scores f \<Longrightarrow> utf8_finding f \<Longrightarrow> json_denotes (finding_json f) (finding_value f)"
  unfolding finding_json_def finding_value_def
  by (intro denotes_object json_members_intros denotes_number denotes_string_array)
    (simp_all add: finite_scores_def utf8_finding_def utf8_label)

lemma denotes_scan:
  assumes "list_all scan_id_char i" "unescaped (sr_status r)" "utf8 (sr_target r)" "utf8 (sr_error r)"
    and "list_all utf8_port ps" "list_all utf8_finding fs" "list_all finite_scores fs"
  shows "json_denotes (scan_json i r ps fs) (scan_value i r ps fs)"
proof -
  have "unescaped i"
    using assms(1) by (auto simp: unescaped_def list_all_iff scan_id_char_def ctype_simps)
  then show ?thesis
    unfolding scan_json_def scan_value_def using assms(2-7) denotes_finding
    by (intro denotes_object json_members_intros denotes_number denotes_array denotes_port) (simp_all add: list_all_iff)
qed

lemma denotes_scan_iff:
  assumes "list_all scan_id_char i" "unescaped (sr_status r)" "utf8 (sr_target r)" "utf8 (sr_error r)"
    and "list_all utf8_port ps" "list_all utf8_finding fs" "list_all finite_scores fs"
  shows "json_denotes (scan_json i r ps fs) v \<longleftrightarrow> v = scan_value i r ps fs"
  using denotes_scan[OF assms] json_denotes_unique by blast

text \<open>C31: The answer about a scan whose texts are UTF-8 and whose scores are numbers is a well-formed JSON text, and it
  denotes the scan and nothing else: a reader by RFC 8259 gets from it each text of the scan, its ports and its
  findings byte by byte as it was, whatever quotes, backslashes and control characters a banner or a script has put
  there, and each number as it was written.  (The program checks neither condition, see
  \<open>port_text_must_be_utf8\<close>.)\<close>

theorem scan_answer_denotes:
  assumes "list_all scan_id_char i" "unescaped (sr_status r)" "utf8 (sr_target r)" "utf8 (sr_error r)"
    and "list_all utf8_port ps" "list_all utf8_finding fs" "list_all finite_scores fs"
  shows "json_denotes (scan_json i r ps fs) v \<longleftrightarrow> v = scan_value i r ps fs"
  using assms by (rule denotes_scan_iff)

text \<open>The answer about a scan whose service text holds a quote, a newline and a bell.\<close>

definition odd_port :: Port where
  "odd_port = port_default\<lparr>p_number := 80, p_service := [DQUOTE, LF, CHR 0x07, BSLASH]\<rparr>"

theorem scan_answer_denotes_witness:
  "json_denotes (scan_json ''id'' (live_row (new_job ''id'' ''10.0.0.1'' ''10.0.0.1'' 80 80 7)) [odd_port] [])
     (scan_value ''id'' (live_row (new_job ''id'' ''10.0.0.1'' ''10.0.0.1'' 80 80 7)) [odd_port] [])"
proof -
  have "list_all scan_id_char ''id''" by (simp add: scan_id_char_def ctype_simps)
  moreover have "unescaped (sr_status (live_row (new_job ''id'' ''10.0.0.1'' ''10.0.0.1'' 80 80 7)))" by (simp add: live_row_def)
  ultimately show ?thesis using scan_answer_denotes[of "''id''" _ "[odd_port]" "[]"]
    by (simp add: live_row_def new_job_def utf8_port_def odd_port_def port_default_def)
qed

section \<open>Texts that are not UTF-8\<close>

lemma denotes_utf8:
  "json_denotes t v \<Longrightarrow> utf8 t" "json_members ms kvs \<Longrightarrow> list_all utf8 ms" "json_elements vs xs \<Longrightarrow> list_all utf8 vs"
proof (induction rule: json_denotes_json_members_json_elements.inducts)
  case (number t)
  then show ?case
    using signed_chars[of t]
    by (intro utf8_ascii_only) (auto simp: list_all_iff number_char_def is_digit_def)
next
  case (member b k t v ms kvs)
  then show ?case using json_stringD[of b k] utf8_ascii[of DQUOTE b] by simp
qed (use json_stringD utf8_ascii in \<open>auto simp: utf8_join\<close>)

lemma utf8_json [simp]:
  "utf8 (json_object ms) \<longleftrightarrow> list_all utf8 ms" "utf8 (json_array ms) \<longleftrightarrow> list_all utf8 ms"
  "utf8 (json_quoted s) \<longleftrightarrow> utf8 s" "utf8 (json_key s) \<longleftrightarrow> utf8 s"
  using utf8_ascii[of "CHR ''}''" "join_with '','' ms" "[]"] utf8_ascii[of "CHR '']''" "join_with '','' ms" "[]"]
    utf8_ascii[of DQUOTE "json_escape s" "[]"] utf8_ascii[of DQUOTE s "[]"]
  by (simp_all add: json_object_def json_array_def json_quoted_def json_key_def utf8_join)

lemma utf8_key_then: "utf8 (json_key k @ CHR '':'' # r) \<longleftrightarrow> utf8 k \<and> utf8 r"
  using utf8_ascii[of "CHR '':''" "json_key k" r] by simp

lemma utf8_fields [simp]:
  "utf8 (json_text_field k s) \<longleftrightarrow> utf8 k \<and> utf8 s" "utf8 (json_name_field k s) \<longleftrightarrow> utf8 k \<and> utf8 s"
  "utf8 (json_raw_field k s) \<longleftrightarrow> utf8 k \<and> utf8 s"
  by (simp_all add: json_text_field_def json_name_field_def json_raw_field_def utf8_key_then)

lemma utf8_string_array [simp]: "utf8 (json_string_array vs) \<longleftrightarrow> list_all utf8 vs"
proof -
  have "json_string_array vs = json_array (map json_quoted vs)" by (simp add: json_string_array_def json_array_def)
  then show ?thesis by (simp add: list.pred_map comp_def)
qed

text \<open>C40: A byte that is no UTF-8, in any text of a port or a finding of a scan, makes the answer about the scan no
  JSON text at all: banners are arbitrary bytes, and the program escapes none from 0x80 on.\<close>

theorem port_text_must_be_utf8:
  assumes "\<not> list_all utf8_port ps \<or> \<not> list_all utf8_finding fs"
  shows "\<nexists>v. json_denotes (scan_json i r ps fs) v"
proof
  assume "\<exists>v. json_denotes (scan_json i r ps fs) v"
  then have "utf8 (scan_json i r ps fs)" using denotes_utf8(1) by blast
  then have "list_all (\<lambda>p. utf8 (port_json p)) ps" "list_all (\<lambda>f. utf8 (finding_json f)) fs"
    by (simp_all add: scan_json_def list.pred_map comp_def)
  then have "list_all utf8_port ps" "list_all utf8_finding fs"
    by (auto simp: list_all_iff port_json_def utf8_port_def finding_json_def utf8_finding_def)
  then show False using assms by blast
qed

text \<open>A service that answers with the byte 0xFF.\<close>

theorem port_text_must_be_utf8_witness:
  "\<nexists>v. json_denotes (scan_json ''id'' (live_row (new_job ''id'' ''10.0.0.1'' ''10.0.0.1'' 80 80 7))
     [port_default\<lparr>p_service := [CHR 0xFF]\<rparr>] []) v"
  by (rule port_text_must_be_utf8) (simp add: utf8_port_def utf8_def lead_byte_def)

text \<open>A score that is infinite or no number is written as such, which is no JSON value.\<close>

lemma infinite_score_no_value: "\<not> finite_double x \<Longrightarrow> \<nexists>v. json_denotes (show_double x) v"
proof
  assume x: "\<not> finite_double x" and "\<exists>v. json_denotes (show_double x) v"
  then obtain v where "json_denotes (show_double x) v" by blast
  then show False
    using x signed_chars[of "show_double x"]
    by (cases rule: denotes_cases; cases x) (auto simp: number_char_def is_digit_def split: if_splits)
qed

section \<open>The other answers\<close>

lemma me_denotes:
  assumes "list_all utf8 [se_sub s, se_email s, se_username s, se_picture s]"
  shows "json_denotes (me_text s) (JObj [(''sub'', JStr (se_sub s)), (''email'', JStr (se_email s)),
     (''username'', JStr (se_username s)), (''picture'', JStr (se_picture s))])"
proof -
  have "json_quoted k = json_key k" if "list_all (\<lambda>c. json_escape_char c = [c]) k" for k
    using that by (induction k) (auto simp: json_quoted_def json_key_def json_escape_def)
  then have keys: "json_quoted ''sub'' = json_key ''sub''" "json_quoted ''email'' = json_key ''email''"
    "json_quoted ''username'' = json_key ''username''" "json_quoted ''picture'' = json_key ''picture''"
    by (simp_all add: json_escape_char_def)
  have "me_text s = json_object [json_text_field ''sub'' (se_sub s), json_text_field ''email'' (se_email s),
      json_text_field ''username'' (se_username s), json_text_field ''picture'' (se_picture s)]"
    by (simp add: me_text_def json_object_def json_text_field_def keys)
  then show ?thesis using assms by (simp only:) (intro denotes_object json_members_intros, simp_all)
qed

definition scan_line_value :: "ScanRow \<Rightarrow> string \<Rightarrow> nat \<Rightarrow> nat \<Rightarrow> int \<Rightarrow> Json" where
  "scan_line_value r status opened findings scanned =
     JObj
       [(''id'', JStr (sr_id r)), (''target'', JStr (sr_target r)), (''port_start'', JNum (show_int (sr_port_start r))),
        (''port_end'', JNum (show_int (sr_port_end r))), (''status'', JStr status), (''open_ports'', JNum (show_nat opened)),
        (''findings'', JNum (show_nat findings)), (''scanned_ports'', JNum (show_int scanned)),
        (''started_at'', JNum (show_int (sr_started_at r))), (''completed_at'', JNum (show_int (sr_completed_at r)))]"

lemma scan_line_denotes:
  "unescaped (sr_id r) \<Longrightarrow> unescaped status \<Longrightarrow> utf8 (sr_target r) \<Longrightarrow>
     json_denotes (scan_line r status opened findings scanned) (scan_line_value r status opened findings scanned)"
  unfolding scan_line_def scan_line_value_def
  by (intro denotes_object json_members_intros denotes_number) simp_all

end
