(* ===== verification/WebIds.thy ===== *)
theory WebIds
  imports WebResults WebJson
begin

text \<open>
  The identifiers the web interface makes from random bytes (\<open>webui/webui.cpp\<close>): base64url reads back
  what it wrote, and the identifier of a scan passes through its routes, so that a scan that was
  started can be opened under the identifier the answer gave.
\<close>

section \<open>Base64\<close>

definition b64_alphabet :: "char \<Rightarrow> bool" where
  "b64_alphabet c \<longleftrightarrow> is_alnum c \<or> c = CHR ''+'' \<or> c = CHR ''/''"

text \<open>What is documented of the filter, up to the lengths a call takes: the text is of the alphabet but
  for at most two pads at its end, its length a multiple of four, and reading returns the bytes.\<close>

definition base64_contract :: "Base64 \<Rightarrow> bool" where
  "base64_contract b \<longleftrightarrow>
     (\<forall>s. length s < 2 ^ 29 \<longrightarrow> b64_read b (b64_write b s) = s \<and>
        (\<exists>body n. b64_write b s = body @ replicate n (CHR ''='') \<and> list_all b64_alphabet body \<and> n \<le> 2 \<and>
           (length body + n) mod 4 = 0 \<and> (s \<noteq> [] \<longrightarrow> body \<noteq> [])))"

lemma url_char_id: "b64_alphabet c \<Longrightarrow> from_url_char (to_url_char c) = c"
  by (auto simp: b64_alphabet_def is_alnum_def is_alpha_def is_upper_def is_lower_def is_digit_def from_url_char_def to_url_char_def)

lemma url_char_ok: "b64_alphabet c \<Longrightarrow> scan_id_char (to_url_char c) \<and> to_url_char c \<noteq> CHR ''=''"
  by (auto simp: b64_alphabet_def is_alnum_def is_alpha_def is_upper_def is_lower_def is_digit_def to_url_char_def scan_id_char_def)

lemma dropWhile_replicate: "P x \<Longrightarrow> dropWhile P (replicate n x @ ys) = dropWhile P ys"
  by (induction n) simp_all

lemma strip_pad_text:
  assumes "CHR ''='' \<notin> set body"
  shows "strip_pad (body @ replicate n (CHR ''='')) = body"
proof -
  have "dropWhile (\<lambda>c. c = CHR ''='') (rev body) = rev body"
  proof (cases "rev body")
    case (Cons c s)
    then have "c \<in> set body" by (metis list.set_intros(1) set_rev)
    then show ?thesis using assms Cons by auto
  qed simp
  then show ?thesis by (simp add: strip_pad_def dropWhile_replicate)
qed

lemma b64url_encode_text:
  assumes "b64_write b s = body @ replicate n (CHR ''='')" "list_all b64_alphabet body"
  shows "b64url_encode b s = map to_url_char body"
proof -
  have "CHR ''='' \<notin> set (map to_url_char body)" using assms(2) url_char_ok by (fastforce simp: list_all_iff)
  from strip_pad_text[OF this, of n] show ?thesis
    by (simp add: b64url_encode_def assms(1) to_url_char_def)
qed

lemma pads_needed:
  assumes "(k + n) mod 4 = 0" "n \<le> 2"
  shows "(4 - k mod 4) mod 4 = (n::nat)"
proof -
  consider "n = 0" | "n = 1" | "n = 2" using assms(2) by linarith
  then show ?thesis
  proof cases
    case 2
    then have "k mod 4 = 3" using assms(1) by presburger
    then show ?thesis using 2 by simp
  next
    case 3
    then have "k mod 4 = 2" using assms(1) by presburger
    then show ?thesis using 3 by simp
  qed (use assms(1) in simp)
qed

lemma base64_written:
  assumes "base64_contract b" "length s < 2 ^ 29"
  obtains body n where "b64_write b s = body @ replicate n (CHR ''='')" "list_all b64_alphabet body" "n \<le> 2"
    "(length body + n) mod 4 = 0" "s \<noteq> [] \<Longrightarrow> body \<noteq> []" "b64_read b (b64_write b s) = s"
proof -
  have "b64_read b (b64_write b s) = s \<and>
        (\<exists>body n. b64_write b s = body @ replicate n (CHR ''='') \<and> list_all b64_alphabet body \<and> n \<le> 2 \<and>
           (length body + n) mod 4 = 0 \<and> (s \<noteq> [] \<longrightarrow> body \<noteq> []))"
    using assms(1)[unfolded base64_contract_def, rule_format, OF assms(2)] by simp
  then show thesis using that by (elim conjE exE) (rule that, simp_all)
qed

text \<open>Base64url reads back every text it writes: over the filter of OpenSSL, whose pads
  it strips and restores and whose two letters it exchanges, decoding what was encoded returns the bytes.\<close>

theorem b64url_roundtrip:
  assumes "base64_contract b" "length s < 2 ^ 29"
  shows "b64url_decode b (b64url_encode b s) = s"
proof -
  obtain body n where w: "b64_write b s = body @ replicate n (CHR ''='')" "list_all b64_alphabet body" "n \<le> 2"
    "(length body + n) mod 4 = 0" and r: "b64_read b (b64_write b s) = s"
    using base64_written[OF assms] by metis
  have "map from_url_char (map to_url_char body) = body"
    using w(2) url_char_id by (simp add: list_all_iff map_idI)
  then show ?thesis
    using w(1) r by (simp add: b64url_decode_def b64url_encode_text[OF w(1,2)] pad4_def pads_needed[OF w(4,3)])
qed

lemma b64url_id:
  assumes "base64_contract b" "length s < 2 ^ 29"
  shows "list_all scan_id_char (b64url_encode b s)" "s \<noteq> [] \<Longrightarrow> b64url_encode b s \<noteq> []"
proof -
  obtain body n where w: "b64_write b s = body @ replicate n (CHR ''='')" "list_all b64_alphabet body" "s \<noteq> [] \<Longrightarrow> body \<noteq> []"
    using base64_written[OF assms] by metis
  show "list_all scan_id_char (b64url_encode b s)" "s \<noteq> [] \<Longrightarrow> b64url_encode b s \<noteq> []"
    using w(2,3) url_char_ok by (auto simp: b64url_encode_text[OF w(1,2)] list_all_iff)
qed

text \<open>The base64 of RFC 4648 meets it.\<close>

definition b64_digit :: "nat \<Rightarrow> char" where
  "b64_digit n =
     (if n < 26 then char_of (65 + n) else if n < 52 then char_of (71 + n) else if n < 62 then char_of (n - 4)
      else if n = 62 then CHR ''+'' else CHR ''/'')"

definition b64_value :: "char \<Rightarrow> nat" where
  "b64_value c =
     (if c = CHR ''+'' then 62 else if c = CHR ''/'' then 63 else if code c < 58 then code c + 4
      else if code c < 91 then code c - 65 else code c - 71)"

fun rfc_write :: "string \<Rightarrow> string" where
  "rfc_write [] = []"
| "rfc_write [a] = [b64_digit (code a div 4), b64_digit (code a mod 4 * 16), CHR ''='', CHR ''='']"
| "rfc_write [a, b] =
     [b64_digit (code a div 4), b64_digit (code a mod 4 * 16 + code b div 16), b64_digit (code b mod 16 * 4), CHR ''='']"
| "rfc_write (a # b # c # s) =
     b64_digit (code a div 4) # b64_digit (code a mod 4 * 16 + code b div 16) #
     b64_digit (code b mod 16 * 4 + code c div 64) # b64_digit (code c mod 64) # rfc_write s"

fun rfc_read :: "string \<Rightarrow> string" where
  "rfc_read (p # q # r # t # s) =
     char_of (b64_value p * 4 + b64_value q div 16) #
     (if r = CHR ''='' then []
      else char_of (b64_value q mod 16 * 16 + b64_value r div 4) #
        (if t = CHR ''='' then [] else char_of (b64_value r mod 4 * 64 + b64_value t) # rfc_read s))"
| "rfc_read s = []"

definition rfc_base64 :: Base64 where
  "rfc_base64 = \<lparr>b64_write = rfc_write, b64_read = rfc_read\<rparr>"

lemma code_digit: "n < 64 \<Longrightarrow> code (b64_digit n) = (if n < 26 then 65 + n else if n < 52 then 71 + n else if n < 62 then n - 4 else if n = 62 then 43 else 47)"
  by (simp add: b64_digit_def)

lemma char_code: "c = d \<longleftrightarrow> code c = code d" by simp

lemma b64_digit_ok [simp]:
  assumes "n < 64"
  shows "b64_value (b64_digit n) = n" "b64_alphabet (b64_digit n)" "b64_digit n \<noteq> CHR ''=''"
  using assms code_digit[OF assms]
  by (auto simp: b64_value_def b64_alphabet_def is_alnum_def is_alpha_def is_upper_def is_lower_def is_digit_def char_code
      simp del: of_char_eq_iff split: if_splits)

lemma byte_parts: "code a div 4 < 64" "code b div 16 < 16" "code c div 64 < 4"
  by (rule less_mult_imp_div_less, use code_lt in simp)+

lemma six_bits:
  "code a div 4 < 64" "code a mod 4 * 16 + code b div 16 < 64" "code b mod 16 * 4 + code c div 64 < 64" "code c mod 64 < 64"
  "code a mod 4 * 16 < 64" "code b mod 16 * 4 < 64"
  using byte_parts(1)[of a] byte_parts(2)[of b] byte_parts(3)[of c] mod_less_divisor[of 4 "code a"] mod_less_divisor[of 16 "code b"] by linarith+

lemma parts_small:
  "code b div 16 div 16 = 0" "code b div 16 mod 16 = code b div 16" "code c div 64 div 4 = 0" "code c div 64 mod 4 = code c div 64"
  using byte_parts(2)[of b] byte_parts(3)[of c] by simp_all

lemma rfc_roundtrip: "rfc_read (rfc_write s) = s"
  by (induction s rule: rfc_write.induct) (simp_all add: six_bits parts_small)

lemma mod_add_self_four: "Suc (Suc (Suc (Suc (m + n)))) mod 4 = (m + n) mod 4"
  by presburger

lemma rfc_text:
  "\<exists>body n. rfc_write s = body @ replicate n (CHR ''='') \<and> list_all b64_alphabet body \<and> n \<le> 2 \<and>
     (length body + n) mod 4 = 0 \<and> (s \<noteq> [] \<longrightarrow> body \<noteq> [])"
proof (induction s rule: rfc_write.induct)
  case 1
  show ?case by (intro exI[of _ "[]"] exI[of _ 0]) simp
next
  case (2 a)
  show ?case
    by (intro exI[of _ "[b64_digit (code a div 4), b64_digit (code a mod 4 * 16)]"] exI[of _ 2])
      (simp add: six_bits numeral_2_eq_2)
next
  case (3 a b)
  show ?case
    by (intro exI[of _ "[b64_digit (code a div 4), b64_digit (code a mod 4 * 16 + code b div 16), b64_digit (code b mod 16 * 4)]"]
        exI[of _ 1]) (simp add: six_bits)
next
  case (4 a b c s)
  obtain body n where w: "rfc_write s = body @ replicate n (CHR ''='')" "list_all b64_alphabet body" "n \<le> 2"
    "(length body + n) mod 4 = 0" using "4.IH" by metis
  then show ?case
    by (intro exI[of _ "b64_digit (code a div 4) # b64_digit (code a mod 4 * 16 + code b div 16) #
         b64_digit (code b mod 16 * 4 + code c div 64) # b64_digit (code c mod 64) # body"] exI[of _ n])
      (simp add: six_bits mod_add_self_four)
qed

lemma rfc_base64_contract: "base64_contract rfc_base64"
  using rfc_roundtrip rfc_text by (simp add: base64_contract_def rfc_base64_def)

theorem b64url_roundtrip_witness: "b64url_decode rfc_base64 (b64url_encode rfc_base64 ''{>~}'') = ''{>~}''"
  using b64url_roundtrip[OF rfc_base64_contract, of "''{>~}''"] by simp

section \<open>A scan is opened by its identifier\<close>

lemma scan_id_not_slash: "scan_id_char c \<Longrightarrow> c \<noteq> CHR ''/''"
  by (auto simp: scan_id_char_def is_alnum_def is_alpha_def is_upper_def is_lower_def is_digit_def)

lemma route_of_id:
  assumes "i \<noteq> []" "list_all scan_id_char i"
  shows "route_get (api_scan_prefix @ i) = Some (R_get_scan i)"
    "route_get (api_scan_prefix @ i @ ''/stream'') = Some (R_stream_scan i)"
proof -
  have t: "takeWhile scan_id_char i = i" "dropWhile scan_id_char i = []"
    using assms(2) by (auto simp: list_all_iff takeWhile_eq_all_conv dropWhile_eq_Nil_conv)
  have slash: "\<not> scan_id_char (CHR ''/'')" using scan_id_not_slash by blast
  have ts: "takeWhile scan_id_char (i @ ''/stream'') = i" "dropWhile scan_id_char (i @ ''/stream'') = ''/stream''"
    using assms(2) slash by (simp_all add: list_all_iff takeWhile_append2 dropWhile_append2)
  show "route_get (api_scan_prefix @ i) = Some (R_get_scan i)"
    using assms(1) by (simp add: t route_get_def api_scan_prefix_def has_prefix_def Let_def)
  show "route_get (api_scan_prefix @ i @ ''/stream'') = Some (R_stream_scan i)"
    using assms(1) by (simp add: ts route_get_def api_scan_prefix_def has_prefix_def Let_def)
qed

text \<open>C30: A scan that was started can be opened: the identifier of the answer leads to its
  route and to the route of its stream, and whoever asks for it with a live session gets that scan, queued, with
  the target, range and time it was started with and no results yet.\<close>

theorem started_scan_can_be_opened:
  assumes "base64_contract (ou_base64 ou)" "rb \<noteq> []" "length rb < 2 ^ 29"
    and "start_scan sq ou os query_id now1 now2 epoch rb req ws w = (Done (res, Some job, ws'), w')"
    and "require_session now3 visit (ws_auth ws') = (None, a)" "rq_match visit = jb_id job"
  shows "route_get (api_scan_prefix @ jb_id job) = Some (R_get_scan (jb_id job)) \<and>
    route_get (api_scan_prefix @ jb_id job @ ''/stream'') = Some (R_stream_scan (jb_id job)) \<and>
    web_get_scan sq now3 visit ws' =
      Some (json_response (scan_json (jb_id job) ((live_row job)\<lparr>sr_status := ''queued''\<rparr>) [] []), ws'\<lparr>ws_auth := a\<rparr>) \<and>
    web_stream_scan now3 visit ws' =
      ((set_header ''X-Accel-Buffering'' ''no'' (set_header ''Cache-Control'' ''no-cache'' response_new), Some job),
       ws'\<lparr>ws_auth := a\<rparr>)"
proof -
  note reg = start_scan_registers[OF assms(4)]
  have i: "jb_id job = b64url_encode (ou_base64 ou) rb" using reg by (auto simp: random_urlsafe_def)
  have id: "jb_id job \<noteq> []" "list_all scan_id_char (jb_id job)"
    unfolding i using b64url_id[OF assms(1,3)] assms(2) by simp_all
  have live: "ws_jobs ws' (jb_id job) = Some job" "jb_ports job = []" "jb_findings job = []"
    "(live_row job)\<lparr>sr_status := ''queued''\<rparr> = live_row job"
    using reg by (auto simp: live_row_def status_str_def)
  have "web_get_scan sq now3 visit ws' =
       Some (json_response (scan_json (jb_id job) ((live_row job)\<lparr>sr_status := ''queued''\<rparr>) [] []), ws'\<lparr>ws_auth := a\<rparr>)"
    by (simp add: web_get_scan_def assms(5,6) live)
  moreover have "web_stream_scan now3 visit ws' =
       ((set_header ''X-Accel-Buffering'' ''no'' (set_header ''Cache-Control'' ''no-cache'' response_new), Some job),
        ws'\<lparr>ws_auth := a\<rparr>)"
    by (simp add: web_stream_scan_def assms(5,6) live)
  ultimately show ?thesis using route_of_id[OF id] by blast
qed

definition rfc_outside :: Outside where
  "rfc_outside = sample_outside\<lparr>ou_base64 := rfc_base64\<rparr>"

theorem started_scan_can_be_opened_witness:
  "\<exists>res job ws'. start_scan mem_sqlite rfc_outside sample_os 0 0 0 7 ''random bytes'' sample_order signed_in_web () =
     (Done (res, Some job, ws'), ()) \<and> route_get (api_scan_prefix @ jb_id job) = Some (R_get_scan (jb_id job))"
proof -
  obtain res job ws' where s: "start_scan mem_sqlite rfc_outside sample_os 0 0 0 7 ''random bytes'' sample_order signed_in_web () =
     (Done (res, Some job, ws'), ())" and auth: "ws_auth ws' = wb_auth web3"
    using sample_order_starts[of rfc_outside "''random bytes''"] by blast
  have o: "base64_contract (ou_base64 rfc_outside)" by (simp add: rfc_outside_def rfc_base64_contract)
  let ?visit = "sample_order\<lparr>rq_match := jb_id job\<rparr>"
  have "require_session 0 ?visit (ws_auth ws') = (None, wb_auth web3)"
    using sample_order_session by (simp add: auth require_session_def get_session_def session_cookie_def)
  from started_scan_can_be_opened[OF o _ _ s this] s show ?thesis by auto
qed

end
