(* ===== verification/WebHistory.thy ===== *)
theory WebHistory
  imports WebIds
begin

text \<open>
  The history of scans (\<open>webui/webui.cpp\<close> over \<open>core/db.cpp\<close>): what a browser gets about a scan that
  has finished, from a server that no longer has its job, such as one started anew on the same database.
\<close>

lemma scan_id_unescaped: "list_all scan_id_char i \<Longrightarrow> unescaped i"
  by (auto simp: unescaped_def list_all_iff scan_id_char_def ctype_simps)

lemma scan_id_plain: "list_all scan_id_char i \<Longrightarrow> plain i"
  by (auto simp: plain_def list_all_iff scan_id_char_def ctype_simps)

lemma evidence_scores [simp]: "finite_scores (with_evidence_value f) \<longleftrightarrow> finite_scores f"
  by (simp add: finite_scores_def with_evidence_value_def)

lemma evidence_utf8: "utf8_finding f \<Longrightarrow> utf8_finding (with_evidence_value f)"
  by (simp add: utf8_finding_def with_evidence_value_def)

text \<open>C7: A finished scan is served from the history: when the thread of a scan has come to its end, a server that has the
  database but not the job answers whoever asks for the scan with a live session by a JSON text that denotes it and
  nothing else: its target and range, the status done, its ports sorted, and its findings, each text byte by byte as the
  scan returned it, but for the value of their evidence, which the database has not kept and which is the text of the
  evidence instead.  This is for scans whose results are storable (no NUL in any text, no \<open>|\<close> in and no empty
  reference, fewer than \<open>2 ^ 31\<close>), whose texts are UTF-8 and whose scores are finite, which the program does not
  ensure, and by the contracts of SQLite.\<close>

theorem finished_scan_is_served:
  assumes contract: "sqlite_contract sq view" "view d = Some t"
    and new: "\<forall>row\<in>set (tb_ports t) \<union> set (tb_findings t). row ! 0 \<noteq> bind_text (jb_id job)"
    and registered: "get_scan sq (jb_id job) d = Some (Some row)"
    and scan: "tcp_range_scan env dt srt schedule (jb_scan_ip job) (jb_port_start job) (jb_port_end job) plugins
      \<lparr>sink_progress = True, sink_on_port_open = True\<rparr> 1000 s = (Ok (r, rg), s')"
    and job: "list_all scan_id_char (jb_id job)" "0 < jb_port_start job" "jb_port_end job \<le> 65535" "int64 now"
    and waits: "jb_scanned job = 0"
    and order: "sorts srt" "mset (schedule (port_range (jb_port_start job) (jb_port_end job))) =
      mset (port_range (jb_port_start job) (jb_port_end job))"
    and results: "list_all storable_port (tr_ports r)" "list_all storable_finding (tr_findings r)" "length (tr_findings r) < 2 ^ 31"
    and texts: "list_all finite_scores (tr_findings r)" "list_all utf8_port (tr_ports r)" "list_all utf8_finding (tr_findings r)"
      "utf8 (sr_target row)"
    and run: "run_job env dt srt schedule plugins sq now later job (Some d) s = (Ok (js, Some d'), s'')"
    and visit: "ws_db ws = Some d'" "ws_jobs ws (jb_id job) = None" "rq_match visit = jb_id job"
      "require_session now3 visit (ws_auth ws) = (None, a)"
  shows "\<exists>answer. web_get_scan sq now3 visit ws = Some (json_response answer, ws\<lparr>ws_auth := a\<rparr>) \<and>
    (\<forall>v. json_denotes answer v \<longleftrightarrow> v =
      scan_value (jb_id job)
        (with_status ''done'' now (int (length (port_range (jb_port_start job) (jb_port_end job)))) [] row)
        (tr_ports r) (map with_evidence_value (tr_findings r)))"
proof -
  let ?row = "with_status ''done'' now (int (length (port_range (jb_port_start job) (jb_port_end job)))) [] row"
  obtain job2 d2 where k: "run_job env dt srt schedule plugins sq now later job (Some d) s = (Ok (job2, Some d2), s')"
    "get_scan sq (jb_id job) d2 = Some (Some ?row)" "load_ports sq (jb_id job) d2 = Some (tr_ports r)"
    "load_findings sq (jb_id job) d2 = Some (map with_evidence_value (tr_findings r))"
    using scan_results_kept[OF contract new registered scan scan_id_plain[OF job(1)] job(2-4) waits order results, of later] by blast
  have d2: "d2 = d'" using k(1) run by simp
  have "web_get_scan sq now3 visit ws =
      Some (json_response (scan_json (jb_id job) ?row (tr_ports r) (map with_evidence_value (tr_findings r))), ws\<lparr>ws_auth := a\<rparr>)"
    using k(2-4) by (simp add: web_get_scan_def visit d2)
  moreover have "json_denotes (scan_json (jb_id job) ?row (tr_ports r) (map with_evidence_value (tr_findings r))) v \<longleftrightarrow>
      v = scan_value (jb_id job) ?row (tr_ports r) (map with_evidence_value (tr_findings r))" for v
    using texts evidence_utf8
    by (intro denotes_scan_iff job(1)) (simp_all add: with_status_def list_all_iff)
  ultimately show ?thesis by blast
qed

theorem finished_scan_is_served_witness:
  "\<exists>js d' s' answer. run_job sample_env no_detector key_sorter rev [] mem_sqlite 5 6 sample_job (Some sample_db) empty_scan =
      (Ok (js, Some d'), s') \<and>
    web_get_scan mem_sqlite 0 (sample_order\<lparr>rq_match := ''id''\<rparr>) (signed_in_web\<lparr>ws_db := Some d'\<rparr>) =
      Some (json_response answer, signed_in_web\<lparr>ws_db := Some d'\<rparr>) \<and>
    json_denotes answer (scan_value ''id'' (with_status ''done'' 5 1 [] (job_row None sample_job)) [tcp_result 80 S_OPEN] [])"
proof -
  have job: "jb_scan_ip sample_job = ''10.0.0.1''" "jb_port_start sample_job = 80" "jb_port_end sample_job = 80" "int64 5"
    "jb_scanned sample_job = 0"
    by (simp_all add: sample_job_def new_job_def int64_def)
  have i: "list_all scan_id_char (jb_id sample_job)" by (simp add: sample_row(2) scan_id_char_def ctype_simps)
  have p: "storable_port (tcp_result 80 S_OPEN)" by (simp add: storable_port_def tcp_result_def port_default_def plain_def)
  have u: "utf8_port (tcp_result 80 S_OPEN)" "utf8 (sr_target (job_row None sample_job))"
    by (simp_all add: utf8_port_def tcp_result_def port_default_def job_row_def sample_job_def new_job_def)
  have new: "\<forall>row\<in>set (tb_ports (fst sample_db)) \<union> set (tb_findings (fst sample_db)). row ! 0 \<noteq> bind_text (jb_id sample_job)"
    by (simp add: sample_db_tables)
  have reg: "get_scan mem_sqlite (jb_id sample_job) sample_db = Some (Some (job_row None sample_job))"
    using sample_registered by (simp add: sample_row(2))
  obtain rg s' where scan: "tcp_range_scan sample_env no_detector key_sorter rev (jb_scan_ip sample_job) (jb_port_start sample_job)
      (jb_port_end sample_job) [] \<lparr>sink_progress = True, sink_on_port_open = True\<rparr> 1000 empty_scan =
    (Ok (\<lparr>tr_ports = [tcp_result 80 S_OPEN], tr_findings = []\<rparr>, rg), s')"
    unfolding job using sample_scan by blast
  obtain js d' where run: "run_job sample_env no_detector key_sorter rev [] mem_sqlite 5 6 sample_job (Some sample_db) empty_scan =
      (Ok (js, Some d'), s')"
    using scan_results_kept[OF sample_contract sample_db_view new reg scan scan_id_plain[OF i] _ _ job(4,5) key_sorter_sorts, of 6] p
    by (auto simp: job)
  let ?ws = "signed_in_web\<lparr>ws_db := Some d'\<rparr>" and ?visit = "sample_order\<lparr>rq_match := jb_id sample_job\<rparr>"
  have ws: "ws_db ?ws = Some d'" "ws_jobs ?ws (jb_id sample_job) = None" "rq_match ?visit = jb_id sample_job"
    by (simp_all add: signed_in_web_def)
  have "get_session 0 ?visit (wb_auth web3) = (Some sample_session, wb_auth web3)"
    using sample_order_session by (simp add: get_session_def session_cookie_def)
  then have ses: "require_session 0 ?visit (ws_auth ?ws) = (None, wb_auth web3)"
    by (simp add: require_session_def signed_in_web_def)
  have same: "?ws\<lparr>ws_auth := wb_auth web3\<rparr> = ?ws" by (simp add: signed_in_web_def)
  have n: "int (length (port_range (jb_port_start sample_job) (jb_port_end sample_job))) = 1" by (simp add: job port_range_def)
  from finished_scan_is_served[OF sample_contract sample_db_view new reg scan i _ _ job(4,5) key_sorter_sorts _ _ _ _ _ _ _ _ run ws ses] p u
  have "\<exists>answer. web_get_scan mem_sqlite 0 ?visit ?ws = Some (json_response answer, ?ws) \<and>
    (\<forall>v. json_denotes answer v \<longleftrightarrow>
       v = scan_value (jb_id sample_job) (with_status ''done'' 5 1 [] (job_row None sample_job)) [tcp_result 80 S_OPEN] [])"
    unfolding same n by (simp add: job)
  then show ?thesis using run unfolding sample_row(2) by blast
qed

end
