(* ===== verification/Spec2Isabelle.thy ===== *)
theory Spec2Isabelle
  imports Decimal Ordering Binary64 KnowledgeBase Findings Cidr Versions Dpkg CveDb ZtlFilter ZtlStrings Transport FullScan RangeThreads ThreadPool WebHistory
begin

text \<open>
  A model of the ZeroTrust network vulnerability scanner (the C++ program under \<open>src/src\<close>) and the
  theorems that make it correct.

  \<^bold>\<open>The program.\<close>  \<open>main.cpp\<close> reads a menu choice, loads the service patterns
  (\<open>processor/processor.cpp\<close>), the CVE database and the distribution backports (\<open>scan/cve.cpp\<close>) and
  the plugins (\<open>ztl/runner.cpp\<close>), expands a network into addresses (\<open>scan/cidr.cpp\<close>) and scans each
  address (\<open>scan/tcp_range.cpp\<close>) with a pool of threads (\<open>processor/thread_pool.cpp\<close>).  The task of a
  port connects and reads a banner (\<open>transport/\<close>), recognises service and distribution, runs the
  native checks (\<open>protocols/tls\<close>, \<open>protocols/ssh\<close>) and the plugins, matches the product against the
  CVE database, and appends to the shared result, which is sorted and deduplicated at the end.  Plugins
  are scripts in the language ZTL (\<open>ztl/\<close>: lexer, parser, interpreter, library) that talk to the host
  through sockets and to each other through the knowledge base of the host
  (\<open>core/knowledge_base.cpp\<close>).  Results are printed, shown by the web interface
  (\<open>webui/webui.cpp\<close>) and stored in SQLite (\<open>core/db.cpp\<close>).

  \<^bold>\<open>Theories, from the bottom up.\<close>
  \<^item> \<open>Prelude\<close>, \<open>Decimal\<close>, \<open>Binary64\<close>, \<open>Bytes\<close>: the parts of the C++ standard library that the
    program computes with (searching and splitting strings, \<open>ctype\<close>, \<open>std::to_string\<close>, \<open>std::stoi\<close>,
    \<open>double\<close> and \<open>std::stod\<close>, big-endian fields).  \<open>Ordering\<close> holds the locale \<open>three_way\<close> (a
    comparison with result -1, 0, 1 that is a total preorder), \<open>Stores\<close> the locales \<open>kv_store\<close> and
    \<open>scoped_store\<close>; each is interpreted on the definitions of the code where these stand.
  \<^item> \<open>Findings\<close> (\<open>include/*.h\<close>): the records and enums of results, and deduplication.
  \<^item> \<open>KnowledgeBase\<close>, \<open>Cidr\<close>: \<open>core/knowledge_base.cpp\<close>, \<open>scan/cidr.cpp\<close>.
  \<^item> \<open>Versions\<close>, \<open>Dpkg\<close>, \<open>CveDb\<close> (\<open>scan/cve.cpp\<close>): \<open>VersionMatcher\<close>; the Debian version
    comparison; loading the two databases, \<open>lookup\<close>, \<open>match\<close>, \<open>verify_version\<close>, \<open>check_backport\<close>,
    \<open>check_port\<close>.
  \<^item> \<open>ZtlLexer\<close>, \<open>ZtlParser\<close>, \<open>ZtlInterp\<close>, \<open>HttpResponse\<close>, \<open>ZtlNatives\<close>, \<open>ZtlRunner\<close>
    (\<open>ztl/*.cpp\<close>): tokens, syntax tree, values and evaluation, the library that scripts call, and the
    loading and running of plugins.  \<open>ZtlHistory\<close>, \<open>ZtlSafety\<close>, \<open>ZtlFilter\<close>, \<open>ZtlStrings\<close> hold what is
    proved of them: no exception leaves a plugin, history is only extended, scopes, filters, bounds.
  \<^item> \<open>Transport\<close> (\<open>transport/*.cpp\<close>), \<open>TlsChecks\<close> (\<open>protocols/tls/checks.cpp\<close> and
    \<open>run_native_checks\<close>), \<open>Terrapin\<close> (\<open>protocols/ssh/terrapin.cpp\<close>), \<open>Dns\<close>
    (\<open>protocols/dns/resolver.cpp\<close>): clients and checks of protocols.
  \<^item> \<open>Processor\<close> (\<open>processor/processor.cpp\<close>, \<open>logging/logging.cpp\<close>), \<open>ThreadPool\<close>
    (\<open>processor/thread_pool.cpp\<close>), \<open>TcpRange\<close>, \<open>RangeThreads\<close> (\<open>scan/tcp_range.cpp\<close>), \<open>Reporter\<close>
    (\<open>scan/reporter.cpp\<close>, \<open>protocols/tcp/os_fingerprint.hpp\<close>), \<open>FullScan\<close> (\<open>main.cpp\<close>): the scan from
    the answers of the user to the report.
  \<^item> \<open>Db\<close>, \<open>DbStore\<close> (\<open>core/db.cpp\<close>): the operations of the result database over SQLite, and what
    they keep.
  \<^item> \<open>WebText\<close>, \<open>WebAuth\<close>, \<open>WebScans\<close>, \<open>WebStream\<close> (\<open>webui/webui.cpp\<close>): the texts of the web
    interface (base64url, percent encoding, JSON, cookies, id tokens); sessions and signing in; routes, starting
    a scan, its thread, the answers about scans; the live stream.  \<open>WebLogin\<close>, \<open>WebResults\<close>, \<open>WebIds\<close>, \<open>WebJson\<close>,
    \<open>WebHistory\<close> (over the readers' \<open>Utf8\<close>) hold what is proved of signing in over all interleavings, of a scan from its
    request to the database and back to a browser, of identifiers, and of what a JSON reader makes of the answers.

  \<^bold>\<open>How state is represented.\<close>  A struct is a record whose fields carry the initial of the struct, an
  enum a datatype; globals of a file (the databases) are a record that its operations pass on.
  \<open>std::string\<close> is a list of bytes (\<open>char list\<close>).  Fixed-width integers are words where the code can
  wrap (addresses, packet fields, checksums, ports) and \<open>int\<close> with an explicit test of the range where
  signed overflow would be undefined.  Errors are values: \<open>option\<close>, a sum with the exception on the
  left, \<open>checked\<close> (\<open>Done\<close>, \<open>OutOfBounds\<close>, \<open>NoReturn\<close>) for code that may read outside a buffer, and
  \<open>outcome\<close> (\<open>Ok\<close>, \<open>Throw\<close>, \<open>Undef\<close>, \<open>Hang\<close>, \<open>Terminate\<close>, \<open>NoFuel\<close>) for scripts and the scan, whose
  computations \<open>('s, 'a) comp\<close> pass a state explicitly; \<open>Terminate\<close> is the end of the program by an exception that
  leaves a thread (\<open>in_worker\<close>).  Script objects live on a heap of the state
  and a \<open>shared_ptr\<close> is an address.  The thread pool is an inductive step relation with one step per
  critical section, and so are signing in (\<open>web_step\<close>), the ticks of the progress bar (\<open>tick_step\<close>: count, look,
  compare-and-swap, print) and the job of a scan as its stream sees it (\<open>job_step\<close>); the thread of a scan
  (\<open>run_job\<close>) is the list of the states that its job passes through, and what tasks tell the sink is a log
  (\<open>rg_calls\<close>).  In \<open>TcpRange\<close> the tasks of a scan run
  one after the other in an arbitrary order, which is an argument; in \<open>RangeThreads\<close> they interleave
  (\<open>par_step\<close>), each as nine phases that connect, read the banner, run the native checks and the plugins, ask the
  CVE database, call back, append the results in the critical section, count, and close the socket (connecting and
  making the socket are one).  The theorems
  on the result hold for every interleaving, and the scan of \<open>TcpRange\<close> is one of them.

  \<^bold>\<open>Parameters.\<close>  What is not code of the repository is an argument: system calls (record \<open>os\<close>),
  OpenSSL (\<open>ssl\<close>), the clock, \<open>std::regex\<close> on the patterns of the pattern file (\<open>compile\<close>, and \<open>search\<close>, which may throw \<open>std::regex_error\<close>),
  \<open>std::sort\<close> (\<open>Sorter\<close>, with the hypothesis \<open>sorts\<close> that it returns a sorted permutation), the order of the
  tasks, uninitialised memory, random bytes and the random DNS id, and for the web interface OpenSSL's base64
  and SHA-256 and the two HTTPS calls (records \<open>Base64\<close> and \<open>Outside\<close>).  Requests and responses are
  records with what the handlers read and write of cpp-httplib's.  Theorems hold for all of them unless a hypothesis
  names documented behaviour; witnesses instantiate them.

  \<^bold>\<open>Readers.\<close>  What a client makes of the answers is specified from the standards: UTF-8 (\<open>Utf8\<close>: RFC 3629, and the
  decoder of browsers with U+FFFD for what is ill-formed), JSON texts (\<open>json_denotes\<close>, RFC 8259, strings UTF-8), and the
  event stream format (\<open>sse_read\<close>, lines that end by CR, LF or both).  The program copies the bytes of a banner, so
  that the theorems on JSON assume that texts are UTF-8 and scores finite; \<open>port_text_must_be_utf8\<close> shows that they
  must.

  \<^bold>\<open>SQLite\<close> is the record \<open>Sqlite\<close>; the contracts of \<open>DbStore\<close> say what its documentation promises for the
  statements of the program, and \<open>mem_sqlite\<close> meets them.

  \<^bold>\<open>Fuel and termination.\<close>  The parser takes fuel: \<open>parse_fuel\<close>, linear in the number of tokens, is
  proved enough (\<open>parse_program_returns\<close>), so no parse ends for lack of it.  The interpreter's fuel is
  bounded by the size of the program and proved enough (\<open>run_program_fuelled\<close>): scripts have no loops.
  The Debian comparison may loop for ever and is a \<open>partial_function\<close>: \<open>dpkg_compare_str_order\<close> shows that it
  returns on texts without NUL bytes, \<open>dpkg_compare_str_NUL_diverges\<close> that it does not on others.  The
  port loop of \<open>tcp_range.cpp\<close> would overflow its counter at \<open>INT_MAX\<close>; a range is modelled as the list
  of its ports, which is what the loop visits for every end below \<open>INT_MAX\<close>.

  \<^bold>\<open>What the theorems show.\<close>  Every property of the manifest stands after a text that names it (C1,
  C2, ...).  In groups: script failures are contained, and each finding of a script is appended, of the host and port of its run, and not
  undone; the
  CVE decisions (matching, backports, versions, dpkg order) are correct against their specifications;
  the scan returns sorted, deduplicated results for every interleaving and server, each of a port that was open and
  announced as such, fails only in the ways listed, and the pool runs every task once and ends; a session of the web interface stands for one completed sign-in, a scan it starts
  is the one asked for, is streamed without loss while its thread appends results and stops before it says done,
  and is kept by the database but for the value of evidence; what a JSON reader gets from its answers is the scan; parsers and printers are inverse (HTTP, DNS, KEXINIT, versions, database files, literals); bounds and wrap-around hold in the places where the code relies on them.  Where
  the code does something else than its comments say, a lemma shows the behaviour on an
  input.

  \<^bold>\<open>Not modelled.\<close>  Interleavings inside one phase of a task: the single reads and writes of the knowledge base by
  the native checks, and the calls of a plugin.  The HTML pages and their scripts (an argument of
  \<open>root_page\<close>), the accept loop of the web server and the spawning of the thread of a scan (\<open>start_scan\<close>
  returns the job, \<open>run_job\<close> is its thread).  \<open>webui/httplib.h\<close> is the
  vendored cpp-httplib.  The socket of a script's \<open>Tcp\<close> object closes when the last pointer to it
  goes; this close is left out.
\<close>

end
